(* ===== verification/Prelude.thy ===== *)
theory Prelude
  imports Main "HOL-Library.Word" "HOL-Library.Monad_Syntax"
begin

unbundle bit_operations_syntax

text \<open>
  Prelude of the npSim development: the integer types of src/defines/types.hh, the
  aborting operations of the C++ runtime (assert, vector::at) as options, and the
  generic facts about lists, options and masks that the component theories share.

  A computation that the program aborts (a failed assert, a std::out_of_range
  thrown by at() that nobody catches) is the value None. A tick is a natural number:
  the program's tick counter is a 64-bit size_t that only ever counts up by one per
  iteration of the main loop, so it does not wrap; InfTime is the largest size_t.
\<close>

section \<open>Types and constants of defines/types.hh\<close>

type_synonym addr_t = "32 word"
type_synonym word_t = "32 word"
type_synonym tick_t = nat
type_synonym tint_t = "32 word"

definition InfTime :: tick_t where
  "InfTime = 18446744073709551615"

definition WordShift :: nat where
  "WordShift = 2"

text \<open>sizeof(word\_t).\<close>

definition word_bytes :: nat where
  "word_bytes = 4"

section \<open>Collections of facts\<close>

named_theorems inv_intros "introduction facts for the invariants of the components"
named_theorems op_defs "unfolding equations of the operations of the components"

section \<open>Assertions and checked element access\<close>

definition assert_that :: "bool \<Rightarrow> unit option" where
  "assert_that b = (if b then Some () else None)"

lemma assert_that_simps [simp]:
  "assert_that True = Some ()"
  "assert_that False = None"
  by (simp_all add: assert_that_def)

lemma assert_that_eq_Some [simp]: "assert_that b = Some u \<longleftrightarrow> b"
  by (simp add: assert_that_def)

lemma assert_that_eq_None [simp]: "assert_that b = None \<longleftrightarrow> \<not> b"
  by (simp add: assert_that_def)

text \<open>vector::at throws when the index is out of range.\<close>

definition at :: "'a list \<Rightarrow> nat \<Rightarrow> 'a option" where
  "at xs i = (if i < length xs then Some (xs ! i) else None)"

lemma at_eq_Some [simp]: "at xs i = Some x \<longleftrightarrow> i < length xs \<and> x = xs ! i"
  by (auto simp: at_def)

lemma at_eq_None [simp]: "at xs i = None \<longleftrightarrow> length xs \<le> i"
  by (auto simp: at_def)

text \<open>An assignment through vector::at.\<close>

definition at_put :: "'a list \<Rightarrow> nat \<Rightarrow> 'a \<Rightarrow> 'a list option" where
  "at_put xs i x = (if i < length xs then Some (xs[i := x]) else None)"

lemma at_put_eq_Some [simp]:
  "at_put xs i x = Some ys \<longleftrightarrow> i < length xs \<and> ys = xs[i := x]"
  by (auto simp: at_put_def)

lemma at_put_eq_None [simp]: "at_put xs i x = None \<longleftrightarrow> length xs \<le> i"
  by (auto simp: at_put_def)

declare Option.bind_eq_Some_conv [simp]

section \<open>First index with a property\<close>

text \<open>The index loops of the sources: the first i whose element satisfies p.\<close>

fun first_idx :: "('a \<Rightarrow> bool) \<Rightarrow> 'a list \<Rightarrow> nat option" where
  "first_idx p [] = None"
| "first_idx p (x # xs) = (if p x then Some 0 else map_option Suc (first_idx p xs))"

lemma first_idx_Some:
  "first_idx p xs = Some i \<longleftrightarrow> i < length xs \<and> p (xs ! i) \<and> (\<forall>j<i. \<not> p (xs ! j))"
proof (induction xs arbitrary: i)
  case Nil
  then show ?case by simp
next
  case (Cons x xs)
  show ?case
    by (cases i) (auto simp: Cons.IH nth_Cons split: nat.splits)
qed

lemma first_idx_None: "first_idx p xs = None \<longleftrightarrow> (\<forall>x\<in>set xs. \<not> p x)"
  by (induction xs) auto

lemma first_idx_less: "first_idx p xs = Some i \<Longrightarrow> i < length xs"
  by (simp add: first_idx_Some)

lemma first_idx_ex: "x \<in> set xs \<Longrightarrow> p x \<Longrightarrow> \<exists>i. first_idx p xs = Some i"
  by (metis first_idx_None not_None_eq)

section \<open>Masks\<close>

lemma nat_and_mask: "(n::nat) AND (2 ^ k - 1) = n mod 2 ^ k"
  by (metis mask_eq_exp_minus_1 take_bit_eq_mask take_bit_eq_mod)

lemma nat_and_mask_less: "(n::nat) AND (2 ^ k - 1) < 2 ^ k"
  by (subst nat_and_mask) simp

lemma nat_xor_less: "(a::nat) < 2 ^ k \<Longrightarrow> b < 2 ^ k \<Longrightarrow> a XOR b < 2 ^ k"
  by (metis take_bit_nat_eq_self_iff take_bit_xor)

lemma nat_or_less: "(a::nat) < 2 ^ k \<Longrightarrow> b < 2 ^ k \<Longrightarrow> a OR b < 2 ^ k"
  by (metis take_bit_nat_eq_self_iff take_bit_or)

lemma unat_and_mask: "unat ((w::'a::len word) AND mask k) = unat w mod 2 ^ k"
  by (metis take_bit_eq_mask take_bit_eq_mod unsigned_take_bit_eq)

lemma unat_and_mask_less: "unat ((w::'a::len word) AND mask k) < 2 ^ k"
  by (simp add: unat_and_mask)

section \<open>Powers of two\<close>

lemma nat_and_pred_double: "0 < (y::nat) \<Longrightarrow> (2 * y) AND (2 * y - 1) = 2 * (y AND (y - 1))"
proof -
  assume "0 < y"
  then have "(2 * y - 1) div 2 = y - 1" by presburger
  then show ?thesis by (subst and_rec) simp
qed

lemma nat_and_pred_odd: "(2 * y + 1) AND (2 * y) = 2 * (y::nat)"
  by (subst and_rec) simp

lemma pow2_and: "(x::nat) \<noteq> 0 \<Longrightarrow> x AND (x - 1) = 0 \<Longrightarrow> \<exists>k. x = 2 ^ k"
proof (induction x rule: less_induct)
  case (less x)
  show ?case
  proof (cases "even x")
    case True
    then obtain y where y: "x = 2 * y" by (elim evenE)
    then have "y \<noteq> 0" "y AND (y - 1) = 0" "y < x" using less.prems nat_and_pred_double [of y] by auto
    then obtain k where "y = 2 ^ k" using less.IH by blast
    then have "x = 2 ^ Suc k" using y by simp
    then show ?thesis by blast
  next
    case False
    then obtain y where y: "x = 2 * y + 1" by (elim oddE)
    then have "y = 0" using less.prems(2) nat_and_pred_odd [of y] by simp
    then have "x = 2 ^ 0" using y by simp
    then show ?thesis by blast
  qed
qed

section \<open>List updates\<close>

lemma nth_list_update_cases:
  "i < length xs \<Longrightarrow> xs[i := x] ! j = (if i = j then x else xs ! j)"
  by (simp add: nth_list_update)

lemma set_update_memD: "y \<in> set (xs[i := x]) \<Longrightarrow> y = x \<or> y \<in> set xs"
  by (meson insertE set_update_subset_insert subsetD)

lemma all_set_update: "\<forall>y\<in>set xs. P y \<Longrightarrow> P x \<Longrightarrow> \<forall>y\<in>set (xs[i := x]). P y"
  by (auto dest: set_update_memD)

end
