(* ===== verification/CacheLine.thy ===== *)
theory CacheLine
  imports Prelude
begin

text \<open>
  src/cacheSim/CacheLine.hh: one line of a cache. The tick stamp is public in the
  source; the replacement policies write it. In the timing-only build
  (ACTIVE\_MODE) setVecData leaves the data of the line alone.
\<close>

record cache_line =
  cl_tag :: addr_t
  cl_valid :: bool
  cl_dirty :: bool
  cl_data :: "word_t list"
  cl_stamp :: tick_t
  cl_is_prefetched :: bool

definition new_line :: "nat \<Rightarrow> cache_line" where
  "new_line line_size =
     \<lparr>cl_tag = 0, cl_valid = False, cl_dirty = False,
      cl_data = replicate (drop_bit WordShift line_size) 0,
      cl_stamp = 0, cl_is_prefetched = False\<rparr>"

definition invalidate :: "cache_line \<Rightarrow> cache_line" where
  "invalidate l = l\<lparr>cl_tag := 0, cl_stamp := 0, cl_valid := False\<rparr>"

definition activate :: "tick_t \<Rightarrow> cache_line \<Rightarrow> cache_line" where
  "activate now l = l\<lparr>cl_valid := True, cl_dirty := False, cl_stamp := now\<rparr>"

definition setTag :: "addr_t \<Rightarrow> cache_line \<Rightarrow> cache_line" where
  "setTag t l = l\<lparr>cl_tag := t\<rparr>"

definition setDirty :: "cache_line \<Rightarrow> cache_line" where
  "setDirty l = l\<lparr>cl_dirty := True\<rparr>"

definition setVecData :: "word_t list \<Rightarrow> cache_line \<Rightarrow> cache_line" where
  "setVecData ws l = l"

definition atAligned :: "cache_line \<Rightarrow> nat \<Rightarrow> word_t option" where
  "atAligned l off = at (cl_data l) (drop_bit WordShift off)"

definition putAligned :: "cache_line \<Rightarrow> nat \<Rightarrow> word_t \<Rightarrow> cache_line option" where
  "putAligned l off w =
     (case at_put (cl_data l) (drop_bit WordShift off) w of
        None \<Rightarrow> None
      | Some ws \<Rightarrow> Some (l\<lparr>cl_data := ws\<rparr>))"

text \<open>The test of every tag lookup of the caches.\<close>

definition holds_tag :: "addr_t \<Rightarrow> cache_line \<Rightarrow> bool" where
  "holds_tag t l \<longleftrightarrow> cl_valid l \<and> cl_tag l = t"

lemmas line_defs [simp] =
  invalidate_def activate_def setTag_def setDirty_def setVecData_def

lemma new_line_invalid [simp]: "\<not> cl_valid (new_line n)"
  by (simp add: new_line_def)

lemma holds_tag_invalidate [simp]: "\<not> holds_tag t (invalidate l)"
  by (simp add: holds_tag_def)

lemma holds_tag_activate [simp]: "holds_tag t (activate now l) \<longleftrightarrow> cl_tag l = t"
  by (simp add: holds_tag_def)

end
