(* ===== verification/ReplPolicy.thy ===== *)
theory ReplPolicy
  imports CacheLine
begin

text \<open>
  src/cacheSim/ReplPolicy.hh and .cc: the four replacement policies. A victim is the
  index of a way (the source returns a pointer into the set); onHit and onFill
  return the new policy state and the line they were given, whose stamp LRU and
  SRRIP use. The locale replacement\_policy is the interface the cache relies on; it is
  interpreted on every policy and on the dispatching type repl.
\<close>

section \<open>std::min\_element and std::max\_element\<close>

text \<open>The index of the first element that no other one is better than.\<close>

fun best_from :: "('a \<Rightarrow> 'a \<Rightarrow> bool) \<Rightarrow> nat \<Rightarrow> 'a \<Rightarrow> nat \<Rightarrow> 'a list \<Rightarrow> nat" where
  "best_from better b x i [] = b"
| "best_from better b x i (y # ys) =
     (if better y x then best_from better i y (Suc i) ys
      else best_from better b x (Suc i) ys)"

definition min_element :: "('a \<Rightarrow> 'a \<Rightarrow> bool) \<Rightarrow> 'a list \<Rightarrow> nat" where
  "min_element lt xs =
     (case xs of [] \<Rightarrow> 0 | x # ys \<Rightarrow> best_from lt 0 x 1 ys)"

definition max_element :: "('a \<Rightarrow> 'a \<Rightarrow> bool) \<Rightarrow> 'a list \<Rightarrow> nat" where
  "max_element lt xs =
     (case xs of [] \<Rightarrow> 0 | x # ys \<Rightarrow> best_from (\<lambda>a b. lt b a) 0 x 1 ys)"

lemma best_from_spec:
  fixes key :: "'a \<Rightarrow> 'k::linorder"
  assumes "b < length pre" and "x = pre ! b"
    and "\<forall>j<length pre. key x \<le> key (pre ! j)" and "\<forall>j<b. key x < key (pre ! j)"
  shows "let w = best_from (\<lambda>a c. key a < key c) b x (length pre) ys; zs = pre @ ys in
           w < length zs \<and> (\<forall>j<length zs. key (zs ! w) \<le> key (zs ! j))
           \<and> (\<forall>j<w. key (zs ! w) < key (zs ! j))"
  using assms
proof (induction ys arbitrary: b x pre)
  case Nil
  then show ?case by (simp add: Let_def)
next
  case (Cons y ys)
  show ?case
  proof (cases "key y < key x")
    case True
    with Cons.prems have "\<forall>j<length (pre @ [y]). key y \<le> key ((pre @ [y]) ! j)"
      by (auto simp: nth_append less_Suc_eq intro: order.trans less_imp_le)
    moreover from True Cons.prems have "\<forall>j<length pre. key y < key ((pre @ [y]) ! j)"
      by (auto simp: nth_append intro: less_le_trans)
    ultimately show ?thesis
      using True Cons.IH [of "length pre" "pre @ [y]" y] by simp
  next
    case False
    with Cons.prems show ?thesis
      using Cons.IH [of b "pre @ [y]" x]
      by (simp add: nth_append less_Suc_eq)
  qed
qed

section \<open>LRU, SRRIP and round robin\<close>

definition lru_getVictim :: "cache_line list \<Rightarrow> nat option" where
  "lru_getVictim ls = do {
     assert_that (ls \<noteq> []);
     Some (min_element (\<lambda>a b. cl_stamp a < cl_stamp b) ls) }"

definition lru_touch :: "tick_t \<Rightarrow> cache_line \<Rightarrow> cache_line" where
  "lru_touch now l = l\<lparr>cl_stamp := now\<rparr>"

definition srrip_getVictim :: "cache_line list \<Rightarrow> nat option" where
  "srrip_getVictim ls = do {
     assert_that (ls \<noteq> []);
     Some (max_element (\<lambda>a b. cl_stamp a < cl_stamp b) ls) }"

definition srrip_onHit :: "cache_line \<Rightarrow> cache_line" where
  "srrip_onHit l = l\<lparr>cl_stamp := 0\<rparr>"

definition srrip_onFill :: "cache_line \<Rightarrow> cache_line" where
  "srrip_onFill l = l\<lparr>cl_stamp := 2\<rparr>"

record rr =
  rr_assoc :: nat
  rr_ptr :: "nat list"

definition rr_getVictim :: "rr \<Rightarrow> nat \<Rightarrow> cache_line list \<Rightarrow> nat option" where
  "rr_getVictim p si ls = do {
     assert_that (ls \<noteq> []);
     q \<leftarrow> at (rr_ptr p) si;
     assert_that (rr_assoc p \<noteq> 0);
     let idx = q mod rr_assoc p;
     _ \<leftarrow> at ls idx;
     Some idx }"

definition rr_onFill :: "rr \<Rightarrow> nat \<Rightarrow> rr option" where
  "rr_onFill p si = do {
     q \<leftarrow> at (rr_ptr p) si;
     assert_that (rr_assoc p \<noteq> 0);
     Some (p\<lparr>rr_ptr := (rr_ptr p)[si := (q + 1) mod rr_assoc p]\<rparr>) }"

section \<open>Tree PLRU\<close>

record plru =
  pl_assoc :: nat
  pl_bits :: "8 word list"

definition victim_way :: "plru \<Rightarrow> nat \<Rightarrow> nat option" where
  "victim_way p si = do {
     assert_that (pl_assoc p = 1 \<or> pl_assoc p = 2 \<or> pl_assoc p = 4);
     if pl_assoc p = 1 then Some 0
     else do {
       bits \<leftarrow> at (pl_bits p) si;
       if pl_assoc p = 2 then
         (let b0 = (bits AND 1 \<noteq> 0) in Some (if b0 then 0 else 1))
       else
         (let b0 = (bits AND 1 \<noteq> 0);
              b1 = (bits AND 2 \<noteq> 0);
              b2 = (bits AND 4 \<noteq> 0)
          in Some (if b0 then (if b1 then 0 else 1) else (if b2 then 2 else 3))) } }"

definition plru_new_bits :: "8 word \<Rightarrow> nat \<Rightarrow> 8 word" where
  "plru_new_bits bits way =
     (let b1 = drop_bit 1 bits AND 1;
          b2 = drop_bit 2 bits AND 1;
          w0 = (of_nat (way AND 1) :: 8 word);
          w1 = (of_nat (drop_bit 1 way AND 1) :: 8 word);
          newB0 = w1;
          newB1 = (if w1 \<noteq> 0 then b1 else w0);
          newB2 = (if w1 \<noteq> 0 then w0 else b2)
      in push_bit 0 newB0 OR push_bit 1 newB1 OR push_bit 2 newB2)"

definition update_bits :: "plru \<Rightarrow> nat \<Rightarrow> nat \<Rightarrow> plru option" where
  "update_bits p si way = do {
     assert_that (pl_assoc p = 1 \<or> pl_assoc p = 2 \<or> pl_assoc p = 4);
     bits \<leftarrow> at (pl_bits p) si;
     let new = (if pl_assoc p = 1 then 0
                else if pl_assoc p = 2 then of_nat (way AND 1)
                else plru_new_bits bits way);
     Some (p\<lparr>pl_bits := (pl_bits p)[si := new]\<rparr>) }"

definition plru_getVictim :: "plru \<Rightarrow> nat \<Rightarrow> cache_line list \<Rightarrow> nat option" where
  "plru_getVictim p si ls = do {
     assert_that (ls \<noteq> []);
     idx \<leftarrow> victim_way p si;
     _ \<leftarrow> at ls idx;
     Some idx }"

section \<open>The policies behind the virtual interface\<close>

datatype repl = LRU | SRRIP | RoundRobin rr | PLRU plru

fun getVictim :: "repl \<Rightarrow> nat \<Rightarrow> cache_line list \<Rightarrow> nat option" where
  "getVictim LRU si ls = lru_getVictim ls"
| "getVictim SRRIP si ls = srrip_getVictim ls"
| "getVictim (RoundRobin p) si ls = rr_getVictim p si ls"
| "getVictim (PLRU p) si ls = plru_getVictim p si ls"

fun onHit :: "tick_t \<Rightarrow> repl \<Rightarrow> nat \<Rightarrow> nat \<Rightarrow> cache_line \<Rightarrow> (repl \<times> cache_line) option" where
  "onHit now LRU si way l = Some (LRU, lru_touch now l)"
| "onHit now SRRIP si way l = Some (SRRIP, srrip_onHit l)"
| "onHit now (RoundRobin p) si way l = Some (RoundRobin p, l)"
| "onHit now (PLRU p) si way l = do { p' \<leftarrow> update_bits p si way; Some (PLRU p', l) }"

fun onFill :: "tick_t \<Rightarrow> repl \<Rightarrow> nat \<Rightarrow> nat \<Rightarrow> cache_line \<Rightarrow> (repl \<times> cache_line) option" where
  "onFill now LRU si way l = Some (LRU, lru_touch now l)"
| "onFill now SRRIP si way l = Some (SRRIP, srrip_onFill l)"
| "onFill now (RoundRobin p) si way l = do { p' \<leftarrow> rr_onFill p si; Some (RoundRobin p', l) }"
| "onFill now (PLRU p) si way l = do { p' \<leftarrow> update_bits p si way; Some (PLRU p', l) }"

definition make_repl_policy :: "string \<Rightarrow> nat \<Rightarrow> nat \<Rightarrow> repl option" where
  "make_repl_policy name assoc num_sets =
     (if name = ''plru'' then Some (PLRU \<lparr>pl_assoc = assoc, pl_bits = replicate num_sets 0\<rparr>)
      else if name = ''lru'' then Some LRU
      else if name = ''srrip'' then Some SRRIP
      else if name = ''rr'' then Some (RoundRobin \<lparr>rr_assoc = assoc, rr_ptr = replicate num_sets 0\<rparr>)
      else None)"

section \<open>The interface the cache relies on\<close>

text \<open>The policy may write the stamp of the line it is given, and nothing else.\<close>

definition same_but_stamp :: "cache_line \<Rightarrow> cache_line \<Rightarrow> bool" where
  "same_but_stamp l l' \<longleftrightarrow> l'\<lparr>cl_stamp := cl_stamp l\<rparr> = l"

lemma same_but_stamp_refl [simp]: "same_but_stamp l l"
  by (simp add: same_but_stamp_def)

lemma same_but_stamp_update [simp]: "same_but_stamp l (l\<lparr>cl_stamp := t\<rparr>)"
  by (simp add: same_but_stamp_def)

lemma same_but_stamp_sel:
  assumes "same_but_stamp l l'"
  shows "cl_tag l' = cl_tag l" "cl_valid l' = cl_valid l" "cl_dirty l' = cl_dirty l"
    "cl_data l' = cl_data l" "cl_is_prefetched l' = cl_is_prefetched l"
  using assms by (cases l; cases l'; simp add: same_but_stamp_def)+

text \<open>
  The replacement loop of one full set under a stream of misses at the given ticks: pick
  a victim, fill it. The result lists the ways in the order they were replaced.
\<close>

fun replace_run :: "('p \<Rightarrow> nat \<Rightarrow> cache_line list \<Rightarrow> nat option) \<Rightarrow>
    (tick_t \<Rightarrow> 'p \<Rightarrow> nat \<Rightarrow> nat \<Rightarrow> cache_line \<Rightarrow> ('p \<times> cache_line) option) \<Rightarrow>
    tick_t list \<Rightarrow> 'p \<Rightarrow> nat \<Rightarrow> cache_line list \<Rightarrow> (nat list \<times> 'p \<times> cache_line list) option" where
  "replace_run victim fill [] p si ls = Some ([], p, ls)"
| "replace_run victim fill (t # ts) p si ls = do {
     w \<leftarrow> victim p si ls;
     (p', l') \<leftarrow> fill t p si w (ls ! w);
     (ws, p'', ls'') \<leftarrow> replace_run victim fill ts p' si (ls[w := l']);
     Some (w # ws, p'', ls'') }"

locale replacement_policy =
  fixes victim :: "'p \<Rightarrow> nat \<Rightarrow> cache_line list \<Rightarrow> nat option"
    and on_hit :: "tick_t \<Rightarrow> 'p \<Rightarrow> nat \<Rightarrow> nat \<Rightarrow> cache_line \<Rightarrow> ('p \<times> cache_line) option"
    and on_fill :: "tick_t \<Rightarrow> 'p \<Rightarrow> nat \<Rightarrow> nat \<Rightarrow> cache_line \<Rightarrow> ('p \<times> cache_line) option"
    and pinv :: "nat \<Rightarrow> nat \<Rightarrow> 'p \<Rightarrow> bool"
  assumes victim_ex:
    "pinv a n p \<Longrightarrow> si < n \<Longrightarrow> length ls = a \<Longrightarrow> 0 < a \<Longrightarrow> \<exists>w<a. victim p si ls = Some w"
  and hit_ex:
    "pinv a n p \<Longrightarrow> si < n \<Longrightarrow> w < a \<Longrightarrow>
     \<exists>p' l'. on_hit now p si w l = Some (p', l') \<and> pinv a n p' \<and> same_but_stamp l l'"
  and fill_ex:
    "pinv a n p \<Longrightarrow> si < n \<Longrightarrow> w < a \<Longrightarrow>
     \<exists>p' l'. on_fill now p si w l = Some (p', l') \<and> pinv a n p' \<and> same_but_stamp l l'"
begin

lemma victim_less:
  "pinv a n p \<Longrightarrow> si < n \<Longrightarrow> length ls = a \<Longrightarrow> victim p si ls = Some w \<Longrightarrow> 0 < a \<Longrightarrow> w < a"
  using victim_ex by fastforce

lemma hit_keeps:
  assumes "on_hit now p si w l = Some (p', l')" and "pinv a n p" and "si < n" and "w < a"
  shows "pinv a n p'" and "same_but_stamp l l'"
  using hit_ex [OF assms(2-4), of now l] assms(1) by auto

lemma fill_keeps:
  assumes "on_fill now p si w l = Some (p', l')" and "pinv a n p" and "si < n" and "w < a"
  shows "pinv a n p'" and "same_but_stamp l l'"
  using fill_ex [OF assms(2-4), of now l] assms(1) by auto

lemma replace_run_total:
  assumes "pinv a n p" and "si < n" and "length ls = a" and "0 < a"
  shows "\<exists>ws p' ls'. replace_run victim on_fill ts p si ls = Some (ws, p', ls') \<and> length ws = length ts
           \<and> (\<forall>w\<in>set ws. w < a) \<and> pinv a n p' \<and> length ls' = a"
  using assms
proof (induction ts arbitrary: p ls)
  case Nil
  then show ?case by simp
next
  case (Cons t ts)
  from victim_ex [OF Cons.prems] obtain w where w: "w < a" "victim p si ls = Some w" by blast
  from fill_ex [OF Cons.prems(1,2) w(1), of t "ls ! w"] obtain p' l'
    where f: "on_fill t p si w (ls ! w) = Some (p', l')" "pinv a n p'" by blast
  from Cons.IH [OF f(2) Cons.prems(2), of "ls[w := l']"] Cons.prems w f show ?case by force
qed

end

section \<open>Every policy provides the interface\<close>

definition no_state_inv :: "nat \<Rightarrow> nat \<Rightarrow> unit \<Rightarrow> bool" where
  "no_state_inv a n u \<longleftrightarrow> True"

definition rr_inv :: "nat \<Rightarrow> nat \<Rightarrow> rr \<Rightarrow> bool" where
  "rr_inv a n p \<longleftrightarrow> rr_assoc p = a \<and> length (rr_ptr p) = n \<and> (\<forall>q\<in>set (rr_ptr p). q < a)"

definition plru_inv :: "nat \<Rightarrow> nat \<Rightarrow> plru \<Rightarrow> bool" where
  "plru_inv a n p \<longleftrightarrow> pl_assoc p = a \<and> a \<in> {1, 2, 4} \<and> length (pl_bits p) = n"

fun repl_inv :: "nat \<Rightarrow> nat \<Rightarrow> repl \<Rightarrow> bool" where
  "repl_inv a n (RoundRobin p) = rr_inv a n p"
| "repl_inv a n (PLRU p) = plru_inv a n p"
| "repl_inv a n _ = True"

lemma min_element_spec:
  fixes key :: "'a \<Rightarrow> 'k::linorder"
  assumes "ls \<noteq> []"
  defines "w \<equiv> min_element (\<lambda>a b. key a < key b) ls"
  shows "w < length ls" and "\<forall>j<length ls. key (ls ! w) \<le> key (ls ! j)"
    and "\<forall>j<w. key (ls ! w) < key (ls ! j)"
proof -
  obtain x ys where "ls = x # ys" using assms(1) by (cases ls) auto
  then show "w < length ls" and "\<forall>j<length ls. key (ls ! w) \<le> key (ls ! j)"
    and "\<forall>j<w. key (ls ! w) < key (ls ! j)"
    using best_from_spec [of 0 "[x]" x key ys]
    by (simp_all add: w_def min_element_def Let_def)
qed

lemma max_element_less: "ls \<noteq> [] \<Longrightarrow> max_element (\<lambda>a b. (cl_stamp a) < cl_stamp b) ls < length ls"
proof -
  assume "ls \<noteq> []"
  then obtain x ys where "ls = x # ys" by (cases ls) auto
  then show ?thesis
    using best_from_spec [of 0 "[x]" x "\<lambda>l. - int (cl_stamp l)" ys]
    by (simp add: max_element_def Let_def)
qed

interpretation lru: replacement_policy "\<lambda>u si. lru_getVictim" "\<lambda>now u si w l. Some (u, lru_touch now l)"
    "\<lambda>now u si w l. Some (u, lru_touch now l)" no_state_inv
  by unfold_locales
    (auto simp: lru_getVictim_def lru_touch_def no_state_inv_def intro: min_element_spec(1))

interpretation srrip: replacement_policy "\<lambda>u si. srrip_getVictim" "\<lambda>now u si w l. Some (u, srrip_onHit l)"
    "\<lambda>now u si w l. Some (u, srrip_onFill l)" no_state_inv
  by unfold_locales
    (auto simp: srrip_getVictim_def srrip_onHit_def srrip_onFill_def no_state_inv_def
      intro: max_element_less)

interpretation rr: replacement_policy rr_getVictim "\<lambda>now p si w l. Some (p, l)"
    "\<lambda>now p si w l. map_option (\<lambda>p'. (p', l)) (rr_onFill p si)" rr_inv
  by unfold_locales
    (auto simp: rr_getVictim_def rr_onFill_def rr_inv_def Let_def dest!: set_update_memD)

lemma plru_getVictim_ex:
  "plru_inv a n p \<Longrightarrow> si < n \<Longrightarrow> length ls = a \<Longrightarrow> \<exists>w<a. plru_getVictim p si ls = Some w"
  by (auto simp: plru_getVictim_def victim_way_def plru_inv_def Let_def)

lemma update_bits_ex:
  "plru_inv a n p \<Longrightarrow> si < n \<Longrightarrow> \<exists>p'. update_bits p si w = Some p' \<and> plru_inv a n p'"
  by (auto simp: update_bits_def plru_inv_def Let_def)

interpretation plru: replacement_policy plru_getVictim
    "\<lambda>now p si w l. map_option (\<lambda>p'. (p', l)) (update_bits p si w)"
    "\<lambda>now p si w l. map_option (\<lambda>p'. (p', l)) (update_bits p si w)" plru_inv
  using plru_getVictim_ex update_bits_ex by unfold_locales fastforce+

lemma getVictim_ex:
  assumes "repl_inv a n p" and "si < n" and "length ls = a" and "0 < a"
  shows "\<exists>w<a. getVictim p si ls = Some w"
  using assms lru.victim_ex [of a n "()" si ls] srrip.victim_ex [of a n "()" si ls]
    rr.victim_ex plru.victim_ex
  by (cases p) (auto simp: no_state_inv_def)

lemma onHit_ex:
  assumes "repl_inv a n p" and "si < n" and "w < a"
  shows "\<exists>p' l'. onHit now p si w l = Some (p', l') \<and> repl_inv a n p' \<and> same_but_stamp l l'"
  using assms plru.hit_ex
  by (cases p) (fastforce simp: lru_touch_def srrip_onHit_def)+

lemma onFill_ex:
  assumes "repl_inv a n p" and "si < n" and "w < a"
  shows "\<exists>p' l'. onFill now p si w l = Some (p', l') \<and> repl_inv a n p' \<and> same_but_stamp l l'"
  using assms plru.fill_ex rr.fill_ex
  by (cases p) (fastforce simp: lru_touch_def srrip_onFill_def)+

interpretation repl: replacement_policy getVictim onHit onFill repl_inv
  using getVictim_ex onHit_ex onFill_ex by unfold_locales auto

lemma make_repl_policy_inv:
  assumes "make_repl_policy name a n = Some p" and "0 < a" and "name = ''plru'' \<Longrightarrow> a \<in> {1, 2, 4}"
  shows "repl_inv a n p"
  using assms
  by (auto simp: make_repl_policy_def plru_inv_def rr_inv_def split: if_splits)

section \<open>The PLRU bits as a decision tree\<close>

text \<open>
  The abstract four-way tree: the root says which half was used last (True for ways 2
  and 3), each half says which of its two ways was used last. The bit operations of the
  source refine it.
\<close>

datatype plru_tree = Tree (root_hi: bool) (lo_odd: bool) (hi_odd: bool)

fun tree_victim :: "plru_tree \<Rightarrow> nat" where
  "tree_victim (Tree r lo hi) = (if r then (if lo then 0 else 1) else (if hi then 2 else 3))"

fun tree_touch :: "nat \<Rightarrow> plru_tree \<Rightarrow> plru_tree" where
  "tree_touch w (Tree r lo hi) =
     (if 2 \<le> w then Tree True lo (odd w) else Tree False (odd w) hi)"

definition plru_abs :: "plru \<Rightarrow> nat \<Rightarrow> plru_tree" where
  "plru_abs p si = Tree (bit (pl_bits p ! si) 0) (bit (pl_bits p ! si) 1) (bit (pl_bits p ! si) 2)"

lemma and_1_iff: "((b::8 word) AND 1 \<noteq> 0) \<longleftrightarrow> bit b 0"
  using and_exp_eq_0_iff_not_bit [of b 0] by simp

lemma and_2_iff: "((b::8 word) AND 2 \<noteq> 0) \<longleftrightarrow> bit b 1"
  using and_exp_eq_0_iff_not_bit [of b 1] by simp

lemma and_4_iff: "((b::8 word) AND 4 \<noteq> 0) \<longleftrightarrow> bit b 2"
  using and_exp_eq_0_iff_not_bit [of b 2] by simp

lemma drop_and_1: "drop_bit n (b::8 word) AND 1 = of_bool (bit b n)"
  by (simp add: and_one_eq mod_2_eq_odd bit_iff_odd_drop_bit)

lemma less4_cases: "(w::nat) < 4 \<Longrightarrow> w = 0 \<or> w = 1 \<or> w = 2 \<or> w = 3"
  by arith

lemma new_bits_bits:
  assumes "w < 4"
  shows "bit (plru_new_bits b w) 0 \<longleftrightarrow> 2 \<le> w"
    and "bit (plru_new_bits b w) 1 \<longleftrightarrow> (if 2 \<le> w then bit b 1 else odd w)"
    and "bit (plru_new_bits b w) 2 \<longleftrightarrow> (if 2 \<le> w then odd w else bit b 2)"
proof -
  have d: "drop_bit (Suc 0) (2::nat) = 1" "drop_bit (Suc 0) (3::nat) = 1"
      "drop_bit (Suc 0) (1::nat) = 0"
    by (simp_all add: drop_bit_Suc)
  show "bit (plru_new_bits b w) 0 \<longleftrightarrow> 2 \<le> w"
    and "bit (plru_new_bits b w) 1 \<longleftrightarrow> (if 2 \<le> w then bit b 1 else odd w)"
    and "bit (plru_new_bits b w) 2 \<longleftrightarrow> (if 2 \<le> w then odd w else bit b 2)"
    unfolding plru_new_bits_def Let_def drop_and_1
    using less4_cases [OF assms]
    by (cases "bit b 1"; cases "bit b 2"; auto simp: d)+
qed

lemma victim_way_refines:
  "plru_inv 4 n p \<Longrightarrow> si < n \<Longrightarrow> victim_way p si = Some (tree_victim (plru_abs p si))"
  by (auto simp: victim_way_def plru_abs_def plru_inv_def Let_def and_1_iff and_2_iff and_4_iff)

lemma update_bits_refines:
  "plru_inv 4 n p \<Longrightarrow> si < n \<Longrightarrow> w < 4 \<Longrightarrow>
   \<exists>p'. update_bits p si w = Some p' \<and> plru_inv 4 n p' \<and> plru_abs p' si = tree_touch w (plru_abs p si)"
  by (auto simp: update_bits_def plru_abs_def plru_inv_def Let_def new_bits_bits simp del: One_nat_def)

lemma tree_touch_protects: "w < 4 \<Longrightarrow> tree_victim (tree_touch w t) \<noteq> w"
  by (cases t) (auto dest!: less4_cases)

lemma tree_victim_less [simp]: "tree_victim t < 4"
  by (cases t) auto

lemma two_way_victim:
  "plru_inv 2 n p \<Longrightarrow> si < n \<Longrightarrow>
   victim_way p si = Some (if bit (pl_bits p ! si) 0 then 0 else 1)"
  by (auto simp: victim_way_def plru_inv_def Let_def and_1_iff)

lemma two_way_update:
  "plru_inv 2 n p \<Longrightarrow> si < n \<Longrightarrow> w < 2 \<Longrightarrow>
   \<exists>p'. update_bits p si w = Some p' \<and> plru_inv 2 n p' \<and> (bit (pl_bits p' ! si) 0 \<longleftrightarrow> w = 1)"
  by (auto simp: update_bits_def plru_inv_def Let_def less_2_cases_iff)

text \<open>One miss served by the policy: the tree's victim is replaced and touched.\<close>

lemma plru4_miss:
  assumes "plru_inv 4 n p" and "si < n" and "length ls = 4"
  shows "\<exists>p'. getVictim (PLRU p) si ls = Some (tree_victim (plru_abs p si))
    \<and> onFill t (PLRU p) si (tree_victim (plru_abs p si)) l = Some (PLRU p', l)
    \<and> plru_inv 4 n p' \<and> plru_abs p' si = tree_touch (tree_victim (plru_abs p si)) (plru_abs p si)"
proof -
  have "getVictim (PLRU p) si ls = Some (tree_victim (plru_abs p si))"
    using assms victim_way_refines [OF assms(1,2)] by (auto simp: plru_getVictim_def)
  then show ?thesis using update_bits_refines [OF assms(1,2), of "tree_victim (plru_abs p si)"] by auto
qed

fun tree_run :: "nat \<Rightarrow> plru_tree \<Rightarrow> nat list" where
  "tree_run 0 t = []"
| "tree_run (Suc k) t = tree_victim t # tree_run k (tree_touch (tree_victim t) t)"

lemma plru4_run_refines:
  "plru_inv 4 n p \<Longrightarrow> si < n \<Longrightarrow> length ls = 4 \<Longrightarrow>
   \<exists>p' ls'. replace_run getVictim onFill ts (PLRU p) si ls
     = Some (tree_run (length ts) (plru_abs p si), PLRU p', ls')"
proof (induction ts arbitrary: p ls)
  case Nil
  then show ?case by simp
next
  case (Cons t ts)
  let ?v = "tree_victim (plru_abs p si)"
  from plru4_miss [OF Cons.prems, of t "ls ! ?v"] obtain p' where p':
    "getVictim (PLRU p) si ls = Some ?v" "onFill t (PLRU p) si ?v (ls ! ?v) = Some (PLRU p', ls ! ?v)"
    "plru_inv 4 n p'" "plru_abs p' si = tree_touch ?v (plru_abs p si)" by blast
  from Cons.IH [OF p'(3) Cons.prems(2), of "ls[?v := ls ! ?v]"] Cons.prems(3)
  obtain p'' ls'' where
    "replace_run getVictim onFill ts (PLRU p') si (ls[?v := ls ! ?v])
      = Some (tree_run (length ts) (tree_touch ?v (plru_abs p si)), PLRU p'', ls'')"
    by (auto simp: p'(4))
  with p'(1,2) show ?case by (simp del: getVictim.simps onFill.simps)
qed

lemma tree_run_numeral:
  "tree_run (numeral k) t = tree_victim t # tree_run (pred_numeral k) (tree_touch (tree_victim t) t)"
  by (simp add: numeral_eq_Suc)

lemma tree_run_4: "set (tree_run 4 t) = {..<4}"
  by (cases t; rename_tac r lo hi; case_tac r; case_tac lo; case_tac hi)
    (auto simp: tree_run_numeral lessThan_nat_numeral)

end
