(* ===== verification/Prefetch.thy ===== *)
theory Prefetch
  imports Prelude
begin

text \<open>
  src/cacheSim/Prefetcher.hh and .cc: the three prefetchers behind one virtual probe,
  with the two counters of the base class. blkSize is a size\_t; adding it to a 32-bit
  address and returning an addr\_t keeps the low 32 bits.
\<close>

datatype pf_kind =
    NextLine
  | Stride (last_addr: addr_t) (last_stride: "32 word")
  | Tagged

record prefetcher =
  pf_kind :: pf_kind
  pf_blkSize :: nat
  prefetch_issued :: nat
  prefetch_useful :: nat

definition make_pf :: "pf_kind \<Rightarrow> prefetcher" where
  "make_pf k = \<lparr>pf_kind = k, pf_blkSize = 64, prefetch_issued = 0, prefetch_useful = 0\<rparr>"

definition make_prefetcher :: "string \<Rightarrow> prefetcher option" where
  "make_prefetcher type =
     (if type = ''nextline'' then Some (make_pf NextLine)
      else if type = ''stride'' then Some (make_pf (Stride 0 0))
      else if type = ''tagged'' then Some (make_pf Tagged)
      else None)"

definition setBlockSize :: "nat \<Rightarrow> prefetcher \<Rightarrow> prefetcher" where
  "setBlockSize sz p = p\<lparr>pf_blkSize := sz\<rparr>"

definition pf_reset_stats :: "prefetcher \<Rightarrow> prefetcher" where
  "pf_reset_stats p = p\<lparr>prefetch_issued := 0, prefetch_useful := 0\<rparr>"

text \<open>
  The stride is the wrapped 32-bit difference (int32\_t of the unsigned difference);
  as a word it is the same bits, so equality and the later addition agree.
\<close>

definition stride_probe :: "addr_t \<Rightarrow> addr_t \<Rightarrow> 32 word \<Rightarrow> addr_t option \<times> pf_kind" where
  "stride_probe addr la ls =
     (let stride = addr - la;
          ret = (if stride \<noteq> 0 \<and> stride = ls then Some (addr + stride) else None)
      in (ret, Stride addr stride))"

definition pf_probe :: "prefetcher \<Rightarrow> addr_t \<Rightarrow> bool \<Rightarrow> addr_t option \<times> prefetcher" where
  "pf_probe p addr is_hit =
     (case pf_kind p of
        NextLine \<Rightarrow> (Some (addr + of_nat (pf_blkSize p)), p)
      | Stride la ls \<Rightarrow>
          (let (ret, k) = stride_probe addr la ls in (ret, p\<lparr>pf_kind := k\<rparr>))
      | Tagged \<Rightarrow> (if \<not> is_hit then Some (addr + of_nat (pf_blkSize p)) else None, p))"

text \<open>A run of probes, as a cache makes them.\<close>

fun pf_run :: "prefetcher \<Rightarrow> (addr_t \<times> bool) list \<Rightarrow> addr_t option list \<times> prefetcher" where
  "pf_run p [] = ([], p)"
| "pf_run p ((a, h) # xs) =
     (let (r, p') = pf_probe p a h; (rs, p'') = pf_run p' xs in (r # rs, p''))"

lemma pf_probe_counters:
  "prefetch_issued (snd (pf_probe p a h)) = prefetch_issued p"
  "prefetch_useful (snd (pf_probe p a h)) = prefetch_useful p"
  "pf_blkSize (snd (pf_probe p a h)) = pf_blkSize p"
  by (simp_all add: pf_probe_def Let_def split: pf_kind.splits prod.splits)

lemma stride_state:
  "pf_kind p = Stride la ls \<Longrightarrow> pf_kind (snd (pf_probe p a h)) = Stride a (a - la)"
  by (simp add: pf_probe_def stride_probe_def Let_def)

text \<open>
  On a stream with a constant non-zero step, the stride prefetcher names the next
  element of the stream once it has seen the step.
\<close>

lemma stride_stream_locked:
  assumes "pf_kind p = Stride (a - d) d" and "d \<noteq> 0"
  shows "fst (pf_run p (map (\<lambda>i. (a + of_nat i * d, h i)) [0..<n]))
         = map (\<lambda>i. Some (a + of_nat (Suc i) * d)) [0..<n]"
  using assms
proof (induction n arbitrary: p a h)
  case 0
  then show ?case by simp
next
  case (Suc n)
  define p' where "p' = snd (pf_probe p a (h 0))"
  have fst0: "fst (pf_probe p a (h 0)) = Some (a + d)"
    using Suc.prems by (simp add: pf_probe_def stride_probe_def Let_def)
  have k': "pf_kind p' = Stride ((a + d) - d) d"
    using Suc.prems stride_state [of p "a - d" d a "h 0"] by (simp add: p'_def)
  have up: "[0..<Suc n] = 0 # map Suc [0..<n]"
    by (metis map_Suc_upt upt_conv_Cons zero_less_Suc)
  from Suc.IH [OF k' Suc.prems(2), of "\<lambda>i. h (Suc i)"]
  have "fst (pf_run p' (map (\<lambda>i. (a + d + of_nat i * d, h (Suc i))) [0..<n]))
      = map (\<lambda>i. Some (a + d + of_nat (Suc i) * d)) [0..<n]" .
  then show ?case using fst0
    by (simp add: up p'_def Let_def split_beta algebra_simps comp_def del: upt_Suc)
qed

lemma pf_run_Cons:
  "fst (pf_run p (x # xs)) = fst (pf_probe p (fst x) (snd x)) # fst (pf_run (snd (pf_probe p (fst x) (snd x))) xs)"
  by (cases x) (simp add: Let_def split_beta)

lemma stride_stream:
  assumes "pf_kind p = Stride la ls" and "d \<noteq> 0"
  shows "drop 2 (fst (pf_run p (map (\<lambda>i. (a + of_nat i * d, h i)) [0..<n + 2])))
         = map (\<lambda>i. Some (a + of_nat (i + 3) * d)) [0..<n]"
proof -
  let ?p1 = "snd (pf_probe p a (h 0))"
  let ?p2 = "snd (pf_probe ?p1 (a + d) (h 1))"
  let ?a = "a + 2 * d"
  have "pf_kind ?p2 = Stride (a + d) ((a + d) - a)"
    by (rule stride_state [OF stride_state [OF assms(1)]])
  then have "pf_kind ?p2 = Stride (?a - d) d"
    by (simp add: algebra_simps)
  from stride_stream_locked [OF this assms(2), of "\<lambda>i. h (i + 2)" n]
  have "fst (pf_run ?p2 (map (\<lambda>i. (?a + of_nat i * d, h (i + 2))) [0..<n]))
      = map (\<lambda>i. Some (?a + of_nat (Suc i) * d)) [0..<n]" .
  moreover have "[0..<n + 2] = 0 # 1 # map (\<lambda>i. i + 2) [0..<n]"
  proof -
    have "map (\<lambda>i. i + 2) [0..<n] = map Suc (map Suc [0..<n])"
      by (simp add: comp_def)
    also have "\<dots> = [2..<n + 2]"
      by (simp only: map_Suc_upt) (simp add: numeral_2_eq_2)
    finally show ?thesis
      by (simp add: upt_conv_Cons numeral_2_eq_2 del: upt_Suc)
  qed
  ultimately show ?thesis
    by (simp add: pf_run_Cons algebra_simps comp_def del: upt_Suc pf_run.simps)
qed

end
