(* ===== verification/Interface.thy ===== *)
theory Interface
  imports Prelude
begin

text \<open>
  src/defines/interface.hh: the messages between CPU, caches and memory. A callback
  of the source (cpu\_resp\_recv\_, cpu\_ack\_recv\_, mem\_side\_->recv\_req) is an event
  of type cache\_event that the cache operation returns, in the order of the calls.
\<close>

datatype direction = Req | Resp

datatype mop = Read | Write

record mem_trans =
  mt_dir :: direction
  mt_mop :: mop
  mt_addr :: addr_t
  mt_id :: nat
  mt_bst_len :: nat
  mt_data :: "word_t list"
  mt_strb :: "8 word list"
  mt_lat :: nat

record cpu_trans =
  ct_addr :: addr_t
  ct_data :: word_t
  ct_id :: nat
  ct_mop :: mop

record ack_trans =
  ack_id :: nat
  ack_mop :: mop

text \<open>make\_unique of a MemTrans with trailing members left out: they are empty or zero.\<close>

definition mem_req :: "mop \<Rightarrow> addr_t \<Rightarrow> nat \<Rightarrow> nat \<Rightarrow> word_t list \<Rightarrow> 8 word list \<Rightarrow> mem_trans" where
  "mem_req m a i len ds ss =
     \<lparr>mt_dir = Req, mt_mop = m, mt_addr = a, mt_id = i, mt_bst_len = len,
      mt_data = ds, mt_strb = ss, mt_lat = 0\<rparr>"

definition cpu_msg :: "addr_t \<Rightarrow> word_t \<Rightarrow> nat \<Rightarrow> mop \<Rightarrow> cpu_trans" where
  "cpu_msg a d i m = \<lparr>ct_addr = a, ct_data = d, ct_id = i, ct_mop = m\<rparr>"

definition ack_msg :: "nat \<Rightarrow> mop \<Rightarrow> ack_trans" where
  "ack_msg i m = \<lparr>ack_id = i, ack_mop = m\<rparr>"

datatype cache_event =
    CpuResp cpu_trans
  | CpuAck ack_trans
  | MemReq mem_trans

lemmas msg_defs [simp] = mem_req_def cpu_msg_def ack_msg_def

fun is_MemReq :: "cache_event \<Rightarrow> bool" where
  "is_MemReq (MemReq m) = True"
| "is_MemReq _ = False"

fun is_CpuResp :: "cache_event \<Rightarrow> bool" where
  "is_CpuResp (CpuResp m) = True"
| "is_CpuResp _ = False"

end
