(* ===== verification/CacheCore.thy ===== *)
theory CacheCore
  imports ReplPolicy Prefetch Interface
begin

text \<open>
  CacheBase of src/cacheSim/CacheBase.hh and .cc: the geometry, the tag arrays and
  the lookup every cache shares. A CacheLine pointer of the source is the pair
  (set, way) that locates the line. The record is extended by PipeCache, NoCache
  and StoreBuffer as the classes extend CacheBase.
\<close>

section \<open>State\<close>

record cache_stats =
  cs_accesses :: nat
  cs_hits :: nat
  cs_misses :: nat

definition cs_reset_stats :: "cache_stats \<Rightarrow> cache_stats" where
  "cs_reset_stats s = s\<lparr>cs_accesses := 0, cs_hits := 0, cs_misses := 0\<rparr>"

record cache =
  stats :: cache_stats
  lineBytes :: nat
  offsetBits :: nat
  sets :: nat
  assoc :: nat
  cache_id :: nat
  victim_way_lag :: bool
  lag_set_idx :: nat
  lag_set_valid :: bool
  setsArr :: "cache_line list list"
  prefetcher :: "prefetcher option"
  repl_policy :: repl

definition isPowerOf2 :: "nat \<Rightarrow> bool" where
  "isPowerOf2 x \<longleftrightarrow> x \<noteq> 0 \<and> x AND (x - 1) = 0"

text \<open>std::bit\_width(x) - 1 for positive x.\<close>

fun floorLog2_from :: "nat \<Rightarrow> nat" where
  "floorLog2_from x = (if x \<le> 1 then 0 else Suc (floorLog2_from (x div 2)))"

declare floorLog2_from.simps [simp del]

definition floorLog2 :: "nat \<Rightarrow> nat option" where
  "floorLog2 x = do { assert_that (x > 0); Some (floorLog2_from x) }"

text \<open>The constructor, with its assertions. A division by zero aborts as well.\<close>

definition new_cache :: "nat \<Rightarrow> nat \<Rightarrow> nat \<Rightarrow> prefetcher option \<Rightarrow> nat \<Rightarrow> repl option \<Rightarrow> bool \<Rightarrow> cache option" where
  "new_cache size_bytes line_bytes asc pf cid rp lag = do {
     ob \<leftarrow> floorLog2 line_bytes;
     assert_that (line_bytes * asc \<noteq> 0);
     let nsets = size_bytes div (line_bytes * asc);
     assert_that (size_bytes mod (line_bytes * asc) = 0);
     assert_that (nsets > 1 \<and> isPowerOf2 nsets);
     assert_that (isPowerOf2 line_bytes);
     pol \<leftarrow> (case rp of None \<Rightarrow> make_repl_policy ''plru'' asc nsets | Some q \<Rightarrow> Some q);
     Some \<lparr>stats = \<lparr>cs_accesses = 0, cs_hits = 0, cs_misses = 0\<rparr>,
           lineBytes = line_bytes, offsetBits = ob, sets = nsets, assoc = asc,
           cache_id = cid, victim_way_lag = lag, lag_set_idx = 0, lag_set_valid = False,
           setsArr = replicate nsets (replicate asc (new_line line_bytes)),
           prefetcher = map_option (setBlockSize line_bytes) pf,
           repl_policy = pol\<rparr> }"

section \<open>Address arithmetic\<close>

definition blockAddrOf :: "'a cache_scheme \<Rightarrow> addr_t \<Rightarrow> addr_t" where
  "blockAddrOf c addr = addr AND NOT (of_nat (lineBytes c - 1))"

definition tagOf :: "'a cache_scheme \<Rightarrow> addr_t \<Rightarrow> addr_t" where
  "tagOf c addr = blockAddrOf c addr"

definition setIndexOf :: "'a cache_scheme \<Rightarrow> addr_t \<Rightarrow> nat" where
  "setIndexOf c addr = unat (drop_bit (offsetBits c) addr) AND (sets c - 1)"

definition offsetOf :: "'a cache_scheme \<Rightarrow> addr_t \<Rightarrow> nat" where
  "offsetOf c addr = unat addr AND (lineBytes c - 1)"

definition cache_size :: "'a cache_scheme \<Rightarrow> nat" where
  "cache_size c = sets c * assoc c * lineBytes c"

definition strbExtend :: "8 word \<Rightarrow> word_t" where
  "strbExtend strb =
     (if strb AND 1 \<noteq> 0 then 0x000000ff else 0) OR
     (if strb AND 2 \<noteq> 0 then 0x0000ff00 else 0) OR
     (if strb AND 4 \<noteq> 0 then 0x00ff0000 else 0) OR
     (if strb AND 8 \<noteq> 0 then 0xff000000 else 0)"

section \<open>Victim selection, lookup and fill\<close>

text \<open>The line a pointer denotes, and an assignment through it.\<close>

definition line_at :: "'a cache_scheme \<Rightarrow> nat \<times> nat \<Rightarrow> cache_line" where
  "line_at c p = setsArr c ! fst p ! snd p"

definition put_line :: "'a cache_scheme \<Rightarrow> nat \<times> nat \<Rightarrow> cache_line \<Rightarrow> 'a cache_scheme" where
  "put_line c p l = c\<lparr>setsArr := (setsArr c)[fst p := (setsArr c ! fst p)[snd p := l]]\<rparr>"

definition select_victim :: "'a cache_scheme \<Rightarrow> nat \<Rightarrow> nat option" where
  "select_victim c si = do {
     set \<leftarrow> at (setsArr c) si;
     (case first_idx (\<lambda>l. \<not> cl_valid l) set of
        Some i \<Rightarrow> Some i
      | None \<Rightarrow> getVictim (repl_policy c) si set) }"

definition miss_victim_way :: "'a cache_scheme \<Rightarrow> nat \<Rightarrow> nat option" where
  "miss_victim_way c si = do {
     let vsi = (if \<not> victim_way_lag c then si
                else if lag_set_valid c then lag_set_idx c else si);
     set \<leftarrow> at (setsArr c) vsi;
     (case first_idx (\<lambda>l. \<not> cl_valid l) set of
        Some i \<Rightarrow> Some i
      | None \<Rightarrow> getVictim (repl_policy c) vsi set) }"

definition probe :: "'a cache_scheme \<Rightarrow> addr_t \<Rightarrow> bool option" where
  "probe c addr = do {
     set \<leftarrow> at (setsArr c) (setIndexOf c addr);
     Some (first_idx (holds_tag (tagOf c addr)) set \<noteq> None) }"

text \<open>The lag register remembers the set of the last access.\<close>

definition note_lag :: "nat \<Rightarrow> 'a cache_scheme \<Rightarrow> 'a cache_scheme" where
  "note_lag si c =
     (if victim_way_lag c then c\<lparr>lag_set_idx := si, lag_set_valid := True\<rparr> else c)"

definition count_access :: "bool \<Rightarrow> 'a cache_scheme \<Rightarrow> 'a cache_scheme" where
  "count_access hit c = c\<lparr>stats := (stats c)\<lparr>
      cs_accesses := cs_accesses (stats c) + 1,
      cs_hits := cs_hits (stats c) + (if hit then 1 else 0),
      cs_misses := cs_misses (stats c) + (if hit then 0 else 1)\<rparr>\<rparr>"

text \<open>A hit on a prefetched line makes the prefetch useful, once.\<close>

definition note_useful :: "nat \<times> nat \<Rightarrow> 'a cache_scheme \<Rightarrow> 'a cache_scheme" where
  "note_useful p c =
     (case prefetcher c of
        Some pf \<Rightarrow>
          (if cl_is_prefetched (line_at c p)
           then (put_line c p ((line_at c p)\<lparr>cl_is_prefetched := False\<rparr>))
                  \<lparr>prefetcher := Some (pf\<lparr>prefetch_useful := prefetch_useful pf + 1\<rparr>)\<rparr>
           else c)
      | None \<Rightarrow> c)"

definition access_hit :: "tick_t \<Rightarrow> nat \<Rightarrow> nat \<Rightarrow> 'a cache_scheme \<Rightarrow> ('a cache_scheme \<times> (nat \<times> nat)) option" where
  "access_hit now si i c0 = do {
     let c = note_lag si (count_access True c0);
     (rp, l) \<leftarrow> onHit now (repl_policy c) si i (line_at c (si, i));
     let c1 = put_line (c\<lparr>repl_policy := rp\<rparr>) (si, i) l;
     Some (note_useful (si, i) c1, (si, i)) }"

definition access_miss :: "nat \<Rightarrow> 'a cache_scheme \<Rightarrow> ('a cache_scheme \<times> (nat \<times> nat)) option" where
  "access_miss si c0 = do {
     let c = count_access False c0;
     v \<leftarrow> miss_victim_way c si;
     assert_that (assoc c \<noteq> 0);
     let way = v mod assoc c;
     set \<leftarrow> at (setsArr c) si;
     l \<leftarrow> at set way;
     Some (put_line (note_lag si c) (si, way) (invalidate l), (si, way)) }"

definition access :: "tick_t \<Rightarrow> addr_t \<Rightarrow> 'a cache_scheme \<Rightarrow> ('a cache_scheme \<times> (nat \<times> nat)) option" where
  "access now addr c = do {
     let si = setIndexOf c addr;
     set \<leftarrow> at (setsArr c) si;
     (case first_idx (holds_tag (tagOf c addr)) set of
        Some i \<Rightarrow> access_hit now si i c
      | None \<Rightarrow> access_miss si c) }"

text \<open>
  The fill writes the line of the pointer and then looks the way up by comparing
  pointers in the set of the address, which asserts that the line lies in that set.
\<close>

definition handle_fill :: "tick_t \<Rightarrow> nat \<times> nat \<Rightarrow> addr_t \<Rightarrow> word_t list \<Rightarrow> 'a cache_scheme \<Rightarrow> 'a cache_scheme option" where
  "handle_fill now p addr ret c = do {
     let l0 = setTag (tagOf c addr) (activate now (line_at c p));
     let si = setIndexOf c addr;
     set \<leftarrow> at (setsArr c) si;
     assert_that (fst p = si \<and> snd p < length set);
     (rp, l1) \<leftarrow> onFill now (repl_policy c) si (snd p) l0;
     Some (put_line (c\<lparr>repl_policy := rp\<rparr>) p (setVecData ret l1)) }"

section \<open>Well-formed caches\<close>

definition geometry_ok :: "'a cache_scheme \<Rightarrow> bool" where
  "geometry_ok c \<longleftrightarrow>
     lineBytes c = 2 ^ offsetBits c \<and> offsetBits c < 32 \<and>
     (\<exists>k. sets c = 2 ^ k \<and> 0 < k) \<and> 0 < assoc c \<and>
     length (setsArr c) = sets c \<and> (\<forall>s\<in>set (setsArr c). length s = assoc c) \<and>
     (\<forall>s\<in>set (setsArr c). \<forall>l\<in>set s. length (cl_data l) = drop_bit WordShift (lineBytes c)) \<and>
     repl_inv (assoc c) (sets c) (repl_policy c) \<and> lag_set_idx c < sets c"

text \<open>Every valid line lies in the set of its block, and no block is cached twice.\<close>

definition tags_ok :: "'a cache_scheme \<Rightarrow> bool" where
  "tags_ok c \<longleftrightarrow>
     (\<forall>si < sets c. \<forall>w<assoc c. cl_valid (line_at c (si, w)) \<longrightarrow>
        setIndexOf c (cl_tag (line_at c (si, w))) = si \<and>
        blockAddrOf c (cl_tag (line_at c (si, w))) = cl_tag (line_at c (si, w))) \<and>
     (\<forall>si < sets c. \<forall>w<assoc c. \<forall>w'<assoc c.
        cl_valid (line_at c (si, w)) \<and> cl_valid (line_at c (si, w')) \<and>
        cl_tag (line_at c (si, w)) = cl_tag (line_at c (si, w')) \<longrightarrow> w = w')"

definition cache_ok :: "'a cache_scheme \<Rightarrow> bool" where
  "cache_ok c \<longleftrightarrow> geometry_ok c \<and> tags_ok c"

lemma tags_okD:
  assumes "tags_ok c" and "si < sets c" and "w < assoc c" and "cl_valid (line_at c (si, w))"
  shows "setIndexOf c (cl_tag (line_at c (si, w))) = si"
    and "blockAddrOf c (cl_tag (line_at c (si, w))) = cl_tag (line_at c (si, w))"
  using assms unfolding tags_ok_def by blast+

lemma tags_ok_inj:
  assumes "tags_ok c" and "si < sets c" and "w < assoc c" and "w' < assoc c"
    and "cl_valid (line_at c (si, w))" and "cl_valid (line_at c (si, w'))"
    and "cl_tag (line_at c (si, w)) = cl_tag (line_at c (si, w'))"
  shows "w = w'"
  using assms unfolding tags_ok_def by blast

text \<open>What the cache holds: the block addresses of its valid lines.\<close>

definition contents :: "'a cache_scheme \<Rightarrow> addr_t set" where
  "contents c = {cl_tag (line_at c (si, w)) |si w.
      si < sets c \<and> w < assoc c \<and> cl_valid (line_at c (si, w))}"

subsection \<open>Address arithmetic\<close>

lemma nat_and_mask_Suc: "(n::nat) AND (2 ^ k - Suc 0) = n mod 2 ^ k"
  using nat_and_mask [of n k] by simp

lemma word_mask_of_nat: "(of_nat (2 ^ k - 1) :: 'a::len word) = mask k"
  by (simp add: mask_eq_exp_minus_1 of_nat_diff)

lemma setIndexOf_less: "geometry_ok c \<Longrightarrow> setIndexOf c a < sets c"
  by (auto simp: geometry_ok_def setIndexOf_def nat_and_mask_Suc)

lemma blockAddrOf_bits:
  "lineBytes c = 2 ^ offsetBits c \<Longrightarrow> bit (blockAddrOf c a) n \<longleftrightarrow> bit a n \<and> offsetBits c \<le> n"
  by (auto simp: blockAddrOf_def word_mask_of_nat [simplified] bit_simps
      simp del: One_nat_def dest: bit_imp_le_length)

lemma blockAddrOf_idem: "geometry_ok c \<Longrightarrow> blockAddrOf c (blockAddrOf c a) = blockAddrOf c a"
  by (rule bit_eqI) (auto simp: geometry_ok_def blockAddrOf_bits)

lemma drop_bit_blockAddrOf:
  "geometry_ok c \<Longrightarrow> drop_bit (offsetBits c) (blockAddrOf c a) = drop_bit (offsetBits c) a"
  by (rule bit_eqI) (auto simp: geometry_ok_def blockAddrOf_bits bit_simps)

lemma setIndexOf_blockAddrOf: "geometry_ok c \<Longrightarrow> setIndexOf c (blockAddrOf c a) = setIndexOf c a"
  by (simp add: setIndexOf_def drop_bit_blockAddrOf)

lemma offsetOf_eq: "geometry_ok c \<Longrightarrow> offsetOf c a = unat (take_bit (offsetBits c) a)"
  unfolding unsigned_take_bit_eq
  by (simp add: geometry_ok_def offsetOf_def nat_and_mask_Suc take_bit_eq_mod)

lemma offsetOf_less: "geometry_ok c \<Longrightarrow> offsetOf c a < lineBytes c"
  by (auto simp: geometry_ok_def offsetOf_def nat_and_mask_Suc)

lemma block_plus_offset:
  assumes "geometry_ok c"
  shows "blockAddrOf c a + of_nat (offsetOf c a) = a"
proof -
  have o: "of_nat (offsetOf c a) = take_bit (offsetBits c) a"
    by (simp add: offsetOf_eq [OF assms])
  have "blockAddrOf c a + take_bit (offsetBits c) a = blockAddrOf c a OR take_bit (offsetBits c) a"
    by (rule disjunctive_add) (use assms in \<open>auto simp: geometry_ok_def blockAddrOf_bits bit_simps\<close>)
  also have "\<dots> = a"
    by (rule bit_eqI) (use assms in \<open>auto simp: geometry_ok_def blockAddrOf_bits bit_simps\<close>)
  finally show ?thesis by (simp add: o)
qed

subsection \<open>Lines and their frame\<close>

lemma line_at_put_line:
  assumes "length (setsArr c) = sets c" and "\<forall>s\<in>set (setsArr c). length s = assoc c"
    and "si < sets c" and "w < assoc c"
  shows "line_at (put_line c (si, w) l) q = (if q = (si, w) then l else line_at c q)"
  using assms by (cases q) (auto simp: line_at_def put_line_def nth_list_update)

lemma put_line_sel [simp]:
  "stats (put_line c p l) = stats c" "lineBytes (put_line c p l) = lineBytes c"
  "offsetBits (put_line c p l) = offsetBits c" "sets (put_line c p l) = sets c"
  "assoc (put_line c p l) = assoc c" "cache_id (put_line c p l) = cache_id c"
  "victim_way_lag (put_line c p l) = victim_way_lag c"
  "lag_set_idx (put_line c p l) = lag_set_idx c" "lag_set_valid (put_line c p l) = lag_set_valid c"
  "prefetcher (put_line c p l) = prefetcher c" "repl_policy (put_line c p l) = repl_policy c"
  by (simp_all add: put_line_def)

lemma cache_more_put_line [simp]: "cache.more (put_line c p l) = cache.more c"
  by (simp add: put_line_def)

lemma length_put_line [simp]: "length (setsArr (put_line c p l)) = length (setsArr c)"
  by (simp add: put_line_def)

text \<open>The address functions depend on the geometry only.\<close>

lemma addr_funs_cong:
  assumes "lineBytes c' = lineBytes c" and "offsetBits c' = offsetBits c" and "sets c' = sets c"
  shows "blockAddrOf c' = blockAddrOf c" "tagOf c' = tagOf c" "setIndexOf c' = setIndexOf c"
    "offsetOf c' = offsetOf c"
  using assms by (auto simp: fun_eq_iff blockAddrOf_def tagOf_def setIndexOf_def offsetOf_def)

lemma geometry_ok_put_line:
  assumes "geometry_ok c" and "si < sets c" and "w < assoc c"
    and "length (cl_data l) = length (cl_data (line_at c (si, w)))"
  shows "geometry_ok (put_line c (si, w) l)"
proof -
  let ?s = "setsArr c ! si"
  have s: "?s \<in> set (setsArr c)" and lw: "?s ! w \<in> set ?s"
    using assms by (auto simp: geometry_ok_def)
  have l: "length (cl_data l) = drop_bit WordShift (lineBytes c)"
    using assms s lw by (auto simp: geometry_ok_def line_at_def)
  have "\<forall>s\<in>set (setsArr (put_line c (si, w) l)).
      length s = assoc c \<and> (\<forall>l\<in>set s. length (cl_data l) = drop_bit WordShift (lineBytes c))"
    unfolding put_line_def
    using assms(1) s l
    by (auto simp: geometry_ok_def dest!: set_update_memD)
  then show ?thesis using assms(1) by (simp add: geometry_ok_def)
qed

lemma nth_sets_in: "geometry_ok c \<Longrightarrow> si < sets c \<Longrightarrow> length (setsArr c ! si) = assoc c"
  by (auto simp: geometry_ok_def)

lemma geometry_put_sel:
  assumes "geometry_ok c" and "si < sets c" and "w < assoc c"
  shows "line_at (put_line c (si, w) l) q = (if q = (si, w) then l else line_at c q)"
  using assms by (intro line_at_put_line) (auto simp: geometry_ok_def)

definition same_geom :: "'a cache_scheme \<Rightarrow> 'b cache_scheme \<Rightarrow> bool" where
  "same_geom c c' \<longleftrightarrow> lineBytes c' = lineBytes c \<and> offsetBits c' = offsetBits c \<and>
     sets c' = sets c \<and> assoc c' = assoc c \<and> cache_id c' = cache_id c \<and>
     victim_way_lag c' = victim_way_lag c"

lemma same_geom_refl [simp]: "same_geom c c"
  by (simp add: same_geom_def)

lemma same_geom_trans: "same_geom c c' \<Longrightarrow> same_geom c' c'' \<Longrightarrow> same_geom c c''"
  by (simp add: same_geom_def)

lemma same_geom_addr:
  assumes "same_geom c c'"
  shows "blockAddrOf c' = blockAddrOf c" "tagOf c' = tagOf c" "setIndexOf c' = setIndexOf c"
    "offsetOf c' = offsetOf c"
  using assms by (auto simp: same_geom_def intro!: addr_funs_cong)

text \<open>Dropping lines, or changing anything but tags and valid bits, keeps the tags right.\<close>

lemma tags_ok_shrink:
  assumes "tags_ok c" and "same_geom c c'"
    and "\<And>si w. si < sets c \<Longrightarrow> w < assoc c \<Longrightarrow> cl_valid (line_at c' (si, w)) \<Longrightarrow>
      cl_valid (line_at c (si, w)) \<and> cl_tag (line_at c' (si, w)) = cl_tag (line_at c (si, w))"
  shows "tags_ok c'"
  using assms(1) assms(2) assms(3) same_geom_addr [OF assms(2)]
  unfolding tags_ok_def same_geom_def by (metis (no_types, lifting))

lemma contents_cong:
  assumes "same_geom c c'"
    and "\<And>si w. si < sets c \<Longrightarrow> w < assoc c \<Longrightarrow> cl_valid (line_at c' (si, w)) = cl_valid (line_at c (si, w)) \<and>
      cl_tag (line_at c' (si, w)) = cl_tag (line_at c (si, w))"
  shows "contents c' = contents c"
  using assms unfolding contents_def same_geom_def by (intro Collect_cong) metis

lemma contentsI:
  "si < sets c \<Longrightarrow> w < assoc c \<Longrightarrow> cl_valid (line_at c (si, w)) \<Longrightarrow> cl_tag (line_at c (si, w)) \<in> contents c"
  by (auto simp: contents_def)

subsection \<open>Lookup\<close>

definition hit_way :: "'a cache_scheme \<Rightarrow> addr_t \<Rightarrow> nat option" where
  "hit_way c a = first_idx (holds_tag (tagOf c a)) (setsArr c ! setIndexOf c a)"

lemma set_at:
  "geometry_ok c \<Longrightarrow> si < sets c \<Longrightarrow> at (setsArr c) si = Some (setsArr c ! si)"
  by (simp add: geometry_ok_def)

lemma probe_eq: "geometry_ok c \<Longrightarrow> probe c a = Some (hit_way c a \<noteq> None)"
  by (simp add: probe_def hit_way_def set_at setIndexOf_less)

lemma hit_way_Some:
  assumes "geometry_ok c" and "hit_way c a = Some i"
  shows "i < assoc c" and "holds_tag (tagOf c a) (line_at c (setIndexOf c a, i))"
  using assms first_idx_Some [of "holds_tag (tagOf c a)" "setsArr c ! setIndexOf c a" i]
    nth_sets_in [OF assms(1) setIndexOf_less [OF assms(1)], of a]
  by (auto simp: hit_way_def line_at_def)

lemma hit_way_None:
  assumes "geometry_ok c" and "hit_way c a = None" and "w < assoc c"
  shows "\<not> holds_tag (tagOf c a) (line_at c (setIndexOf c a, w))"
  using assms nth_sets_in [OF assms(1) setIndexOf_less [OF assms(1)], of a]
  by (auto simp: hit_way_def line_at_def first_idx_None)

text \<open>A probe hits exactly when the block is among the contents.\<close>

lemma probe_iff_contents:
  assumes "cache_ok c"
  shows "probe c a = Some (blockAddrOf c a \<in> contents c)"
proof -
  have g: "geometry_ok c" and t: "tags_ok c" using assms by (auto simp: cache_ok_def)
  have "hit_way c a \<noteq> None \<longleftrightarrow> blockAddrOf c a \<in> contents c"
  proof
    assume "hit_way c a \<noteq> None"
    then obtain i where i: "hit_way c a = Some i" by auto
    from hit_way_Some [OF g i] setIndexOf_less [OF g, of a] show "blockAddrOf c a \<in> contents c"
      using contentsI [of "setIndexOf c a" c i] by (auto simp: holds_tag_def tagOf_def)
  next
    assume "blockAddrOf c a \<in> contents c"
    then obtain si w where *: "si < sets c" "w < assoc c" "cl_valid (line_at c (si, w))"
      "cl_tag (line_at c (si, w)) = blockAddrOf c a"
      by (auto simp: contents_def)
    with tags_okD(1) [OF t *(1-3)] have "setIndexOf c (blockAddrOf c a) = si" by simp
    then have "si = setIndexOf c a" using setIndexOf_blockAddrOf [OF g] by simp
    with * hit_way_None [OF g, of a w] show "hit_way c a \<noteq> None"
      by (auto simp: holds_tag_def tagOf_def)
  qed
  then show ?thesis by (simp add: probe_eq [OF g])
qed

subsection \<open>Victims\<close>

lemma victim_of_set:
  assumes "geometry_ok c" and "si < sets c"
  shows "\<exists>w<assoc c. (case first_idx (\<lambda>l. \<not> cl_valid l) (setsArr c ! si) of
       Some i \<Rightarrow> Some i | None \<Rightarrow> getVictim (repl_policy c) si (setsArr c ! si)) = Some w"
proof (cases "first_idx (\<lambda>l. \<not> cl_valid l) (setsArr c ! si)")
  case None
  then show ?thesis
    using assms nth_sets_in [OF assms] repl.victim_ex [of "assoc c" "sets c" "repl_policy c" si]
    by (auto simp: geometry_ok_def)
next
  case (Some i)
  then show ?thesis using first_idx_less [OF Some] nth_sets_in [OF assms] by simp
qed

lemma select_victim_ex:
  "geometry_ok c \<Longrightarrow> si < sets c \<Longrightarrow> \<exists>w<assoc c. select_victim c si = Some w"
  using victim_of_set [of c si] by (simp add: select_victim_def set_at)

lemma miss_victim_way_ex:
  assumes "geometry_ok c" and "si < sets c"
  shows "\<exists>w<assoc c. miss_victim_way c si = Some w"
proof -
  let ?v = "if \<not> victim_way_lag c then si else if lag_set_valid c then lag_set_idx c else si"
  have "?v < sets c" using assms by (auto simp: geometry_ok_def)
  then show ?thesis using victim_of_set [OF assms(1), of ?v] assms(1)
    by (simp add: miss_victim_way_def set_at Let_def)
qed

subsection \<open>access\<close>

lemma count_access_sel [simp]:
  "lineBytes (count_access h c) = lineBytes c" "offsetBits (count_access h c) = offsetBits c"
  "sets (count_access h c) = sets c" "assoc (count_access h c) = assoc c"
  "cache_id (count_access h c) = cache_id c" "victim_way_lag (count_access h c) = victim_way_lag c"
  "lag_set_idx (count_access h c) = lag_set_idx c" "lag_set_valid (count_access h c) = lag_set_valid c"
  "setsArr (count_access h c) = setsArr c" "prefetcher (count_access h c) = prefetcher c"
  "repl_policy (count_access h c) = repl_policy c" "cache.more (count_access h c) = cache.more c"
  "line_at (count_access h c) q = line_at c q"
  by (simp_all add: count_access_def line_at_def)

lemma note_lag_sel [simp]:
  "stats (note_lag si c) = stats c"
  "lineBytes (note_lag si c) = lineBytes c" "offsetBits (note_lag si c) = offsetBits c"
  "sets (note_lag si c) = sets c" "assoc (note_lag si c) = assoc c"
  "cache_id (note_lag si c) = cache_id c" "victim_way_lag (note_lag si c) = victim_way_lag c"
  "setsArr (note_lag si c) = setsArr c" "prefetcher (note_lag si c) = prefetcher c"
  "repl_policy (note_lag si c) = repl_policy c" "cache.more (note_lag si c) = cache.more c"
  "line_at (note_lag si c) q = line_at c q"
  by (simp_all add: note_lag_def line_at_def)

lemma geometry_note_lag: "geometry_ok c \<Longrightarrow> si < sets c \<Longrightarrow> geometry_ok (note_lag si c)"
  by (auto simp: geometry_ok_def note_lag_def)

lemma geometry_count_access [simp]: "geometry_ok (count_access h c) = geometry_ok c"
  by (simp add: geometry_ok_def)

lemma miss_victim_way_count [simp]: "miss_victim_way (count_access h c) si = miss_victim_way c si"
  by (simp add: miss_victim_way_def cong: option.case_cong)

text \<open>Everything a lookup leaves alone.\<close>

definition frame :: "nat \<times> nat \<Rightarrow> 'a cache_scheme \<Rightarrow> 'a cache_scheme \<Rightarrow> bool" where
  "frame p c c' \<longleftrightarrow> same_geom c c' \<and> cache.more c' = cache.more c \<and> (\<forall>q. q \<noteq> p \<longrightarrow> line_at c' q = line_at c q)"

lemma frame_refl [simp]: "frame p c c"
  by (simp add: frame_def)

lemma frame_trans: "frame p c c' \<Longrightarrow> frame p c' c'' \<Longrightarrow> frame p c c''"
  by (auto simp: frame_def intro: same_geom_trans)

lemma note_useful_spec:
  assumes g: "geometry_ok c" and b: "si < sets c" "w < assoc c"
  defines "c' \<equiv> note_useful (si, w) c"
  shows "geometry_ok c'" and "frame (si, w) c c'" and "stats c' = stats c"
    and "cl_tag (line_at c' (si, w)) = cl_tag (line_at c (si, w))"
    and "cl_valid (line_at c' (si, w)) = cl_valid (line_at c (si, w))"
    and "cl_dirty (line_at c' (si, w)) = cl_dirty (line_at c (si, w))"
    and "cl_data (line_at c' (si, w)) = cl_data (line_at c (si, w))"
    and "lag_set_idx c' = lag_set_idx c" and "lag_set_valid c' = lag_set_valid c"
proof -
  let ?l = "(line_at c (si, w))\<lparr>cl_is_prefetched := False\<rparr>"
  have pf: "geometry_ok (d\<lparr>prefetcher := x\<rparr>) = geometry_ok d"
      "line_at (d\<lparr>prefetcher := x\<rparr>) q = line_at d q" for d :: "'a cache_scheme" and x q
    by (simp_all add: geometry_ok_def line_at_def)
  have gp: "geometry_ok (put_line c (si, w) ?l)"
    by (rule geometry_ok_put_line [OF g b]) simp
  show "geometry_ok c'" using g gp
    by (simp add: c'_def note_useful_def pf split: option.split)
  show "frame (si, w) c c'" and "stats c' = stats c"
    and "cl_tag (line_at c' (si, w)) = cl_tag (line_at c (si, w))"
    and "cl_valid (line_at c' (si, w)) = cl_valid (line_at c (si, w))"
    and "cl_dirty (line_at c' (si, w)) = cl_dirty (line_at c (si, w))"
    and "cl_data (line_at c' (si, w)) = cl_data (line_at c (si, w))"
    and "lag_set_idx c' = lag_set_idx c" and "lag_set_valid c' = lag_set_valid c"
    by (auto simp: c'_def note_useful_def pf frame_def same_geom_def geometry_put_sel [OF g b]
        split: option.split)
qed

lemma access_hit_spec:
  assumes g: "geometry_ok c" and b: "si < sets c" "w < assoc c"
  shows "\<exists>c'. access_hit now si w c = Some (c', (si, w)) \<and> geometry_ok c' \<and> frame (si, w) c c' \<and>
     cl_tag (line_at c' (si, w)) = cl_tag (line_at c (si, w)) \<and>
     cl_valid (line_at c' (si, w)) = cl_valid (line_at c (si, w)) \<and>
     cl_dirty (line_at c' (si, w)) = cl_dirty (line_at c (si, w)) \<and>
     cl_data (line_at c' (si, w)) = cl_data (line_at c (si, w)) \<and>
     stats c' = stats (count_access True c)"
proof -
  define c1 where "c1 = note_lag si (count_access True c)"
  have g1: "geometry_ok c1" by (simp add: c1_def g b geometry_note_lag)
  have s1: "sets c1 = sets c" "assoc c1 = assoc c" by (simp_all add: c1_def)
  from g1 b s1 have ri: "repl_inv (assoc c1) (sets c1) (repl_policy c1)" by (simp add: geometry_ok_def)
  with repl.hit_ex [OF ri, of si w now "line_at c1 (si, w)"] b s1 obtain rp l where
    h: "onHit now (repl_policy c1) si w (line_at c1 (si, w)) = Some (rp, l)"
      "repl_inv (assoc c1) (sets c1) rp" "same_but_stamp (line_at c1 (si, w)) l" by auto
  note l = same_but_stamp_sel [OF h(3)]
  define c2 where "c2 = c1\<lparr>repl_policy := rp\<rparr>"
  have g2: "geometry_ok c2" using g1 h(2) by (simp add: c2_def geometry_ok_def)
  have l2: "line_at c2 q = line_at c q" for q by (simp add: c2_def c1_def line_at_def)
  define c3 where "c3 = put_line c2 (si, w) l"
  have b2: "si < sets c2" "w < assoc c2" using b by (simp_all add: c2_def s1)
  have l1: "line_at c1 q = line_at c q" for q by (simp add: c1_def)
  have g3: "geometry_ok c3"
    unfolding c3_def by (rule geometry_ok_put_line [OF g2 b2]) (simp add: l2 l l1)
  have f3: "frame (si, w) c c3"
    by (auto simp: frame_def same_geom_def c3_def geometry_put_sel [OF g2 b2] l2)
      (simp_all add: c2_def c1_def)
  have b3: "si < sets c3" "w < assoc c3" using b2 by (simp_all add: c3_def)
  note nu = note_useful_spec [OF g3 b3]
  have l3: "line_at c3 (si, w) = l" by (simp add: c3_def geometry_put_sel [OF g2 b2])
  have "access_hit now si w c = Some (note_useful (si, w) c3, (si, w))"
    using h(1) by (simp add: access_hit_def Let_def c1_def c2_def c3_def)
  moreover have "stats c3 = stats (count_access True c)" by (simp add: c3_def c2_def c1_def)
  ultimately show ?thesis
    using nu l l1 frame_trans [OF f3 nu(2)] by (auto simp: l3)
qed

lemma access_miss_spec:
  assumes g: "geometry_ok c" and b: "si < sets c" and v: "miss_victim_way c si = Some w"
  shows "\<exists>c'. access_miss si c = Some (c', (si, w)) \<and> w < assoc c \<and> geometry_ok c' \<and> frame (si, w) c c' \<and>
     line_at c' (si, w) = invalidate (line_at c (si, w)) \<and> stats c' = stats (count_access False c)"
proof -
  have w: "w < assoc c" using miss_victim_way_ex [OF g b] v by auto
  define c1 where "c1 = note_lag si (count_access False c)"
  have g1: "geometry_ok c1" by (simp add: c1_def g b geometry_note_lag)
  have b1: "si < sets c1" "w < assoc c1" by (simp_all add: c1_def b w)
  let ?c' = "put_line c1 (si, w) (invalidate (line_at c (si, w)))"
  have "access_miss si c = Some (?c', (si, w))"
    using v w b g nth_sets_in [OF g b]
    by (simp add: access_miss_def Let_def set_at c1_def line_at_def)
  moreover have "geometry_ok ?c'"
    by (rule geometry_ok_put_line [OF g1 b1]) (simp add: c1_def)
  moreover have "frame (si, w) c ?c'"
    by (auto simp: frame_def same_geom_def geometry_put_sel [OF g1 b1]) (simp_all add: c1_def)
  moreover have "line_at ?c' (si, w) = invalidate (line_at c (si, w))" "stats ?c' = stats (count_access False c)"
    by (simp_all add: geometry_put_sel [OF g1 b1] del: line_defs) (simp_all add: c1_def)
  ultimately show ?thesis using w by blast
qed

text \<open>
  access on a well-formed cache: it never aborts, it counts one access as a hit or a
  miss, it returns the line of the block on a hit and an invalidated way of the right
  set on a miss, and every other line keeps its state.
\<close>

lemma access_hit_case:
  assumes g: "geometry_ok c" and i: "hit_way c a = Some i"
  shows "\<exists>c' p. access now a c = Some (c', p) \<and> p = (setIndexOf c a, i) \<and> i < assoc c \<and>
     geometry_ok c' \<and> frame p c c' \<and> holds_tag (tagOf c a) (line_at c' p) \<and>
     cl_tag (line_at c' p) = cl_tag (line_at c p) \<and> cl_valid (line_at c' p) = cl_valid (line_at c p) \<and>
     cl_dirty (line_at c' p) = cl_dirty (line_at c p) \<and> cl_data (line_at c' p) = cl_data (line_at c p) \<and>
     stats c' = stats (count_access True c)"
proof -
  note ia = hit_way_Some [OF g i]
  note si = setIndexOf_less [OF g, of a]
  have "access now a c = access_hit now (setIndexOf c a) i c"
    using i by (simp add: access_def hit_way_def Let_def set_at [OF g si])
  with access_hit_spec [OF g si ia(1), of now] ia show ?thesis
    by (auto simp: holds_tag_def)
qed

lemma access_miss_case:
  assumes g: "geometry_ok c" and i: "hit_way c a = None"
  shows "\<exists>c' w. access now a c = Some (c', (setIndexOf c a, w)) \<and> w < assoc c \<and>
     miss_victim_way c (setIndexOf c a) = Some w \<and> geometry_ok c' \<and>
     frame (setIndexOf c a, w) c c' \<and>
     line_at c' (setIndexOf c a, w) = invalidate (line_at c (setIndexOf c a, w)) \<and>
     stats c' = stats (count_access False c)"
proof -
  note si = setIndexOf_less [OF g, of a]
  obtain v where v: "miss_victim_way c (setIndexOf c a) = Some v"
    using miss_victim_way_ex [OF g si] by auto
  have "access now a c = access_miss (setIndexOf c a) c"
    using i by (simp add: access_def hit_way_def Let_def set_at [OF g si])
  with access_miss_spec [OF g si v] v show ?thesis by auto
qed

lemma frame_geom: "frame p c c' \<Longrightarrow> same_geom c c'"
  by (simp add: frame_def)

lemma frame_line: "frame p c c' \<Longrightarrow> q \<noteq> p \<Longrightarrow> line_at c' q = line_at c q"
  unfolding frame_def by blast

lemma access_ok:
  assumes ok: "cache_ok c"
  shows "\<exists>c' p. access now a c = Some (c', p) \<and> cache_ok c' \<and> same_geom c c' \<and>
     cache.more c' = cache.more c \<and> fst p = setIndexOf c a \<and> snd p < assoc c \<and>
     (if blockAddrOf c a \<in> contents c
      then holds_tag (tagOf c a) (line_at c' p) \<and> contents c' = contents c \<and>
           stats c' = stats (count_access True c)
      else \<not> cl_valid (line_at c' p) \<and>
           contents c' = contents c - (if cl_valid (line_at c p) then {cl_tag (line_at c p)} else {}) \<and>
           stats c' = stats (count_access False c))"
proof -
  have g: "geometry_ok c" and t: "tags_ok c" using ok by (auto simp: cache_ok_def)
  have pr: "hit_way c a \<noteq> None \<longleftrightarrow> blockAddrOf c a \<in> contents c"
    using probe_iff_contents [OF ok, of a] probe_eq [OF g, of a] by simp
  show ?thesis
  proof (cases "hit_way c a")
    case (Some i)
    from access_hit_case [OF g Some, of now] obtain c' p where
      c': "access now a c = Some (c', p)" "p = (setIndexOf c a, i)" "i < assoc c" "geometry_ok c'"
        "frame p c c'" "holds_tag (tagOf c a) (line_at c' p)"
        "cl_tag (line_at c' p) = cl_tag (line_at c p)" "cl_valid (line_at c' p) = cl_valid (line_at c p)"
        "stats c' = stats (count_access True c)" by auto
    have same: "cl_valid (line_at c' q) = cl_valid (line_at c q) \<and> cl_tag (line_at c' q) = cl_tag (line_at c q)" for q
      using c'(7,8) frame_line [OF c'(5), of q] by (cases "q = p") auto
    have "tags_ok c'" by (rule tags_ok_shrink [OF t frame_geom [OF c'(5)]]) (simp add: same)
    moreover have "contents c' = contents c" by (rule contents_cong [OF frame_geom [OF c'(5)]]) (simp add: same)
    ultimately show ?thesis using c' pr Some by (auto simp: cache_ok_def frame_def)
  next
    case None
    from access_miss_case [OF g None, of now] obtain c' w where
      c': "access now a c = Some (c', (setIndexOf c a, w))" "w < assoc c" "geometry_ok c'"
        "frame (setIndexOf c a, w) c c'"
        "line_at c' (setIndexOf c a, w) = invalidate (line_at c (setIndexOf c a, w))"
        "stats c' = stats (count_access False c)" by auto
    let ?p = "(setIndexOf c a, w)"
    note fl = frame_line [OF c'(4)] and gm = frame_geom [OF c'(4)]
    have inv: "\<not> cl_valid (line_at c' ?p)" by (simp add: c'(5))
    have old: "cl_valid (line_at c' q) \<Longrightarrow> line_at c' q = line_at c q" for q
      using inv fl [of q] by (cases "q = ?p") auto
    have "tags_ok c'" by (rule tags_ok_shrink [OF t gm]) (metis old)
    moreover have "contents c' = contents c - (if cl_valid (line_at c ?p) then {cl_tag (line_at c ?p)} else {})"
    proof (rule set_eqI, rule iffI)
      fix x assume "x \<in> contents c'"
      then obtain si v where v: "si < sets c" "v < assoc c" "cl_valid (line_at c' (si, v))"
        "x = cl_tag (line_at c' (si, v))" using gm by (auto simp: contents_def same_geom_def)
      with old have o: "line_at c' (si, v) = line_at c (si, v)" by blast
      have "cl_valid (line_at c ?p) \<Longrightarrow> x \<noteq> cl_tag (line_at c ?p)"
      proof
        assume vp: "cl_valid (line_at c ?p)" and x: "x = cl_tag (line_at c ?p)"
        from tags_okD(1) [OF t setIndexOf_less [OF g] c'(2) vp] tags_okD(1) [OF t v(1,2)] v x o
        have "si = setIndexOf c a" by simp
        with tags_ok_inj [OF t setIndexOf_less [OF g] c'(2) v(2) vp] v x o have "v = w" by simp
        with \<open>si = setIndexOf c a\<close> v(3) inv show False by simp
      qed
      with v o show "x \<in> contents c - (if cl_valid (line_at c ?p) then {cl_tag (line_at c ?p)} else {})"
        using contentsI [OF v(1,2)] by auto
    next
      fix x assume x: "x \<in> contents c - (if cl_valid (line_at c ?p) then {cl_tag (line_at c ?p)} else {})"
      then obtain si v where v: "si < sets c" "v < assoc c" "cl_valid (line_at c (si, v))"
        "x = cl_tag (line_at c (si, v))" by (auto simp: contents_def)
      with x have "(si, v) \<noteq> ?p" by auto
      with fl v gm show "x \<in> contents c'"
        using contentsI [of si c' v] by (auto simp: same_geom_def)
    qed
    ultimately show ?thesis using c' inv pr None gm by (auto simp: cache_ok_def frame_def)
  qed
qed

subsection \<open>Installing a block\<close>

definition old_block :: "'a cache_scheme \<Rightarrow> nat \<times> nat \<Rightarrow> addr_t set" where
  "old_block c p = (if cl_valid (line_at c p) then {cl_tag (line_at c p)} else {})"

text \<open>
  Writing a line of the block into a way of its set, when the block is not cached yet,
  keeps the tag arrays right, adds the block and drops what the way held.
\<close>

lemma install_block:
  assumes g: "geometry_ok c" and t: "tags_ok c" and new: "blockAddrOf c a \<notin> contents c"
    and w: "w < assoc c" and gm: "frame (setIndexOf c a, w) c c'" "geometry_ok c'"
    and l: "cl_valid (line_at c' (setIndexOf c a, w))" "cl_tag (line_at c' (setIndexOf c a, w)) = blockAddrOf c a"
  shows "tags_ok c'" and "contents c' = insert (blockAddrOf c a) (contents c - old_block c (setIndexOf c a, w))"
proof -
  let ?p = "(setIndexOf c a, w)"
  note si = setIndexOf_less [OF g, of a]
  note fl = frame_line [OF gm(1)] and sg = frame_geom [OF gm(1)]
  note ad = same_geom_addr [OF sg]
  have dims: "sets c' = sets c" "assoc c' = assoc c" using sg by (simp_all add: same_geom_def)
  show "tags_ok c'"
    unfolding tags_ok_def dims ad
  proof (intro conjI allI impI)
    fix sj v assume *: "sj < sets c" "v < assoc c" "cl_valid (line_at c' (sj, v))"
    show "setIndexOf c (cl_tag (line_at c' (sj, v))) = sj"
      using * l(2) fl [of "(sj, v)"] tags_okD(1) [OF t *(1,2)] setIndexOf_blockAddrOf [OF g, of a]
      by (cases "(sj, v) = ?p") auto
    show "blockAddrOf c (cl_tag (line_at c' (sj, v))) = cl_tag (line_at c' (sj, v))"
      using * l(2) fl [of "(sj, v)"] tags_okD(2) [OF t *(1,2)] blockAddrOf_idem [OF g, of a]
      by (cases "(sj, v) = ?p") auto
  next
    fix sj v v' assume *: "sj < sets c" "v < assoc c" "v' < assoc c"
      and e: "cl_valid (line_at c' (sj, v)) \<and> cl_valid (line_at c' (sj, v')) \<and>
        cl_tag (line_at c' (sj, v)) = cl_tag (line_at c' (sj, v'))"
    have ne: "u < assoc c \<Longrightarrow> (sj, u) \<noteq> ?p \<Longrightarrow> cl_valid (line_at c' (sj, u)) \<Longrightarrow>
        cl_tag (line_at c' (sj, u)) \<noteq> blockAddrOf c a" for u
      using fl [of "(sj, u)"] contentsI [OF *(1), of u] new by metis
    show "v = v'"
    proof (cases "(sj, v) = ?p \<or> (sj, v') = ?p")
      case True
      with ne [OF *(2)] ne [OF *(3)] e l(2) show ?thesis by (cases "v = v'") auto
    next
      case False
      with e fl [of "(sj, v)"] fl [of "(sj, v')"] tags_ok_inj [OF t *] show ?thesis by simp
    qed
  qed
  show "contents c' = insert (blockAddrOf c a) (contents c - old_block c ?p)"
  proof (rule set_eqI, rule iffI)
    fix x assume "x \<in> contents c'"
    then obtain sj v where v: "sj < sets c" "v < assoc c" "cl_valid (line_at c' (sj, v))"
      "x = cl_tag (line_at c' (sj, v))" using dims by (auto simp: contents_def)
    show "x \<in> insert (blockAddrOf c a) (contents c - old_block c ?p)"
    proof (cases "(sj, v) = ?p")
      case True
      with v l(2) show ?thesis by simp
    next
      case False
      with fl v have o: "line_at c' (sj, v) = line_at c (sj, v)" by blast
      have "x \<notin> old_block c ?p"
      proof
        assume "x \<in> old_block c ?p"
        then have vp: "cl_valid (line_at c ?p)" and x: "x = cl_tag (line_at c ?p)"
          by (auto simp: old_block_def split: if_splits)
        from tags_okD(1) [OF t si w vp] tags_okD(1) [OF t v(1,2)] v x o
        have "sj = setIndexOf c a" by simp
        with tags_ok_inj [OF t si w v(2) vp] v x o False show False by simp
      qed
      with v o show ?thesis using contentsI [OF v(1,2)] by auto
    qed
  next
    fix x assume x: "x \<in> insert (blockAddrOf c a) (contents c - old_block c ?p)"
    show "x \<in> contents c'"
    proof (cases "x = blockAddrOf c a")
      case True
      then show ?thesis using contentsI [of "setIndexOf c a" c' w] l si w dims by simp
    next
      case False
      with x obtain sj v where v: "sj < sets c" "v < assoc c" "cl_valid (line_at c (sj, v))"
        "x = cl_tag (line_at c (sj, v))" "x \<notin> old_block c ?p" by (auto simp: contents_def)
      then have "(sj, v) \<noteq> ?p" by (auto simp: old_block_def)
      with fl v dims show ?thesis using contentsI [of sj c' v] by auto
    qed
  qed
qed

lemma handle_fill_spec:
  assumes g: "geometry_ok c" and w: "w < assoc c"
  shows "\<exists>c'. handle_fill now (setIndexOf c a, w) a ret c = Some c' \<and> geometry_ok c' \<and>
     frame (setIndexOf c a, w) c c' \<and> stats c' = stats c \<and> prefetcher c' = prefetcher c \<and>
     cl_valid (line_at c' (setIndexOf c a, w)) \<and> \<not> cl_dirty (line_at c' (setIndexOf c a, w)) \<and>
     cl_tag (line_at c' (setIndexOf c a, w)) = tagOf c a \<and>
     lag_set_idx c' = lag_set_idx c \<and> lag_set_valid c' = lag_set_valid c"
proof -
  let ?p = "(setIndexOf c a, w)"
  note si = setIndexOf_less [OF g, of a]
  have ri: "repl_inv (assoc c) (sets c) (repl_policy c)" using g by (simp add: geometry_ok_def)
  define l0 where "l0 = setTag (tagOf c a) (activate now (line_at c ?p))"
  from repl.fill_ex [OF ri si w, of now l0] obtain rp l where
    f: "onFill now (repl_policy c) (setIndexOf c a) w l0 = Some (rp, l)"
      "repl_inv (assoc c) (sets c) rp" "same_but_stamp l0 l" by auto
  note l = same_but_stamp_sel [OF f(3)]
  define c1 where "c1 = c\<lparr>repl_policy := rp\<rparr>"
  have g1: "geometry_ok c1" using g f(2) by (simp add: c1_def geometry_ok_def)
  have l1: "line_at c1 q = line_at c q" for q by (simp add: c1_def line_at_def)
  have b1: "setIndexOf c a < sets c1" "w < assoc c1" using si w by (simp_all add: c1_def)
  let ?c' = "put_line c1 ?p l"
  have "handle_fill now ?p a ret c = Some ?c'"
    using f(1) nth_sets_in [OF g si] w
    by (simp add: handle_fill_def Let_def set_at [OF g si] l0_def c1_def)
  moreover have "geometry_ok ?c'"
    by (rule geometry_ok_put_line [OF g1 b1]) (simp add: l l1 l0_def)
  moreover have "frame ?p c ?c'"
    by (auto simp: frame_def same_geom_def geometry_put_sel [OF g1 b1] l1) (simp_all add: c1_def)
  ultimately show ?thesis
    by (auto simp: geometry_put_sel [OF g1 b1] l l0_def) (simp_all add: c1_def)
qed

lemma handle_fill_ok:
  assumes ok: "cache_ok c" and w: "w < assoc c" and new: "blockAddrOf c a \<notin> contents c"
    and inv: "\<not> cl_valid (line_at c (setIndexOf c a, w))"
  shows "\<exists>c'. handle_fill now (setIndexOf c a, w) a ret c = Some c' \<and> cache_ok c' \<and>
     same_geom c c' \<and> cache.more c' = cache.more c \<and> stats c' = stats c \<and>
     holds_tag (tagOf c a) (line_at c' (setIndexOf c a, w)) \<and>
     contents c' = insert (blockAddrOf c a) (contents c)"
proof -
  have g: "geometry_ok c" and t: "tags_ok c" using ok by (auto simp: cache_ok_def)
  from handle_fill_spec [OF g w, of now a ret] obtain c' where
    c': "handle_fill now (setIndexOf c a, w) a ret c = Some c'" "geometry_ok c'"
      "frame (setIndexOf c a, w) c c'" "stats c' = stats c"
      "cl_valid (line_at c' (setIndexOf c a, w))" "cl_tag (line_at c' (setIndexOf c a, w)) = tagOf c a" by blast
  from install_block [OF g t new w c'(3,2,5)] c'(6) inv
  have "tags_ok c'" "contents c' = insert (blockAddrOf c a) (contents c)"
    by (auto simp: tagOf_def old_block_def)
  with c' show ?thesis by (auto simp: cache_ok_def frame_def holds_tag_def)
qed

section \<open>A new cache\<close>

lemma floorLog2_from_pow2: "floorLog2_from (2 ^ k) = k"
proof (induction k)
  case 0
  then show ?case by (simp add: floorLog2_from.simps)
next
  case (Suc k)
  then show ?case by (subst floorLog2_from.simps) (use one_le_power [of "2 :: nat" k] in linarith | simp)+
qed

lemma new_cache_ok:
  assumes c: "new_cache size_bytes line_bytes asc pf cid rp lag = Some c" and lb: "line_bytes < 2 ^ 32"
    and rp: "case rp of None \<Rightarrow> asc \<in> {1, 2, 4} | Some q \<Rightarrow> repl_inv asc (size_bytes div (line_bytes * asc)) q"
  shows "cache_ok c" and "contents c = {}" and "lineBytes c = line_bytes" and "assoc c = asc"
    and "sets c * assoc c * lineBytes c = size_bytes" and "cache_id c = cid"
proof -
  have h: "line_bytes * asc \<noteq> 0" "size_bytes mod (line_bytes * asc) = 0" "isPowerOf2 line_bytes"
      "1 < size_bytes div (line_bytes * asc)" "isPowerOf2 (size_bytes div (line_bytes * asc))"
    using c by (auto simp: new_cache_def Let_def)
  obtain k where k: "line_bytes = 2 ^ k" using h(3) pow2_and by (auto simp: isPowerOf2_def)
  obtain j where j: "size_bytes div (line_bytes * asc) = 2 ^ j" using h(5) pow2_and by (auto simp: isPowerOf2_def)
  have k32: "k < 32" using lb unfolding k by (rule power_less_imp_less_exp [rotated]) simp
  have j0: "0 < j" using h(4) j by (cases j) auto
  have asc: "0 < asc" using h(1) by simp
  obtain pol where pol: "(case rp of None \<Rightarrow> make_repl_policy ''plru'' asc (2 ^ j) | Some q \<Rightarrow> Some q) = Some pol"
    using c j by (auto simp: new_cache_def Let_def split: option.splits)
  have ri: "repl_inv asc (2 ^ j) pol"
    using pol rp j make_repl_policy_inv [of "''plru''" asc "2 ^ j" pol] asc by (auto split: option.splits)
  have fl: "floorLog2 line_bytes = Some k" by (simp add: floorLog2_def k floorLog2_from_pow2)
  have eq: "c = \<lparr>stats = \<lparr>cs_accesses = 0, cs_hits = 0, cs_misses = 0\<rparr>,
           lineBytes = line_bytes, offsetBits = k, sets = 2 ^ j, assoc = asc,
           cache_id = cid, victim_way_lag = lag, lag_set_idx = 0, lag_set_valid = False,
           setsArr = replicate (2 ^ j) (replicate asc (new_line line_bytes)),
           prefetcher = map_option (setBlockSize line_bytes) pf, repl_policy = pol\<rparr>"
    using c fl pol j by (auto simp: new_cache_def Let_def simp del: at_eq_Some)
  have inval: "\<not> cl_valid (line_at c (si, w))" if "si < 2 ^ j" "w < asc" for si w
    using that by (simp add: eq line_at_def new_line_def)
  have "geometry_ok c" using k k32 j0 asc ri by (auto simp: geometry_ok_def eq new_line_def)
  then show "cache_ok c" using inval by (simp add: cache_ok_def tags_ok_def eq)
  show "contents c = {}" using inval by (auto simp: contents_def eq)
  show "lineBytes c = line_bytes" "assoc c = asc" "cache_id c = cid" by (simp_all add: eq)
  show "sets c * assoc c * lineBytes c = size_bytes"
    using h(2) j by (simp add: eq) (metis mult.commute mod_0_imp_dvd dvd_div_mult_self mult.left_commute)
qed

end
