(* ===== verification/PipeCache.thy ===== *)
theory PipeCache
  imports CacheCore
begin

text \<open>
  PipeCache of src/cacheSim/CacheBase.hh and .cc: the pipelined L1 cache (the
  instruction cache is write-through and only ever read, the data cache is
  write-back). Every operation returns the new state and the events it sent to
  the CPU side and to the memory side, in order. The receivers of these events never
  call back into the cache that sends them, so delivering them after the operation
  is the same as delivering them at once.
\<close>

section \<open>State\<close>

record pipe_entry =
  pe_addr :: addr_t
  pe_line :: "(nat \<times> nat) option"
  pe_mop :: mop
  pe_wrstrb :: "8 word"
  pe_wrdata :: word_t

record pipe_cache = cache +
  pipe :: "pipe_entry option list"
  pipe_depth :: nat
  sram_dff :: bool
  write_back :: bool
  cwf :: bool
  wb_hit_resp_delay :: nat
  r_waiting :: bool
  w_waiting :: bool
  is_shifted :: bool
  is_replay :: bool
  pending_flush :: bool
  pending_fill_req :: bool
  pending_evict :: bool
  evict_addr :: addr_t
  evict_data :: "word_t list"
  blocked_until :: tick_t
  sched_hit_time :: tick_t
  sched_hit_resp :: cpu_trans

definition new_pipe_cache :: "nat \<Rightarrow> nat \<Rightarrow> nat \<Rightarrow> nat \<Rightarrow> prefetcher option \<Rightarrow> nat \<Rightarrow> bool \<Rightarrow> bool \<Rightarrow> bool \<Rightarrow>
    nat \<Rightarrow> repl option \<Rightarrow> pipe_cache option" where
  "new_pipe_cache depth size_bytes line_bytes asc pf cid dff wb cw delay rp = do {
     c \<leftarrow> new_cache size_bytes line_bytes asc pf cid rp (wb \<and> asc > 1);
     Some (cache.extend c
       \<lparr>pipe = replicate depth None, pipe_depth = depth, sram_dff = dff, write_back = wb,
        cwf = cw, wb_hit_resp_delay = delay, r_waiting = False, w_waiting = False,
        is_shifted = True, is_replay = False, pending_flush = False,
        pending_fill_req = False, pending_evict = False, evict_addr = 0, evict_data = [],
        blocked_until = 0, sched_hit_time = InfTime, sched_hit_resp = cpu_msg 0 0 0 Read\<rparr>) }"

section \<open>Requests from the CPU side\<close>

definition pc_is_ready :: "pipe_cache \<Rightarrow> bool \<times> bool" where
  "pc_is_ready c =
     (let r0 = is_shifted c \<and> \<not> pending_flush c;
          r = (if write_back c
               then r0 \<and> \<not> r_waiting c \<and> \<not> w_waiting c \<and> \<not> pending_fill_req c
                    \<and> \<not> is_replay c \<and> sched_hit_time c = InfTime
               else r0);
          w = (if write_back c then r else \<not> pending_flush c \<and> \<not> w_waiting c)
      in (r, w))"

text \<open>Putting a request into the first stage of the pipe (pipe\_.front()).\<close>

definition enter_pipe :: "tick_t \<Rightarrow> pipe_entry \<Rightarrow> pipe_cache \<Rightarrow> pipe_cache option" where
  "enter_pipe now req c = do {
     assert_that (is_shifted c);
     f \<leftarrow> at (pipe c) 0;
     assert_that (f = None);
     Some (c\<lparr>pipe := (pipe c)[0 := Some req], blocked_until := now + 1, is_shifted := False\<rparr>) }"

definition pc_read_req :: "tick_t \<Rightarrow> addr_t \<Rightarrow> pipe_cache \<Rightarrow> pipe_cache option" where
  "pc_read_req now addr c =
     enter_pipe now \<lparr>pe_addr = addr, pe_line = None, pe_mop = Read, pe_wrstrb = 0, pe_wrdata = 0\<rparr> c"

text \<open>A store merges its bytes into a word under the strobe.\<close>

definition merge_word :: "8 word \<Rightarrow> word_t \<Rightarrow> word_t \<Rightarrow> word_t" where
  "merge_word strb old new = (NOT (strbExtend strb) AND old) OR (strbExtend strb AND new)"

definition write_through :: "tick_t \<Rightarrow> addr_t \<Rightarrow> word_t \<Rightarrow> 8 word \<Rightarrow> pipe_cache \<Rightarrow> (pipe_cache \<times> cache_event list) option" where
  "write_through now addr data strb c = do {
     present \<leftarrow> probe c addr;
     c1 \<leftarrow> (if present then do {
              (c0, p) \<leftarrow> access now addr c;
              if cl_valid (line_at c0 p) then do {
                w \<leftarrow> atAligned (line_at c0 p) (offsetOf c0 addr);
                l \<leftarrow> putAligned (line_at c0 p) (offsetOf c0 addr) (merge_word strb w data);
                Some (put_line c0 p l) }
              else Some c0 }
            else Some c);
     Some (c1\<lparr>w_waiting := True\<rparr>,
           [MemReq (mem_req Write addr (cache_id c) 1 [data] [strb]),
            CpuResp (cpu_msg addr 0 (cache_id c) Write)]) }"

definition pc_write_req :: "tick_t \<Rightarrow> addr_t \<Rightarrow> word_t \<Rightarrow> 8 word \<Rightarrow> pipe_cache \<Rightarrow> (pipe_cache \<times> cache_event list) option" where
  "pc_write_req now addr data strb c =
     (if write_back c then do {
        c' \<leftarrow> enter_pipe now \<lparr>pe_addr = addr, pe_line = None, pe_mop = Write,
                               pe_wrstrb = strb, pe_wrdata = data\<rparr> c;
        Some (c', []) }
      else write_through now addr data strb c)"

definition pc_flush_all :: "pipe_cache \<Rightarrow> pipe_cache" where
  "pc_flush_all c = c\<lparr>pending_flush := True\<rparr>"

definition pc_pollute :: "tick_t \<Rightarrow> addr_t \<Rightarrow> pipe_cache \<Rightarrow> pipe_cache option" where
  "pc_pollute now addr c = do {
     present \<leftarrow> probe c addr;
     if present then Some c
     else do {
       (c', p) \<leftarrow> access now addr c;
       Some (put_line c' p (activate now (line_at c' p))) } }"

section \<open>Responses from the memory side\<close>

definition pc_recv_mem_resp :: "tick_t \<Rightarrow> mem_trans \<Rightarrow> pipe_cache \<Rightarrow> pipe_cache option" where
  "pc_recv_mem_resp now t c =
     (if mt_mop t = Read then do {
        assert_that (r_waiting c);
        assert_that (pipe c \<noteq> []);
        bk \<leftarrow> last (pipe c);
        p \<leftarrow> pe_line bk;
        c' \<leftarrow> handle_fill now p (mt_addr t) (mt_data t) (c\<lparr>r_waiting := False\<rparr>);
        Some (c'\<lparr>blocked_until := now + (if cwf c then 1 else if write_back c then 2 else 1)\<rparr>) }
      else do {
        assert_that (w_waiting c);
        let c' = c\<lparr>w_waiting := False\<rparr>;
        Some (if \<not> write_back c then c'\<lparr>blocked_until := now + 2\<rparr> else c') })"

section \<open>The cycle of the pipe\<close>

text \<open>
  handle\_hit: a read answers with the word of the line; a write answers with its own
  word (dt is a reference to the word of the request in that case, so the line keeps its
  data) and marks the line dirty. The answer leaves at once or after the delay.
\<close>

definition respond :: "tick_t \<Rightarrow> cpu_trans \<Rightarrow> pipe_cache \<Rightarrow> pipe_cache \<times> cache_event list" where
  "respond now msg c =
     (if write_back c \<and> wb_hit_resp_delay c \<noteq> 0
      then (c\<lparr>sched_hit_resp := msg, sched_hit_time := now + wb_hit_resp_delay c\<rparr>, [])
      else (c, [CpuResp msg]))"

definition handle_hit :: "tick_t \<Rightarrow> pipe_entry \<Rightarrow> nat \<times> nat \<Rightarrow> pipe_cache \<Rightarrow> (pipe_cache \<times> cache_event list) option" where
  "handle_hit now bk p c0 = do {
     let c = c0\<lparr>blocked_until := now + 1\<rparr>;
     if pe_mop bk = Read then do {
       dt \<leftarrow> atAligned (line_at c p) (offsetOf c (pe_addr bk));
       Some (respond now (cpu_msg (pe_addr bk) dt (cache_id c) Read) c) }
     else do {
       let dt = merge_word (pe_wrstrb bk) (pe_wrdata bk) (pe_wrdata bk);
       let c' = put_line c p (setDirty (line_at c p));
       Some (respond now (cpu_msg (pe_addr bk) dt (cache_id c) Write) c') } }"

text \<open>The victim that the next miss in the set of the address would evict.\<close>

definition save_evict_info :: "addr_t \<Rightarrow> pipe_cache \<Rightarrow> pipe_cache option" where
  "save_evict_info req_addr c0 = do {
     let c = c0\<lparr>pending_evict := False\<rparr>;
     if \<not> write_back c then Some c
     else do {
       let si = setIndexOf c req_addr;
       set \<leftarrow> at (setsArr c) si;
       v \<leftarrow> miss_victim_way c si;
       assert_that (assoc c \<noteq> 0);
       it \<leftarrow> at set (v mod assoc c);
       if cl_valid it \<and> cl_dirty it then do {
         let nwords = lineBytes c div word_bytes;
         ws \<leftarrow> those (map (\<lambda>i. atAligned it (i * word_bytes)) [0..<nwords]);
         Some (c\<lparr>pending_evict := True, evict_addr := cl_tag it, evict_data := ws\<rparr>) }
       else Some c } }"

definition handle_prefetch :: "tick_t \<Rightarrow> addr_t \<Rightarrow> bool \<Rightarrow> pipe_cache \<Rightarrow> (pipe_cache \<times> bool) option" where
  "handle_prefetch now addr is_hit c =
     (case prefetcher c of
        None \<Rightarrow> Some (c, False)
      | Some pf \<Rightarrow>
          (case pf_probe pf addr is_hit of
             (None, pf') \<Rightarrow> Some (c\<lparr>prefetcher := Some pf'\<rparr>, False)
           | (Some paddr, pf') \<Rightarrow> do {
               let c1 = c\<lparr>prefetcher := Some pf'\<rparr>;
               let si = setIndexOf c1 paddr;
               set \<leftarrow> at (setsArr c1) si;
               if first_idx (holds_tag (tagOf c1 paddr)) set \<noteq> None then Some (c1, False)
               else do {
                 let c2 = c1\<lparr>prefetcher := Some (pf'\<lparr>prefetch_issued := prefetch_issued pf' + 1\<rparr>)\<rparr>;
                 way \<leftarrow> select_victim c2 si;
                 let l0 = activate now (setTag (tagOf c2 paddr) (line_at c2 (si, way)));
                 (rp, l1) \<leftarrow> onFill now (repl_policy c2) si way l0;
                 Some (put_line (c2\<lparr>repl_policy := rp\<rparr>) (si, way) (l1\<lparr>cl_is_prefetched := True\<rparr>), True) } }))"

text \<open>pipe\_.back() and its replacement.\<close>

definition set_back :: "pipe_entry option \<Rightarrow> pipe_cache \<Rightarrow> pipe_cache" where
  "set_back e c = c\<lparr>pipe := (pipe c)[length (pipe c) - 1 := e]\<rparr>"

definition deliver_sched :: "tick_t \<Rightarrow> pipe_cache \<Rightarrow> pipe_cache \<times> cache_event list" where
  "deliver_sched now c =
     (if sched_hit_time c \<le> now
      then (c\<lparr>sched_hit_time := InfTime\<rparr>, [CpuResp (sched_hit_resp c)])
      else (c, []))"

text \<open>Looking up the line of the last stage, unless an earlier cycle already did.\<close>

definition lookup_back :: "tick_t \<Rightarrow> pipe_entry \<Rightarrow> pipe_cache \<Rightarrow> (pipe_cache \<times> (nat \<times> nat)) option" where
  "lookup_back now bk c =
     (case pe_line bk of
        Some p \<Rightarrow> Some (c, p)
      | None \<Rightarrow> do {
          c1 \<leftarrow> save_evict_info (pe_addr bk) c;
          (c2, p) \<leftarrow> access now (pe_addr bk) c1;
          Some (set_back (Some (bk\<lparr>pe_line := Some p\<rparr>)) c2, p) })"

text \<open>A miss: one cycle to raise the request, then the write-back of a dirty victim, then the fill.\<close>

definition serve_miss :: "tick_t \<Rightarrow> pipe_entry \<Rightarrow> pipe_cache \<Rightarrow> pipe_cache \<times> cache_event list" where
  "serve_miss now bk c =
     (if \<not> pending_fill_req c
      then (c\<lparr>pending_fill_req := True, blocked_until := now + 1\<rparr>, [])
      else if pending_evict c then
        (if w_waiting c then (c\<lparr>blocked_until := now + 1\<rparr>, [])
         else (c\<lparr>w_waiting := True, pending_evict := False, evict_data := [],
                 blocked_until := now + 1\<rparr>,
               [MemReq (mem_req Write (evict_addr c) (cache_id c)
                  (length (evict_data c) mod 2 ^ 16) (evict_data c) [])]))
      else if w_waiting c then (c\<lparr>blocked_until := now + 1\<rparr>, [])
      else (c\<lparr>pending_fill_req := False, r_waiting := True, is_replay := True\<rparr>,
            [MemReq (mem_req Read (pe_addr bk) (cache_id c)
               ((lineBytes c div word_bytes) mod 2 ^ 16) [] [])]))"

text \<open>Serving the last stage; the flag says that the cycle ends here.\<close>

definition serve_target :: "tick_t \<Rightarrow> pipe_cache \<Rightarrow> (bool \<times> pipe_cache \<times> cache_event list) option" where
  "serve_target now c = do {
     assert_that (pipe c \<noteq> []);
     (case last (pipe c) of
        None \<Rightarrow> Some (False, c, [])
      | Some bk \<Rightarrow> do {
          (c1, p) \<leftarrow> lookup_back now bk c;
          assert_that (\<not> is_replay c1 \<or> cl_valid (line_at c1 p));
          let was_miss = is_replay c1;
          let c2 = c1\<lparr>is_replay := False\<rparr>;
          if cl_valid (line_at c2 p) then do {
            (c3, evs) \<leftarrow> handle_hit now bk p c2;
            (c4, _) \<leftarrow> (if pe_mop bk = Read \<and> \<not> r_waiting c3
                        then handle_prefetch now (pe_addr bk) (\<not> was_miss) c3 else Some (c3, False));
            Some (False, set_back None c4, evs) }
          else
            (let (c3, evs) = serve_miss now bk c2 in Some (True, c3, evs)) }) }"

definition handle_flush :: "tick_t \<Rightarrow> pipe_cache \<Rightarrow> pipe_cache" where
  "handle_flush now c =
     c\<lparr>setsArr := map (map invalidate) (setsArr c),
       pipe := map (\<lambda>_. None) (pipe c),
       is_shifted := True, is_replay := False, r_waiting := False, w_waiting := False,
       pending_flush := False, pending_fill_req := False, pending_evict := False,
       sched_hit_time := InfTime, blocked_until := now + 1\<rparr>"

text \<open>The shift loop moves every entry one stage on.\<close>

definition shift_entries :: "'a option list \<Rightarrow> 'a option list" where
  "shift_entries xs = (if length xs \<le> 1 then xs else None # butlast xs)"

definition shift_pipe :: "tick_t \<Rightarrow> pipe_cache \<Rightarrow> (pipe_cache \<times> cache_event list) option" where
  "shift_pipe now c0 = do {
     let c = c0\<lparr>pipe := shift_entries (pipe c0)\<rparr>;
     let done = Some (c\<lparr>is_shifted := True\<rparr>,
                      [CpuAck (ack_msg (cache_id c) Read), CpuAck (ack_msg (cache_id c) Write)]);
     (case last (pipe c) of
        None \<Rightarrow> done
      | Some bk \<Rightarrow>
          if pe_line bk = None then do {
            present \<leftarrow> probe c (pe_addr bk);
            if present then done
            else do {
              c1 \<leftarrow> save_evict_info (pe_addr bk) c;
              (c2, p) \<leftarrow> access now (pe_addr bk) c1;
              Some ((set_back (Some (bk\<lparr>pe_line := Some p\<rparr>)) c2)
                      \<lparr>pending_fill_req := True, blocked_until := now + 1\<rparr>, []) } }
          else done) }"

definition pc_update_impl :: "tick_t \<Rightarrow> pipe_cache \<Rightarrow> (pipe_cache \<times> cache_event list) option" where
  "pc_update_impl now c = do {
     let (c0, e0) = deliver_sched now c;
     (stop, c1, e1) \<leftarrow> serve_target now c0;
     if stop then Some (c1, e0 @ e1)
     else if pending_flush c1 \<and> (\<forall>e\<in>set (pipe c1). e = None) then Some (handle_flush now c1, e0 @ e1)
     else do {
       (c2, e2) \<leftarrow> shift_pipe now c1;
       Some (c2, e0 @ e1 @ e2) } }"

definition pc_next_update :: "pipe_cache \<Rightarrow> tick_t" where
  "pc_next_update c =
     (if r_waiting c \<and> \<not> pending_fill_req c then sched_hit_time c
      else min (blocked_until c) (sched_hit_time c))"

definition pc_do_update :: "tick_t \<Rightarrow> pipe_cache \<Rightarrow> (pipe_cache \<times> cache_event list) option" where
  "pc_do_update now c = (if pc_next_update c \<le> now then pc_update_impl now c else Some (c, []))"

end
