(* ===== verification/Port.thy ===== *)
theory Port
  imports Interface
begin

text \<open>
  The contract of the memory ports: every entry point of a port is an input, a run
  feeds a port a sequence of inputs, and what leaves the port plus what it still holds
  is what it held plus what went in, in order.
\<close>

section \<open>Inputs and runs\<close>

datatype port_in =
    CpuRead tick_t addr_t
  | CpuWrite tick_t addr_t word_t "8 word"
  | MemDone tick_t mem_trans
  | PortTick tick_t
  | FlushAll

fun run_port :: "('i \<Rightarrow> 's \<Rightarrow> ('s \<times> 'e list) option) \<Rightarrow> 'i list \<Rightarrow> 's \<Rightarrow> ('s \<times> 'e list) option" where
  "run_port step [] s = Some (s, [])"
| "run_port step (i # is) s = do {
     (s1, e1) \<leftarrow> step i s;
     (s2, e2) \<leftarrow> run_port step is s1;
     Some (s2, e1 @ e2) }"

text \<open>Every input is fed at a moment when the port accepts it.\<close>

fun run_enabled :: "('s \<Rightarrow> 'i \<Rightarrow> bool) \<Rightarrow> ('i \<Rightarrow> 's \<Rightarrow> ('s \<times> 'e list) option) \<Rightarrow> 'i list \<Rightarrow> 's \<Rightarrow> bool" where
  "run_enabled en step [] s = True"
| "run_enabled en step (i # is) s =
     (en s i \<and> (case step i s of None \<Rightarrow> True | Some (s', _) \<Rightarrow> run_enabled en step is s'))"

section \<open>The contract\<close>

locale fifo_port =
  fixes inv :: "'s \<Rightarrow> bool"
    and enabled :: "'s \<Rightarrow> 'i \<Rightarrow> bool"
    and step :: "'i \<Rightarrow> 's \<Rightarrow> ('s \<times> 'e list) option"
    and ins :: "'i \<Rightarrow> 'a list"
    and out :: "'e \<Rightarrow> 'a list"
    and pend :: "'s \<Rightarrow> 'a list"
  assumes step_ok: "inv s \<Longrightarrow> enabled s i \<Longrightarrow>
    \<exists>s' evs. step i s = Some (s', evs) \<and> inv s' \<and> concat (map out evs) @ pend s' = pend s @ ins i"
begin

lemma run_ok:
  "inv s \<Longrightarrow> run_enabled enabled step is s \<Longrightarrow>
   \<exists>s' evs. run_port step is s = Some (s', evs) \<and> inv s' \<and>
     concat (map out evs) @ pend s' = pend s @ concat (map ins is)"
proof (induction "is" arbitrary: s)
  case (Cons i "is")
  obtain s1 e1 where s1: "step i s = Some (s1, e1)" "inv s1" "concat (map out e1) @ pend s1 = pend s @ ins i"
    using step_ok [OF Cons.prems(1), of i] Cons.prems(2) by auto
  then have "run_enabled enabled step is s1" using Cons.prems(2) by simp
  from Cons.IH [OF s1(2) this] obtain s2 e2 where s2: "run_port step is s1 = Some (s2, e2)" "inv s2"
      "concat (map out e2) @ pend s2 = pend s1 @ concat (map ins is)" by blast
  have "concat (map out (e1 @ e2)) @ pend s2 = pend s @ concat (map ins (i # is))"
    using arg_cong [OF s1(3), of "\<lambda>xs. xs @ concat (map ins is)"] s2(3) by simp
  then show ?case using s1(1) s2 by simp
qed simp

text \<open>A run from a port that holds nothing: what came out is a prefix of what went in.\<close>

lemma run_prefix:
  assumes "inv s" "pend s = []" "run_enabled enabled step is s"
  shows "\<exists>s' evs rest. run_port step is s = Some (s', evs) \<and> concat (map ins is) = concat (map out evs) @ rest \<and> pend s' = rest"
  using run_ok [OF assms(1,3)] assms(2) by auto

end

section \<open>What a port tells its sides\<close>

fun resp_out :: "cache_event \<Rightarrow> (addr_t \<times> mop) list" where
  "resp_out (CpuResp m) = [(ct_addr m, ct_mop m)]"
| "resp_out _ = []"

definition responses :: "cache_event list \<Rightarrow> (addr_t \<times> mop) list" where
  "responses evs = concat (map resp_out evs)"

lemma responses_simps [simp]:
  "responses [] = []" "responses (CpuResp m # evs) = (ct_addr m, ct_mop m) # responses evs"
  "responses (CpuAck a # evs) = responses evs" "responses (MemReq r # evs) = responses evs"
  "responses (evs @ evs2) = responses evs @ responses evs2"
  by (simp_all add: responses_def)

lemma responses_none: "\<forall>ev\<in>set evs. \<not> is_CpuResp ev \<Longrightarrow> responses evs = []"
proof (induction evs)
  case (Cons ev evs)
  then show ?case by (cases ev) auto
qed simp

end
