(* ===== verification/PipeCacheProofs.thy ===== *)
theory PipeCacheProofs
  imports PipeCache Port
begin

text \<open>
  The pipelined cache keeps its tag arrays right and its request pipe in one of four
  phases, and every cycle returns: a request in the last stage is new, waits for its
  refill to be sent, waits for the memory, or waits to be answered from the filled line.
\<close>

section \<open>The base part of a cache\<close>

definition same_base :: "'a cache_scheme \<Rightarrow> 'b cache_scheme \<Rightarrow> bool" where
  "same_base c c' \<longleftrightarrow> same_geom c c' \<and> stats c' = stats c \<and> lag_set_idx c' = lag_set_idx c \<and>
     lag_set_valid c' = lag_set_valid c \<and> setsArr c' = setsArr c \<and> repl_policy c' = repl_policy c"

lemma same_baseD:
  assumes "same_base c c'"
  shows "line_at c' = line_at c" "setIndexOf c' = setIndexOf c" "blockAddrOf c' = blockAddrOf c"
    "tagOf c' = tagOf c" "offsetOf c' = offsetOf c" "sets c' = sets c" "assoc c' = assoc c"
    "setsArr c' = setsArr c" "repl_policy c' = repl_policy c" "lineBytes c' = lineBytes c"
    "offsetBits c' = offsetBits c"
  using assms same_geom_addr [of c c'] by (auto simp: same_base_def same_geom_def fun_eq_iff line_at_def)

lemma same_base_ok:
  assumes b: "same_base c c'"
  shows "geometry_ok c' = geometry_ok c" "tags_ok c' = tags_ok c" "cache_ok c' = cache_ok c"
    "contents c' = contents c" "miss_victim_way c' si = miss_victim_way c si"
proof -
  note d = same_baseD [OF b]
  show g: "geometry_ok c' = geometry_ok c"
    using b by (simp add: geometry_ok_def d) (simp add: same_base_def)
  show t: "tags_ok c' = tags_ok c" by (simp add: tags_ok_def d)
  show "cache_ok c' = cache_ok c" by (simp add: cache_ok_def g t)
  show "contents c' = contents c" by (simp add: contents_def d)
  show "miss_victim_way c' si = miss_victim_way c si"
    using b by (simp add: miss_victim_way_def d same_base_def same_geom_def cong: option.case_cong)
qed

lemma same_base_ext [simp]:
  "same_base c (c\<lparr>pipe := a1\<rparr>)" "same_base c (c\<lparr>r_waiting := b\<rparr>)" "same_base c (c\<lparr>w_waiting := b\<rparr>)"
  "same_base c (c\<lparr>is_shifted := b\<rparr>)" "same_base c (c\<lparr>is_replay := b\<rparr>)"
  "same_base c (c\<lparr>pending_fill_req := b\<rparr>)" "same_base c (c\<lparr>pending_evict := b\<rparr>)"
  "same_base c (c\<lparr>blocked_until := n\<rparr>)" "same_base c (c\<lparr>sched_hit_time := n\<rparr>)"
  "same_base c (set_back e c)"
  by (simp_all add: same_base_def same_geom_def set_back_def)

text \<open>A lookup leaves the fields of the pipe alone.\<close>

lemma more_fields:
  assumes "cache.more c' = cache.more (c :: pipe_cache)"
  shows "pipe c' = pipe c" "write_back c' = write_back c" "wb_hit_resp_delay c' = wb_hit_resp_delay c"
    "r_waiting c' = r_waiting c" "w_waiting c' = w_waiting c" "is_shifted c' = is_shifted c"
    "is_replay c' = is_replay c" "pending_flush c' = pending_flush c" "pending_fill_req c' = pending_fill_req c"
    "pending_evict c' = pending_evict c" "evict_addr c' = evict_addr c" "evict_data c' = evict_data c"
    "blocked_until c' = blocked_until c" "sched_hit_time c' = sched_hit_time c" "cwf c' = cwf c"
  using assms by (cases c; cases c'; simp)+

section \<open>The invariant\<close>

definition queued_ok :: "pipe_entry option list \<Rightarrow> bool" where
  "queued_ok es \<longleftrightarrow> (\<forall>e. Some e \<in> set es \<longrightarrow> pe_line e = None)"

definition idle :: "pipe_cache \<Rightarrow> bool" where
  "idle c \<longleftrightarrow> \<not> r_waiting c \<and> \<not> pending_fill_req c \<and> \<not> is_replay c"

definition line_phase :: "pipe_cache \<Rightarrow> addr_t \<Rightarrow> nat \<times> nat \<Rightarrow> bool" where
  "line_phase c a p \<longleftrightarrow> fst p = setIndexOf c a \<and> snd p < assoc c \<and>
     (if cl_valid (line_at c p)
      then holds_tag (tagOf c a) (line_at c p) \<and> \<not> r_waiting c \<and> is_replay c \<and> \<not> pending_fill_req c
      else blockAddrOf c a \<notin> contents c \<and> is_replay c = r_waiting c \<and> pending_fill_req c = (\<not> r_waiting c))"

definition phase_ok :: "pipe_cache \<Rightarrow> pipe_entry option \<Rightarrow> bool" where
  "phase_ok c e = (case e of
       None \<Rightarrow> idle c
     | Some bk \<Rightarrow> (case pe_line bk of None \<Rightarrow> idle c | Some p \<Rightarrow> line_phase c (pe_addr bk) p))"

text \<open>The configurations of main answer a hit in the cycle it is served.\<close>

definition pcache_inv :: "pipe_cache \<Rightarrow> bool" where
  "pcache_inv c \<longleftrightarrow> cache_ok c \<and> 2 \<le> offsetBits c \<and> pipe c \<noteq> [] \<and> queued_ok (butlast (pipe c)) \<and>
     phase_ok c (last (pipe c)) \<and> (is_shifted c \<longrightarrow> hd (pipe c) = None) \<and>
     sched_hit_time c = InfTime \<and> (write_back c \<longrightarrow> wb_hit_resp_delay c = 0)"

text \<open>The requests in the pipe, the oldest first.\<close>

fun somes :: "'a option list \<Rightarrow> 'a list" where
  "somes [] = []"
| "somes (None # xs) = somes xs"
| "somes (Some x # xs) = x # somes xs"

lemma somes_append [simp]: "somes (xs @ ys) = somes xs @ somes ys"
  by (induction xs rule: somes.induct) simp_all

lemma somes_rev: "somes (rev xs) = rev (somes xs)"
  by (induction xs rule: somes.induct) simp_all

lemma somes_None: "somes (map (\<lambda>_. None) xs) = []"
  by (induction xs) simp_all

definition req_key :: "pipe_entry \<Rightarrow> addr_t \<times> mop" where
  "req_key e = (pe_addr e, pe_mop e)"

definition requests :: "pipe_cache \<Rightarrow> (addr_t \<times> mop) list" where
  "requests c = map req_key (rev (somes (pipe c)))"

lemma pipe_back: "pipe c \<noteq> [] \<Longrightarrow> pipe (set_back e c) = butlast (pipe c) @ [e]"
  by (cases "pipe c" rule: rev_cases) (simp_all add: set_back_def)

lemma requests_split: "pipe c \<noteq> [] \<Longrightarrow>
   requests c = (case last (pipe c) of None \<Rightarrow> [] | Some e \<Rightarrow> [req_key e]) @ map req_key (rev (somes (butlast (pipe c))))"
  by (cases "pipe c" rule: rev_cases) (auto simp: requests_def split: option.split)

section \<open>Words of a line\<close>

lemma word_index_less:
  assumes "geometry_ok c" "2 \<le> offsetBits c" "o' < lineBytes c" "si < sets c" "w < assoc c"
  shows "drop_bit WordShift o' < length (cl_data (line_at c (si, w)))"
proof -
  have "setsArr c ! si \<in> set (setsArr c)" using assms by (simp add: geometry_ok_def)
  moreover have "setsArr c ! si ! w \<in> set (setsArr c ! si)" using assms by (simp add: nth_sets_in)
  ultimately have len: "length (cl_data (line_at c (si, w))) = lineBytes c div 4"
    using assms(1) by (simp add: geometry_ok_def line_at_def WordShift_def drop_bit_eq_div)
  have "4 dvd lineBytes c"
    using assms(1,2) le_imp_power_dvd [of 2 "offsetBits c" "2 :: nat"] by (simp add: geometry_ok_def)
  then have "o' div 4 < lineBytes c div 4" using assms(3) by (auto simp: dvd_def div_less_iff_less_mult)
  then show ?thesis by (simp add: len WordShift_def drop_bit_eq_div)
qed

lemma atAligned_ex:
  assumes "geometry_ok c" "2 \<le> offsetBits c" "o' < lineBytes c" "si < sets c" "w < assoc c"
  shows "\<exists>x. atAligned (line_at c (si, w)) o' = Some x"
  using word_index_less [OF assms] by (simp add: atAligned_def)

text \<open>The control fields that a lookup, a hit and a prefetch leave alone.\<close>

definition same_ctl :: "pipe_cache \<Rightarrow> pipe_cache \<Rightarrow> bool" where
  "same_ctl c c' \<longleftrightarrow> write_back c' = write_back c \<and> wb_hit_resp_delay c' = wb_hit_resp_delay c \<and>
     r_waiting c' = r_waiting c \<and> w_waiting c' = w_waiting c \<and> is_shifted c' = is_shifted c \<and>
     is_replay c' = is_replay c \<and> pending_flush c' = pending_flush c \<and>
     pending_fill_req c' = pending_fill_req c \<and> sched_hit_time c' = sched_hit_time c"

lemma same_ctlD:
  assumes "same_ctl c c'"
  shows "write_back c' = write_back c" "wb_hit_resp_delay c' = wb_hit_resp_delay c" "r_waiting c' = r_waiting c"
    "w_waiting c' = w_waiting c" "is_shifted c' = is_shifted c" "is_replay c' = is_replay c"
    "pending_flush c' = pending_flush c" "pending_fill_req c' = pending_fill_req c" "sched_hit_time c' = sched_hit_time c"
  using assms by (simp_all add: same_ctl_def)

lemma same_ctl_trans: "same_ctl a b \<Longrightarrow> same_ctl b c \<Longrightarrow> same_ctl a c"
  by (simp add: same_ctl_def)

lemma same_ctl_more: "cache.more c' = cache.more c \<Longrightarrow> same_ctl c c'"
  using more_fields [of c' c] by (simp add: same_ctl_def)

lemma same_ctl_refl [simp]: "same_ctl c c"
  by (simp add: same_ctl_def)

lemma same_base_geom: "same_base c c' \<Longrightarrow> same_geom c c'"
  by (simp add: same_base_def)

section \<open>Victims\<close>

text \<open>
  The victim saved for write-back is the line the miss then invalidates.
\<close>

lemma those_nth_total: "(\<And>i. i \<in> set is \<Longrightarrow> \<exists>y. f i = Some y) \<Longrightarrow> \<exists>ys. those (map f is) = Some ys"
proof (induction "is")
  case (Cons i "is")
  then obtain y ys where "f i = Some y" "those (map f is) = Some ys" by fastforce
  then show ?case by simp
qed simp

lemma save_evict_info_ex:
  assumes g: "geometry_ok c" and o2: "2 \<le> offsetBits c"
  shows "\<exists>c' w. save_evict_info a c = Some c' \<and> miss_victim_way c (setIndexOf c a) = Some w \<and> w < assoc c \<and>
    same_base c c' \<and> same_ctl c c' \<and> pipe c' = pipe c \<and>
    pending_evict c' = (write_back c \<and> cl_valid (line_at c (setIndexOf c a, w)) \<and> cl_dirty (line_at c (setIndexOf c a, w))) \<and>
    (pending_evict c' \<longrightarrow> evict_addr c' = cl_tag (line_at c (setIndexOf c a, w)) \<and>
       those (map (\<lambda>i. atAligned (line_at c (setIndexOf c a, w)) (i * word_bytes)) [0..<lineBytes c div word_bytes]) = Some (evict_data c'))"
proof -
  let ?si = "setIndexOf c a"
  note si = setIndexOf_less [OF g, of a]
  obtain w where w: "miss_victim_way c ?si = Some w" "w < assoc c" using miss_victim_way_ex [OF g si] by blast
  let ?l = "line_at c (?si, w)"
  have mv: "miss_victim_way (c\<lparr>pending_evict := False\<rparr>) ?si = Some w"
    using same_base_ok(5) [OF same_base_ext(7)] w(1) by simp
  have idx: "setIndexOf (c\<lparr>pending_evict := False\<rparr>) = setIndexOf c"
    by (rule same_baseD(2)) simp
  have ex: "\<exists>x. atAligned ?l (i * word_bytes) = Some x" if "i \<in> set [0..<lineBytes c div word_bytes]" for i
    using that by (intro atAligned_ex [OF g o2 _ si w(2)]) (auto simp: word_bytes_def)
  have "\<exists>ws. those (map (\<lambda>i. atAligned ?l (i * word_bytes)) [0..<lineBytes c div word_bytes]) = Some ws"
    by (rule those_nth_total) (rule ex)
  then obtain ws where ws: "those (map (\<lambda>i. atAligned ?l (i * word_bytes)) [0..<lineBytes c div word_bytes]) = Some ws"
    by blast
  have at: "at (setsArr c) ?si = Some (setsArr c ! ?si)" "at (setsArr c ! ?si) w = Some ?l"
    using set_at [OF g si] nth_sets_in [OF g si] w(2) by (auto simp: line_at_def)
  have wm: "w mod assoc c = w" using w(2) by simp
  show ?thesis
  proof (cases "write_back c")
    case False
    then show ?thesis
      using w by (intro exI [of _ "c\<lparr>pending_evict := False\<rparr>"] exI [of _ w]) (simp add: save_evict_info_def same_ctl_def)
  next
    case True
    have a0: "assoc c \<noteq> 0" using w(2) by auto
    show ?thesis
    proof (cases "cl_valid ?l \<and> cl_dirty ?l")
      case False
      then have "save_evict_info a c = Some (c\<lparr>pending_evict := False\<rparr>)"
        using True at mv wm a0 by (auto simp: save_evict_info_def Let_def idx simp del: at_eq_Some)
      then show ?thesis using w False True by (intro exI [of _ "c\<lparr>pending_evict := False\<rparr>"] exI [of _ w]) (auto simp: same_ctl_def)
    next
      case dirty: True
      let ?c = "c\<lparr>pending_evict := True, evict_addr := cl_tag ?l, evict_data := ws\<rparr>"
      have "save_evict_info a c = Some ?c"
        using True at mv wm a0 dirty ws by (simp add: save_evict_info_def Let_def idx del: at_eq_Some)
      moreover have "same_base c ?c" by (simp add: same_base_def same_geom_def)
      ultimately show ?thesis
        using w dirty True ws by (intro exI [of _ ?c] exI [of _ w]) (simp add: same_ctl_def)
    qed
  qed
qed

section \<open>The steps of a cycle\<close>

lemma lookup_new:
  assumes ok: "cache_ok c" and o2: "2 \<le> offsetBits c"
  shows "\<exists>c1 c2 p. save_evict_info a c = Some c1 \<and> access now a c1 = Some (c2, p) \<and> cache_ok c2 \<and> same_geom c c2 \<and>
    same_ctl c c2 \<and> pipe c2 = pipe c \<and> fst p = setIndexOf c a \<and> snd p < assoc c \<and>
    (if blockAddrOf c a \<in> contents c then holds_tag (tagOf c a) (line_at c2 p)
     else \<not> cl_valid (line_at c2 p) \<and> blockAddrOf c a \<notin> contents c2 \<and>
          pending_evict c2 = (write_back c \<and> cl_valid (line_at c p) \<and> cl_dirty (line_at c p)) \<and>
          (pending_evict c2 \<longrightarrow> evict_addr c2 = cl_tag (line_at c p)))"
proof -
  have g: "geometry_ok c" using ok by (simp add: cache_ok_def)
  obtain c1 w where c1: "save_evict_info a c = Some c1" "miss_victim_way c (setIndexOf c a) = Some w" "w < assoc c"
      "same_base c c1" "same_ctl c c1" "pipe c1 = pipe c"
      "pending_evict c1 = (write_back c \<and> cl_valid (line_at c (setIndexOf c a, w)) \<and> cl_dirty (line_at c (setIndexOf c a, w)))"
      "pending_evict c1 \<longrightarrow> evict_addr c1 = cl_tag (line_at c (setIndexOf c a, w))"
    using save_evict_info_ex [OF g o2, of a] by blast
  note d = same_baseD [OF c1(4)] and k = same_base_ok [OF c1(4)]
  have ok1: "cache_ok c1" and g1: "geometry_ok c1" using ok g k by simp_all
  obtain c2 p where c2: "access now a c1 = Some (c2, p)" "cache_ok c2" "same_geom c1 c2" "cache.more c2 = cache.more c1"
      "fst p = setIndexOf c a" "snd p < assoc c"
      "if blockAddrOf c a \<in> contents c then holds_tag (tagOf c a) (line_at c2 p)
       else \<not> cl_valid (line_at c2 p) \<and> contents c2 = contents c - old_block c p"
    using access_ok [OF ok1, of now a] by (auto simp: d k old_block_def split: if_splits)
  have pw: "p = (setIndexOf c a, w)" if "blockAddrOf c a \<notin> contents c"
  proof -
    have "hit_way c1 a = None"
      using that probe_iff_contents [OF ok1, of a] probe_eq [OF g1, of a] by (simp add: d k)
    from access_miss_case [OF g1 this, of now] show ?thesis using c2(1) c1(2) by (auto simp: d k)
  qed
  have ctl: "same_ctl c c2" by (rule same_ctl_trans [OF c1(5) same_ctl_more [OF c2(4)]])
  have geo: "same_geom c c2" by (rule same_geom_trans [OF same_base_geom [OF c1(4)] c2(3)])
  have pp: "pipe c2 = pipe c" "pending_evict c2 = pending_evict c1" "evict_addr c2 = evict_addr c1"
    using more_fields [OF c2(4)] c1(6) by simp_all
  show ?thesis
  proof (cases "blockAddrOf c a \<in> contents c")
    case True
    then show ?thesis
      using c1(1) c2 ctl geo pp(1) by (intro exI [of _ c1] exI [of _ c2] exI [of _ p]) simp
  next
    case False
    then have "blockAddrOf c a \<notin> contents c2" "p = (setIndexOf c a, w)" "\<not> cl_valid (line_at c2 p)"
      using c2(7) pw by simp_all
    then show ?thesis using False c1(1,7,8) c2(1,2,5,6) ctl geo pp by simp
  qed
qed

lemma lookup_line:
  assumes "cache_ok c" and "2 \<le> offsetBits c"
  shows "\<exists>c1 c2 p. save_evict_info a c = Some c1 \<and> access now a c1 = Some (c2, p) \<and> cache_ok c2 \<and> same_geom c c2 \<and>
    same_ctl c c2 \<and> pipe c2 = pipe c \<and> fst p = setIndexOf c a \<and> snd p < assoc c \<and>
    (if blockAddrOf c a \<in> contents c then holds_tag (tagOf c a) (line_at c2 p)
     else \<not> cl_valid (line_at c2 p) \<and> blockAddrOf c a \<notin> contents c2)"
  using lookup_new [OF assms, of a now] by (elim exE conjE, intro exI conjI) (assumption | simp split: if_splits)+

text \<open>Rewriting a line without touching its tag and valid bit.\<close>

lemma put_line_keeps:
  assumes ok: "cache_ok c" and b: "si < sets c" "w < assoc c"
    and l: "cl_valid l = cl_valid (line_at c (si, w))" "cl_tag l = cl_tag (line_at c (si, w))"
      "length (cl_data l) = length (cl_data (line_at c (si, w)))"
  shows "cache_ok (put_line c (si, w) l) \<and> contents (put_line c (si, w) l) = contents c \<and>
    same_geom c (put_line c (si, w) l)"
proof -
  let ?c = "put_line c (si, w) l"
  have g: "geometry_ok c" and t: "tags_ok c" using ok by (auto simp: cache_ok_def)
  have sg: "same_geom c ?c" by (simp add: same_geom_def)
  have eq: "cl_valid (line_at ?c q) = cl_valid (line_at c q) \<and> cl_tag (line_at ?c q) = cl_tag (line_at c q)" for q
    using geometry_put_sel [OF g b, of l q] l by auto
  have "tags_ok ?c" by (rule tags_ok_shrink [OF t sg]) (simp add: eq)
  moreover have "contents ?c = contents c" by (rule contents_cong [OF sg]) (simp add: eq)
  ultimately show ?thesis using geometry_ok_put_line [OF g b l(3)] sg by (simp add: cache_ok_def)
qed

lemma put_line_ctl [simp]: "same_ctl c (put_line c p l)" "pipe (put_line c p l) = pipe (c :: pipe_cache)"
  by (simp_all add: put_line_def same_ctl_def)

lemma respond_now:
  "write_back c \<longrightarrow> wb_hit_resp_delay c = 0 \<Longrightarrow> respond now m c = (c, [CpuResp m])"
  by (simp add: respond_def)

lemma blocked_base: "same_base c (c\<lparr>blocked_until := n\<rparr>)" "same_ctl c (c\<lparr>blocked_until := n\<rparr>)"
  by (simp_all add: same_ctl_def)

lemma handle_hit_ok:
  assumes ok: "cache_ok c" and o2: "2 \<le> offsetBits c" and p: "fst p = setIndexOf c (pe_addr bk)" "snd p < assoc c"
    and d: "write_back c \<longrightarrow> wb_hit_resp_delay c = 0"
  shows "\<exists>c' m. handle_hit now bk p c = Some (c', [CpuResp m]) \<and> ct_addr m = pe_addr bk \<and> ct_mop m = pe_mop bk \<and>
    ct_id m = cache_id c \<and> cache_ok c' \<and> same_geom c c' \<and> contents c' = contents c \<and> same_ctl c c' \<and> pipe c' = pipe c \<and>
    (pe_mop bk = Write \<longrightarrow> cl_dirty (line_at c' p))"
proof -
  define c0 where "c0 = c\<lparr>blocked_until := now + 1\<rparr>"
  have b0: "same_base c c0" "same_ctl c c0" "pipe c0 = pipe c" "cache_id c0 = cache_id c"
    by (simp_all add: c0_def same_ctl_def)
  note e = same_baseD [OF b0(1)] and k = same_base_ok [OF b0(1)]
  have g: "geometry_ok c0" and ok0: "cache_ok c0" using ok k by (auto simp: cache_ok_def)
  have si: "fst p < sets c0" "snd p < assoc c0" using setIndexOf_less [of c] ok p by (auto simp: cache_ok_def e)
  obtain x where x: "atAligned (line_at c0 p) (offsetOf c0 (pe_addr bk)) = Some x"
    using atAligned_ex [OF g _ offsetOf_less [OF g] si] o2 by (auto simp: e)
  have d0: "write_back c0 \<longrightarrow> wb_hit_resp_delay c0 = 0" using d b0(2) by (simp add: same_ctl_def)
  show ?thesis
  proof (cases "pe_mop bk")
    case Read
    then show ?thesis
      using x d0 b0 ok0 k same_base_geom [OF b0(1)]
      unfolding handle_hit_def Let_def c0_def [symmetric] by (simp add: respond_now)
  next
    case Write
    let ?l = "setDirty (line_at c0 p)"
    define c1 where "c1 = put_line c0 (fst p, snd p) ?l"
    have c1: "cache_ok c1" "contents c1 = contents c0" "same_geom c0 c1"
      unfolding c1_def using put_line_keeps [OF ok0 si, of ?l] by simp_all
    have "same_ctl c c1" "pipe c1 = pipe c"
      using same_ctl_trans [OF b0(2), of c1] b0(3) by (simp_all add: c1_def)
    moreover have "same_geom c c1" by (rule same_geom_trans [OF same_base_geom [OF b0(1)] c1(3)])
    moreover have "cl_dirty (line_at c1 p)"
      using geometry_put_sel [OF g si, of ?l p] by (simp add: c1_def)
    moreover have "write_back c1 \<longrightarrow> wb_hit_resp_delay c1 = 0" using d0 by (simp add: c1_def put_line_def)
    moreover have "cache_id c0 = cache_id c" by (fact b0(4))
    ultimately show ?thesis
      using Write c1 k b0(3) unfolding handle_hit_def Let_def c0_def [symmetric] by (simp add: respond_now c1_def)
  qed
qed

lemma pf_upd: "setIndexOf (c\<lparr>prefetcher := x\<rparr>) = setIndexOf c" "tagOf (c\<lparr>prefetcher := x\<rparr>) = tagOf c"
  "line_at (c\<lparr>prefetcher := x\<rparr>) = line_at c"
  by (simp_all add: fun_eq_iff setIndexOf_def tagOf_def blockAddrOf_def line_at_def)

lemma handle_prefetch_ok:
  assumes ok: "cache_ok c"
  shows "\<exists>c' b. handle_prefetch now a h c = Some (c', b) \<and> cache_ok c' \<and> same_geom c c' \<and> same_ctl c c' \<and> pipe c' = pipe c"
proof (cases "prefetcher c")
  case None
  then show ?thesis using ok by (intro exI [of _ c] exI [of _ False]) (simp add: handle_prefetch_def)
next
  case (Some pf)
  obtain r pf' where pr: "pf_probe pf a h = (r, pf')" by (cases "pf_probe pf a h")
  have base: "same_base c (c\<lparr>prefetcher := x\<rparr>)" "same_ctl c (c\<lparr>prefetcher := x\<rparr>)" for x
    by (simp_all add: same_base_def same_geom_def same_ctl_def)
  show ?thesis
  proof (cases r)
    case None
    then show ?thesis
      using Some pr ok base same_base_ok(3) [OF base(1)] same_base_geom [OF base(1)]
      by (intro exI [of _ "c\<lparr>prefetcher := Some pf'\<rparr>"] exI [of _ False]) (simp add: handle_prefetch_def)
  next
    case ra: (Some pa)
    define c1 where "c1 = c\<lparr>prefetcher := Some pf'\<rparr>"
    define c2 where "c2 = c1\<lparr>prefetcher := Some (pf'\<lparr>prefetch_issued := prefetch_issued pf' + 1\<rparr>)\<rparr>"
    let ?si = "setIndexOf c2 pa"
    have b1: "same_base c c1" "same_ctl c c1" and b2: "same_base c c2" "same_ctl c c2" "same_base c1 c2"
      by (simp_all add: c1_def c2_def same_base_def same_geom_def same_ctl_def)
    have ok1: "cache_ok c1" and ok2: "cache_ok c2" and g1: "geometry_ok c1" and g2: "geometry_ok c2" and t2: "tags_ok c2"
      using ok same_base_ok(3) [OF b1(1)] same_base_ok(3) [OF b2(1)] by (auto simp: cache_ok_def)
    note e2 = same_baseD [OF b2(3)]
    have at: "at (setsArr c1) ?si = Some (setsArr c1 ! ?si)"
      using set_at [OF g1 setIndexOf_less [OF g1, of pa]] by (simp add: e2)
    show ?thesis
    proof (cases "hit_way c1 pa = None")
      case False
      then have "first_idx (holds_tag (tagOf c1 pa)) (setsArr c1 ! ?si) \<noteq> None"
        by (simp add: hit_way_def e2)
      then have "handle_prefetch now a h c = Some (c1, False)"
        using Some pr ra at unfolding handle_prefetch_def Let_def
        by (simp add: c1_def e2 del: at_eq_Some Option.bind_eq_Some_conv)
      moreover have "pipe c1 = pipe c" by (simp add: c1_def)
      ultimately show ?thesis using ok1 b1 same_base_geom [OF b1(1)] by auto
    next
      case True
      then have miss: "first_idx (holds_tag (tagOf c1 pa)) (setsArr c1 ! ?si) = None"
        by (simp add: hit_way_def e2)
      have new: "blockAddrOf c2 pa \<notin> contents c2"
        using True probe_iff_contents [OF ok1, of pa] probe_eq [OF g1, of pa] same_base_ok(4) [OF b2(3)] by (simp add: e2)
      note si = setIndexOf_less [OF g2, of pa]
      obtain w where w: "select_victim c2 ?si = Some w" "w < assoc c2"
        using select_victim_ex [OF g2 si] by blast
      define l0 where "l0 = activate now (setTag (tagOf c2 pa) (line_at c2 (?si, w)))"
      have ri: "repl_inv (assoc c2) (sets c2) (repl_policy c2)" using g2 by (simp add: geometry_ok_def)
      obtain rp l1 where f: "onFill now (repl_policy c2) ?si w l0 = Some (rp, l1)" "repl_inv (assoc c2) (sets c2) rp"
          "same_but_stamp l0 l1"
        using repl.fill_ex [OF ri si w(2), of now l0] by auto
      note l = same_but_stamp_sel [OF f(3)]
      define c3 where "c3 = c2\<lparr>repl_policy := rp\<rparr>"
      define c4 where "c4 = put_line c3 (?si, w) (l1\<lparr>cl_is_prefetched := True\<rparr>)"
      have g3: "geometry_ok c3" using g2 f(2) by (simp add: c3_def geometry_ok_def)
      have l3: "line_at c3 q = line_at c2 q" for q by (simp add: c3_def line_at_def)
      have s3: "?si < sets c3" "w < assoc c3" using si w(2) by (simp_all add: c3_def)
      have g4: "geometry_ok c4"
        unfolding c4_def by (rule geometry_ok_put_line [OF g3 s3]) (simp add: l l0_def l3)
      have fr: "frame (?si, w) c2 c4"
        by (auto simp: frame_def same_geom_def c4_def geometry_put_sel [OF g3 s3] l3) (simp_all add: c3_def)
      have v: "cl_valid (line_at c4 (?si, w))" "cl_tag (line_at c4 (?si, w)) = blockAddrOf c2 pa"
        by (simp_all add: c4_def geometry_put_sel [OF g3 s3] l l0_def tagOf_def)
      have "cache_ok c4" using install_block(1) [OF g2 t2 new w(2) fr g4 v] g4 by (simp add: cache_ok_def)
      moreover have "handle_prefetch now a h c = Some (c4, True)"
        using Some pr ra at miss w(1) f(1)
        unfolding handle_prefetch_def Let_def c4_def c3_def l0_def c2_def c1_def
        by (simp add: pf_upd del: at_eq_Some Option.bind_eq_Some_conv line_defs)
      moreover have "same_geom c c4" by (rule same_geom_trans [OF same_base_geom [OF b2(1)] frame_geom [OF fr]])
      moreover have "same_ctl c c4" "pipe c4 = pipe c"
        using b2(2) by (simp_all add: c4_def c3_def same_ctl_def put_line_def) (simp add: c2_def c1_def)
      ultimately show ?thesis by blast
    qed
  qed
qed

section \<open>A cycle\<close>

lemma pcache_invD:
  assumes "pcache_inv c"
  shows "cache_ok c" "2 \<le> offsetBits c" "pipe c \<noteq> []" "queued_ok (butlast (pipe c))" "phase_ok c (last (pipe c))"
    "is_shifted c \<Longrightarrow> hd (pipe c) = None" "sched_hit_time c = InfTime" "write_back c \<longrightarrow> wb_hit_resp_delay c = 0"
  using assms by (simp_all add: pcache_inv_def)

lemma same_geom_offset: "same_geom c c' \<Longrightarrow> offsetBits c' = offsetBits c"
  by (simp add: same_geom_def)

text \<open>A served request leaves the last stage empty.\<close>

lemma answer_ok:
  assumes ok: "cache_ok c" and o2: "2 \<le> offsetBits c" and p: "fst p = setIndexOf c (pe_addr bk)" "snd p < assoc c"
    and d: "write_back c \<longrightarrow> wb_hit_resp_delay c = 0" and ne: "pipe c \<noteq> []"
  shows "\<exists>c' m. (do { (c3, evs) \<leftarrow> handle_hit now bk p c;
                      (c4, _) \<leftarrow> (if pe_mop bk = Read \<and> \<not> r_waiting c3 then handle_prefetch now (pe_addr bk) hit c3 else Some (c3, False));
                      Some (False, set_back None c4, evs) }) = Some (False, c', [CpuResp m]) \<and>
    ct_addr m = pe_addr bk \<and> ct_mop m = pe_mop bk \<and> ct_id m = cache_id c \<and> cache_ok c' \<and> same_geom c c' \<and> same_ctl c c' \<and>
    pipe c' = butlast (pipe c) @ [None]"
proof -
  obtain c3 m where c3: "handle_hit now bk p c = Some (c3, [CpuResp m])" "ct_addr m = pe_addr bk" "ct_mop m = pe_mop bk"
      "ct_id m = cache_id c" "cache_ok c3" "same_geom c c3" "same_ctl c c3" "pipe c3 = pipe c"
    using handle_hit_ok [OF ok o2 p d, of now] by blast
  obtain c4 b where c4: "(if pe_mop bk = Read \<and> \<not> r_waiting c3 then handle_prefetch now (pe_addr bk) hit c3 else Some (c3, False)) = Some (c4, b)"
      "cache_ok c4" "same_geom c3 c4" "same_ctl c3 c4" "pipe c4 = pipe c3"
  proof (cases "pe_mop bk = Read \<and> \<not> r_waiting c3")
    case True
    then show ?thesis using that handle_prefetch_ok [OF c3(5), of now "pe_addr bk" hit] by auto
  next
    case False
    then show ?thesis using that [of c3 False] c3(5) by auto
  qed
  let ?c = "set_back None c4"
  have b: "same_base c4 ?c" by simp
  have "cache_ok ?c" "same_geom c ?c" "same_ctl c ?c" "pipe ?c = butlast (pipe c) @ [None]"
    using same_base_ok(3) [OF b] c4 c3 same_geom_trans [OF c3(6) same_geom_trans [OF c4(3) same_base_geom [OF b]]]
      same_ctl_trans [OF c3(7) c4(4)] pipe_back [of c4 None] ne
    by (simp_all) (simp add: same_ctl_def set_back_def)
  then show ?thesis using c3(1-4) c4(1) by simp
qed

lemma inv_empty_back:
  assumes "cache_ok c" "2 \<le> offsetBits c" "pipe c = es @ [None]" "queued_ok es" "idle c"
    "is_shifted c \<longrightarrow> hd (es @ [None]) = None" "sched_hit_time c = InfTime" "write_back c \<longrightarrow> wb_hit_resp_delay c = 0"
  shows "pcache_inv c"
  using assms by (auto simp: pcache_inv_def phase_ok_def)

lemma hd_set_last: "xs \<noteq> [] \<Longrightarrow> hd xs = None \<Longrightarrow> hd (butlast xs @ [None]) = None"
  by (cases xs rule: rev_cases) (auto simp: hd_append split: if_splits)

lemma hd_set_last_keep: "xs \<noteq> [] \<Longrightarrow> last xs \<noteq> None \<Longrightarrow> hd xs = None \<Longrightarrow> hd (butlast xs @ [e]) = None"
  by (cases xs rule: rev_cases) (auto simp: hd_append split: if_splits)

definition served :: "pipe_cache \<Rightarrow> bool \<Rightarrow> pipe_cache \<Rightarrow> cache_event list \<Rightarrow> bool" where
  "served c stop c' evs \<longleftrightarrow> pcache_inv c' \<and> pending_flush c' = pending_flush c \<and>
     responses evs @ requests c' = requests c \<and> write_back c' = write_back c \<and>
     (\<forall>m. CpuResp m \<in> set evs \<longrightarrow> ct_id m = cache_id c) \<and>
     (\<not> stop \<longrightarrow> last (pipe c') = None) \<and>
     (\<forall>m. MemReq m \<in> set evs \<longrightarrow> mt_mop m = Read \<longrightarrow> \<not> pending_evict c \<and> \<not> w_waiting c)"

text \<open>A line known from an earlier cycle.\<close>

lemma serve_known:
  assumes c: "pcache_inv c" and bk: "last (pipe c) = Some bk" and p: "pe_line bk = Some p" and r: "\<not> r_waiting c"
  shows "\<exists>stop c' evs. serve_target now c = Some (stop, c', evs) \<and> served c stop c' evs"
proof -
  note d = pcache_invD [OF c]
  have ph: "line_phase c (pe_addr bk) p" using d(5) bk p by (simp add: phase_ok_def)
  have fs: "fst p = setIndexOf c (pe_addr bk)" "snd p < assoc c" using ph by (simp_all add: line_phase_def)
  have nr: "requests c = req_key bk # map req_key (rev (somes (butlast (pipe c))))"
    using requests_split [OF d(3)] bk by simp
  define c2 where "c2 = c\<lparr>is_replay := False\<rparr>"
  have b2: "same_base c c2" by (simp add: c2_def)
  note e2 = same_baseD [OF b2]
  show ?thesis
  proof (cases "cl_valid (line_at c p)")
    case True
    have st: "serve_target now c = (do { (c3, evs) \<leftarrow> handle_hit now bk p c2;
        (c4, _) \<leftarrow> (if pe_mop bk = Read \<and> \<not> r_waiting c3 then handle_prefetch now (pe_addr bk) (\<not> is_replay c) c3 else Some (c3, False));
        Some (False, set_back None c4, evs) })"
      using d(3) bk p True by (simp add: serve_target_def lookup_back_def Let_def c2_def [symmetric] e2)
    have h: "cache_ok c2" "2 \<le> offsetBits c2" "fst p = setIndexOf c2 (pe_addr bk)" "snd p < assoc c2"
        "write_back c2 \<longrightarrow> wb_hit_resp_delay c2 = 0" "pipe c2 \<noteq> []" "cache_id c2 = cache_id c"
      using d fs same_base_ok(3) [OF b2] e2 by (simp_all add: c2_def)
    obtain c' m where c': "serve_target now c = Some (False, c', [CpuResp m])" "ct_addr m = pe_addr bk" "ct_mop m = pe_mop bk"
        "ct_id m = cache_id c" "cache_ok c'" "same_geom c2 c'" "same_ctl c2 c'" "pipe c' = butlast (pipe c) @ [None]"
      using answer_ok [OF h(1-6), of now "\<not> is_replay c"] st h(7) by (auto simp: c2_def)
    note t = same_ctlD [OF c'(7)]
    have "pcache_inv c'"
      using c'(5,8) same_geom_offset [OF c'(6)] h(2) d(4,6,7,8) t ph True hd_set_last [OF d(3)]
      by (intro inv_empty_back) (auto simp: idle_def line_phase_def c2_def)
    moreover have "requests c' = map req_key (rev (somes (butlast (pipe c))))"
      by (simp add: requests_def c'(8))
    ultimately show ?thesis
      using c' nr t by (intro exI [of _ False] exI [of _ c'] exI [of _ "[CpuResp m]"]) (simp add: served_def req_key_def c2_def)
  next
    case False
    have rp: "\<not> is_replay c" "pending_fill_req c" "blockAddrOf c (pe_addr bk) \<notin> contents c"
      using ph False r by (auto simp: line_phase_def)
    have c2c: "c2 = c" using rp(1) by (simp add: c2_def)
    obtain c3 evs where sm: "serve_miss now bk c = (c3, evs)" by (cases "serve_miss now bk c")
    have st: "serve_target now c = Some (True, c3, evs)"
      using d(3) bk p False rp(1) sm c2c by (simp add: serve_target_def lookup_back_def Let_def c2_def [symmetric])
    have keep: "same_base c c3" "pipe c3 = pipe c" "write_back c3 = write_back c" "wb_hit_resp_delay c3 = wb_hit_resp_delay c"
        "is_shifted c3 = is_shifted c" "sched_hit_time c3 = sched_hit_time c" "pending_flush c3 = pending_flush c"
        "is_replay c3 = r_waiting c3" "pending_fill_req c3 = (\<not> r_waiting c3)" "responses evs = []"
        "\<forall>m. CpuResp m \<notin> set evs"
        "\<forall>m. MemReq m \<in> set evs \<longrightarrow> mt_mop m = Read \<longrightarrow> \<not> pending_evict c \<and> \<not> w_waiting c"
      using sm rp r by (auto simp: serve_miss_def same_base_def same_geom_def split: if_splits)
    note e3 = same_baseD [OF keep(1)]
    have "pcache_inv c3"
      using d keep same_base_ok(3,4) [OF keep(1)] e3 ph False rp(3) bk p
      by (simp add: pcache_inv_def phase_ok_def line_phase_def)
    then show ?thesis
      using st keep by (intro exI [of _ True] exI [of _ c3] exI [of _ evs]) (simp add: served_def requests_def)
  qed
qed

text \<open>A request that reached the last stage without a lookup.\<close>

lemma serve_new:
  assumes c: "pcache_inv c" and bk: "last (pipe c) = Some bk" and p0: "pe_line bk = None"
  shows "\<exists>stop c' evs. serve_target now c = Some (stop, c', evs) \<and> served c stop c' evs"
proof -
  note d = pcache_invD [OF c]
  have id: "idle c" using d(5) bk p0 by (simp add: phase_ok_def)
  have nr: "requests c = req_key bk # map req_key (rev (somes (butlast (pipe c))))"
    using requests_split [OF d(3)] bk by simp
  obtain c0 c1 p where l: "save_evict_info (pe_addr bk) c = Some c0" "access now (pe_addr bk) c0 = Some (c1, p)" "cache_ok c1"
      "same_geom c c1" "same_ctl c c1" "pipe c1 = pipe c" "fst p = setIndexOf c (pe_addr bk)" "snd p < assoc c"
      "if blockAddrOf c (pe_addr bk) \<in> contents c then holds_tag (tagOf c (pe_addr bk)) (line_at c1 p)
       else \<not> cl_valid (line_at c1 p) \<and> blockAddrOf c (pe_addr bk) \<notin> contents c1"
    using lookup_line [OF d(1,2), of "pe_addr bk" now] by blast
  define bk' where "bk' = bk\<lparr>pe_line := Some p\<rparr>"
  define c2 where "c2 = set_back (Some bk') c1"
  have b2: "same_base c1 c2" by (simp add: c2_def)
  note e2 = same_baseD [OF b2] and g = same_geom_addr [OF l(4)]
  have t2: "same_ctl c c2" using l(5) by (simp add: c2_def set_back_def same_ctl_def)
  note t = same_ctlD [OF t2]
  have pp: "pipe c2 = butlast (pipe c) @ [Some bk']" using pipe_back [of c1] d(3) l(6) by (simp add: c2_def)
  have geo2: "same_geom c c2" by (rule same_geom_trans [OF l(4) same_base_geom [OF b2]])
  have ok2: "cache_ok c2" "2 \<le> offsetBits c2" "fst p = setIndexOf c2 (pe_addr bk)" "snd p < assoc c2"
      "write_back c2 \<longrightarrow> wb_hit_resp_delay c2 = 0" "pipe c2 \<noteq> []" "cache_id c2 = cache_id c"
    using l same_base_ok(3) [OF b2] e2 g d(2,8) t pp same_geom_offset [OF geo2] geo2 by (simp_all add: same_geom_def)
  have nrep: "\<not> is_replay c2" "\<not> r_waiting c2" "\<not> pending_fill_req c2" "c2\<lparr>is_replay := False\<rparr> = c2"
    using id t by (simp_all add: idle_def)
  have look: "lookup_back now bk c = Some (c2, p)"
    using p0 l(1,2) by (simp add: lookup_back_def c2_def bk'_def)
  show ?thesis
  proof (cases "blockAddrOf c (pe_addr bk) \<in> contents c")
    case True
    then have v: "cl_valid (line_at c2 p)" using l(9) by (simp add: e2 holds_tag_def)
    have st: "serve_target now c = (do { (c3, evs) \<leftarrow> handle_hit now bk p c2;
        (c4, _) \<leftarrow> (if pe_mop bk = Read \<and> \<not> r_waiting c3 then handle_prefetch now (pe_addr bk) True c3 else Some (c3, False));
        Some (False, set_back None c4, evs) })"
      using d(3) bk look v nrep(1-3) by (simp add: serve_target_def Let_def nrep(4) cong: if_cong)
    obtain c' m where c': "serve_target now c = Some (False, c', [CpuResp m])" "ct_addr m = pe_addr bk" "ct_mop m = pe_mop bk"
        "ct_id m = cache_id c" "cache_ok c'" "same_geom c2 c'" "same_ctl c2 c'" "pipe c' = butlast (pipe c) @ [None]"
      using answer_ok [OF ok2(1-6), of now True] st ok2(7) pp by auto
    note t' = same_ctlD [OF c'(7)]
    have "pcache_inv c'"
      using c'(5,8) same_geom_offset [OF c'(6)] ok2(2,5) d(4,6,7) t t' nrep hd_set_last [OF d(3)]
      by (intro inv_empty_back) (auto simp: idle_def)
    moreover have "requests c' = map req_key (rev (somes (butlast (pipe c))))"
      by (simp add: requests_def c'(8))
    ultimately show ?thesis
      using c' nr t t' bk
      by (intro exI [of _ False] exI [of _ c'] exI [of _ "[CpuResp m]"]) (simp add: served_def req_key_def)
  next
    case False
    then have v: "\<not> cl_valid (line_at c2 p)" "blockAddrOf c (pe_addr bk) \<notin> contents c2"
      using l(9) same_base_ok(4) [OF b2] by (simp_all add: e2)
    let ?c = "c2\<lparr>pending_fill_req := True, blocked_until := now + 1\<rparr>"
    have st: "serve_target now c = Some (True, ?c, [])"
      using d(3) bk look v(1) nrep(1-3) by (simp add: serve_target_def Let_def serve_miss_def nrep(4))
    have b3: "same_base c2 ?c" by (simp add: same_base_def same_geom_def)
    note e3 = same_baseD [OF b3]
    have ph: "line_phase ?c (pe_addr bk) p"
      using v ok2(3,4) nrep same_base_ok(4) [OF b3] e3 same_geom_addr [OF geo2] by (simp add: line_phase_def)
    have "pcache_inv ?c"
      using ok2 same_base_ok(3) [OF b3] e3 pp d(4,6,7) t ph hd_set_last_keep [OF d(3)] bk
      by (simp add: pcache_inv_def phase_ok_def bk'_def)
    moreover have "requests ?c = requests c"
      using nr by (simp add: requests_def pp bk'_def req_key_def)
    ultimately show ?thesis
      using st t by (intro exI [of _ True] exI [of _ ?c] exI [of _ "[]"]) (simp add: served_def)
  qed
qed

lemma serve_target_ok:
  assumes c: "pcache_inv c" and r: "\<not> r_waiting c"
  shows "\<exists>stop c' evs. serve_target now c = Some (stop, c', evs) \<and> served c stop c' evs"
proof (cases "last (pipe c)")
  case None
  then show ?thesis
    using c pcache_invD(3) [OF c]
    by (intro exI [of _ False] exI [of _ c] exI [of _ "[]"]) (simp add: serve_target_def served_def)
next
  case (Some bk)
  then show ?thesis
    using serve_new [OF c Some] serve_known [OF c Some _ r] by (cases "pe_line bk") auto
qed

section \<open>Flush and shift\<close>

lemma somes_all_None: "\<forall>e\<in>set es. e = None \<Longrightarrow> somes es = []"
  by (induction es) auto

lemma all_None_map: "\<forall>e\<in>set es. e = None \<Longrightarrow> map (\<lambda>_. None) es = es"
  by (induction es) auto

lemma handle_flush_ok:
  assumes c: "pcache_inv c" and e: "\<forall>e\<in>set (pipe c). e = None"
  shows "pcache_inv (handle_flush now c) \<and> contents (handle_flush now c) = {} \<and>
    requests (handle_flush now c) = requests c \<and> write_back (handle_flush now c) = write_back c"
proof -
  let ?c = "handle_flush now c"
  note d = pcache_invD [OF c]
  have g: "geometry_ok c" using d(1) by (simp add: cache_ok_def)
  have inv: "\<not> cl_valid (line_at ?c (si, w))" if "si < sets c" "w < assoc c" for si w
    using that g nth_sets_in [OF g that(1)] by (simp add: handle_flush_def line_at_def geometry_ok_def)
  have s: "sets ?c = sets c" "assoc ?c = assoc c" "offsetBits ?c = offsetBits c" by (simp_all add: handle_flush_def)
  have "geometry_ok ?c"
    using g by (auto simp: geometry_ok_def handle_flush_def)
  moreover have "tags_ok ?c" using inv by (simp add: tags_ok_def s)
  moreover have ct: "contents ?c = {}" using inv by (auto simp: contents_def s)
  moreover have p: "pipe ?c = pipe c"
    using e by (simp add: handle_flush_def all_None_map)
  moreover have l: "last (pipe c) = None" using e d(3) last_in_set by metis
  moreover have h: "hd (pipe c) = None" using e d(3) hd_in_set by metis
  ultimately have "pcache_inv ?c"
    using d by (simp add: pcache_inv_def cache_ok_def s phase_ok_def) (simp add: handle_flush_def idle_def)
  then show ?thesis using ct p by (simp add: requests_def) (simp add: handle_flush_def)
qed

lemma shift_entries_None: "xs \<noteq> [] \<Longrightarrow> last xs = None \<Longrightarrow>
    somes (shift_entries xs) = somes xs \<and>
    shift_entries xs \<noteq> [] \<and> hd (shift_entries xs) = None \<and> set (shift_entries xs) \<subseteq> insert None (set (butlast xs))"
  by (cases xs rule: rev_cases) (auto simp: shift_entries_def)

lemma queued_subset: "queued_ok es \<Longrightarrow> set es' \<subseteq> insert None (set es) \<Longrightarrow> queued_ok es'"
  unfolding queued_ok_def by blast

lemma shift_pipe_ok:
  assumes c: "pcache_inv c" and l: "last (pipe c) = None"
  shows "\<exists>c' evs. shift_pipe now c = Some (c', evs) \<and> pcache_inv c' \<and> requests c' = requests c \<and> write_back c' = write_back c \<and>
    (\<forall>ev\<in>set evs. \<not> is_CpuResp ev \<and> \<not> is_MemReq ev) \<and> pending_flush c' = pending_flush c"
proof -
  note d = pcache_invD [OF c]
  define c1 where "c1 = c\<lparr>pipe := shift_entries (pipe c)\<rparr>"
  have b1: "same_base c c1" by (simp add: c1_def)
  note e1 = same_baseD [OF b1] and sh = shift_entries_None [OF d(3) l]
  have id: "idle c" using d(5) l by (simp add: phase_ok_def)
  have ok1: "cache_ok c1" "2 \<le> offsetBits c1" using same_base_ok(3) [OF b1] d(1,2) e1 by simp_all
  have q: "queued_ok (pipe c1)" using queued_subset [OF d(4)] sh by (simp add: c1_def)
  have p1: "pipe c1 \<noteq> []" "hd (pipe c1) = None" using sh by (simp_all add: c1_def)
  have qb: "queued_ok (butlast (pipe c1))"
    by (rule queued_subset [OF q]) (auto dest: in_set_butlastD)
  have n1: "requests c1 = requests c" using sh by (simp add: requests_def c1_def)
  have line: "pe_line bk = None" if "last (pipe c1) = Some bk" for bk
    using that q last_in_set [OF p1(1)] by (simp add: queued_ok_def)
  have t1: "same_ctl c c1" by (simp add: c1_def same_ctl_def)
  note t = same_ctlD [OF t1]
  define dn where "dn = (c1\<lparr>is_shifted := True\<rparr>, [CpuAck (ack_msg (cache_id c1) Read), CpuAck (ack_msg (cache_id c1) Write)])"
  have bd: "same_base c1 (c1\<lparr>is_shifted := True\<rparr>)" by simp
  have ph: "phase_ok (c1\<lparr>is_shifted := True\<rparr>) (last (pipe c1))"
    using id line t by (auto simp: phase_ok_def idle_def split: option.split)
  have "pcache_inv (fst dn)"
    using ok1 same_base_ok(3) [OF bd] p1 qb ph d(7,8) t by (simp add: dn_def pcache_inv_def)
  then have done_ok: "\<exists>c' evs. Some dn = Some (c', evs) \<and> pcache_inv c' \<and> requests c' = requests c \<and> write_back c' = write_back c \<and>
      (\<forall>ev\<in>set evs. \<not> is_CpuResp ev \<and> \<not> is_MemReq ev) \<and> pending_flush c' = pending_flush c"
    using n1 t by (simp add: dn_def requests_def)
  show ?thesis
  proof (cases "last (pipe c1)")
    case None
    have "shift_pipe now c = Some dn"
      using None unfolding shift_pipe_def Let_def c1_def [symmetric] dn_def by simp
    then show ?thesis using done_ok by simp
  next
    case (Some bk)
    note ln = line [OF Some]
    have pr: "probe c1 (pe_addr bk) = Some (blockAddrOf c1 (pe_addr bk) \<in> contents c1)"
      by (rule probe_iff_contents [OF ok1(1)])
    show ?thesis
    proof (cases "blockAddrOf c1 (pe_addr bk) \<in> contents c1")
      case True
      have "shift_pipe now c = Some dn"
        using Some ln pr True unfolding shift_pipe_def Let_def c1_def [symmetric] dn_def by simp
      then show ?thesis using done_ok by simp
    next
      case False
      obtain c0 c2 p where lk: "save_evict_info (pe_addr bk) c1 = Some c0" "access now (pe_addr bk) c0 = Some (c2, p)" "cache_ok c2"
          "same_geom c1 c2" "same_ctl c1 c2" "pipe c2 = pipe c1" "fst p = setIndexOf c1 (pe_addr bk)" "snd p < assoc c1"
          "\<not> cl_valid (line_at c2 p)" "blockAddrOf c1 (pe_addr bk) \<notin> contents c2"
        using lookup_line [OF ok1, of "pe_addr bk" now] unfolding if_not_P [OF False] by blast
      define bk' where "bk' = bk\<lparr>pe_line := Some p\<rparr>"
      define c3 where "c3 = set_back (Some bk') c2"
      let ?c = "c3\<lparr>pending_fill_req := True, blocked_until := now + 1\<rparr>"
      have eq: "shift_pipe now c = Some (?c, [])"
        using Some ln pr False lk(1,2) unfolding shift_pipe_def Let_def c1_def [symmetric] c3_def bk'_def by simp
      have b3: "same_base c2 ?c" by (simp add: c3_def set_back_def same_base_def same_geom_def)
      note e3 = same_baseD [OF b3] and gg = same_geom_addr [OF lk(4)]
      have pp: "pipe ?c = butlast (pipe c1) @ [Some bk']" using pipe_back [of c2] p1(1) lk(6) by (simp add: c3_def)
      have t3: "r_waiting ?c = r_waiting c" "is_replay ?c = is_replay c" "sched_hit_time ?c = sched_hit_time c"
          "write_back ?c = write_back c" "wb_hit_resp_delay ?c = wb_hit_resp_delay c" "pending_flush ?c = pending_flush c"
        using same_ctlD [OF lk(5)] t by (simp_all add: c3_def set_back_def)
      have lp: "line_phase ?c (pe_addr bk) p"
        using lk(7-10) id t3(1,2) same_base_ok(4) [OF b3] e3 gg lk(4) by (simp add: line_phase_def idle_def same_geom_def)
      have "pcache_inv ?c"
        using lk(3) same_base_ok(3) [OF b3] e3 same_geom_offset [OF lk(4)] ok1(2) pp qb lp d(7,8) t3
          hd_set_last_keep [OF p1(1)] Some p1(2)
        by (simp add: pcache_inv_def phase_ok_def bk'_def)
      moreover have "requests ?c = requests c"
        using requests_split [OF p1(1)] Some n1 unfolding requests_def pp by (simp add: bk'_def req_key_def)
      ultimately show ?thesis using eq t3(4,6) by simp
    qed
  qed
qed

text \<open>One cycle of the pipe.\<close>

lemma pc_update_impl_ok:
  assumes c: "pcache_inv c" and r: "\<not> r_waiting c" and n: "now < InfTime"
  shows "\<exists>c' evs. pc_update_impl now c = Some (c', evs) \<and> pcache_inv c' \<and>
    responses evs @ requests c' = requests c \<and> write_back c' = write_back c \<and>
    (\<forall>m. CpuResp m \<in> set evs \<longrightarrow> ct_id m = cache_id c) \<and>
    (\<forall>m. MemReq m \<in> set evs \<longrightarrow> mt_mop m = Read \<longrightarrow> \<not> pending_evict c \<and> \<not> w_waiting c)"
proof -
  have ds: "deliver_sched now c = (c, [])" using pcache_invD(7) [OF c] n by (simp add: deliver_sched_def)
  obtain stop c1 e1 where s: "serve_target now c = Some (stop, c1, e1)" "served c stop c1 e1"
    using serve_target_ok [OF c r] by blast
  have c1: "pcache_inv c1" "responses e1 @ requests c1 = requests c" "write_back c1 = write_back c"
    using s(2) by (simp_all add: served_def)
  consider (stop) stop | (flush) "\<not> stop" "pending_flush c1" "\<forall>e\<in>set (pipe c1). e = None"
    | (shift) "\<not> stop" "\<not> (pending_flush c1 \<and> (\<forall>e\<in>set (pipe c1). e = None))" by blast
  then show ?thesis
  proof cases
    case stop
    then show ?thesis using ds s c1 by (simp add: pc_update_impl_def served_def)
  next
    case flush
    then show ?thesis
      using ds s c1 handle_flush_ok [OF c1(1) flush(3), of now] by (simp add: pc_update_impl_def served_def)
  next
    case shift
    have l: "last (pipe c1) = None" using s(2) shift(1) by (simp add: served_def)
    obtain c2 e2 where sh: "shift_pipe now c1 = Some (c2, e2)" "pcache_inv c2" "requests c2 = requests c1" "write_back c2 = write_back c1"
        "\<forall>ev\<in>set e2. \<not> is_CpuResp ev \<and> \<not> is_MemReq ev"
      using shift_pipe_ok [OF c1(1) l, of now] by blast
    have eq: "pc_update_impl now c = Some (c2, e1 @ e2)"
      using ds s(1) shift sh(1) by (auto simp: pc_update_impl_def)
    have none: "CpuResp x \<notin> set e2" "MemReq m \<notin> set e2" for x m using sh(5) by auto
    have nr: "responses e1 @ responses e2 @ requests c2 = requests c"
      using c1(2) sh(3) responses_none [of e2] sh(5) by auto
    show ?thesis
      using s(2) none by (intro exI [of _ c2] exI [of _ "e1 @ e2"]) (simp add: eq sh(2) nr served_def sh(4) c1(3))
  qed
qed

section \<open>Requests and memory responses\<close>

lemma enter_pipe_ok:
  assumes c: "pcache_inv c" and s: "is_shifted c" and e: "pe_line e = None"
  shows "\<exists>c'. enter_pipe now e c = Some c' \<and> pcache_inv c' \<and> requests c' = requests c @ [req_key e] \<and> write_back c' = write_back c"
proof -
  note d = pcache_invD [OF c]
  obtain es where es: "pipe c = None # es" using d(3) d(6) [OF s] by (cases "pipe c") auto
  let ?c = "c\<lparr>pipe := Some e # es, blocked_until := now + 1, is_shifted := False\<rparr>"
  have b: "same_base c ?c" by (simp add: same_base_def same_geom_def)
  note e' = same_baseD [OF b]
  have ph: "phase_ok ?c (last (Some e # es))"
  proof (cases es)
    case Nil
    then show ?thesis using d(5) es e by (simp add: phase_ok_def idle_def)
  next
    case (Cons x xs)
    then have "phase_ok c (last es)" using d(5) es by simp
    then have "phase_ok ?c (last es)"
      unfolding phase_ok_def idle_def line_phase_def e' same_base_ok(4) [OF b]
      by (cases "last es") (auto split: option.split)
    then show ?thesis using Cons by simp
  qed
  have "queued_ok (butlast (Some e # es))"
  proof (cases es)
    case Nil
    then show ?thesis by (simp add: queued_ok_def)
  next
    case (Cons x xs)
    then have "butlast (Some e # es) = Some e # butlast es" "butlast (pipe c) = None # butlast es" using es by simp_all
    then show ?thesis using d(4) e by (simp add: queued_ok_def)
  qed
  then have "pcache_inv ?c"
    using d ph same_base_ok(3) [OF b] e' by (simp add: pcache_inv_def)
  then show ?thesis using s es by (simp add: enter_pipe_def requests_def)
qed

lemma recv_fill_ok:
  assumes c: "pcache_inv c" and r: "r_waiting c" and m: "mt_mop t = Read"
    and a: "last (pipe c) = Some bk" "mt_addr t = pe_addr bk"
  shows "\<exists>c'. pc_recv_mem_resp now t c = Some c' \<and> pcache_inv c' \<and> \<not> r_waiting c' \<and> pipe c' = pipe c \<and> write_back c' = write_back c \<and>
    contents c' = insert (blockAddrOf c (pe_addr bk)) (contents c) \<and> probe c' (pe_addr bk) = Some True"
proof -
  note d = pcache_invD [OF c]
  obtain p where p: "pe_line bk = Some p" and ph: "line_phase c (pe_addr bk) p"
    using d(5) a(1) r by (cases "pe_line bk") (auto simp: phase_ok_def idle_def)
  have nv: "\<not> cl_valid (line_at c p)" "blockAddrOf c (pe_addr bk) \<notin> contents c" "is_replay c" "\<not> pending_fill_req c"
      "fst p = setIndexOf c (pe_addr bk)" "snd p < assoc c"
    using ph r by (auto simp: line_phase_def split: if_splits)
  define c0 where "c0 = c\<lparr>r_waiting := False\<rparr>"
  have b0: "same_base c c0" by (simp add: c0_def)
  note e0 = same_baseD [OF b0] and k0 = same_base_ok [OF b0]
  have pe: "p = (setIndexOf c0 (pe_addr bk), snd p)" using nv(5) by (cases p) (simp add: e0)
  obtain c1 where c1: "handle_fill now p (pe_addr bk) (mt_data t) c0 = Some c1" "cache_ok c1" "same_geom c0 c1"
      "cache.more c1 = cache.more c0" "holds_tag (tagOf c0 (pe_addr bk)) (line_at c1 p)"
      "contents c1 = insert (blockAddrOf c0 (pe_addr bk)) (contents c0)"
    using handle_fill_ok [of c0 "snd p" "pe_addr bk" now "mt_data t"] d(1) nv pe by (auto simp: e0 k0)
  define c2 where "c2 = c1\<lparr>blocked_until := now + (if cwf c then 1 else if write_back c then 2 else 1)\<rparr>"
  have b2: "same_base c1 c2" by (simp add: c2_def)
  note e2 = same_baseD [OF b2] and k2 = same_base_ok [OF b2] and m1 = more_fields [OF c1(4)]
  have g1: "assoc c1 = assoc c" "offsetBits c1 = offsetBits c" using c1(3) e0 by (simp_all add: same_geom_def)
  note ga = same_geom_addr [OF c1(3)]
  have eq: "pc_recv_mem_resp now t c = Some c2"
    using m r d(3) a p c1(1) by (simp add: pc_recv_mem_resp_def c0_def [symmetric] c2_def)
  have sel: "pipe c2 = pipe c" "\<not> r_waiting c2" "is_replay c2" "\<not> pending_fill_req c2" "is_shifted c2 = is_shifted c"
      "sched_hit_time c2 = sched_hit_time c" "write_back c2 = write_back c" "wb_hit_resp_delay c2 = wb_hit_resp_delay c"
    using m1 nv(3,4) by (simp_all add: c2_def c0_def)
  have h2: "holds_tag (tagOf c2 (pe_addr bk)) (line_at c2 p)" using c1(5) by (simp add: e2 ga)
  then have "line_phase c2 (pe_addr bk) p"
    using sel nv(5,6) g1 by (simp add: line_phase_def e2 ga e0 holds_tag_def)
  then have "pcache_inv c2"
    using c1(2) k2 sel d a(1) p g1 e2 by (simp add: pcache_inv_def phase_ok_def)
  moreover have ct: "contents c2 = insert (blockAddrOf c (pe_addr bk)) (contents c)"
    using c1(6) by (simp add: k2 k0 e0)
  moreover have "probe c2 (pe_addr bk) = Some True"
  proof -
    have "probe c2 (pe_addr bk) = Some (blockAddrOf c (pe_addr bk) \<in> contents c2)"
      using probe_iff_contents [of c2 "pe_addr bk"] c1(2) k2(3) by (simp add: e2 ga e0)
    then show ?thesis unfolding ct by simp
  qed
  ultimately show ?thesis using eq sel by blast
qed

text \<open>A step that keeps every tag and valid bit keeps the invariant.\<close>

lemma pcache_inv_keep:
  assumes c: "pcache_inv c" and ok: "cache_ok c'" and sg: "same_geom c c'" and t: "same_ctl c c'" and p: "pipe c' = pipe c"
    and l: "\<And>q. cl_valid (line_at c' q) = cl_valid (line_at c q) \<and> cl_tag (line_at c' q) = cl_tag (line_at c q)"
  shows "pcache_inv c'"
proof -
  note d = pcache_invD [OF c] and g = same_geom_addr [OF sg] and f = same_ctlD [OF t]
  have ct: "contents c' = contents c" by (rule contents_cong [OF sg]) (simp add: l)
  have h: "holds_tag x (line_at c' q) = holds_tag x (line_at c q)" for x q by (simp add: holds_tag_def l)
  have a: "assoc c' = assoc c" "offsetBits c' = offsetBits c" using sg by (simp_all add: same_geom_def)
  have "phase_ok c' e = phase_ok c e" for e
    by (simp add: phase_ok_def idle_def line_phase_def f g a ct h l cong: option.case_cong)
  then show ?thesis using d ok a p f by (simp add: pcache_inv_def)
qed

lemma inv_w_waiting [simp]: "pcache_inv (c\<lparr>w_waiting := b\<rparr>) = pcache_inv c"
proof -
  have "same_base c (c\<lparr>w_waiting := b\<rparr>)" by simp
  note e = same_baseD [OF this] and k = same_base_ok [OF this]
  show ?thesis by (simp add: pcache_inv_def phase_ok_def idle_def line_phase_def e k cong: option.case_cong)
qed

lemma inv_blocked [simp]: "pcache_inv (c\<lparr>blocked_until := b\<rparr>) = pcache_inv c"
proof -
  have "same_base c (c\<lparr>blocked_until := b\<rparr>)" by simp
  note e = same_baseD [OF this] and k = same_base_ok [OF this]
  show ?thesis by (simp add: pcache_inv_def phase_ok_def idle_def line_phase_def e k cong: option.case_cong)
qed

lemma inv_flush [simp]: "pcache_inv (c\<lparr>pending_flush := b\<rparr>) = pcache_inv c"
proof -
  have "same_base c (c\<lparr>pending_flush := b\<rparr>)" by (simp add: same_base_def same_geom_def)
  note e = same_baseD [OF this] and k = same_base_ok [OF this]
  show ?thesis by (simp add: pcache_inv_def phase_ok_def idle_def line_phase_def e k cong: option.case_cong)
qed

text \<open>The store of a write-through cache: a present line takes the merged word.\<close>

lemma write_through_ok:
  assumes c: "pcache_inv c"
  shows "\<exists>c'. write_through now a dat strb c = Some (c',
      [MemReq (mem_req Write a (cache_id c) 1 [dat] [strb]), CpuResp (cpu_msg a 0 (cache_id c) Write)]) \<and>
    pcache_inv c' \<and> pipe c' = pipe c \<and> write_back c' = write_back c \<and> w_waiting c' \<and> contents c' = contents c \<and>
    (blockAddrOf c a \<in> contents c \<longrightarrow> (\<exists>p w. holds_tag (tagOf c a) (line_at c p) \<and>
       atAligned (line_at c p) (offsetOf c a) = Some w \<and>
       atAligned (line_at c' p) (offsetOf c a) = Some (merge_word strb w dat)))"
proof -
  note d = pcache_invD [OF c]
  have g: "geometry_ok c" using d(1) by (simp add: cache_ok_def)
  note pr = probe_iff_contents [OF d(1), of a] and hw = probe_eq [OF g, of a]
  show ?thesis
  proof (cases "hit_way c a")
    case None
    then have "write_through now a dat strb c = Some (c\<lparr>w_waiting := True\<rparr>,
      [MemReq (mem_req Write a (cache_id c) 1 [dat] [strb]), CpuResp (cpu_msg a 0 (cache_id c) Write)])"
      and "blockAddrOf c a \<notin> contents c"
      using pr hw by (simp_all add: write_through_def)
    then show ?thesis using c same_base_ok(4) [of c "c\<lparr>w_waiting := True\<rparr>"] by (intro exI [of _ "c\<lparr>w_waiting := True\<rparr>"]) simp
  next
    case (Some i)
    from access_hit_case [OF g Some, of now] obtain c0 p where c0: "access now a c = Some (c0, p)" "p = (setIndexOf c a, i)"
        "i < assoc c" "geometry_ok c0" "frame p c c0" "holds_tag (tagOf c a) (line_at c0 p)"
        "cl_tag (line_at c0 p) = cl_tag (line_at c p)" "cl_valid (line_at c0 p) = cl_valid (line_at c p)"
        "cl_data (line_at c0 p) = cl_data (line_at c p)" by auto
    have l0: "cl_valid (line_at c0 q) = cl_valid (line_at c q) \<and> cl_tag (line_at c0 q) = cl_tag (line_at c q)" for q
      using c0(7,8) frame_line [OF c0(5), of q] by (cases "q = p") auto
    note sg = frame_geom [OF c0(5)] and ga = same_geom_addr [OF frame_geom [OF c0(5)]]
    have more: "cache.more c0 = cache.more c" using c0(5) by (simp add: frame_def)
    have ok0: "cache_ok c0"
      using c0(4) tags_ok_shrink [OF _ sg] l0 d(1) by (simp add: cache_ok_def)
    have b: "setIndexOf c a < sets c0" "i < assoc c0" "offsetOf c0 a < lineBytes c0" "2 \<le> offsetBits c0"
      using setIndexOf_less [OF g, of a] c0(3) offsetOf_less [OF c0(4)] d(2) sg by (simp_all add: same_geom_def)
    have idx: "drop_bit WordShift (offsetOf c0 a) < length (cl_data (line_at c0 p))"
      using word_index_less [OF c0(4) b(4,3,1,2)] c0(2) by simp
    define w where "w = cl_data (line_at c0 p) ! drop_bit WordShift (offsetOf c0 a)"
    define l where "l = (line_at c0 p)\<lparr>cl_data := (cl_data (line_at c0 p))[drop_bit WordShift (offsetOf c0 a) := merge_word strb w dat]\<rparr>"
    have at: "atAligned (line_at c0 p) (offsetOf c0 a) = Some w"
      "putAligned (line_at c0 p) (offsetOf c0 a) (merge_word strb w dat) = Some l"
      using idx by (simp_all add: atAligned_def putAligned_def at_put_def w_def l_def)
    define c1 where "c1 = put_line c0 p l"
    have k1: "cache_ok c1 \<and> contents c1 = contents c0 \<and> same_geom c0 c1"
      unfolding c1_def c0(2) using c0(2) by (intro put_line_keeps [OF ok0 b(1,2)]) (simp_all add: l_def)
    have sel: "line_at c1 q = (if q = p then l else line_at c0 q)" for q
      using geometry_put_sel [OF c0(4) b(1,2), of l q] c0(2) by (auto simp: c1_def)
    have t1: "same_ctl c c1" "pipe c1 = pipe c" "cache_id c1 = cache_id c"
      using same_ctl_more [OF more] more_fields(1) [OF more] sg by (simp_all add: c1_def same_ctl_def put_line_def same_geom_def)
    have i1: "pcache_inv c1"
    proof (rule pcache_inv_keep [OF c _ _ t1(1,2)])
      show "cache_ok c1" "same_geom c c1" using k1 same_geom_trans [OF sg] by blast+
      show "cl_valid (line_at c1 q) = cl_valid (line_at c q) \<and> cl_tag (line_at c1 q) = cl_tag (line_at c q)" for q
        using l0 [of q] by (auto simp: sel l_def)
    qed
    have v: "cl_valid (line_at c0 p)" using c0(6) by (simp add: holds_tag_def)
    have eq: "write_through now a dat strb c = Some (c1\<lparr>w_waiting := True\<rparr>,
      [MemReq (mem_req Write a (cache_id c) 1 [dat] [strb]), CpuResp (cpu_msg a 0 (cache_id c) Write)])"
      using pr hw Some c0(1) v at by (simp add: write_through_def c1_def)
    have hit: "holds_tag (tagOf c a) (line_at c p)" using c0(6-8) by (simp add: holds_tag_def)
    have rd: "atAligned (line_at c p) (offsetOf c a) = Some w" "atAligned (line_at c1 p) (offsetOf c a) = Some (merge_word strb w dat)"
      using at(1) idx c0(9) ga by (simp_all add: sel l_def atAligned_def)
    have ct: "contents c1 = contents c" using k1 contents_cong [OF sg] l0 by simp
    let ?c = "c1\<lparr>w_waiting := True\<rparr>"
    have b1: "same_base c1 ?c" by simp
    have "\<exists>p w. holds_tag (tagOf c a) (line_at c p) \<and> atAligned (line_at c p) (offsetOf c a) = Some w \<and>
       atAligned (line_at ?c p) (offsetOf c a) = Some (merge_word strb w dat)"
      using hit rd by (intro exI [of _ p] exI [of _ w]) (simp add: same_baseD(1) [OF b1])
    then show ?thesis
      using i1 t1 ct same_base_ok(4) [OF b1] same_ctlD(1) [OF t1(1)] by (intro exI [of _ ?c]) (simp add: eq)
  qed
qed

section \<open>Runs of the cache\<close>

text \<open>
  The entry points of the cache, and when its neighbours use them: the core sends to a
  ready port, the arbiter answers a request that is out.
\<close>

fun pc_step :: "port_in \<Rightarrow> pipe_cache \<Rightarrow> (pipe_cache \<times> cache_event list) option" where
  "pc_step (CpuRead now a) c = map_option (\<lambda>c'. (c', [])) (pc_read_req now a c)"
| "pc_step (CpuWrite now a dat strb) c = pc_write_req now a dat strb c"
| "pc_step (MemDone now t) c = map_option (\<lambda>c'. (c', [])) (pc_recv_mem_resp now t c)"
| "pc_step (PortTick now) c = pc_do_update now c"
| "pc_step FlushAll c = Some (pc_flush_all c, [])"

fun pc_enabled :: "pipe_cache \<Rightarrow> port_in \<Rightarrow> bool" where
  "pc_enabled c (CpuRead now a) = fst (pc_is_ready c)"
| "pc_enabled c (CpuWrite now a dat strb) = snd (pc_is_ready c)"
| "pc_enabled c (MemDone now t) =
     (if mt_mop t = Read
      then r_waiting c \<and> (case last (pipe c) of None \<Rightarrow> False | Some bk \<Rightarrow> mt_addr t = pe_addr bk)
      else w_waiting c)"
| "pc_enabled c (PortTick now) = (now < InfTime)"
| "pc_enabled c FlushAll = True"

text \<open>The requests that pass the pipe: all of them with write-back, the reads otherwise.\<close>

fun pc_ins :: "bool \<Rightarrow> port_in \<Rightarrow> (addr_t \<times> mop) list" where
  "pc_ins wb (CpuRead now a) = [(a, Read)]"
| "pc_ins wb (CpuWrite now a dat strb) = (if wb then [(a, Write)] else [])"
| "pc_ins wb _ = []"

definition pc_out :: "bool \<Rightarrow> cache_event \<Rightarrow> (addr_t \<times> mop) list" where
  "pc_out wb ev = filter (\<lambda>r. wb \<or> snd r = Read) (resp_out ev)"

lemma pc_outs: "concat (map (pc_out wb) evs) = filter (\<lambda>r. wb \<or> snd r = Read) (responses evs)"
  by (induction evs) (simp_all add: pc_out_def responses_def)

definition pipe_reads :: "pipe_cache \<Rightarrow> bool" where
  "pipe_reads c \<longleftrightarrow> (\<forall>r\<in>set (requests c). snd r = Read)"

definition pc_run_inv :: "bool \<Rightarrow> pipe_cache \<Rightarrow> bool" where
  "pc_run_inv wb c \<longleftrightarrow> pcache_inv c \<and> write_back c = wb \<and> (wb \<or> pipe_reads c)"

lemma waiting_no_update:
  assumes c: "pcache_inv c" and r: "r_waiting c" and n: "now < InfTime"
  shows "pc_do_update now c = Some (c, [])"
proof -
  note d = pcache_invD [OF c]
  have "\<not> pending_fill_req c"
    using d(5) r by (auto simp: phase_ok_def idle_def line_phase_def split: option.splits if_splits)
  then show ?thesis using r n d(7) by (simp add: pc_do_update_def pc_next_update_def)
qed

lemma pc_do_update_ok:
  assumes c: "pcache_inv c" and n: "now < InfTime"
  shows "\<exists>c' evs. pc_do_update now c = Some (c', evs) \<and> pcache_inv c' \<and>
    responses evs @ requests c' = requests c \<and> write_back c' = write_back c \<and>
    (\<forall>m. CpuResp m \<in> set evs \<longrightarrow> ct_id m = cache_id c) \<and>
    (\<forall>m. MemReq m \<in> set evs \<longrightarrow> mt_mop m = Read \<longrightarrow> \<not> pending_evict c \<and> \<not> w_waiting c)"
proof (cases "r_waiting c")
  case True
  then show ?thesis using waiting_no_update [OF c True n] c by simp
next
  case False
  then show ?thesis using pc_update_impl_ok [OF c False n] c by (auto simp: pc_do_update_def)
qed

lemma pc_step_ok:
  assumes c: "pc_run_inv wb c" and e: "pc_enabled c i"
  shows "\<exists>c' evs. pc_step i c = Some (c', evs) \<and> pc_run_inv wb c' \<and>
    concat (map (pc_out wb) evs) @ requests c' = requests c @ pc_ins wb i"
proof -
  have inv: "pcache_inv c" and wb: "write_back c = wb" and rd: "wb \<or> (\<forall>r\<in>set (requests c). snd r = Read)"
    using c by (simp_all add: pc_run_inv_def pipe_reads_def)
  show ?thesis
  proof (cases i)
    case (CpuRead now a)
    define en where "en = \<lparr>pe_addr = a, pe_line = None, pe_mop = Read, pe_wrstrb = 0, pe_wrdata = 0\<rparr>"
    have s: "is_shifted c" using e CpuRead by (auto simp: pc_is_ready_def Let_def split: if_splits)
    obtain c' where "enter_pipe now en c = Some c'" "pcache_inv c'" "requests c' = requests c @ [req_key en]"
        "write_back c' = write_back c"
      using enter_pipe_ok [OF inv s, of en now] by (auto simp: en_def)
    then show ?thesis
      using CpuRead wb rd by (simp add: pc_read_req_def en_def [symmetric] pc_run_inv_def pipe_reads_def)
        (auto simp: en_def req_key_def)
  next
    case (CpuWrite now a dat strb)
    show ?thesis
    proof (cases wb)
      case True
      define en where "en = \<lparr>pe_addr = a, pe_line = None, pe_mop = Write, pe_wrstrb = strb, pe_wrdata = dat\<rparr>"
      have s: "is_shifted c" using e CpuWrite True wb by (auto simp: pc_is_ready_def Let_def split: if_splits)
      obtain c' where "enter_pipe now en c = Some c'" "pcache_inv c'" "requests c' = requests c @ [req_key en]"
          "write_back c' = write_back c"
        using enter_pipe_ok [OF inv s, of en now] by (auto simp: en_def)
      then show ?thesis
        using CpuWrite wb True by (simp add: pc_write_req_def en_def [symmetric] pc_run_inv_def) (simp add: en_def req_key_def)
    next
      case False
      obtain c' where c': "write_through now a dat strb c = Some (c',
          [MemReq (mem_req Write a (cache_id c) 1 [dat] [strb]), CpuResp (cpu_msg a 0 (cache_id c) Write)])"
          "pcache_inv c'" "pipe c' = pipe c" "write_back c' = write_back c"
        using write_through_ok [OF inv, of now a dat strb] by blast
      then show ?thesis
        using CpuWrite wb rd False by (simp add: pc_write_req_def pc_run_inv_def pipe_reads_def requests_def pc_out_def)
    qed
  next
    case (MemDone now t)
    show ?thesis
    proof (cases "mt_mop t")
      case Read
      then obtain bk where bk: "r_waiting c" "last (pipe c) = Some bk" "mt_addr t = pe_addr bk"
        using e MemDone by (auto split: option.splits)
      obtain c' where "pc_recv_mem_resp now t c = Some c'" "pcache_inv c'" "pipe c' = pipe c" "write_back c' = write_back c"
        using recv_fill_ok [OF inv bk(1) Read bk(2,3), of now] by blast
      then show ?thesis using MemDone wb rd by (simp add: pc_run_inv_def pipe_reads_def requests_def)
    next
      case Write
      then show ?thesis
        using e MemDone inv wb rd by (auto simp: pc_recv_mem_resp_def pc_run_inv_def pipe_reads_def requests_def Let_def)
    qed
  next
    case (PortTick now)
    obtain c' evs where u: "pc_do_update now c = Some (c', evs)" "pcache_inv c'" "responses evs @ requests c' = requests c"
        "write_back c' = write_back c"
      using pc_do_update_ok [OF inv, of now] e PortTick by auto
    have sub: "wb \<or> (\<forall>r\<in>set (responses evs) \<union> set (requests c'). snd r = Read)"
      using rd by (simp flip: u(3))
    then have "filter (\<lambda>r. wb \<or> snd r = Read) (responses evs) = responses evs" by (auto intro: filter_True)
    then show ?thesis using PortTick u wb sub by (auto simp: pc_run_inv_def pipe_reads_def pc_outs)
  next
    case FlushAll
    then show ?thesis using inv wb rd by (simp add: pc_flush_all_def pc_run_inv_def pipe_reads_def requests_def)
  qed
qed

interpretation pc: fifo_port "pc_run_inv wb" pc_enabled pc_step "pc_ins wb" "pc_out wb" requests for wb
  by unfold_locales (rule pc_step_ok)

lemma new_pipe_cache_inv:
  assumes n: "new_pipe_cache depth size_bytes line_bytes asc pf cid dff wb cw delay rp = Some c"
    and d: "0 < depth" and lb: "line_bytes < 2 ^ 32" "4 \<le> line_bytes" and dl: "wb \<longrightarrow> delay = 0"
    and rp: "case rp of None \<Rightarrow> asc \<in> {1, 2, 4} | Some q \<Rightarrow> repl_inv asc (size_bytes div (line_bytes * asc)) q"
  shows "pc_run_inv wb c" and "requests c = []" and "contents c = {}"
proof -
  obtain c0 where c0: "new_cache size_bytes line_bytes asc pf cid rp (wb \<and> asc > 1) = Some c0"
      "c = cache.extend c0 \<lparr>pipe = replicate depth None, pipe_depth = depth, sram_dff = dff, write_back = wb,
        cwf = cw, wb_hit_resp_delay = delay, r_waiting = False, w_waiting = False,
        is_shifted = True, is_replay = False, pending_flush = False,
        pending_fill_req = False, pending_evict = False, evict_addr = 0, evict_data = [],
        blocked_until = 0, sched_hit_time = InfTime, sched_hit_resp = cpu_msg 0 0 0 Read\<rparr>"
    using n by (auto simp: new_pipe_cache_def simp del: msg_defs)
  note ok = new_cache_ok [OF c0(1) lb(1) rp]
  have b: "same_base c0 c" by (simp add: c0(2) same_base_def same_geom_def cache.defs)
  note e = same_baseD [OF b] and k = same_base_ok [OF b]
  have "\<not> offsetBits c0 \<le> 1"
  proof
    assume "offsetBits c0 \<le> 1"
    then have "2 ^ offsetBits c0 \<le> (2 :: nat) ^ 1" by (rule power_increasing) simp
    then show False using ok(1,3) lb(2) by (simp add: cache_ok_def geometry_ok_def)
  qed
  then have o2: "2 \<le> offsetBits c" by (simp add: e)
  have p: "pipe c = replicate depth None" by (simp add: c0(2) cache.defs)
  have q: "queued_ok (butlast (pipe c))" by (auto simp: queued_ok_def p dest: in_set_butlastD)
  have "pcache_inv c"
    using ok(1) k o2 p d q dl by (simp add: pcache_inv_def phase_ok_def last_replicate) (simp add: c0(2) cache.defs idle_def)
  moreover have r: "requests c = []" using somes_None [of "replicate depth None"] by (simp add: requests_def p)
  ultimately show "pc_run_inv wb c" by (simp add: pc_run_inv_def pipe_reads_def) (simp add: c0(2) cache.defs)
  show "requests c = []" by (fact r)
  show "contents c = {}" using ok(2) k by simp
qed

end
