(* ===== verification/Uncached.thy ===== *)
theory Uncached
  imports CacheCore Port
begin

text \<open>
  NoCache and StoreBuffer of src/cacheSim/CacheBase.hh and .cc: the two memory ports
  without a cache. Both are built as timing-only code (ACTIVE\_MODE), so a read
  response carries no data and answers with a fixed word.
\<close>

section \<open>NoCache\<close>

record no_cache = cache +
  nc_r_busy :: bool
  nc_w_busy :: bool

definition new_no_cache :: "nat \<Rightarrow> no_cache option" where
  "new_no_cache cid = do {
     rp \<leftarrow> make_repl_policy ''plru'' 1 2;
     c \<leftarrow> new_cache 8 4 1 None cid (Some rp) False;
     Some (cache.extend c \<lparr>nc_r_busy = False, nc_w_busy = False\<rparr>) }"

definition nc_is_ready :: "no_cache \<Rightarrow> bool \<times> bool" where
  "nc_is_ready c = (\<not> nc_r_busy c, \<not> nc_w_busy c)"

definition nc_read_req :: "addr_t \<Rightarrow> no_cache \<Rightarrow> (no_cache \<times> cache_event list) option" where
  "nc_read_req addr c = do {
     assert_that (fst (nc_is_ready c));
     Some (count_access False (c\<lparr>nc_r_busy := True\<rparr>),
           [MemReq (mem_req Read addr (cache_id c) 1 [] [])]) }"

definition nc_write_req :: "addr_t \<Rightarrow> word_t \<Rightarrow> 8 word \<Rightarrow> no_cache \<Rightarrow> (no_cache \<times> cache_event list) option" where
  "nc_write_req addr data strb c = do {
     assert_that (snd (nc_is_ready c));
     Some (count_access False (c\<lparr>nc_w_busy := True\<rparr>),
           [MemReq (mem_req Write addr (cache_id c) 1 [data] [strb])]) }"

definition nc_recv_mem_resp :: "mem_trans \<Rightarrow> no_cache \<Rightarrow> (no_cache \<times> cache_event list) option" where
  "nc_recv_mem_resp t c =
     (if mt_mop t = Read then do {
        assert_that (nc_r_busy c);
        assert_that (length (mt_data t) = 0);
        Some (c\<lparr>nc_r_busy := False\<rparr>,
              [CpuResp (cpu_msg (mt_addr t) 0xdeadbeef (cache_id c) Read),
               CpuAck (ack_msg (cache_id c) Read)]) }
      else do {
        assert_that (nc_w_busy c);
        Some (c\<lparr>nc_w_busy := False\<rparr>,
              [CpuResp (cpu_msg (mt_addr t) 0x0badc0de (cache_id c) Write),
               CpuAck (ack_msg (cache_id c) Write)]) })"

definition nc_flush_all :: "no_cache \<Rightarrow> no_cache" where
  "nc_flush_all c = c"

definition nc_next_update :: "no_cache \<Rightarrow> tick_t" where
  "nc_next_update c = InfTime"

definition nc_update_impl :: "no_cache \<Rightarrow> no_cache" where
  "nc_update_impl c = c"

section \<open>StoreBuffer\<close>

record st_ent =
  se_addr :: addr_t
  se_data :: word_t
  se_mask :: "8 word"

record store_buffer = cache +
  sb_r_busy :: bool
  sb_w_busy :: bool
  sb_pending_flush :: bool
  fifo :: "st_ent list"
  sb_entries :: nat
  sched_w_time :: tick_t
  sched_r_time :: tick_t
  pending_rmiss_time :: tick_t
  pending_rmiss_addr :: addr_t
  sched_r_resp :: cpu_trans
  sched_w_resp :: cpu_trans

definition new_store_buffer :: "nat \<Rightarrow> nat \<Rightarrow> store_buffer option" where
  "new_store_buffer n cid = do {
     c \<leftarrow> new_cache 8 4 1 None cid None False;
     Some (cache.extend c
       \<lparr>sb_r_busy = False, sb_w_busy = False, sb_pending_flush = False, fifo = [],
        sb_entries = n, sched_w_time = InfTime, sched_r_time = InfTime,
        pending_rmiss_time = InfTime, pending_rmiss_addr = 0,
        sched_r_resp = cpu_msg 0 0 0 Read, sched_w_resp = cpu_msg 0 0 0 Read\<rparr>) }"

definition sb_is_ready :: "store_buffer \<Rightarrow> bool \<times> bool" where
  "sb_is_ready c =
     (if sb_pending_flush c then (False, False)
      else (\<not> sb_r_busy c,
            if sb_entries c = 0 then \<not> sb_w_busy c else length (fifo c) < sb_entries c))"

definition sb_flush_all :: "store_buffer \<Rightarrow> store_buffer" where
  "sb_flush_all c = c\<lparr>sb_pending_flush := True\<rparr>"

text \<open>Sending the oldest buffered store to memory.\<close>

definition drain_req :: "nat \<Rightarrow> st_ent \<Rightarrow> cache_event" where
  "drain_req cid e = MemReq (mem_req Write (se_addr e) cid 1 [se_data e] [se_mask e])"

definition sb_issue_rmiss :: "tick_t \<Rightarrow> store_buffer \<Rightarrow> store_buffer \<times> cache_event list" where
  "sb_issue_rmiss now c =
     (if pending_rmiss_time c \<le> now
      then (c\<lparr>pending_rmiss_time := InfTime\<rparr>,
            [MemReq (mem_req Read (pending_rmiss_addr c) (cache_id c) 1 [] [])])
      else (c, []))"

definition sb_deliver_read :: "tick_t \<Rightarrow> store_buffer \<Rightarrow> store_buffer \<times> cache_event list" where
  "sb_deliver_read now c =
     (if sched_r_time c \<le> now
      then (c\<lparr>sched_r_time := InfTime, sb_r_busy := False\<rparr>, [CpuResp (sched_r_resp c)])
      else (c, []))"

definition sb_deliver_write :: "tick_t \<Rightarrow> store_buffer \<Rightarrow> store_buffer \<times> cache_event list" where
  "sb_deliver_write now c =
     (if sched_w_time c \<le> now
      then (case fifo c of
              e # _ \<Rightarrow>
                (if \<not> sb_w_busy c
                 then (c\<lparr>sched_w_time := InfTime, sb_w_busy := True\<rparr>,
                       [CpuResp (sched_w_resp c), drain_req (cache_id c) e])
                 else (c\<lparr>sched_w_time := InfTime\<rparr>, [CpuResp (sched_w_resp c)]))
            | [] \<Rightarrow> (c\<lparr>sched_w_time := InfTime\<rparr>, [CpuResp (sched_w_resp c)]))
      else (c, []))"

definition sb_update_impl :: "tick_t \<Rightarrow> store_buffer \<Rightarrow> store_buffer \<times> cache_event list" where
  "sb_update_impl now c =
     (let (c1, e1) = sb_issue_rmiss now c;
          (c2, e2) = sb_deliver_read now c1;
          (c3, e3) = sb_deliver_write now c2
      in (c3, e1 @ e2 @ e3))"

definition sb_next_update :: "store_buffer \<Rightarrow> tick_t" where
  "sb_next_update c = min (sched_r_time c) (min (sched_w_time c) (pending_rmiss_time c))"

definition sb_do_update :: "tick_t \<Rightarrow> store_buffer \<Rightarrow> store_buffer \<times> cache_event list" where
  "sb_do_update now c = (if sb_next_update c \<le> now then sb_update_impl now c else (c, []))"

definition sb_read_req :: "tick_t \<Rightarrow> addr_t \<Rightarrow> store_buffer \<Rightarrow> store_buffer" where
  "sb_read_req now addr c =
     (case List.find (\<lambda>s. se_addr s = addr \<and> se_mask s = 0xf) (fifo c) of
        None \<Rightarrow> (count_access False c)
          \<lparr>pending_rmiss_time := now + 1, pending_rmiss_addr := addr, sb_r_busy := True\<rparr>
      | Some e \<Rightarrow> (count_access True c)
          \<lparr>sched_r_time := now + 1,
           sched_r_resp := cpu_msg addr (se_data e) (cache_id c) Read\<rparr>)"

text \<open>Only the access counter moves on a buffered store.\<close>

definition count_only_access :: "'a cache_scheme \<Rightarrow> 'a cache_scheme" where
  "count_only_access c = c\<lparr>stats := (stats c)\<lparr>cs_accesses := cs_accesses (stats c) + 1\<rparr>\<rparr>"

definition sb_write_req :: "tick_t \<Rightarrow> addr_t \<Rightarrow> word_t \<Rightarrow> 8 word \<Rightarrow> store_buffer \<Rightarrow> (store_buffer \<times> cache_event list) option" where
  "sb_write_req now addr data strb c =
     (if sb_entries c = 0
      then Some ((count_access False c)\<lparr>sb_w_busy := True\<rparr>,
                 [MemReq (mem_req Write addr (cache_id c) 1 [data] [strb])])
      else do {
        assert_that (length (fifo c) < sb_entries c);
        Some ((count_only_access c)
                \<lparr>fifo := fifo c @ [\<lparr>se_addr = addr, se_data = data, se_mask = strb\<rparr>],
                 sched_w_time := now + 1,
                 sched_w_resp := cpu_msg addr 0x0badc0de (cache_id c) Write\<rparr>, []) })"

definition sb_recv_mem_resp :: "tick_t \<Rightarrow> mem_trans \<Rightarrow> store_buffer \<Rightarrow> (store_buffer \<times> cache_event list) option" where
  "sb_recv_mem_resp now t c =
     (if mt_mop t = Read then do {
        assert_that (length (mt_data t) = 0);
        Some (c\<lparr>sched_r_time := now + 1,
                sched_r_resp := cpu_msg (mt_addr t) 0xbeefc0de (cache_id c) Read\<rparr>, []) }
      else if sb_entries c = 0 then
        Some (c\<lparr>sched_w_time := now + 1,
                sched_w_resp := cpu_msg (mt_addr t) 0x0badc0de (cache_id c) Write,
                sb_w_busy := False\<rparr>, [])
      else (case fifo c of
              [] \<Rightarrow> None
            | front # rest \<Rightarrow> do {
                assert_that (se_addr front = mt_addr t);
                let acks = (if length (fifo c) = sb_entries c
                            then [CpuAck (ack_msg (cache_id c) Write)] else []);
                (case rest of
                   [] \<Rightarrow> Some (c\<lparr>fifo := [], sb_w_busy := False\<rparr>, acks)
                 | next # _ \<Rightarrow> Some (c\<lparr>fifo := rest, sb_w_busy := True\<rparr>,
                                      acks @ [drain_req (cache_id c) next])) }))"

section \<open>Runs of the uncached port\<close>

text \<open>Each of the two channels has one request out at a time and answers it once.\<close>

fun mop_out :: "mop \<Rightarrow> cache_event \<Rightarrow> mop list" where
  "mop_out k (CpuResp m) = (if ct_mop m = k then [k] else [])"
| "mop_out k _ = []"

fun mop_ins :: "mop \<Rightarrow> port_in \<Rightarrow> mop list" where
  "mop_ins k (CpuRead now a) = (if k = Read then [k] else [])"
| "mop_ins k (CpuWrite now a dat strb) = (if k = Write then [k] else [])"
| "mop_ins k _ = []"

fun nc_step :: "port_in \<Rightarrow> no_cache \<Rightarrow> (no_cache \<times> cache_event list) option" where
  "nc_step (CpuRead now a) c = nc_read_req a c"
| "nc_step (CpuWrite now a dat strb) c = nc_write_req a dat strb c"
| "nc_step (MemDone now t) c = nc_recv_mem_resp t c"
| "nc_step (PortTick now) c = Some (if nc_next_update c \<le> now then nc_update_impl c else c, [])"
| "nc_step FlushAll c = Some (nc_flush_all c, [])"

fun nc_enabled :: "no_cache \<Rightarrow> port_in \<Rightarrow> bool" where
  "nc_enabled c (CpuRead now a) = fst (nc_is_ready c)"
| "nc_enabled c (CpuWrite now a dat strb) = snd (nc_is_ready c)"
| "nc_enabled c (MemDone now t) = (if mt_mop t = Read then nc_r_busy c \<and> mt_data t = [] else nc_w_busy c)"
| "nc_enabled c _ = True"

fun nc_pend :: "mop \<Rightarrow> no_cache \<Rightarrow> mop list" where
  "nc_pend Read c = (if nc_r_busy c then [Read] else [])"
| "nc_pend Write c = (if nc_w_busy c then [Write] else [])"

lemma count_access_more [simp]:
  "nc_r_busy (count_access h c) = nc_r_busy c" "nc_w_busy (count_access h c) = nc_w_busy c"
  by (simp_all add: count_access_def)

lemmas nc_defs = nc_is_ready_def nc_read_req_def nc_write_req_def nc_recv_mem_resp_def nc_flush_all_def nc_update_impl_def

interpretation nc: fifo_port "\<lambda>_. True" nc_enabled nc_step "mop_ins k" "mop_out k" "nc_pend k" for k
proof
  fix c i
  assume "nc_enabled c i"
  then show "\<exists>c' evs. nc_step i c = Some (c', evs) \<and> True \<and>
      concat (map (mop_out k) evs) @ nc_pend k c' = nc_pend k c @ mop_ins k i"
  proof (cases i)
    case (MemDone now t)
    then show ?thesis
      using \<open>nc_enabled c i\<close> by (cases k; cases "mt_mop t") (simp_all add: nc_defs)
  qed (cases k; simp add: nc_defs)+
qed

section \<open>Runs of the store buffer\<close>

text \<open>
  The main loop updates the buffer before the core sends, so a request finds no answer
  still waiting to be delivered; a memory answer belongs to a request that is out.
\<close>

fun sb_step :: "port_in \<Rightarrow> store_buffer \<Rightarrow> (store_buffer \<times> cache_event list) option" where
  "sb_step (CpuRead now a) c = Some (sb_read_req now a c, [])"
| "sb_step (CpuWrite now a dat strb) c = sb_write_req now a dat strb c"
| "sb_step (MemDone now t) c = sb_recv_mem_resp now t c"
| "sb_step (PortTick now) c = Some (sb_do_update now c)"
| "sb_step FlushAll c = Some (sb_flush_all c, [])"

fun sb_enabled :: "store_buffer \<Rightarrow> port_in \<Rightarrow> bool" where
  "sb_enabled c (CpuRead now a) = (fst (sb_is_ready c) \<and> sched_r_time c = InfTime \<and> now + 1 < InfTime)"
| "sb_enabled c (CpuWrite now a dat strb) = (snd (sb_is_ready c) \<and> sched_w_time c = InfTime \<and> now + 1 < InfTime)"
| "sb_enabled c (MemDone now t) = (now + 1 < InfTime \<and>
     (if mt_mop t = Read
      then sb_r_busy c \<and> pending_rmiss_time c = InfTime \<and> sched_r_time c = InfTime \<and> mt_data t = []
      else sb_w_busy c \<and> (if sb_entries c = 0 then sched_w_time c = InfTime else map se_addr (take 1 (fifo c)) = [mt_addr t])))"
| "sb_enabled c (PortTick now) = (now < InfTime)"
| "sb_enabled c FlushAll = True"

text \<open>
  A buffered store is drained when it is the oldest and no drain is out; the first entry
  stays in the buffer until memory has answered.
\<close>

definition sb_ok :: "store_buffer \<Rightarrow> bool" where
  "sb_ok c \<longleftrightarrow> (pending_rmiss_time c \<noteq> InfTime \<longrightarrow> sb_r_busy c \<and> sched_r_time c = InfTime) \<and>
     (sched_r_time c \<noteq> InfTime \<longrightarrow> ct_mop (sched_r_resp c) = Read) \<and>
     (sched_w_time c \<noteq> InfTime \<longrightarrow> ct_mop (sched_w_resp c) = Write) \<and>
     length (fifo c) \<le> sb_entries c \<and>
     (sb_entries c \<noteq> 0 \<longrightarrow> (sb_w_busy c \<longrightarrow> fifo c \<noteq> []) \<and> (fifo c \<noteq> [] \<and> sched_w_time c = InfTime \<longrightarrow> sb_w_busy c))"

fun sb_pend :: "mop \<Rightarrow> store_buffer \<Rightarrow> mop list" where
  "sb_pend Read c = (if sb_r_busy c \<or> sched_r_time c \<noteq> InfTime then [Read] else [])"
| "sb_pend Write c = replicate (of_bool (sched_w_time c \<noteq> InfTime) + of_bool (sb_entries c = 0 \<and> sb_w_busy c)) Write"

lemma count_more [simp]:
  "store_buffer.sb_r_busy (count_access h c) = sb_r_busy c" "store_buffer.sb_w_busy (count_access h c) = sb_w_busy c"
  "sb_entries (count_access h c) = sb_entries c" "fifo (count_access h c) = fifo c"
  "sched_w_time (count_access h c) = sched_w_time c" "sched_r_time (count_access h c) = sched_r_time c"
  "pending_rmiss_time (count_access h c) = pending_rmiss_time c"
  "sched_r_resp (count_access h c) = sched_r_resp c" "sched_w_resp (count_access h c) = sched_w_resp c"
  by (simp_all add: count_access_def)

fun store_out :: "cache_event \<Rightarrow> (addr_t \<times> word_t list \<times> 8 word list) list" where
  "store_out (MemReq m) = (if mt_mop m = Write then [(mt_addr m, mt_data m, mt_strb m)] else [])"
| "store_out _ = []"

fun store_ins :: "port_in \<Rightarrow> (addr_t \<times> word_t list \<times> 8 word list) list" where
  "store_ins (CpuWrite now a dat strb) = [(a, [dat], [strb])]"
| "store_ins _ = []"

definition undrained :: "store_buffer \<Rightarrow> (addr_t \<times> word_t list \<times> 8 word list) list" where
  "undrained c = map (\<lambda>e. (se_addr e, [se_data e], [se_mask e])) (if sb_w_busy c then tl (fifo c) else fifo c)"

definition sb_buf_ok :: "store_buffer \<Rightarrow> bool" where
  "sb_buf_ok c \<longleftrightarrow> sb_ok c \<and> sb_entries c \<noteq> 0"

definition sb_kept :: "store_buffer \<Rightarrow> port_in \<Rightarrow> store_buffer \<Rightarrow> cache_event list \<Rightarrow> bool" where
  "sb_kept c i c' evs \<longleftrightarrow> sb_ok c' \<and> sb_entries c' = sb_entries c \<and>
     (\<forall>k. concat (map (mop_out k) evs) @ sb_pend k c' = sb_pend k c @ mop_ins k i) \<and>
     (sb_entries c \<noteq> 0 \<longrightarrow> concat (map store_out evs) @ undrained c' = undrained c @ store_ins i)"

lemma mop_all: "(\<forall>k. P k) \<longleftrightarrow> P Read \<and> P Write"
  using mop.exhaust by metis

lemma sb_read_kept:
  assumes "sb_ok c" "sb_enabled c (CpuRead now a)"
  shows "sb_kept c (CpuRead now a) (sb_read_req now a c) []"
proof -
  have r: "\<not> sb_r_busy c" "sched_r_time c = InfTime" "now + 1 \<noteq> InfTime"
    using assms(2) by (auto simp: sb_is_ready_def split: if_splits)
  then show ?thesis
    using assms(1) unfolding sb_kept_def sb_ok_def undrained_def mop_all
    by (cases "List.find (\<lambda>s. se_addr s = a \<and> se_mask s = 0xf) (fifo c)") (simp_all add: sb_read_req_def)
qed

lemma sb_write_kept:
  assumes "sb_ok c" "sb_enabled c (CpuWrite now a dat strb)"
  shows "\<exists>c' evs. sb_write_req now a dat strb c = Some (c', evs) \<and> sb_kept c (CpuWrite now a dat strb) c' evs"
proof (cases "sb_entries c = 0")
  case True
  then show ?thesis
    using assms unfolding sb_kept_def sb_ok_def undrained_def mop_all
    by (simp add: sb_write_req_def sb_is_ready_def split: if_splits)
next
  case False
  then have "length (fifo c) < sb_entries c" using assms(2) by (simp add: sb_is_ready_def split: if_splits)
  then show ?thesis
    using False assms unfolding sb_kept_def sb_ok_def undrained_def mop_all
    by (cases "fifo c") (simp_all add: sb_write_req_def count_only_access_def)
qed

lemma sb_issue_kept:
  assumes "sb_ok c" 
  shows "sb_kept c (PortTick now) (fst (sb_issue_rmiss now c)) (snd (sb_issue_rmiss now c))"
  using assms unfolding sb_kept_def sb_ok_def undrained_def mop_all
  by (auto simp: sb_issue_rmiss_def)

lemma sb_dread_kept:
  assumes "sb_ok c" "now < InfTime"
  shows "sb_kept c (PortTick now) (fst (sb_deliver_read now c)) (snd (sb_deliver_read now c))"
  using assms unfolding sb_kept_def sb_ok_def undrained_def mop_all
  by (auto simp: sb_deliver_read_def)

lemma sb_dwrite_kept:
  assumes "sb_ok c" "now < InfTime"
  shows "sb_kept c (PortTick now) (fst (sb_deliver_write now c)) (snd (sb_deliver_write now c))"
  using assms unfolding sb_kept_def sb_ok_def undrained_def mop_all
  by (auto simp: sb_deliver_write_def drain_req_def split: list.split)

lemma sb_recv_kept:
  assumes "sb_ok c" "sb_enabled c (MemDone now t)"
  shows "\<exists>c' evs. sb_recv_mem_resp now t c = Some (c', evs) \<and> sb_kept c (MemDone now t) c' evs"
proof (cases "mt_mop t")
  case Read
  then show ?thesis 
    using assms unfolding sb_kept_def sb_ok_def undrained_def mop_all
    by (auto simp: sb_recv_mem_resp_def)
next
  case Write
  show ?thesis
  proof (cases "sb_entries c = 0")
    case True
    then show ?thesis 
    using Write assms unfolding sb_kept_def sb_ok_def undrained_def mop_all
    by (auto simp: sb_recv_mem_resp_def)
  next
    case False
    then obtain e es where f: "fifo c = e # es" "se_addr e = mt_addr t" using assms(2) Write by (cases "fifo c") auto
    show ?thesis
    proof (cases es)
      case Nil
      then show ?thesis using f False Write assms unfolding sb_kept_def sb_ok_def undrained_def mop_all
        by (simp add: sb_recv_mem_resp_def Let_def)
    next
      case (Cons x xs)
      then show ?thesis using f False Write assms unfolding sb_kept_def sb_ok_def undrained_def mop_all
        by (simp add: sb_recv_mem_resp_def drain_req_def Let_def)
    qed
  qed
qed

lemma sb_kept_trans:
  assumes "sb_kept c (PortTick now) c1 e1" "sb_kept c1 (PortTick now) c2 e2"
  shows "sb_kept c (PortTick now) c2 (e1 @ e2)"
  using assms by (auto simp: sb_kept_def)

lemma sb_tick_kept:
  assumes "sb_ok c" "now < InfTime"
  shows "sb_kept c (PortTick now) (fst (sb_do_update now c)) (snd (sb_do_update now c))"
proof -
  obtain c1 e1 where s1: "sb_issue_rmiss now c = (c1, e1)" by (cases "sb_issue_rmiss now c")
  obtain c2 e2 where s2: "sb_deliver_read now c1 = (c2, e2)" by (cases "sb_deliver_read now c1")
  obtain c3 e3 where s3: "sb_deliver_write now c2 = (c3, e3)" by (cases "sb_deliver_write now c2")
  have k1: "sb_kept c (PortTick now) c1 e1" using sb_issue_kept [OF assms(1), of now] s1 by simp
  then have "sb_ok c1" by (simp add: sb_kept_def)
  from sb_dread_kept [OF this assms(2)] have k2: "sb_kept c1 (PortTick now) c2 e2" using s2 by simp
  then have "sb_ok c2" by (simp add: sb_kept_def)
  from sb_dwrite_kept [OF this assms(2)] have k3: "sb_kept c2 (PortTick now) c3 e3" using s3 by simp
  have "sb_kept c (PortTick now) c []" using assms(1) by (simp add: sb_kept_def)
  with sb_kept_trans [OF k1 sb_kept_trans [OF k2 k3]] show ?thesis
    by (simp add: sb_do_update_def sb_update_impl_def s1 s2 s3)
qed

lemma sb_step_kept:
  assumes ok: "sb_ok c" and e: "sb_enabled c i"
  shows "\<exists>c' evs. sb_step i c = Some (c', evs) \<and> sb_kept c i c' evs"
proof (cases i)
  case (PortTick now)
  then show ?thesis using sb_tick_kept [OF ok, of now] e by (cases "sb_do_update now c") simp
next
  case FlushAll
  then show ?thesis
    using ok unfolding sb_kept_def sb_ok_def undrained_def mop_all by (simp add: sb_flush_all_def)
qed (use sb_read_kept [OF ok] sb_write_kept [OF ok] sb_recv_kept [OF ok] e in simp_all)

interpretation sb: fifo_port sb_ok sb_enabled sb_step "mop_ins k" "mop_out k" "sb_pend k" for k
  using sb_step_kept by unfold_locales (fastforce simp: sb_kept_def)

interpretation sb_mem: fifo_port sb_buf_ok sb_enabled sb_step store_ins store_out undrained
proof
  fix c i
  assume "sb_buf_ok c" "sb_enabled c i"
  then show "\<exists>c' evs. sb_step i c = Some (c', evs) \<and> sb_buf_ok c' \<and>
      concat (map store_out evs) @ undrained c' = undrained c @ store_ins i"
    using sb_step_kept [of c i] by (auto simp: sb_buf_ok_def sb_kept_def)
qed

lemma new_store_buffer_ok:
  "new_store_buffer n cid = Some c \<Longrightarrow> sb_ok c \<and> sb_entries c = n \<and> undrained c = [] \<and> sb_pend k c = []"
  by (cases k) (auto simp: new_store_buffer_def sb_ok_def undrained_def cache.defs)

text \<open>Nothing clears a requested flush: from then on the buffer refuses every request.\<close>

lemma sb_step_flush:
  assumes "sb_pending_flush c" "sb_step i c = Some (c', evs)"
  shows "sb_pending_flush c'"
proof (cases i)
  case (PortTick now)
  then show ?thesis
    using assms by (auto simp: sb_do_update_def sb_update_impl_def sb_issue_rmiss_def sb_deliver_read_def
        sb_deliver_write_def split: if_splits prod.splits list.splits)
next
  case (MemDone now t)
  then show ?thesis
    using assms by (auto simp: sb_recv_mem_resp_def Let_def split: if_splits list.splits)
qed (use assms in \<open>auto simp: sb_read_req_def sb_write_req_def sb_flush_all_def count_only_access_def count_access_def
       split: option.splits if_splits\<close>)

lemma sb_run_flush: "sb_pending_flush c \<Longrightarrow> run_port sb_step is c = Some (c', evs) \<Longrightarrow> sb_pending_flush c'"
  by (induction "is" arbitrary: c evs) (auto dest: sb_step_flush)

lemma sb_step_entries:
  assumes "sb_step i c = Some (c', evs)"
  shows "sb_entries c' = sb_entries c"
proof (cases i)
  case (PortTick now)
  then show ?thesis
    using assms by (auto simp: sb_do_update_def sb_update_impl_def sb_issue_rmiss_def sb_deliver_read_def
        sb_deliver_write_def split: if_splits prod.splits list.splits)
next
  case (MemDone now t)
  then show ?thesis
    using assms by (auto simp: sb_recv_mem_resp_def Let_def split: if_splits list.splits)
qed (use assms in \<open>auto simp: sb_read_req_def sb_write_req_def sb_flush_all_def count_only_access_def count_access_def
       split: option.splits if_splits\<close>)

lemma sb_run_entries: "run_port sb_step is c = Some (c', evs) \<Longrightarrow> sb_entries c' = sb_entries c"
  by (induction "is" arbitrary: c evs) (auto dest: sb_step_entries)

end
