(* ===== verification/CacheProps.thy ===== *)
theory CacheProps
  imports PipeCacheProofs Uncached
begin

text \<open>
  The properties of the replacement policies, the cache arrays, the pipelined cache and
  the uncached ports, stated over the model's definitions, each with an instance at a
  small concrete cache.
\<close>

section \<open>Concrete instances\<close>

definition demo_plru :: plru where
  "demo_plru = \<lparr>pl_assoc = 4, pl_bits = [5, 2]\<rparr>"

definition demo_lines :: "cache_line list" where
  "demo_lines = replicate 4 (new_line 16)"

lemma demo_plru_inv: "plru_inv 4 2 demo_plru"
  by (simp add: demo_plru_def plru_inv_def)

lemma demo_lines_length: "length demo_lines = 4"
  by (simp add: demo_lines_def)

text \<open>Two sets of one 16-byte line: as an instruction cache and as a write-back data cache.\<close>

definition demo_icache :: pipe_cache where
  "demo_icache = the (new_pipe_cache 2 32 16 1 None 0 True False False 1 None)"

definition demo_dcache :: pipe_cache where
  "demo_dcache = the (new_pipe_cache 1 32 16 1 None 1 True True False 0 None)"

lemma demo_geometry: "floorLog2 16 = Some 4" "isPowerOf2 16" "isPowerOf2 2"
  using floorLog2_from_pow2 [of 4] by (simp_all add: floorLog2_def isPowerOf2_def)

lemma demo_icache_new: "new_pipe_cache 2 32 16 1 None 0 True False False 1 None = Some demo_icache"
  unfolding demo_icache_def new_pipe_cache_def new_cache_def Let_def
  by (simp add: demo_geometry make_repl_policy_def)

lemma demo_dcache_new: "new_pipe_cache 1 32 16 1 None 1 True True False 0 None = Some demo_dcache"
  unfolding demo_dcache_def new_pipe_cache_def new_cache_def Let_def
  by (simp add: demo_geometry make_repl_policy_def)

lemmas demo_icache_facts = new_pipe_cache_inv [OF demo_icache_new, simplified]
lemmas demo_dcache_facts = new_pipe_cache_inv [OF demo_dcache_new, simplified]

lemma demo_caches_ok: "pcache_inv demo_icache" "pcache_inv demo_dcache" "cache_ok demo_icache" "cache_ok demo_dcache"
  using demo_icache_facts demo_dcache_facts by (auto simp: pc_run_inv_def pcache_inv_def)

section \<open>Replacement policies\<close>

text \<open>
  Four misses in a row in a four-way set, under the tree PLRU bits and from any state
  of the bits, evict each of the four ways exactly once.
\<close>

lemma plru_covers_all_ways:
  assumes "plru_inv 4 n p" and "si < n" and "length ls = 4"
  shows "\<exists>ws p' ls'. replace_run getVictim onFill [t1, t2, t3, t4] (PLRU p) si ls = Some (ws, PLRU p', ls') \<and>
    distinct ws \<and> set ws = {..<4}"
proof -
  obtain p' ls' where r: "replace_run getVictim onFill [t1, t2, t3, t4] (PLRU p) si ls
      = Some (tree_run 4 (plru_abs p si), PLRU p', ls')"
    using plru4_run_refines [OF assms, of "[t1, t2, t3, t4]"] by (auto simp: eval_nat_numeral)
  have s: "set (tree_run 4 (plru_abs p si)) = {..<4}" by (rule tree_run_4)
  then have "card (set (tree_run 4 (plru_abs p si))) = length (tree_run 4 (plru_abs p si))"
    by (simp add: tree_run_numeral)
  then have "distinct (tree_run 4 (plru_abs p si))" by (rule card_distinct)
  then show ?thesis using r s by blast
qed

text \<open>
  (C32) The bits of a four-way PLRU set implement the abstract decision tree: the sequence of
  ways chosen over any stream of misses is the one the tree chooses, and a way that was just
  touched is never the next victim.
\<close>

theorem plru_refines_tree:
  assumes "plru_inv 4 n p" and "si < n" and "length ls = 4" and "w < 4"
  shows "(\<exists>p' ls'. replace_run getVictim onFill ts (PLRU p) si ls
            = Some (tree_run (length ts) (plru_abs p si), PLRU p', ls')) \<and>
    (\<exists>p'. update_bits p si w = Some p' \<and> plru_abs p' si = tree_touch w (plru_abs p si) \<and>
       plru_getVictim p' si ls \<noteq> Some w)"
proof
  show "\<exists>p' ls'. replace_run getVictim onFill ts (PLRU p) si ls = Some (tree_run (length ts) (plru_abs p si), PLRU p', ls')"
    by (rule plru4_run_refines [OF assms(1-3)])
  obtain p' where p': "update_bits p si w = Some p'" "plru_inv 4 n p'" "plru_abs p' si = tree_touch w (plru_abs p si)"
    using update_bits_refines [OF assms(1,2,4)] by blast
  have "victim_way p' si = Some (tree_victim (tree_touch w (plru_abs p si)))"
    using victim_way_refines [OF p'(2) assms(2)] p'(3) by simp
  moreover have "tree_victim (tree_touch w (plru_abs p si)) \<noteq> w" by (rule tree_touch_protects [OF assms(4)])
  ultimately have "plru_getVictim p' si ls \<noteq> Some w"
    by (auto simp: plru_getVictim_def)
  then show "\<exists>p'. update_bits p si w = Some p' \<and> plru_abs p' si = tree_touch w (plru_abs p si) \<and> plru_getVictim p' si ls \<noteq> Some w"
    using p' by blast
qed

theorem plru_refines_tree_witness:
  "(\<exists>p' ls'. replace_run getVictim onFill [7, 9] (PLRU demo_plru) 0 demo_lines
       = Some (tree_run (length [7 :: nat, 9]) (plru_abs demo_plru 0), PLRU p', ls')) \<and>
   (\<exists>p'. update_bits demo_plru 0 2 = Some p' \<and> plru_abs p' 0 = tree_touch 2 (plru_abs demo_plru 0) \<and>
       plru_getVictim p' 0 demo_lines \<noteq> Some 2)"
  by (rule plru_refines_tree [OF demo_plru_inv _ demo_lines_length]) simp_all

text \<open>
  The LRU policy evicts the least recently stamped line of the set, the first one
  among equals.
\<close>

lemma lru_victim_is_oldest:
  assumes "ls \<noteq> []"
  shows "\<exists>w<length ls. getVictim LRU si ls = Some w \<and>
    (\<forall>j<length ls. cl_stamp (ls ! w) \<le> cl_stamp (ls ! j)) \<and> (\<forall>j<w. cl_stamp (ls ! w) < cl_stamp (ls ! j))"
proof -
  let ?w = "min_element (\<lambda>a b. cl_stamp a < cl_stamp b) ls"
  have "getVictim LRU si ls = Some ?w" using assms by (simp add: lru_getVictim_def)
  then show ?thesis using min_element_spec [OF assms, of cl_stamp] by blast
qed

section \<open>The cache arrays\<close>

text \<open>
  (C33) probe answers whether the block of an address is in the cache, and it never aborts on a
  well-formed cache.
\<close>

theorem probe_exact:
  assumes "cache_ok c"
  shows "probe c a = Some (blockAddrOf c a \<in> contents c)"
  by (rule probe_iff_contents [OF assms])

theorem probe_exact_witness:
  "probe demo_icache 0x80000004 = Some (blockAddrOf demo_icache 0x80000004 \<in> contents demo_icache)"
  by (rule probe_exact [OF demo_caches_ok(3)])

text \<open>
  (C18) access returns a line of the set of the address. On a hit it is the line that holds the
  block and nothing is evicted; on a miss it is an invalidated line and the cache has lost at
  most the block that line held. Either way the arrays stay well formed, with one more access
  and one more hit or miss on the counters.
\<close>

theorem access_correct:
  assumes "cache_ok c"
  shows "\<exists>c' p. access t a c = Some (c', p) \<and> cache_ok c' \<and> fst p = setIndexOf c a \<and> snd p < assoc c \<and>
    (if blockAddrOf c a \<in> contents c
     then holds_tag (tagOf c a) (line_at c' p) \<and> contents c' = contents c \<and> stats c' = stats (count_access True c)
     else \<not> cl_valid (line_at c' p) \<and> stats c' = stats (count_access False c) \<and>
          contents c' = contents c - (if cl_valid (line_at c p) then {cl_tag (line_at c p)} else {}))"
  using access_ok [OF assms, of t a] by (auto split: if_splits)

theorem access_correct_witness:
  "\<exists>c' p. access 3 0x80000004 demo_dcache = Some (c', p) \<and> cache_ok c' \<and>
    fst p = setIndexOf demo_dcache 0x80000004 \<and> snd p < assoc demo_dcache \<and>
    (if blockAddrOf demo_dcache 0x80000004 \<in> contents demo_dcache
     then holds_tag (tagOf demo_dcache 0x80000004) (line_at c' p) \<and> contents c' = contents demo_dcache \<and>
          stats c' = stats (count_access True demo_dcache)
     else \<not> cl_valid (line_at c' p) \<and> stats c' = stats (count_access False demo_dcache) \<and>
          contents c' = contents demo_dcache -
            (if cl_valid (line_at demo_dcache p) then {cl_tag (line_at demo_dcache p)} else {}))"
  by (rule access_correct [OF demo_caches_ok(4)])

text \<open>
  An address is its block address plus its offset in the line, the block address is in the
  same set, and the set index and the offset are in range.
\<close>

lemma address_split:
  assumes "geometry_ok c"
  shows "blockAddrOf c a + of_nat (offsetOf c a) = a \<and> offsetOf c a < lineBytes c \<and>
    setIndexOf c a < sets c \<and> setIndexOf c (blockAddrOf c a) = setIndexOf c a \<and>
    blockAddrOf c (blockAddrOf c a) = blockAddrOf c a"
  using block_plus_offset [OF assms, of a] offsetOf_less [OF assms, of a] setIndexOf_less [OF assms, of a]
    setIndexOf_blockAddrOf [OF assms, of a] blockAddrOf_idem [OF assms, of a] by simp

section \<open>The pipelined cache\<close>

text \<open>
  (C11) A pipelined cache fresh from its constructor, fed any sequence of CPU requests, memory
  answers, flushes and clock ticks, each at a moment its neighbours would send it, never
  aborts; the answers that leave the pipe are the requests that entered it, in their order
  and once each, and the rest is still in the pipe.
\<close>

theorem pipe_cache_answers_in_order:
  assumes "new_pipe_cache depth size_bytes line_bytes asc pf cid dff wb cw delay rp = Some c"
    and "0 < depth" and "line_bytes < 2 ^ 32" and "4 \<le> line_bytes" and "wb \<longrightarrow> delay = 0"
    and "case rp of None \<Rightarrow> asc \<in> {1, 2, 4} | Some q \<Rightarrow> repl_inv asc (size_bytes div (line_bytes * asc)) q"
    and "run_enabled pc_enabled pc_step is c"
  shows "\<exists>c' evs. run_port pc_step is c = Some (c', evs) \<and> cache_ok c' \<and>
    concat (map (pc_ins wb) is) = concat (map (pc_out wb) evs) @ requests c'"
proof -
  note n = new_pipe_cache_inv [OF assms(1-6)]
  from pc.run_ok [OF n(1) assms(7)] obtain c' evs where
    "run_port pc_step is c = Some (c', evs)" "pc_run_inv wb c'"
    "concat (map (pc_out wb) evs) @ requests c' = requests c @ concat (map (pc_ins wb) is)" by blast
  then show ?thesis using n(2) by (auto simp: pc_run_inv_def pcache_inv_def)
qed

text \<open>A request to a new instruction cache, with the two cycles it needs to reach the last stage.\<close>

definition demo_run :: "port_in list" where
  "demo_run = [CpuRead 1 0x80000000, FlushAll]"

lemma demo_run_enabled: "run_enabled pc_enabled pc_step demo_run demo_icache"
proof -
  have r: "fst (pc_is_ready demo_icache)"
    unfolding demo_icache_def new_pipe_cache_def new_cache_def Let_def
    by (simp add: demo_geometry make_repl_policy_def pc_is_ready_def cache.defs)
  then show ?thesis
    by (auto simp: demo_run_def split: option.split)
qed

theorem pipe_cache_answers_in_order_witness:
  "\<exists>c' evs. run_port pc_step demo_run demo_icache = Some (c', evs) \<and> cache_ok c' \<and>
    concat (map (pc_ins False) demo_run) = concat (map (pc_out False) evs) @ requests c'"
  by (rule pipe_cache_answers_in_order [OF demo_icache_new _ _ _ _ _ demo_run_enabled]) simp_all

text \<open>
  One cycle of the pipe returns for every well-formed cache that does not wait for memory,
  keeps it well formed and loses no request: what it answers and what stays in the pipe is
  what was in the pipe. Every answer carries the id of the cache, and a refill is requested
  only when no dirty victim waits to be written and no write is out.
\<close>

lemma cycle_keeps_requests:
  assumes "pcache_inv c" and "\<not> r_waiting c" and "t < InfTime"
  shows "\<exists>c' evs. pc_update_impl t c = Some (c', evs) \<and> pcache_inv c' \<and> responses evs @ requests c' = requests c \<and>
    (\<forall>m. CpuResp m \<in> set evs \<longrightarrow> ct_id m = cache_id c) \<and>
    (\<forall>m. MemReq m \<in> set evs \<longrightarrow> mt_mop m = Read \<longrightarrow> \<not> pending_evict c \<and> \<not> w_waiting c)"
  using pc_update_impl_ok [OF assms] by auto

text \<open>
  (C16) Looking up a request that misses: the information saved for the write-back describes
  exactly the line the miss then invalidates, so a dirty block that leaves the cache on a
  demand miss is always scheduled to be written, under its own address.
\<close>

theorem miss_saves_dirty_victim:
  assumes "cache_ok c" and "2 \<le> offsetBits c" and "blockAddrOf c a \<notin> contents c"
  shows "\<exists>c1 c2 p. save_evict_info a c = Some c1 \<and> access t a c1 = Some (c2, p) \<and> cache_ok c2 \<and>
    \<not> cl_valid (line_at c2 p) \<and>
    (pending_evict c2 \<longleftrightarrow> write_back c \<and> cl_valid (line_at c p) \<and> cl_dirty (line_at c p)) \<and>
    (pending_evict c2 \<longrightarrow> evict_addr c2 = cl_tag (line_at c p))"
  using lookup_new [OF assms(1,2), of a t] assms(3) by (elim exE conjE, intro exI conjI) (assumption | simp)+

lemma demo_offset_bits: "offsetBits demo_dcache = 4" "offsetBits demo_icache = 4"
  unfolding demo_dcache_def demo_icache_def new_pipe_cache_def new_cache_def Let_def
  by (simp_all add: demo_geometry make_repl_policy_def cache.defs)

theorem miss_saves_dirty_victim_witness:
  "\<exists>c1 c2 p. save_evict_info 0x80000010 demo_dcache = Some c1 \<and> access 9 0x80000010 c1 = Some (c2, p) \<and> cache_ok c2 \<and>
    \<not> cl_valid (line_at c2 p) \<and>
    (pending_evict c2 \<longleftrightarrow> write_back demo_dcache \<and> cl_valid (line_at demo_dcache p) \<and> cl_dirty (line_at demo_dcache p)) \<and>
    (pending_evict c2 \<longrightarrow> evict_addr c2 = cl_tag (line_at demo_dcache p))"
  by (rule miss_saves_dirty_victim [OF demo_caches_ok(4)]) (simp_all add: demo_offset_bits demo_dcache_facts)

text \<open>
  (C17) When the memory answers the read of the request in the last stage, the fill is
  accepted, the block of that request is in the cache and nothing else changed in what the
  cache holds, and the request is still in the pipe to be answered.
\<close>

theorem fill_installs_block:
  assumes "pcache_inv c" and "r_waiting c" and "mt_mop m = Read" and "last (pipe c) = Some bk" and "mt_addr m = pe_addr bk"
  shows "\<exists>c'. pc_recv_mem_resp t m c = Some c' \<and> pcache_inv c' \<and> \<not> r_waiting c' \<and> pipe c' = pipe c \<and>
    contents c' = insert (blockAddrOf c (pe_addr bk)) (contents c) \<and> probe c' (pe_addr bk) = Some True"
  using recv_fill_ok [OF assms] by blast

text \<open>The data cache while it waits for the refill of its only request.\<close>

definition demo_entry :: pipe_entry where
  "demo_entry = \<lparr>pe_addr = 0x80000004, pe_line = Some (0, 0), pe_mop = Read, pe_wrstrb = 0, pe_wrdata = 0\<rparr>"

definition demo_waiting :: pipe_cache where
  "demo_waiting = demo_dcache\<lparr>pipe := [Some demo_entry], r_waiting := True, is_replay := True, is_shifted := False\<rparr>"

definition demo_fill :: mem_trans where
  "demo_fill = (mem_req Read 0x80000004 1 4 [] [])\<lparr>mt_dir := Resp\<rparr>"

lemma demo_dcache_sel:
  "sets demo_dcache = 2" "assoc demo_dcache = 1" "write_back demo_dcache" "wb_hit_resp_delay demo_dcache = 0"
  "sched_hit_time demo_dcache = InfTime" "\<not> pending_fill_req demo_dcache"
  unfolding demo_dcache_def new_pipe_cache_def new_cache_def Let_def
  by (simp_all add: demo_geometry make_repl_policy_def cache.defs)

lemma demo_waiting_inv: "pcache_inv demo_waiting"
proof -
  have b: "same_base demo_dcache demo_waiting" by (simp add: demo_waiting_def same_base_def same_geom_def)
  note e = same_baseD [OF b] and k = same_base_ok [OF b]
  have si: "setIndexOf demo_dcache 0x80000004 = 0"
    by (simp add: setIndexOf_def demo_dcache_sel demo_offset_bits)
  have nv: "\<not> cl_valid (line_at demo_dcache (0, 0))"
  proof
    assume v: "cl_valid (line_at demo_dcache (0, 0))"
    have "cl_tag (line_at demo_dcache (0, 0)) \<in> contents demo_dcache"
      unfolding contents_def using v by (intro CollectI exI [of _ 0]) (simp add: demo_dcache_sel)
    then show False by (simp add: demo_dcache_facts)
  qed
  have "line_phase demo_waiting 0x80000004 (0, 0)"
    using nv si by (simp add: line_phase_def e k demo_dcache_facts demo_dcache_sel) (simp add: demo_waiting_def demo_dcache_sel)
  then have "phase_ok demo_waiting (Some demo_entry)" by (simp add: phase_ok_def demo_entry_def)
  then show ?thesis
    using demo_caches_ok(4) k(3) by (simp add: pcache_inv_def e demo_offset_bits)
      (simp add: demo_waiting_def demo_dcache_sel queued_ok_def)
qed

theorem fill_installs_block_witness:
  "\<exists>c'. pc_recv_mem_resp 40 demo_fill demo_waiting = Some c' \<and> pcache_inv c' \<and> \<not> r_waiting c' \<and> pipe c' = pipe demo_waiting \<and>
    contents c' = insert (blockAddrOf demo_waiting (pe_addr demo_entry)) (contents demo_waiting) \<and>
    probe c' (pe_addr demo_entry) = Some True"
  by (rule fill_installs_block [OF demo_waiting_inv])
    (simp_all add: demo_waiting_def demo_fill_def demo_entry_def)

lemma waiting_not_due: "pcache_inv c \<Longrightarrow> r_waiting c \<Longrightarrow> t < InfTime \<Longrightarrow> t < pc_next_update c"
proof -
  assume c: "pcache_inv c" "r_waiting c" "t < InfTime"
  note d = pcache_invD [OF c(1)]
  have "\<not> pending_fill_req c"
    using d(5) c(2) by (auto simp: phase_ok_def idle_def line_phase_def split: option.splits if_splits)
  then show ?thesis using c d(7) by (simp add: pc_next_update_def)
qed

lemma serve_stops: "serve_target now c = Some (True, c1, e1) \<Longrightarrow> responses e1 = [] \<and> requests c \<noteq> []"
  using requests_split [of c]
  by (auto simp: serve_target_def serve_miss_def responses_def Let_def split: if_splits option.splits)

lemma flush_or_wait:
  assumes c: "pcache_inv c" and r: "\<not> r_waiting c" and n: "t < InfTime" and f: "pending_flush c"
  shows "\<exists>c' evs. pc_update_impl t c = Some (c', evs) \<and> pcache_inv c' \<and> responses evs @ requests c' = requests c \<and>
    (if requests c' = [] then contents c' = {} \<and> \<not> pending_flush c' \<and> pc_is_ready c' = (True, True) else pending_flush c')"
proof -
  have ds: "deliver_sched t c = (c, [])" using pcache_invD(7) [OF c] n by (simp add: deliver_sched_def)
  obtain stop c1 e1 where s: "serve_target t c = Some (stop, c1, e1)" "served c stop c1 e1" using serve_target_ok [OF c r] by blast
  have c1: "pcache_inv c1" "pending_flush c1" "responses e1 @ requests c1 = requests c" using s(2) f by (simp_all add: served_def)
  consider (stop) stop | (flush) "\<not> stop" "\<forall>e\<in>set (pipe c1). e = None" | (shift) "\<not> stop" "\<not> (\<forall>e\<in>set (pipe c1). e = None)" by blast
  then show ?thesis
  proof cases
    case stop
    then show ?thesis using s(1) c1 ds serve_stops [of t c c1 e1] by (intro exI [of _ c1] exI [of _ e1]) (auto simp: pc_update_impl_def)
  next
    case flush
    have "requests c1 = []" using somes_all_None [OF flush(2)] by (simp add: requests_def)
    moreover have "pc_is_ready (handle_flush t c1) = (True, True)" "\<not> pending_flush (handle_flush t c1)"
      by (simp_all add: handle_flush_def pc_is_ready_def)
    ultimately show ?thesis using flush s(1) c1 ds handle_flush_ok [OF c1(1) flush(2), of t] by (simp add: pc_update_impl_def)
  next
    case shift
    have l: "last (pipe c1) = None" using s(2) shift(1) by (simp add: served_def)
    obtain c2 e2 where sh: "shift_pipe t c1 = Some (c2, e2)" "pcache_inv c2" "requests c2 = requests c1"
        "\<forall>ev\<in>set e2. \<not> is_CpuResp ev \<and> \<not> is_MemReq ev" "pending_flush c2 = pending_flush c1"
      using shift_pipe_ok [OF c1(1) l, of t] by blast
    have "responses e2 = []" using responses_none [of e2] sh(4) by simp
    moreover have "requests c1 \<noteq> []"
    proof -
      obtain e where "Some e \<in> set (pipe c1)" using shift(2) by (metis not_None_eq)
      moreover have "Some e \<in> set xs \<Longrightarrow> e \<in> set (somes xs)" for xs :: "pipe_entry option list" by (induction xs rule: somes.induct) auto
      ultimately have "e \<in> set (somes (pipe c1))" by blast
      then show ?thesis by (auto simp: requests_def)
    qed
    moreover have "pc_update_impl t c = Some (c2, e1 @ e2)" using ds s(1) shift sh(1) by (auto simp: pc_update_impl_def)
    ultimately show ?thesis using c1 sh by (intro exI [of _ c2] exI [of _ "e1 @ e2"]) simp
  qed
qed

text \<open>
  (C19) A flush waits for the requests in the pipe, and then empties the cache. In any cycle of a
  cache with a flush pending no request is lost: the answers given and the requests left are the
  requests there were. If requests are left, or the cycle has nothing to do yet, the flush stays
  pending and the cache accepts nothing new; in the first cycle that leaves none, the cache holds
  no block at all afterwards, the flush is done and the cache accepts requests again.
\<close>

theorem flush_empties_cache:
  assumes "pcache_inv c" and "t < InfTime" and "pending_flush c"
  shows "\<exists>c' evs. pc_do_update t c = Some (c', evs) \<and> pcache_inv c' \<and> responses evs @ requests c' = requests c \<and>
    (if pc_next_update c \<le> t \<and> requests c' = [] then contents c' = {} \<and> \<not> pending_flush c' \<and> pc_is_ready c' = (True, True)
     else pending_flush c' \<and> pc_is_ready c' = (False, False))"
proof -
  have nr: "pc_is_ready x = (False, False)" if "pending_flush x" for x using that by (simp add: pc_is_ready_def)
  show ?thesis
  proof (cases "pc_next_update c \<le> t")
    case True
    then have "\<not> r_waiting c" using waiting_not_due [OF assms(1) _ assms(2)] by auto
    from flush_or_wait [OF assms(1) this assms(2,3)] show ?thesis using True nr by (auto simp: pc_do_update_def split: if_splits)
  next
    case False
    then show ?thesis using assms nr by (simp add: pc_do_update_def)
  qed
qed

theorem flush_empties_cache_witness:
  "\<exists>c' evs. pc_do_update 8 (pc_flush_all demo_dcache) = Some (c', evs) \<and> pcache_inv c' \<and>
    (pc_next_update (pc_flush_all demo_dcache) \<le> 8 \<and> requests c' = [] \<longrightarrow> contents c' = {} \<and> \<not> pending_flush c')"
proof -
  have inv: "pcache_inv (pc_flush_all demo_dcache)" using demo_caches_ok(2) by (simp add: pc_flush_all_def)
  have "8 < InfTime" "pending_flush (pc_flush_all demo_dcache)" by (simp_all add: InfTime_def pc_flush_all_def)
  from flush_empties_cache [OF inv this] show ?thesis by (auto split: if_splits)
qed

text \<open>
  A store to a write-through cache goes to memory and is answered at once; when its block
  is cached, the word under the address takes the stored bytes the strobe selects and keeps the
  others, and no block enters or leaves the cache.
\<close>

lemma write_through_merges:
  assumes "pcache_inv c"
  shows "\<exists>c'. write_through t a dat strb c = Some (c',
      [MemReq (mem_req Write a (cache_id c) 1 [dat] [strb]), CpuResp (cpu_msg a 0 (cache_id c) Write)]) \<and>
    pcache_inv c' \<and> contents c' = contents c \<and>
    (blockAddrOf c a \<in> contents c \<longrightarrow> (\<exists>p w. holds_tag (tagOf c a) (line_at c p) \<and>
       atAligned (line_at c p) (offsetOf c a) = Some w \<and>
       atAligned (line_at c' p) (offsetOf c a) = Some (merge_word strb w dat)))"
  using write_through_ok [OF assms, of t a dat strb] by auto

lemma write_through_merges_witness:
  "\<exists>c'. write_through 2 0x80000008 0xffff 3 demo_icache = Some (c',
      [MemReq (mem_req Write 0x80000008 (cache_id demo_icache) 1 [0xffff] [3]),
       CpuResp (cpu_msg 0x80000008 0 (cache_id demo_icache) Write)]) \<and>
    pcache_inv c' \<and> contents c' = contents demo_icache \<and>
    (blockAddrOf demo_icache 0x80000008 \<in> contents demo_icache \<longrightarrow>
      (\<exists>p w. holds_tag (tagOf demo_icache 0x80000008) (line_at demo_icache p) \<and>
       atAligned (line_at demo_icache p) (offsetOf demo_icache 0x80000008) = Some w \<and>
       atAligned (line_at c' p) (offsetOf demo_icache 0x80000008) = Some (merge_word 3 w 0xffff)))"
  by (rule write_through_merges [OF demo_caches_ok(1)])

section \<open>The uncached ports\<close>

text \<open>
  (C22) The store buffer sends every store to memory exactly once and in the order in which the
  core issued them, whatever the interleaving of requests, answers and ticks: what has been
  sent and what is still buffered is what was accepted.
\<close>

theorem store_buffer_keeps_order:
  assumes "new_store_buffer n cid = Some c" and "n \<noteq> 0" and "run_enabled sb_enabled sb_step is c"
  shows "\<exists>c' evs. run_port sb_step is c = Some (c', evs) \<and>
    concat (map store_ins is) = concat (map store_out evs) @ undrained c' \<and> length (fifo c') \<le> n"
proof -
  have k: "sb_buf_ok c" "undrained c = []" "sb_entries c = n"
    using new_store_buffer_ok [OF assms(1), of Read] assms(2) by (simp_all add: sb_buf_ok_def)
  obtain c' evs where r: "run_port sb_step is c = Some (c', evs)" "sb_buf_ok c'"
      "concat (map store_out evs) @ undrained c' = undrained c @ concat (map store_ins is)"
    using sb_mem.run_ok [OF k(1) assms(3)] by blast
  have "sb_entries c' = n" using sb_run_entries [OF r(1)] k(3) by simp
  then show ?thesis using r k(2) by (auto simp: sb_buf_ok_def sb_ok_def)
qed

definition demo_sb :: store_buffer where
  "demo_sb = the (new_store_buffer 2 1)"

lemma demo_sb_new: "new_store_buffer 2 1 = Some demo_sb"
  using floorLog2_from_pow2 [of 2]
  unfolding demo_sb_def new_store_buffer_def new_cache_def Let_def
  by (simp add: floorLog2_def isPowerOf2_def make_repl_policy_def)

theorem store_buffer_keeps_order_witness:
  "\<exists>c' evs. run_port sb_step [CpuWrite 1 0x10 7 0xf] demo_sb = Some (c', evs) \<and>
    concat (map store_ins [CpuWrite 1 0x10 7 0xf]) = concat (map store_out evs) @ undrained c' \<and> length (fifo c') \<le> 2"
proof (rule store_buffer_keeps_order [OF demo_sb_new])
  show "run_enabled sb_enabled sb_step [CpuWrite 1 0x10 7 0xf] demo_sb"
    using floorLog2_from_pow2 [of 2]
    unfolding demo_sb_def new_store_buffer_def new_cache_def Let_def
    by (simp add: floorLog2_def isPowerOf2_def make_repl_policy_def sb_is_ready_def cache.defs InfTime_def split: option.split)
qed simp

text \<open>
  Once a flush of the store buffer is requested, no sequence of inputs ever makes it ready
  again: nothing clears the pending flag.
\<close>

lemma store_buffer_flush_sticks:
  "run_port sb_step is (sb_flush_all c) = Some (c', evs) \<Longrightarrow> sb_is_ready c' = (False, False)"
  using sb_run_flush [of "sb_flush_all c" "is" c' evs] by (simp add: sb_is_ready_def sb_flush_all_def)

lemma store_buffer_flush_sticks_witness: "sb_is_ready (sb_flush_all demo_sb) = (False, False)"
  by (rule store_buffer_flush_sticks [of "[]" demo_sb _ "[]"]) simp

text \<open>
  (C23) The uncached port answers every read exactly once and every write exactly once: on each
  of its channels the requests accepted are the answers given plus the one that is out.
\<close>

theorem no_cache_answers_once:
  assumes "run_enabled nc_enabled nc_step is c" and "nc_pend k c = []"
  shows "\<exists>c' evs. run_port nc_step is c = Some (c', evs) \<and>
    concat (map (mop_ins k) is) = concat (map (mop_out k) evs) @ nc_pend k c'"
  using nc.run_ok [OF TrueI assms(1), of k] assms(2) by auto

definition demo_nc :: no_cache where
  "demo_nc = the (new_no_cache 2)"

lemma demo_nc_free: "nc_is_ready demo_nc = (True, True)"
  using floorLog2_from_pow2 [of 2]
  unfolding demo_nc_def new_no_cache_def new_cache_def Let_def
  by (simp add: floorLog2_def isPowerOf2_def make_repl_policy_def nc_is_ready_def cache.defs)

theorem no_cache_answers_once_witness:
  "\<exists>c' evs. run_port nc_step [CpuRead 1 0x10, MemDone 4 (mem_req Read 0x10 2 1 [] [])] demo_nc = Some (c', evs) \<and>
    concat (map (mop_ins Read) [CpuRead 1 0x10, MemDone 4 (mem_req Read 0x10 2 1 [] [])])
      = concat (map (mop_out Read) evs) @ nc_pend Read c'"
  using demo_nc_free by (intro no_cache_answers_once) (simp_all add: nc_defs)

end
