(* ===== verification/BtbRas.thy ===== *)
theory BtbRas
  imports Prelude
begin

text \<open>
  The target side of src/branchSim/BranchPred.hh and .cc: the branch target buffers
  (BTBBase, CompressedBTB, NoBTB), the return address stack, and the records that
  carry a prediction from fetch to execute.
\<close>

section \<open>Statistics and prediction records\<close>

record bp_stats =
  bs_accesses :: nat
  bs_misses :: nat
  bs_no_target :: nat
  bs_bad_target :: nat
  bs_bad_pred :: nat
  bs_nonbr_mispred :: nat
  bs_br_accesses :: nat

definition bp_stats_zero :: bp_stats where
  "bp_stats_zero = \<lparr>bs_accesses = 0, bs_misses = 0, bs_no_target = 0, bs_bad_target = 0,
     bs_bad_pred = 0, bs_nonbr_mispred = 0, bs_br_accesses = 0\<rparr>"

definition bp_reset_stats :: "bp_stats \<Rightarrow> bp_stats" where
  "bp_reset_stats s = bp_stats_zero"

record bpu_pred_result =
  pr_taken :: bool
  pr_bht_cnt :: nat
  pr_ghr_snap :: "32 word"
  pr_tage_overrode :: bool

definition pred_result :: "bool \<Rightarrow> nat \<Rightarrow> 32 word \<Rightarrow> bpu_pred_result" where
  "pred_result t c g = \<lparr>pr_taken = t, pr_bht_cnt = c, pr_ghr_snap = g, pr_tage_overrode = False\<rparr>"

record branch_result =
  pred_taken :: bool
  pred_target :: addr_t
  will_redirect :: bool
  bht_cnt :: nat
  ghr_snap :: "32 word"
  tage_overrode_bimodal :: bool

definition no_prediction :: branch_result where
  "no_prediction = \<lparr>pred_taken = False, pred_target = 0, will_redirect = False,
     bht_cnt = 1, ghr_snap = 0, tage_overrode_bimodal = False\<rparr>"

section \<open>Branch target buffers\<close>

record btb_entry =
  be_tag :: addr_t
  be_target :: addr_t
  be_valid :: bool
  be_type :: nat

definition btb_entry_zero :: btb_entry where
  "btb_entry_zero = \<lparr>be_tag = 0, be_target = 0, be_valid = False, be_type = 0\<rparr>"

record compressed_btb =
  btb_table :: "btb_entry list"
  btb_sram_dff :: bool
  btb_tag_bits :: nat
  btb_entries_pow2 :: nat
  btb_tag_shift :: nat
  last_write_tick :: tick_t

text \<open>The masks (1u << n) - 1u are the n low bits, for n below 32.\<close>

definition new_compressed_btb :: "nat \<Rightarrow> nat \<Rightarrow> bool \<Rightarrow> nat \<Rightarrow> compressed_btb" where
  "new_compressed_btb entries_pow2 tag_bits dff tag_shift_override =
     \<lparr>btb_table = replicate (2 ^ entries_pow2) btb_entry_zero, btb_sram_dff = dff,
      btb_tag_bits = tag_bits, btb_entries_pow2 = entries_pow2,
      btb_tag_shift = (if tag_shift_override > 0 then tag_shift_override else 2 + entries_pow2),
      last_write_tick = 0\<rparr>"

definition btb_index :: "compressed_btb \<Rightarrow> addr_t \<Rightarrow> nat" where
  "btb_index b pc = unat (drop_bit 2 pc AND mask (btb_entries_pow2 b))"

definition btb_tag_of :: "compressed_btb \<Rightarrow> addr_t \<Rightarrow> addr_t" where
  "btb_tag_of b pc = drop_bit (btb_tag_shift b) pc AND mask (btb_tag_bits b)"

definition cbtb_lookup :: "compressed_btb \<Rightarrow> addr_t \<Rightarrow> addr_t option" where
  "cbtb_lookup b pc = do {
     ent \<leftarrow> at (btb_table b) (btb_index b pc);
     let hit = (be_valid ent \<and> be_tag ent = btb_tag_of b pc);
     Some (if hit then be_target ent else 0) }"

definition cbtb_update :: "addr_t \<Rightarrow> addr_t \<Rightarrow> compressed_btb \<Rightarrow> compressed_btb option" where
  "cbtb_update pc target b = do {
     let idx = btb_index b pc;
     ent \<leftarrow> at (btb_table b) idx;
     Some (b\<lparr>btb_table := (btb_table b)[idx :=
        ent\<lparr>be_tag := btb_tag_of b pc, be_target := target, be_valid := True\<rparr>]\<rparr>) }"

definition cbtb_clear_entry :: "addr_t \<Rightarrow> compressed_btb \<Rightarrow> compressed_btb option" where
  "cbtb_clear_entry pc b = do {
     let idx = btb_index b pc;
     _ \<leftarrow> at (btb_table b) idx;
     Some (b\<lparr>btb_table := (btb_table b)[idx := btb_entry_zero]\<rparr>) }"

definition mark_write_tick :: "tick_t \<Rightarrow> compressed_btb \<Rightarrow> compressed_btb" where
  "mark_write_tick t b = b\<lparr>last_write_tick := t\<rparr>"

text \<open>NoBTB is a BTBBase with one entry that it never uses.\<close>

datatype btb = NoBTB btb_entry | Compressed compressed_btb

definition no_btb :: btb where
  "no_btb = NoBTB btb_entry_zero"

fun btb_lookup :: "btb \<Rightarrow> addr_t \<Rightarrow> addr_t option" where
  "btb_lookup (NoBTB e) pc = Some 0"
| "btb_lookup (Compressed b) pc = cbtb_lookup b pc"

fun btb_update :: "addr_t \<Rightarrow> addr_t \<Rightarrow> btb \<Rightarrow> btb option" where
  "btb_update pc target (NoBTB e) = Some (NoBTB e)"
| "btb_update pc target (Compressed b) = map_option Compressed (cbtb_update pc target b)"

fun btb_clear_entry :: "addr_t \<Rightarrow> btb \<Rightarrow> btb option" where
  "btb_clear_entry pc (NoBTB e) = Some (NoBTB e)"
| "btb_clear_entry pc (Compressed b) = map_option Compressed (cbtb_clear_entry pc b)"

fun num_entries :: "btb \<Rightarrow> nat" where
  "num_entries (NoBTB e) = 1"
| "num_entries (Compressed b) = length (btb_table b)"

fun has_rw_conflict :: "btb \<Rightarrow> bool" where
  "has_rw_conflict (NoBTB e) = False"
| "has_rw_conflict (Compressed b) = (\<not> btb_sram_dff b)"

fun entry_type :: "btb \<Rightarrow> nat \<Rightarrow> nat" where
  "entry_type (NoBTB e) idx = (if idx < 1 then be_type e else 0)"
| "entry_type (Compressed b) idx =
     (if idx < length (btb_table b) then be_type (btb_table b ! idx) else 0)"

fun set_entry_type :: "nat \<Rightarrow> nat \<Rightarrow> btb \<Rightarrow> btb" where
  "set_entry_type idx t (NoBTB e) = NoBTB (if idx < 1 then e\<lparr>be_type := t\<rparr> else e)"
| "set_entry_type idx t (Compressed b) =
     Compressed (if idx < length (btb_table b)
       then b\<lparr>btb_table := (btb_table b)[idx := (btb_table b ! idx)\<lparr>be_type := t\<rparr>]\<rparr>
       else b)"

text \<open>The table index the BranchUnit computes for itself.\<close>

definition unit_index :: "btb \<Rightarrow> addr_t \<Rightarrow> nat" where
  "unit_index b pc = unat (drop_bit 2 pc) AND (num_entries b - 1)"

section \<open>Return address stack\<close>

record ras =
  ras_stack :: "addr_t list"
  ras_tos :: nat
  ras_cnt :: nat

definition new_ras :: "nat \<Rightarrow> ras" where
  "new_ras depth = \<lparr>ras_stack = replicate depth 0, ras_tos = 0, ras_cnt = 0\<rparr>"

definition ras_push :: "addr_t \<Rightarrow> ras \<Rightarrow> ras" where
  "ras_push a s =
     (let tos = (ras_tos s + 1) mod length (ras_stack s)
      in s\<lparr>ras_tos := tos, ras_stack := (ras_stack s)[tos := a],
           ras_cnt := (if ras_cnt s < length (ras_stack s) then ras_cnt s + 1 else ras_cnt s)\<rparr>)"

definition ras_pop :: "ras \<Rightarrow> ras" where
  "ras_pop s =
     (if ras_cnt s > 0
      then s\<lparr>ras_tos := (if ras_tos s = 0 then length (ras_stack s) - 1 else ras_tos s - 1),
             ras_cnt := ras_cnt s - 1\<rparr>
      else s)"

definition ras_top :: "ras \<Rightarrow> addr_t" where
  "ras_top s = (if ras_cnt s > 0 then ras_stack s ! ras_tos s else 0)"

definition ras_valid :: "ras \<Rightarrow> bool" where
  "ras_valid s \<longleftrightarrow> ras_cnt s > 0"

section \<open>Facts about the target buffer\<close>

definition cbtb_ok :: "compressed_btb \<Rightarrow> bool" where
  "cbtb_ok b \<longleftrightarrow> length (btb_table b) = 2 ^ btb_entries_pow2 b"

fun btb_ok :: "btb \<Rightarrow> bool" where
  "btb_ok (NoBTB e) = True"
| "btb_ok (Compressed b) = cbtb_ok b"

lemma btb_index_less: "btb_index b pc < 2 ^ btb_entries_pow2 b"
  unfolding btb_index_def by (rule unat_and_mask_less)

lemma new_compressed_btb_ok: "cbtb_ok (new_compressed_btb n tb dff sh)"
  by (simp add: cbtb_ok_def new_compressed_btb_def)

lemma cbtb_lookup_ex: "cbtb_ok b \<Longrightarrow> cbtb_lookup b pc =
    Some (if be_valid (btb_table b ! btb_index b pc) \<and> be_tag (btb_table b ! btb_index b pc) = btb_tag_of b pc
          then be_target (btb_table b ! btb_index b pc) else 0)"
  using btb_index_less [of b pc] by (simp add: cbtb_lookup_def cbtb_ok_def Let_def)

lemma cbtb_update_ex:
  "cbtb_ok b \<Longrightarrow> cbtb_update pc tgt b = Some (b\<lparr>btb_table := (btb_table b)[btb_index b pc :=
     (btb_table b ! btb_index b pc)\<lparr>be_tag := btb_tag_of b pc, be_target := tgt, be_valid := True\<rparr>]\<rparr>)"
  using btb_index_less [of b pc] by (simp add: cbtb_update_def cbtb_ok_def Let_def)

lemma cbtb_clear_ex:
  "cbtb_ok b \<Longrightarrow> cbtb_clear_entry pc b = Some (b\<lparr>btb_table := (btb_table b)[btb_index b pc := btb_entry_zero]\<rparr>)"
  using btb_index_less [of b pc] by (simp add: cbtb_clear_entry_def cbtb_ok_def Let_def)

lemma btb_index_table [simp]: "btb_index (b\<lparr>btb_table := t\<rparr>) = btb_index b"
  "btb_tag_of (b\<lparr>btb_table := t\<rparr>) = btb_tag_of b"
  by (simp_all add: fun_eq_iff btb_index_def btb_tag_of_def)

lemma cbtb_lookup_upd:
  assumes b: "cbtb_ok b" and u: "cbtb_update pc tgt b = Some b'"
  shows "cbtb_lookup b' pc' =
    (if btb_index b pc' = btb_index b pc
     then Some (if btb_tag_of b pc' = btb_tag_of b pc then tgt else 0)
     else cbtb_lookup b pc')"
proof -
  have b': "b' = b\<lparr>btb_table := (btb_table b)[btb_index b pc :=
     (btb_table b ! btb_index b pc)\<lparr>be_tag := btb_tag_of b pc, be_target := tgt, be_valid := True\<rparr>]\<rparr>"
    using u cbtb_update_ex [OF b, of pc tgt] by simp
  moreover have "cbtb_ok b'" using b b' by (simp add: cbtb_ok_def)
  ultimately show ?thesis
    using b btb_index_less [of b pc] btb_index_less [of b pc']
    by (auto simp: cbtb_lookup_ex cbtb_ok_def nth_list_update)
qed

lemma btb_lookup_ex: "btb_ok b \<Longrightarrow> \<exists>t. btb_lookup b pc = Some t"
  by (cases b) (simp_all add: cbtb_lookup_ex)

lemma btb_update_ok: "btb_ok b \<Longrightarrow> \<exists>b'. btb_update pc tgt b = Some b' \<and> btb_ok b'"
  by (cases b) (auto simp: cbtb_update_ex cbtb_ok_def)

lemma btb_clear_ok: "btb_ok b \<Longrightarrow> \<exists>b'. btb_clear_entry pc b = Some b' \<and> btb_ok b'"
  by (cases b) (auto simp: cbtb_clear_ex cbtb_ok_def)

lemma set_entry_type_ok: "btb_ok b \<Longrightarrow> btb_ok (set_entry_type i t b)"
  by (cases b) (auto simp: cbtb_ok_def)

text \<open>The BranchUnit masks the pc with num\_entries() - 1 and names the entry the buffer uses.\<close>

lemma unit_index_eq:
  "cbtb_ok b \<Longrightarrow> unit_index (Compressed b) pc = btb_index b pc"
  by (simp add: unit_index_def btb_index_def cbtb_ok_def nat_and_mask unat_and_mask del: One_nat_def)

section \<open>The return address stack as a bounded list\<close>

definition ras_ok :: "ras \<Rightarrow> bool" where
  "ras_ok s \<longleftrightarrow> 0 < length (ras_stack s) \<and> ras_tos s < length (ras_stack s) \<and> ras_cnt s \<le> length (ras_stack s)"

definition ras_size :: "ras \<Rightarrow> nat" where
  "ras_size s = length (ras_stack s)"

text \<open>Newest address first.\<close>

definition ras_list :: "ras \<Rightarrow> addr_t list" where
  "ras_list s = map (\<lambda>i. ras_stack s ! ((ras_tos s + length (ras_stack s) - i) mod length (ras_stack s))) [0..<ras_cnt s]"

lemma new_ras_ok: "0 < d \<Longrightarrow> ras_ok (new_ras d) \<and> ras_list (new_ras d) = [] \<and> ras_size (new_ras d) = d"
  by (simp add: ras_ok_def new_ras_def ras_list_def ras_size_def)

lemma ras_push_spec:
  assumes s: "ras_ok s"
  shows "ras_ok (ras_push a s) \<and> ras_list (ras_push a s) = take (ras_size s) (a # ras_list s) \<and>
    ras_size (ras_push a s) = ras_size s"
proof -
  let ?n = "length (ras_stack s)" and ?s = "ras_push a s"
  let ?t = "(ras_tos s + 1) mod ?n"
  have n: "0 < ?n" "ras_tos s < ?n" "ras_cnt s \<le> ?n" using s by (auto simp: ras_ok_def)
  have cnt: "ras_cnt ?s = min ?n (Suc (ras_cnt s))"
    using n by (auto simp: ras_push_def Let_def)
  have idx: "(?t + ?n - Suc i) mod ?n = (ras_tos s + ?n - i) mod ?n" if "Suc i \<le> ?n" for i
  proof (cases "ras_tos s + 1 = ?n")
    case True
    then have "ras_tos s + ?n - i = (?n - Suc i) + ?n" using that by simp
    then have "(ras_tos s + ?n - i) mod ?n = (?n - Suc i) mod ?n" by (simp only: mod_add_self2)
    moreover have "?t = 0" using True by simp
    ultimately show ?thesis by simp
  next
    case False
    then show ?thesis using n by (simp add: Suc_diff_Suc)
  qed
  have neq: "(ras_tos s + ?n - i) mod ?n \<noteq> ?t" if "Suc i < ?n" for i
  proof (cases "i \<le> ras_tos s")
    case True
    then have "(ras_tos s + ?n - i) mod ?n = ras_tos s - i" using n by (simp add: mod_if)
    then show ?thesis using True n by (cases "ras_tos s + 1 = ?n") (use that in auto)
  next
    case False
    then have "(ras_tos s + ?n - i) mod ?n = ras_tos s + ?n - i" using n by (intro mod_less) simp
    then show ?thesis using False n that by (cases "ras_tos s + 1 = ?n") auto
  qed
  have "ras_list ?s = take ?n (a # ras_list s)"
  proof (rule nth_equalityI)
    show "length (ras_list ?s) = length (take ?n (a # ras_list s))"
      using cnt by (simp add: ras_list_def)
    fix i assume "i < length (ras_list ?s)"
    then have i: "i < ?n" "i < Suc (ras_cnt s)" using cnt by (auto simp: ras_list_def)
    then have L: "ras_list ?s ! i = (ras_stack s)[?t := a] ! ((?t + ?n - i) mod ?n)"
      using cnt by (simp add: ras_list_def ras_push_def Let_def)
    show "ras_list ?s ! i = take ?n (a # ras_list s) ! i"
    proof (cases i)
      case 0
      then show ?thesis using L n by simp
    next
      case (Suc j)
      then show ?thesis
        using L i n idx [of j] neq [of j] by (simp add: ras_list_def nth_list_update)
    qed
  qed
  then show ?thesis
    using s by (simp add: ras_ok_def ras_size_def ras_push_def Let_def)
qed

lemma ras_pop_spec:
  assumes s: "ras_ok s"
  shows "ras_ok (ras_pop s) \<and> ras_list (ras_pop s) = tl (ras_list s) \<and> ras_size (ras_pop s) = ras_size s"
proof (cases "ras_cnt s > 0")
  case True
  let ?n = "length (ras_stack s)"
  have n: "0 < ?n" "ras_tos s < ?n" "ras_cnt s \<le> ?n" using s by (auto simp: ras_ok_def)
  have idx: "(ras_tos (ras_pop s) + ?n - i) mod ?n = (ras_tos s + ?n - Suc i) mod ?n" if "Suc i < ras_cnt s" for i
  proof (cases "ras_tos s = 0")
    case True
    then have "?n - 1 + ?n - i = (?n - Suc i) + ?n" using that n by simp
    then have "(?n - 1 + ?n - i) mod ?n = (?n - Suc i) mod ?n" by simp
    then show ?thesis using True \<open>ras_cnt s > 0\<close> by (simp add: ras_pop_def)
  next
    case False
    then show ?thesis using True n by (simp add: ras_pop_def Suc_diff_Suc)
  qed
  have same: "ras_stack (ras_pop s) = ras_stack s" "ras_cnt (ras_pop s) = ras_cnt s - 1"
    using True by (simp_all add: ras_pop_def)
  have "ras_list (ras_pop s) = tl (ras_list s)"
  proof (rule nth_equalityI)
    show "length (ras_list (ras_pop s)) = length (tl (ras_list s))"
      by (simp add: ras_list_def same)
    fix i assume "i < length (ras_list (ras_pop s))"
    then have i: "i < ras_cnt s - 1" by (simp add: ras_list_def same)
    then have "[0..<ras_cnt s - 1] ! i = i" by simp
    then show "ras_list (ras_pop s) ! i = tl (ras_list s) ! i"
      using idx [of i] i by (simp add: ras_list_def same nth_tl)
  qed
  then show ?thesis
    using s True by (auto simp: ras_ok_def ras_size_def ras_pop_def)
qed (use s in \<open>simp add: ras_pop_def ras_list_def\<close>)

lemma ras_top_spec: "ras_ok s \<Longrightarrow> ras_top s = (case ras_list s of [] \<Rightarrow> 0 | a # _ \<Rightarrow> a)"
  by (auto simp: ras_top_def ras_list_def ras_ok_def upt_rec)

text \<open>The contract of a bounded stack that forgets its oldest entry when it overflows.\<close>

locale bounded_stack =
  fixes ok :: "'s \<Rightarrow> bool" and contents :: "'s \<Rightarrow> 'a list" and depth :: "'s \<Rightarrow> nat"
    and push :: "'a \<Rightarrow> 's \<Rightarrow> 's" and pop :: "'s \<Rightarrow> 's"
  assumes push_spec: "ok s \<Longrightarrow> ok (push a s) \<and> contents (push a s) = take (depth s) (a # contents s) \<and>
      depth (push a s) = depth s"
    and pop_spec: "ok s \<Longrightarrow> ok (pop s) \<and> contents (pop s) = tl (contents s) \<and> depth (pop s) = depth s"
begin

text \<open>Calls nested no deeper than the free room leave everything below them in place.\<close>

lemma pushes:
  "ok s \<Longrightarrow> length (contents s) + length xs \<le> depth s \<Longrightarrow>
   ok (fold push xs s) \<and> contents (fold push xs s) = rev xs @ contents s \<and> depth (fold push xs s) = depth s"
proof (induction xs arbitrary: s)
  case (Cons x xs)
  have "ok (push x s)" "contents (push x s) = x # contents s" "depth (push x s) = depth s"
    using push_spec [OF Cons.prems(1), of x] Cons.prems(2) by (simp_all add: take_Cons')
  then show ?case using Cons.IH [of "push x s"] Cons.prems(2) by simp
qed simp

lemma pops: "ok s \<Longrightarrow> ok ((pop ^^ n) s) \<and> contents ((pop ^^ n) s) = drop n (contents s) \<and> depth ((pop ^^ n) s) = depth s"
proof (induction n)
  case (Suc n)
  then have "ok ((pop ^^ n) s)" by simp
  from pop_spec [OF this] show ?case using Suc by (simp add: drop_Suc tl_drop)
qed simp

lemma nested:
  "ok s \<Longrightarrow> length (contents s) + length xs \<le> depth s \<Longrightarrow> n \<le> length xs \<Longrightarrow>
   contents ((pop ^^ n) (fold push xs s)) = rev (take (length xs - n) xs) @ contents s"
proof -
  assume s: "ok s" and le: "length (contents s) + length xs \<le> depth s" and n: "n \<le> length xs"
  have "contents ((pop ^^ n) (fold push xs s)) = drop n (rev xs @ contents s)"
    using pushes [OF s le] pops [of "fold push xs s" n] by simp
  also have "\<dots> = drop n (rev xs) @ contents s"
    using n by simp
  also have "drop n (rev xs) = rev (take (length xs - n) xs)"
    by (rule drop_rev)
  finally show ?thesis .
qed

end

interpretation ras: bounded_stack ras_ok ras_list ras_size ras_push ras_pop
  by unfold_locales (rule ras_push_spec, assumption, rule ras_pop_spec)

end
