(* ===== verification/DirPred.thy ===== *)
theory DirPred
  imports BtbRas
begin

text \<open>
  The direction predictors of src/branchSim/Bimodal.hh and .cc and the stateless ones of
  BranchPred.hh. Counters are uint8\_t of which only 0 to 3 occur; the models keep them
  as natural numbers and the invariants bound them.
\<close>

section \<open>Stateless predictors\<close>

definition always_taken_predict :: "nat \<Rightarrow> nat \<times> bpu_pred_result" where
  "always_taken_predict acc = (acc + 1, pred_result True 3 0)"

definition nobpu_predict :: "nat \<Rightarrow> nat \<times> bpu_pred_result" where
  "nobpu_predict acc = (acc + 1, pred_result False 0 0)"

definition btfnt_predict :: "addr_t \<Rightarrow> addr_t \<Rightarrow> nat \<Rightarrow> nat \<times> bpu_pred_result" where
  "btfnt_predict pc target acc = (acc + 1, pred_result (target < pc) 0 0)"

section \<open>Two-bit counters\<close>

definition sat_inc :: "nat \<Rightarrow> nat" where
  "sat_inc c = (if c < 3 then c + 1 else c)"

definition sat_dec :: "nat \<Rightarrow> nat" where
  "sat_dec c = (if c > 0 then c - 1 else c)"

text \<open>The counter the bimodal and gshare tables get at resolution.\<close>

definition next_cnt :: "bool \<Rightarrow> bool \<Rightarrow> nat \<Rightarrow> nat" where
  "next_cnt taken btb_hit old_cnt =
     (if taken \<and> \<not> btb_hit then 2
      else if taken then (if old_cnt < 3 then old_cnt + 1 else 3)
      else (if old_cnt > 0 then old_cnt - 1 else 0))"

section \<open>Bimodal\<close>

record bimodal =
  bi_accesses :: nat
  bi_idx_bits :: nat
  bi_table :: "nat list"

definition new_bimodal :: "nat \<Rightarrow> nat \<Rightarrow> bimodal" where
  "new_bimodal table_pow2 init_val =
     \<lparr>bi_accesses = 0, bi_idx_bits = table_pow2, bi_table = replicate (2 ^ table_pow2) init_val\<rparr>"

definition fold_index :: "nat \<Rightarrow> addr_t \<Rightarrow> nat" where
  "fold_index bits pc =
     unat (drop_bit 2 pc AND mask bits) XOR unat (drop_bit (2 + bits) pc AND mask bits)"

definition bimodal_predict :: "addr_t \<Rightarrow> bimodal \<Rightarrow> (bimodal \<times> bpu_pred_result) option" where
  "bimodal_predict pc b = do {
     cnt \<leftarrow> at (bi_table b) (fold_index (bi_idx_bits b) pc);
     Some (b\<lparr>bi_accesses := bi_accesses b + 1\<rparr>, pred_result (cnt \<ge> 2) cnt 0) }"

definition bimodal_update :: "addr_t \<Rightarrow> bool \<Rightarrow> bool \<Rightarrow> nat \<Rightarrow> bimodal \<Rightarrow> bimodal option" where
  "bimodal_update pc taken btb_hit old_cnt b = do {
     t \<leftarrow> at_put (bi_table b) (fold_index (bi_idx_bits b) pc) (next_cnt taken btb_hit old_cnt);
     Some (b\<lparr>bi_table := t\<rparr>) }"

section \<open>GShare\<close>

record gshare =
  gs_accesses :: nat
  gs_history_len :: nat
  gs_idx_bits :: nat
  gs_ghr :: "32 word"
  gs_table :: "nat list"

definition new_gshare :: "nat \<Rightarrow> nat \<Rightarrow> nat \<Rightarrow> gshare" where
  "new_gshare table_pow2 history_len init_val =
     \<lparr>gs_accesses = 0, gs_history_len = history_len, gs_idx_bits = table_pow2, gs_ghr = 0,
      gs_table = replicate (2 ^ table_pow2) init_val\<rparr>"

definition xor_index :: "nat \<Rightarrow> addr_t \<Rightarrow> 32 word \<Rightarrow> nat" where
  "xor_index bits pc ghr = unat ((drop_bit 2 pc XOR ghr) AND mask bits)"

definition shift_ghr :: "nat \<Rightarrow> 32 word \<Rightarrow> bool \<Rightarrow> 32 word" where
  "shift_ghr len snap dir = (push_bit 1 snap OR (if dir then 1 else 0)) AND mask len"

definition gshare_predict :: "addr_t \<Rightarrow> gshare \<Rightarrow> (gshare \<times> bpu_pred_result) option" where
  "gshare_predict pc g = do {
     let snap = gs_ghr g;
     cnt \<leftarrow> at (gs_table g) (xor_index (gs_idx_bits g) pc snap);
     let pred = (cnt \<ge> 2);
     Some (g\<lparr>gs_accesses := gs_accesses g + 1, gs_ghr := shift_ghr (gs_history_len g) snap pred\<rparr>,
           pred_result pred cnt snap) }"

definition gshare_update :: "addr_t \<Rightarrow> bool \<Rightarrow> bool \<Rightarrow> nat \<Rightarrow> 32 word \<Rightarrow> gshare \<Rightarrow> gshare option" where
  "gshare_update pc taken btb_hit old_cnt old_ghr g = do {
     t \<leftarrow> at_put (gs_table g) (xor_index (gs_idx_bits g) pc old_ghr) (next_cnt taken btb_hit old_cnt);
     Some (g\<lparr>gs_table := t\<rparr>) }"

definition gshare_on_mispred :: "bool \<Rightarrow> 32 word \<Rightarrow> gshare \<Rightarrow> gshare" where
  "gshare_on_mispred actual old_ghr g = g\<lparr>gs_ghr := shift_ghr (gs_history_len g) old_ghr actual\<rparr>"

section \<open>Tournament\<close>

record tournament =
  tn_accesses :: nat
  tn_history_len :: nat
  tn_idx_bits :: nat
  tn_ghr :: "32 word"
  local_table :: "nat list"
  global_table :: "nat list"
  selector_table :: "nat list"

definition new_tournament :: "nat \<Rightarrow> nat \<Rightarrow> tournament" where
  "new_tournament table_pow2 history_len =
     \<lparr>tn_accesses = 0, tn_history_len = history_len, tn_idx_bits = table_pow2, tn_ghr = 0,
      local_table = replicate (2 ^ table_pow2) 1, global_table = replicate (2 ^ table_pow2) 1,
      selector_table = replicate (2 ^ table_pow2) 1\<rparr>"

definition local_index :: "tournament \<Rightarrow> addr_t \<Rightarrow> nat" where
  "local_index t pc = unat (drop_bit 2 pc AND mask (tn_idx_bits t))"

definition global_index :: "tournament \<Rightarrow> addr_t \<Rightarrow> 32 word \<Rightarrow> nat" where
  "global_index t pc ghr = xor_index (tn_idx_bits t) pc ghr"

definition tournament_predict :: "addr_t \<Rightarrow> tournament \<Rightarrow> tournament \<times> bpu_pred_result" where
  "tournament_predict pc t =
     (let snap = tn_ghr t;
          li = local_index t pc;
          gi = global_index t pc snap;
          local_pred = (local_table t ! li \<ge> 2);
          global_pred = (global_table t ! gi \<ge> 2);
          use_global = (selector_table t ! li \<ge> 2);
          pred = (if use_global then global_pred else local_pred)
      in (t\<lparr>tn_accesses := tn_accesses t + 1, tn_ghr := shift_ghr (tn_history_len t) snap pred\<rparr>,
          pred_result pred (if use_global then global_table t ! gi else local_table t ! li) snap))"

definition tournament_update :: "addr_t \<Rightarrow> bool \<Rightarrow> 32 word \<Rightarrow> tournament \<Rightarrow> tournament" where
  "tournament_update pc taken old_ghr t =
     (let li = local_index t pc;
          gi = global_index t pc old_ghr;
          local_correct = ((local_table t ! li \<ge> 2) = taken);
          global_correct = ((global_table t ! gi \<ge> 2) = taken);
          sel = selector_table t ! li;
          sel' = (if local_correct \<noteq> global_correct
                  then (if global_correct then sat_inc sel else sat_dec sel) else sel);
          le' = (if taken then sat_inc (local_table t ! li) else sat_dec (local_table t ! li));
          ge' = (if taken then sat_inc (global_table t ! gi) else sat_dec (global_table t ! gi))
      in t\<lparr>selector_table := (selector_table t)[li := sel'],
           local_table := (local_table t)[li := le'],
           global_table := (global_table t)[gi := ge']\<rparr>)"

definition tournament_on_mispred :: "bool \<Rightarrow> 32 word \<Rightarrow> tournament \<Rightarrow> tournament" where
  "tournament_on_mispred actual old_ghr t = t\<lparr>tn_ghr := shift_ghr (tn_history_len t) old_ghr actual\<rparr>"

section \<open>Contracts\<close>

text \<open>
  What the BranchUnit relies on: a predictor in a good state answers, keeps its state good,
  and hands out a two-bit counter; it accepts back any counter and snapshot it handed out.
\<close>

locale direction_predictor =
  fixes ok :: "'s \<Rightarrow> bool"
    and pred :: "addr_t \<Rightarrow> addr_t \<Rightarrow> 's \<Rightarrow> ('s \<times> bpu_pred_result) option"
    and upd :: "addr_t \<Rightarrow> bool \<Rightarrow> bool \<Rightarrow> nat \<Rightarrow> 32 word \<Rightarrow> 's \<Rightarrow> 's option"
    and mispred :: "bool \<Rightarrow> 32 word \<Rightarrow> 's \<Rightarrow> 's"
  assumes pred_ex: "ok s \<Longrightarrow> \<exists>s' r. pred pc tgt s = Some (s', r) \<and> ok s' \<and> pr_bht_cnt r \<le> 3"
    and upd_ex: "ok s \<Longrightarrow> cnt \<le> 3 \<Longrightarrow> \<exists>s'. upd pc taken hit cnt g s = Some s' \<and> ok s'"
    and mispred_keeps: "ok s \<Longrightarrow> ok (mispred taken g s)"
begin

lemma predE:
  assumes "pred pc tgt s = Some (s', r)" "ok s"
  shows "ok s'" "pr_bht_cnt r \<le> 3"
  using assms pred_ex [of s pc tgt] by auto

lemma updE: "upd pc taken hit cnt g s = Some s' \<Longrightarrow> ok s \<Longrightarrow> cnt \<le> 3 \<Longrightarrow> ok s'"
  using upd_ex [of s cnt pc taken hit g] by auto

end

text \<open>A predictor with a global history register of n bits.\<close>

locale history_predictor = direction_predictor ok pred upd mispred
  for ok :: "'s \<Rightarrow> bool"
    and pred :: "addr_t \<Rightarrow> addr_t \<Rightarrow> 's \<Rightarrow> ('s \<times> bpu_pred_result) option"
    and upd :: "addr_t \<Rightarrow> bool \<Rightarrow> bool \<Rightarrow> nat \<Rightarrow> 32 word \<Rightarrow> 's \<Rightarrow> 's option"
    and mispred :: "bool \<Rightarrow> 32 word \<Rightarrow> 's \<Rightarrow> 's" +
  fixes ghr :: "'s \<Rightarrow> 32 word" and hlen :: "'s \<Rightarrow> nat"
  assumes pred_ghr: "pred pc tgt s = Some (s', r) \<Longrightarrow>
      pr_ghr_snap r = ghr s \<and> ghr s' = shift_ghr (hlen s) (ghr s) (pr_taken r) \<and> hlen s' = hlen s"
    and mispred_ghr: "ghr (mispred taken g s) = shift_ghr (hlen s) g taken \<and> hlen (mispred taken g s) = hlen s"
    and upd_ghr: "upd pc taken hit cnt g s = Some s' \<Longrightarrow> ghr s' = ghr s \<and> hlen s' = hlen s"
begin

text \<open>Training leaves the register alone, so the repair after it depends on the snapshot only.\<close>

lemma train_repair_ghr:
  "upd pc taken hit cnt g0 s = Some s' \<Longrightarrow> ghr (mispred taken g s') = shift_ghr (hlen s) g taken \<and> hlen (mispred taken g s') = hlen s"
  using mispred_ghr [of taken g s'] upd_ghr [of pc taken hit cnt g0 s s'] by simp

end

section \<open>The predictors meet the contracts\<close>

lemma fold_index_less: "fold_index bits pc < 2 ^ bits"
  unfolding fold_index_def by (intro nat_xor_less unat_and_mask_less)

lemma xor_index_less: "xor_index bits pc g < 2 ^ bits"
  unfolding xor_index_def by (rule unat_and_mask_less)

lemma next_cnt_le [simp]: "c \<le> 3 \<Longrightarrow> next_cnt taken hit c \<le> 3"
  by (auto simp: next_cnt_def)

lemma sat_le [simp]: "c \<le> 3 \<Longrightarrow> sat_inc c \<le> 3" "c \<le> 3 \<Longrightarrow> sat_dec c \<le> 3"
  by (auto simp: sat_inc_def sat_dec_def)

text \<open>A table of 2\^n two-bit counters.\<close>

definition cnt_table_ok :: "nat \<Rightarrow> nat list \<Rightarrow> bool" where
  "cnt_table_ok bits t \<longleftrightarrow> length t = 2 ^ bits \<and> (\<forall>c\<in>set t. c \<le> 3)"

lemma cnt_table_nth: "cnt_table_ok bits t \<Longrightarrow> i < 2 ^ bits \<Longrightarrow> t ! i \<le> 3"
  by (simp add: cnt_table_ok_def)

lemma cnt_table_upd: "cnt_table_ok bits t \<Longrightarrow> c \<le> 3 \<Longrightarrow> cnt_table_ok bits (t[i := c])"
  by (auto simp: cnt_table_ok_def dest: set_update_memD)

lemma cnt_table_new [simp]: "c \<le> 3 \<Longrightarrow> cnt_table_ok bits (replicate (2 ^ bits) c)"
  by (simp add: cnt_table_ok_def)

lemma cnt_table_length [simp]: "cnt_table_ok bits t \<Longrightarrow> length t = 2 ^ bits"
  by (simp add: cnt_table_ok_def)

definition bimodal_ok :: "bimodal \<Rightarrow> bool" where
  "bimodal_ok b \<longleftrightarrow> cnt_table_ok (bi_idx_bits b) (bi_table b)"

definition gshare_ok :: "gshare \<Rightarrow> bool" where
  "gshare_ok g \<longleftrightarrow> cnt_table_ok (gs_idx_bits g) (gs_table g)"

definition tournament_ok :: "tournament \<Rightarrow> bool" where
  "tournament_ok t \<longleftrightarrow> cnt_table_ok (tn_idx_bits t) (local_table t) \<and>
     cnt_table_ok (tn_idx_bits t) (global_table t) \<and> cnt_table_ok (tn_idx_bits t) (selector_table t)"

interpretation bimodal: direction_predictor bimodal_ok "\<lambda>pc tgt. bimodal_predict pc"
  "\<lambda>pc taken hit cnt g. bimodal_update pc taken hit cnt" "\<lambda>taken g. id"
proof
  fix s :: bimodal and pc tgt :: addr_t and taken hit and cnt :: nat and g :: "32 word"
  assume s: "bimodal_ok s"
  then show "\<exists>s' r. bimodal_predict pc s = Some (s', r) \<and> bimodal_ok s' \<and> pr_bht_cnt r \<le> 3"
    using fold_index_less [of "bi_idx_bits s" pc] cnt_table_nth [of "bi_idx_bits s" "bi_table s"]
    by (auto simp: bimodal_predict_def bimodal_ok_def pred_result_def)
  assume "cnt \<le> 3"
  then show "\<exists>s'. bimodal_update pc taken hit cnt s = Some s' \<and> bimodal_ok s'"
    using s fold_index_less [of "bi_idx_bits s" pc]
    by (auto simp: bimodal_update_def bimodal_ok_def intro!: cnt_table_upd)
qed simp

interpretation gshare: history_predictor gshare_ok "\<lambda>pc tgt. gshare_predict pc"
  gshare_update gshare_on_mispred gs_ghr gs_history_len
proof
  fix s :: gshare and pc tgt :: addr_t and taken hit and cnt :: nat and g :: "32 word"
  assume s: "gshare_ok s"
  then show "\<exists>s' r. gshare_predict pc s = Some (s', r) \<and> gshare_ok s' \<and> pr_bht_cnt r \<le> 3"
    using xor_index_less [of "gs_idx_bits s" pc "gs_ghr s"] cnt_table_nth [of "gs_idx_bits s" "gs_table s"]
    by (auto simp: gshare_predict_def Let_def gshare_ok_def pred_result_def)
  show "gshare_ok (gshare_on_mispred taken g s)"
    using s by (simp add: gshare_ok_def gshare_on_mispred_def)
  assume "cnt \<le> 3"
  then show "\<exists>s'. gshare_update pc taken hit cnt g s = Some s' \<and> gshare_ok s'"
    using s xor_index_less [of "gs_idx_bits s" pc g]
    by (auto simp: gshare_update_def gshare_ok_def intro!: cnt_table_upd)
qed (auto simp: gshare_predict_def gshare_update_def gshare_on_mispred_def pred_result_def Let_def)

lemma local_index_less: "local_index t pc < 2 ^ tn_idx_bits t"
  unfolding local_index_def by (rule unat_and_mask_less)

lemma global_index_less: "global_index t pc g < 2 ^ tn_idx_bits t"
  unfolding global_index_def by (rule xor_index_less)

interpretation tournament: history_predictor tournament_ok "\<lambda>pc tgt t. Some (tournament_predict pc t)"
  "\<lambda>pc taken hit cnt g t. Some (tournament_update pc taken g t)" tournament_on_mispred
  tn_ghr tn_history_len
proof
  fix s :: tournament and pc tgt :: addr_t and taken hit and cnt :: nat and g :: "32 word"
  assume s: "tournament_ok s"
  then show "\<exists>s' r. Some (tournament_predict pc s) = Some (s', r) \<and> tournament_ok s' \<and> pr_bht_cnt r \<le> 3"
    using local_index_less [of s pc] global_index_less [of s pc "tn_ghr s"]
    by (auto simp: tournament_predict_def Let_def tournament_ok_def pred_result_def cnt_table_nth)
  show "tournament_ok (tournament_on_mispred taken g s)"
    using s by (simp add: tournament_ok_def tournament_on_mispred_def)
  show "\<exists>s'. Some (tournament_update pc taken g s) = Some s' \<and> tournament_ok s'"
    using s local_index_less [of s pc] global_index_less [of s pc g]
    by (auto simp: tournament_update_def Let_def tournament_ok_def cnt_table_nth intro!: cnt_table_upd)
qed (auto simp: tournament_predict_def tournament_update_def tournament_on_mispred_def pred_result_def Let_def)

lemma new_predictors_ok:
  "c \<le> 3 \<Longrightarrow> bimodal_ok (new_bimodal n c)" "c \<le> 3 \<Longrightarrow> gshare_ok (new_gshare n h c)"
  "tournament_ok (new_tournament n h)"
  by (simp_all add: bimodal_ok_def new_bimodal_def gshare_ok_def new_gshare_def
      tournament_ok_def new_tournament_def)

end
