(* ===== verification/Tage.thy ===== *)
theory Tage
  imports DirPred
begin

text \<open>
  TagePredictor of src/branchSim/Tage.hh and .cc. Component numbers are natural
  numbers and the provider -1 (the base predictor) is None. The per-component C arrays
  are lists of the n\_comp active components. Snapshot ids are 32-bit words, so the
  distance snap\_wr\_idx - snap\_id wraps as in the source.
\<close>

section \<open>Constants\<close>

definition MAX_COMP :: nat where "MAX_COMP = 8"
definition TAG_BITS :: nat where "TAG_BITS = 8"
definition CTR_MAX :: int where "CTR_MAX = 3"
definition CTR_MIN :: int where "CTR_MIN = -4"
definition U_MAX :: nat where "U_MAX = 3"
definition U_RESET_PERIOD :: nat where "U_RESET_PERIOD = 262144"
definition SNAP_RING :: nat where "SNAP_RING = 512"

section \<open>State\<close>

record tage_entry =
  te_ctr :: int
  te_u :: nat
  te_tag :: "16 word"
  te_valid :: bool

definition tage_entry_zero :: tage_entry where
  "tage_entry_zero = \<lparr>te_ctr = 0, te_u = 0, te_tag = 0, te_valid = False\<rparr>"

record tage_snap =
  sn_valid :: bool
  sn_bimodal_taken :: bool
  sn_tage_taken :: bool
  sn_btb_hit_at_pred :: bool
  sn_base_cnt :: nat
  sn_provider :: "nat option"
  sn_alt_provider :: "nat option"
  sn_provider_idx :: nat
  sn_alt_idx :: nat
  sn_provider_ctr :: int
  sn_provider_u :: nat
  sn_alt_ctr :: int
  sn_alt_taken :: bool
  sn_ghr_snap :: "64 word"
  sn_fidx :: "nat list"
  sn_ftag :: "16 word list"
  sn_comp_hit :: "bool list"

text \<open>The constructor clears the ring with memset, so the provider of a fresh slot is 0.\<close>

definition tage_snap_zero :: "nat \<Rightarrow> tage_snap" where
  "tage_snap_zero n =
     \<lparr>sn_valid = False, sn_bimodal_taken = False, sn_tage_taken = False,
      sn_btb_hit_at_pred = False, sn_base_cnt = 0, sn_provider = Some 0,
      sn_alt_provider = Some 0, sn_provider_idx = 0, sn_alt_idx = 0, sn_provider_ctr = 0,
      sn_provider_u = 0, sn_alt_ctr = 0, sn_alt_taken = False, sn_ghr_snap = 0,
      sn_fidx = replicate n 0, sn_ftag = replicate n 0, sn_comp_hit = replicate n False\<rparr>"

record tage_stats =
  ts_bimodal_correct :: nat
  ts_bimodal_mispred :: nat
  ts_tage_correct :: nat
  ts_tage_mispred :: nat
  ts_tage_overrides :: nat
  ts_override_helpful :: nat
  ts_override_harmful :: nat
  ts_base_used :: nat
  ts_base_correct :: nat
  ts_base_mispred :: nat
  ts_comp_used :: "nat list"
  ts_comp_correct :: "nat list"
  ts_comp_mispred :: "nat list"
  ts_allocations :: nat
  ts_alloc_failures :: nat
  ts_alloc_tried :: nat
  ts_update_snap_invalid :: nat
  ts_snap_ring_overflow :: nat

definition tage_stats_zero :: "nat \<Rightarrow> tage_stats" where
  "tage_stats_zero n =
     \<lparr>ts_bimodal_correct = 0, ts_bimodal_mispred = 0, ts_tage_correct = 0, ts_tage_mispred = 0,
      ts_tage_overrides = 0, ts_override_helpful = 0, ts_override_harmful = 0,
      ts_base_used = 0, ts_base_correct = 0, ts_base_mispred = 0,
      ts_comp_used = replicate n 0, ts_comp_correct = replicate n 0,
      ts_comp_mispred = replicate n 0, ts_allocations = 0, ts_alloc_failures = 0,
      ts_alloc_tried = 0, ts_update_snap_invalid = 0, ts_snap_ring_overflow = 0\<rparr>"

record tage =
  tg_accesses :: nat
  n_comp :: nat
  hist_lens_param :: "int list"
  hist_len :: "nat list"
  comp_idx_bits :: nat
  base_table :: "nat list"
  base_idx_bits :: nat
  comp_tables :: "tage_entry list list"
  tg_ghr :: "64 word"
  ghr_mask :: "64 word"
  snap_ring :: "tage_snap list"
  snap_wr_idx :: "32 word"
  u_reset_ctr :: nat
  tage_stats :: tage_stats

definition new_tage :: "nat \<Rightarrow> int \<Rightarrow> int list \<Rightarrow> tage option" where
  "new_tage base_pow2 comp_pow2 hist_lens = do {
     let n = min (length hist_lens) MAX_COMP;
     assert_that (n \<ge> 1);
     assert_that (comp_pow2 \<ge> 1);
     let lens = map (\<lambda>h. nat (max h 1)) (take n hist_lens);
     let max_hist = lens ! (n - 1);
     Some \<lparr>tg_accesses = 0, n_comp = n, hist_lens_param = take n hist_lens, hist_len = lens, comp_idx_bits = nat comp_pow2,
           base_table = replicate (2 ^ base_pow2) 1, base_idx_bits = base_pow2,
           comp_tables = replicate n (replicate (2 ^ nat comp_pow2) tage_entry_zero),
           tg_ghr = 0, ghr_mask = (if max_hist < 64 then mask max_hist else NOT 0),
           snap_ring = replicate SNAP_RING (tage_snap_zero n), snap_wr_idx = 0,
           u_reset_ctr = 0, tage_stats = tage_stats_zero n\<rparr> }"

section \<open>Hashing\<close>

text \<open>The folding loop does not end for a zero step on a non-zero history.\<close>

partial_function (option) fold_loop :: "64 word \<Rightarrow> 32 word \<Rightarrow> nat \<Rightarrow> 32 word \<Rightarrow> 32 word option" where
  "fold_loop ghr out_mask out_bits result =
     (if ghr = 0 then Some result
      else fold_loop (drop_bit out_bits ghr) out_mask out_bits
             (result XOR ucast (ghr AND ucast out_mask)))"

declare fold_loop.simps [code]

definition fold_ghr :: "64 word \<Rightarrow> nat \<Rightarrow> nat \<Rightarrow> 32 word option" where
  "fold_ghr ghr hlen out_bits = do {
     let hl = (if hlen \<ge> 64 then 63 else hlen);
     let m = (if hl < 63 then mask hl else NOT 0);
     let out_mask = (if out_bits < 32 then mask out_bits else NOT 0);
     r \<leftarrow> fold_loop (ghr AND m) out_mask out_bits 0;
     Some (r AND out_mask) }"

definition comp_idx :: "tage \<Rightarrow> addr_t \<Rightarrow> 64 word \<Rightarrow> nat \<Rightarrow> nat option" where
  "comp_idx t pc ghr cn = do {
     let bits = comp_idx_bits t;
     let pc_part = drop_bit 2 pc AND mask bits;
     ghr_part \<leftarrow> fold_ghr ghr (hist_len t ! cn) bits;
     Some (unat ((pc_part XOR ghr_part) AND mask bits)) }"

definition comp_tag :: "tage \<Rightarrow> addr_t \<Rightarrow> 64 word \<Rightarrow> nat \<Rightarrow> 16 word option" where
  "comp_tag t pc ghr cn = do {
     let hl = hist_len t ! cn;
     h1 \<leftarrow> fold_ghr ghr hl TAG_BITS;
     h2 \<leftarrow> fold_ghr (drop_bit 1 ghr) (if hl > 1 then hl - 1 else 1) (TAG_BITS - 1);
     let pc_low = drop_bit 2 pc AND mask TAG_BITS;
     Some (ucast ((pc_low XOR h1 XOR push_bit 1 h2) AND mask TAG_BITS)) }"

definition base_index :: "tage \<Rightarrow> addr_t \<Rightarrow> nat" where
  "base_index t pc = fold_index (base_idx_bits t) pc"

definition update_ctr :: "bool \<Rightarrow> int \<Rightarrow> int" where
  "update_ctr taken ctr =
     (if taken then (if ctr < CTR_MAX then ctr + 1 else ctr)
      else (if ctr > CTR_MIN then ctr - 1 else ctr))"

section \<open>predict\<close>

definition ring_slot :: "32 word \<Rightarrow> nat" where
  "ring_slot snap_id = unat snap_id mod SNAP_RING"

text \<open>The entry a component index names.\<close>

definition entry_at :: "tage \<Rightarrow> nat \<Rightarrow> nat \<Rightarrow> tage_entry" where
  "entry_at t i idx = comp_tables t ! i ! idx"

text \<open>The matching components, longest history first.\<close>

definition hits_desc :: "bool list \<Rightarrow> nat list" where
  "hits_desc hs = rev (filter (\<lambda>i. hs ! i) [0..<length hs])"

definition fill_lookup :: "tage \<Rightarrow> addr_t \<Rightarrow> bool \<Rightarrow> tage_snap \<Rightarrow> tage_snap option" where
  "fill_lookup t pc btb_hit s = do {
     let bc = base_table t ! base_index t pc;
     idxs \<leftarrow> those (map (comp_idx t pc (tg_ghr t)) [0..<n_comp t]);
     tags \<leftarrow> those (map (comp_tag t pc (tg_ghr t)) [0..<n_comp t]);
     let hits = map (\<lambda>i. te_valid (entry_at t i (idxs ! i)) \<and> te_tag (entry_at t i (idxs ! i)) = tags ! i)
                  [0..<n_comp t];
     Some (s\<lparr>sn_ghr_snap := tg_ghr t, sn_btb_hit_at_pred := btb_hit, sn_base_cnt := bc,
             sn_bimodal_taken := (bc \<ge> 2), sn_fidx := idxs, sn_ftag := tags, sn_comp_hit := hits\<rparr>) }"

definition set_provider :: "tage \<Rightarrow> tage_snap \<Rightarrow> tage_snap" where
  "set_provider t s =
     (case hits_desc (sn_comp_hit s) of
        [] \<Rightarrow> s\<lparr>sn_provider := None\<rparr>
      | i # _ \<Rightarrow>
          (let e = entry_at t i (sn_fidx s ! i)
           in s\<lparr>sn_provider := Some i, sn_provider_idx := sn_fidx s ! i,
                sn_provider_ctr := te_ctr e, sn_provider_u := te_u e\<rparr>))"

definition set_alt :: "tage \<Rightarrow> addr_t \<Rightarrow> tage_snap \<Rightarrow> tage_snap" where
  "set_alt t pc s =
     (case hits_desc (sn_comp_hit s) of
        _ # j # _ \<Rightarrow>
          (let e = entry_at t j (sn_fidx s ! j)
           in s\<lparr>sn_alt_provider := Some j, sn_alt_idx := sn_fidx s ! j,
                sn_alt_ctr := te_ctr e, sn_alt_taken := (te_ctr e \<ge> 0)\<rparr>)
      | _ \<Rightarrow> s\<lparr>sn_alt_provider := None, sn_alt_taken := sn_bimodal_taken s,
               sn_alt_ctr := int (sn_base_cnt s), sn_alt_idx := base_index t pc\<rparr>)"

definition final_direction :: "tage \<Rightarrow> tage_snap \<Rightarrow> bool" where
  "final_direction t s =
     (case sn_provider s of
        None \<Rightarrow> sn_bimodal_taken s
      | Some p \<Rightarrow>
          (let pe = entry_at t p (sn_provider_idx s);
               provider_weak = ((te_ctr pe = 0 \<or> te_ctr pe = -1) \<and> te_u pe = 0)
           in if provider_weak \<and> sn_alt_provider s \<noteq> sn_provider s then sn_alt_taken s
              else sn_provider_ctr s \<ge> 0))"

definition tage_predict :: "addr_t \<Rightarrow> addr_t \<Rightarrow> tage \<Rightarrow> (tage \<times> bpu_pred_result) option" where
  "tage_predict pc btb_target t0 = do {
     let snap_id = snap_wr_idx t0;
     let btb_hit = (btb_target \<noteq> 0);
     s1 \<leftarrow> fill_lookup t0 pc btb_hit (snap_ring t0 ! ring_slot snap_id);
     let s2 = set_alt t0 pc (set_provider t0 s1);
     let tage_taken = final_direction t0 s2;
     let s3 = s2\<lparr>sn_tage_taken := tage_taken, sn_valid := True\<rparr>;
     let tage_overrode = (btb_hit \<and> tage_taken \<noteq> sn_bimodal_taken s3);
     let ghr' = (if btb_hit
                 then (push_bit 1 (tg_ghr t0) OR (if tage_taken then 1 else 0)) AND ghr_mask t0
                 else tg_ghr t0);
     Some (t0\<lparr>tg_accesses := tg_accesses t0 + 1, snap_wr_idx := snap_id + 1,
              snap_ring := (snap_ring t0)[ring_slot snap_id := s3], tg_ghr := ghr'\<rparr>,
           \<lparr>pr_taken = tage_taken, pr_bht_cnt = 0, pr_ghr_snap = snap_id,
            pr_tage_overrode = tage_overrode\<rparr>) }"

section \<open>update\<close>

definition snap_lost :: "tage \<Rightarrow> 32 word \<Rightarrow> bool" where
  "snap_lost t snap_id \<longleftrightarrow> snap_wr_idx t - snap_id \<ge> of_nat SNAP_RING"

definition put_entry :: "nat \<Rightarrow> nat \<Rightarrow> tage_entry \<Rightarrow> tage \<Rightarrow> tage" where
  "put_entry i idx e t = t\<lparr>comp_tables := (comp_tables t)[i := (comp_tables t ! i)[idx := e]]\<rparr>"

definition train_base :: "addr_t \<Rightarrow> bool \<Rightarrow> tage \<Rightarrow> tage" where
  "train_base pc taken t =
     (let bi = base_index t pc; cnt = base_table t ! bi
      in t\<lparr>base_table := (base_table t)[bi := (if taken then sat_inc cnt else sat_dec cnt)]\<rparr>)"

definition train_provider :: "tage_snap \<Rightarrow> bool \<Rightarrow> tage \<Rightarrow> tage" where
  "train_provider s taken t =
     (case sn_provider s of
        None \<Rightarrow> t
      | Some p \<Rightarrow>
          (let e = entry_at t p (sn_provider_idx s)
           in put_entry p (sn_provider_idx s) (e\<lparr>te_ctr := update_ctr taken (te_ctr e)\<rparr>) t))"

definition train_useful :: "tage_snap \<Rightarrow> bool \<Rightarrow> tage \<Rightarrow> tage" where
  "train_useful s taken t =
     (case sn_provider s of
        None \<Rightarrow> t
      | Some p \<Rightarrow>
          (let prov_taken = (sn_provider_ctr s \<ge> 0);
               e = entry_at t p (sn_provider_idx s)
           in if prov_taken \<noteq> sn_alt_taken s
              then put_entry p (sn_provider_idx s)
                     (e\<lparr>te_u := (if prov_taken = taken
                                 then (if te_u e < U_MAX then te_u e + 1 else te_u e)
                                 else (if te_u e > 0 then te_u e - 1 else te_u e))\<rparr>) t
              else t))"

text \<open>The first component from start on whose entry is free or useless.\<close>

definition alloc_candidate :: "tage_snap \<Rightarrow> nat \<Rightarrow> tage \<Rightarrow> nat option" where
  "alloc_candidate s start t =
     List.find (\<lambda>i. \<not> te_valid (entry_at t i (sn_fidx s ! i)) \<or> te_u (entry_at t i (sn_fidx s ! i)) = 0)
       [start..<n_comp t]"

definition dec_useful :: "tage_snap \<Rightarrow> nat \<Rightarrow> tage \<Rightarrow> tage" where
  "dec_useful s i t =
     (let e = entry_at t i (sn_fidx s ! i)
      in if te_valid e \<and> te_u e > 0 then put_entry i (sn_fidx s ! i) (e\<lparr>te_u := te_u e - 1\<rparr>) t else t)"

definition alloc_entry :: "tage_snap \<Rightarrow> nat \<Rightarrow> bool \<Rightarrow> tage_entry" where
  "alloc_entry s i taken =
     \<lparr>te_ctr = (if taken then 0 else -1), te_u = 0, te_tag = sn_ftag s ! i, te_valid = True\<rparr>"

definition allocate :: "tage_snap \<Rightarrow> bool \<Rightarrow> tage \<Rightarrow> tage" where
  "allocate s taken t0 =
     (if sn_tage_taken s = taken then t0
      else
        (let t = t0\<lparr>tage_stats := (tage_stats t0)\<lparr>ts_alloc_tried := ts_alloc_tried (tage_stats t0) + 1\<rparr>\<rparr>;
             start = (case sn_provider s of None \<Rightarrow> 0 | Some p \<Rightarrow> p + 1)
         in if start < n_comp t then
              (case alloc_candidate s start t of
                 None \<Rightarrow>
                   (let t' = fold (dec_useful s) [start..<n_comp t] t
                    in t'\<lparr>tage_stats := (tage_stats t')\<lparr>ts_alloc_failures := ts_alloc_failures (tage_stats t') + 1\<rparr>\<rparr>)
               | Some i \<Rightarrow>
                   (let t' = put_entry i (sn_fidx s ! i) (alloc_entry s i taken) t
                    in t'\<lparr>tage_stats := (tage_stats t')\<lparr>ts_allocations := ts_allocations (tage_stats t') + 1\<rparr>\<rparr>))
            else t))"

definition age_useful :: "tage \<Rightarrow> tage" where
  "age_useful t =
     (let n = u_reset_ctr t + 1
      in if n \<ge> U_RESET_PERIOD
         then t\<lparr>u_reset_ctr := 0,
                comp_tables := map (map (\<lambda>e. if te_valid e then e\<lparr>te_u := te_u e div 2\<rparr> else e)) (comp_tables t)\<rparr>
         else t\<lparr>u_reset_ctr := n\<rparr>)"

definition tage_update :: "addr_t \<Rightarrow> bool \<Rightarrow> 32 word \<Rightarrow> tage \<Rightarrow> tage" where
  "tage_update pc taken snap_id t =
     (if snap_lost t snap_id
      then t\<lparr>tage_stats := (tage_stats t)\<lparr>ts_snap_ring_overflow := ts_snap_ring_overflow (tage_stats t) + 1\<rparr>\<rparr>
      else
        (let s = snap_ring t ! ring_slot snap_id
         in if \<not> sn_valid s
            then t\<lparr>tage_stats := (tage_stats t)\<lparr>ts_update_snap_invalid := ts_update_snap_invalid (tage_stats t) + 1\<rparr>\<rparr>
            else
              (let t1 = train_useful s taken (train_provider s taken (train_base pc taken t));
                   t2 = age_useful (allocate s taken t1)
               in t2\<lparr>snap_ring := (snap_ring t2)[ring_slot snap_id := s\<lparr>sn_valid := False\<rparr>]\<rparr>)))"

definition tage_on_mispred :: "bool \<Rightarrow> 32 word \<Rightarrow> tage \<Rightarrow> tage" where
  "tage_on_mispred actual snap_id t =
     (if snap_lost t snap_id then t
      else t\<lparr>tg_ghr := (push_bit 1 (sn_ghr_snap (snap_ring t ! ring_slot snap_id))
                        OR (if actual then 1 else 0)) AND ghr_mask t\<rparr>)"

section \<open>on\_resolved\<close>

definition bump :: "nat \<Rightarrow> nat list \<Rightarrow> nat list" where
  "bump i xs = xs[i := xs ! i + 1]"

definition resolve_stats :: "bool \<Rightarrow> bool \<Rightarrow> tage_snap \<Rightarrow> tage_stats \<Rightarrow> tage_stats" where
  "resolve_stats actual overrode s st0 =
     (let tage_ok = (sn_tage_taken s = actual);
          bim_ok = (sn_bimodal_taken s = actual);
          one = (\<lambda>b. if b then 1 else 0 :: nat);
          st1 = st0\<lparr>ts_tage_correct := ts_tage_correct st0 + one tage_ok,
                     ts_tage_mispred := ts_tage_mispred st0 + one (\<not> tage_ok),
                     ts_bimodal_correct := ts_bimodal_correct st0 + one bim_ok,
                     ts_bimodal_mispred := ts_bimodal_mispred st0 + one (\<not> bim_ok)\<rparr>;
          st2 = (if overrode
                 then st1\<lparr>ts_tage_overrides := ts_tage_overrides st1 + 1,
                          ts_override_helpful := ts_override_helpful st1 + one tage_ok,
                          ts_override_harmful := ts_override_harmful st1 + one (\<not> tage_ok)\<rparr>
                 else st1)
      in (case sn_provider s of
            None \<Rightarrow> st2\<lparr>ts_base_used := ts_base_used st2 + 1,
                        ts_base_correct := ts_base_correct st2 + one tage_ok,
                        ts_base_mispred := ts_base_mispred st2 + one (\<not> tage_ok)\<rparr>
          | Some p \<Rightarrow> st2\<lparr>ts_comp_used := bump p (ts_comp_used st2),
                          ts_comp_correct := (if tage_ok then bump p (ts_comp_correct st2) else ts_comp_correct st2),
                          ts_comp_mispred := (if tage_ok then ts_comp_mispred st2 else bump p (ts_comp_mispred st2))\<rparr>))"

definition tage_on_resolved :: "bool \<Rightarrow> branch_result \<Rightarrow> tage \<Rightarrow> tage" where
  "tage_on_resolved actual pred t =
     (if snap_lost t (ghr_snap pred) then t
      else
        (let s = snap_ring t ! ring_slot (ghr_snap pred)
         in if sn_valid s
            then t\<lparr>tage_stats := resolve_stats actual (tage_overrode_bimodal pred) s (tage_stats t)\<rparr>
            else t))"

section \<open>Invariant\<close>

definition entry_ok :: "tage_entry \<Rightarrow> bool" where
  "entry_ok e \<longleftrightarrow> CTR_MIN \<le> te_ctr e \<and> te_ctr e \<le> CTR_MAX \<and> te_u e \<le> U_MAX"

definition tables_ok :: "nat \<Rightarrow> nat \<Rightarrow> tage_entry list list \<Rightarrow> bool" where
  "tables_ok n bits ts \<longleftrightarrow> length ts = n \<and> (\<forall>tb\<in>set ts. length tb = 2 ^ bits \<and> (\<forall>e\<in>set tb. entry_ok e))"

definition snap_ok :: "nat \<Rightarrow> nat \<Rightarrow> tage_snap \<Rightarrow> bool" where
  "snap_ok n bits s \<longleftrightarrow> length (sn_fidx s) = n \<and> length (sn_ftag s) = n \<and> length (sn_comp_hit s) = n \<and>
     (\<forall>i\<in>set (sn_fidx s). i < 2 ^ bits) \<and>
     (\<forall>p. sn_provider s = Some p \<longrightarrow> p < n \<and> sn_provider_idx s < 2 ^ bits)"

definition tage_ok :: "tage \<Rightarrow> bool" where
  "tage_ok t \<longleftrightarrow> 1 \<le> n_comp t \<and> n_comp t \<le> MAX_COMP \<and> length (hist_len t) = n_comp t \<and>
     1 \<le> comp_idx_bits t \<and> cnt_table_ok (base_idx_bits t) (base_table t) \<and>
     tables_ok (n_comp t) (comp_idx_bits t) (comp_tables t) \<and>
     length (snap_ring t) = SNAP_RING \<and> (\<forall>s\<in>set (snap_ring t). snap_ok (n_comp t) (comp_idx_bits t) s)"

lemma tage_okD:
  assumes "tage_ok t"
  shows "1 \<le> n_comp t" "1 \<le> comp_idx_bits t" "cnt_table_ok (base_idx_bits t) (base_table t)"
    "tables_ok (n_comp t) (comp_idx_bits t) (comp_tables t)" "length (snap_ring t) = SNAP_RING"
    "\<And>s. s \<in> set (snap_ring t) \<Longrightarrow> snap_ok (n_comp t) (comp_idx_bits t) s"
  using assms by (simp_all add: tage_ok_def)

lemma ring_slot_less [simp]: "ring_slot k < SNAP_RING"
  by (simp add: ring_slot_def SNAP_RING_def)

lemma ring_snap_ok: "tage_ok t \<Longrightarrow> snap_ok (n_comp t) (comp_idx_bits t) (snap_ring t ! ring_slot k)"
  by (simp add: tage_okD)

lemma entry_ok_at:
  "tage_ok t \<Longrightarrow> i < n_comp t \<Longrightarrow> idx < 2 ^ comp_idx_bits t \<Longrightarrow> entry_ok (entry_at t i idx)"
proof -
  assume t: "tage_ok t" and i: "i < n_comp t" and idx: "idx < 2 ^ comp_idx_bits t"
  have "comp_tables t ! i \<in> set (comp_tables t)"
    using t i by (simp add: tage_ok_def tables_ok_def)
  then show ?thesis
    using t idx by (simp add: tage_ok_def tables_ok_def entry_at_def)
qed

lemma tables_ok_put:
  assumes "tables_ok n bits ts" "i < n" "entry_ok e"
  shows "tables_ok n bits (ts[i := (ts ! i)[idx := e]])"
proof -
  have "ts ! i \<in> set ts" using assms by (simp add: tables_ok_def)
  then show ?thesis
    using assms by (auto simp: tables_ok_def dest!: set_update_memD)
qed

lemma put_entry_ok: "tage_ok t \<Longrightarrow> i < n_comp t \<Longrightarrow> entry_ok e \<Longrightarrow> tage_ok (put_entry i idx e t)"
  by (simp add: tage_ok_def put_entry_def tables_ok_put)

lemma put_entry_same [simp]:
  "n_comp (put_entry i idx e t) = n_comp t" "comp_idx_bits (put_entry i idx e t) = comp_idx_bits t"
  "snap_ring (put_entry i idx e t) = snap_ring t" "snap_wr_idx (put_entry i idx e t) = snap_wr_idx t"
  "tg_ghr (put_entry i idx e t) = tg_ghr t"
  by (simp_all add: put_entry_def)

lemma update_ctr_bounds:
  "CTR_MIN \<le> c \<Longrightarrow> c \<le> CTR_MAX \<Longrightarrow> CTR_MIN \<le> update_ctr taken c \<and> update_ctr taken c \<le> CTR_MAX"
  by (auto simp: update_ctr_def CTR_MIN_def CTR_MAX_def)

lemma tage_ok_stats [simp]: "tage_ok (t\<lparr>tage_stats := x\<rparr>) = tage_ok t"
  "tage_ok (t\<lparr>tg_ghr := g\<rparr>) = tage_ok t" "tage_ok (t\<lparr>u_reset_ctr := k\<rparr>) = tage_ok t"
  "tage_ok (t\<lparr>tg_accesses := a\<rparr>) = tage_ok t" "tage_ok (t\<lparr>snap_wr_idx := w\<rparr>) = tage_ok t"
  by (simp_all add: tage_ok_def)

section \<open>The folding hash\<close>

lemma drop_bit_decreases: "(w :: 64 word) \<noteq> 0 \<Longrightarrow> 0 < k \<Longrightarrow> unat (drop_bit k w) < unat w"
proof -
  assume w: "w \<noteq> 0" and k: "0 < k"
  have "unat (drop_bit k w) = unat w div 2 ^ k"
    unfolding unat_drop_bit_eq by (rule drop_bit_eq_div)
  also have "\<dots> < unat w"
    using w k by (intro div_less_dividend one_less_power) (auto simp: unat_gt_0)
  finally show ?thesis .
qed

text \<open>The loop ends for every step of at least one bit.\<close>

lemma fold_loop_total: "0 < k \<Longrightarrow> \<exists>r. fold_loop g m k r0 = Some r"
proof (induction "unat g" arbitrary: g r0 rule: less_induct)
  case less
  show ?case
  proof (cases "g = 0")
    case False
    then have "\<exists>r. fold_loop (drop_bit k g) m k (r0 XOR ucast (g AND ucast m)) = Some r"
      using less drop_bit_decreases by blast
    then show ?thesis
      using False by (subst fold_loop.simps) simp
  qed (subst fold_loop.simps, simp)
qed

lemma fold_ghr_total: "0 < k \<Longrightarrow> \<exists>r. fold_ghr g h k = Some r"
  unfolding fold_ghr_def Let_def
  using fold_loop_total [of k] by auto

lemma fold_ghr_less:
  assumes "fold_ghr g h k = Some r" "k < 32"
  shows "unat r < 2 ^ k"
proof -
  obtain r0 where "r = r0 AND mask k"
    using assms by (auto simp: fold_ghr_def Let_def)
  then show ?thesis by (simp add: unat_and_mask_less)
qed

lemma comp_idx_total: "1 \<le> comp_idx_bits t \<Longrightarrow> \<exists>i. comp_idx t pc g c = Some i \<and> i < 2 ^ comp_idx_bits t"
  unfolding comp_idx_def Let_def using fold_ghr_total [of "comp_idx_bits t" g "hist_len t ! c"]
  by (auto simp: unat_and_mask_less)

lemma comp_tag_total: "\<exists>x. comp_tag t pc g c = Some x"
  unfolding comp_tag_def Let_def
  using fold_ghr_total [of TAG_BITS g "hist_len t ! c"]
    fold_ghr_total [of "TAG_BITS - 1" "drop_bit 1 g" "if hist_len t ! c > 1 then hist_len t ! c - 1 else 1"]
  by (auto simp: TAG_BITS_def)

lemma those_map_total:
  "(\<And>i. i \<in> set is \<Longrightarrow> \<exists>y. f i = Some y \<and> P y) \<Longrightarrow>
   \<exists>ys. those (map f is) = Some ys \<and> length ys = length is \<and> (\<forall>y\<in>set ys. P y) \<and> map f is = map Some ys"
proof (induction "is")
  case (Cons i "is")
  obtain y where "f i = Some y" "P y" using Cons.prems by force
  moreover obtain ys where "those (map f is) = Some ys" "length ys = length is" "\<forall>y\<in>set ys. P y"
      "map f is = map Some ys"
    using Cons by auto
  ultimately show ?case by simp
qed simp

lemma fill_lookup_total:
  assumes t: "tage_ok t"
  obtains s1 where "fill_lookup t pc hit s = Some s1"
    "length (sn_fidx s1) = n_comp t" "length (sn_ftag s1) = n_comp t" "length (sn_comp_hit s1) = n_comp t"
    "\<forall>i\<in>set (sn_fidx s1). i < 2 ^ comp_idx_bits t"
proof -
  obtain ids where 1: "those (map (comp_idx t pc (tg_ghr t)) [0..<n_comp t]) = Some ids"
      "length ids = n_comp t" "\<forall>i\<in>set ids. i < 2 ^ comp_idx_bits t"
    using those_map_total [of "[0..<n_comp t]" "comp_idx t pc (tg_ghr t)" "\<lambda>i. i < 2 ^ comp_idx_bits t"]
      comp_idx_total [OF tage_okD(2) [OF t]] by auto
  obtain tgs where 2: "those (map (comp_tag t pc (tg_ghr t)) [0..<n_comp t]) = Some tgs"
      "length tgs = n_comp t"
    using those_map_total [of "[0..<n_comp t]" "comp_tag t pc (tg_ghr t)" "\<lambda>_. True"]
      comp_tag_total by auto
  show ?thesis
    using that 1 2 by (simp add: fill_lookup_def Let_def)
qed

section \<open>Longest match\<close>

text \<open>The hitting components in descending order.\<close>

lemma hits_desc_mem: "i \<in> set (hits_desc hs) \<longleftrightarrow> i < length hs \<and> hs ! i"
  by (auto simp: hits_desc_def)

lemma hits_desc_sorted: "sorted_wrt (>) (hits_desc hs)"
proof -
  have "sorted_wrt (<) (filter (\<lambda>i. hs ! i) [0..<length hs])"
    by (rule sorted_wrt_filter) (rule sorted_wrt_upt)
  then show ?thesis
    unfolding hits_desc_def sorted_wrt_rev by simp
qed

text \<open>The longest hit is the provider, the next longest the alternate.\<close>

lemma hits_desc_Nil: "hits_desc hs = [] \<longleftrightarrow> (\<forall>i<length hs. \<not> hs ! i)"
  using hits_desc_mem [of _ hs] by (metis list.set_cases list.set_intros(1) empty_iff list.set(1) neq_Nil_conv)

lemma hits_desc_Cons:
  "hits_desc hs = p # ps \<Longrightarrow> p < length hs \<and> hs ! p \<and> (\<forall>i<length hs. hs ! i \<longrightarrow> i \<le> p)"
proof -
  assume h: "hits_desc hs = p # ps"
  have "i \<le> p" if "i < length hs" "hs ! i" for i
  proof -
    have "i \<in> set (p # ps)" using that hits_desc_mem [of i hs] h by simp
    then show ?thesis using hits_desc_sorted [of hs] h by auto
  qed
  moreover have "p \<in> set (hits_desc hs)" using h by simp
  ultimately show ?thesis by (simp add: hits_desc_mem)
qed

lemma set_provider_simps [simp]:
  "sn_fidx (set_provider t s) = sn_fidx s" "sn_ftag (set_provider t s) = sn_ftag s"
  "sn_comp_hit (set_provider t s) = sn_comp_hit s"
  "sn_bimodal_taken (set_provider t s) = sn_bimodal_taken s"
  "sn_ghr_snap (set_provider t s) = sn_ghr_snap s"
  by (simp_all add: set_provider_def Let_def split: list.split)

lemma set_alt_simps [simp]:
  "sn_fidx (set_alt t pc s) = sn_fidx s" "sn_ftag (set_alt t pc s) = sn_ftag s"
  "sn_comp_hit (set_alt t pc s) = sn_comp_hit s" "sn_provider (set_alt t pc s) = sn_provider s"
  "sn_provider_idx (set_alt t pc s) = sn_provider_idx s"
  "sn_provider_ctr (set_alt t pc s) = sn_provider_ctr s"
  "sn_bimodal_taken (set_alt t pc s) = sn_bimodal_taken s"
  "sn_ghr_snap (set_alt t pc s) = sn_ghr_snap s"
  by (simp_all add: set_alt_def Let_def split: list.split)

lemma set_provider_None: "sn_provider (set_provider t s) = None \<longleftrightarrow> (\<forall>i<length (sn_comp_hit s). \<not> sn_comp_hit s ! i)"
  unfolding hits_desc_Nil [symmetric] by (simp add: set_provider_def Let_def split: list.split)

lemma set_provider_Some:
  "sn_provider (set_provider t s) = Some p \<Longrightarrow>
   p < length (sn_comp_hit s) \<and> sn_comp_hit s ! p \<and> (\<forall>i<length (sn_comp_hit s). sn_comp_hit s ! i \<longrightarrow> i \<le> p) \<and>
   sn_provider_idx (set_provider t s) = sn_fidx s ! p"
  using hits_desc_Cons [of "sn_comp_hit s"] by (auto simp: set_provider_def Let_def split: list.splits)

section \<open>predict and update keep the invariant\<close>

lemma tage_predict_total:
  assumes t: "tage_ok t"
  shows "\<exists>t' r s. tage_predict pc tgt t = Some (t', r) \<and> tage_ok t' \<and> pr_bht_cnt r = 0 \<and>
    pr_ghr_snap r = snap_wr_idx t \<and> snap_wr_idx t' = snap_wr_idx t + 1 \<and>
    snap_ring t' = (snap_ring t)[ring_slot (snap_wr_idx t) := s] \<and> sn_valid s \<and> sn_ghr_snap s = tg_ghr t \<and>
    sn_tage_taken s = pr_taken r \<and>
    comp_tables t' = comp_tables t \<and> base_table t' = base_table t \<and> n_comp t' = n_comp t \<and>
    ghr_mask t' = ghr_mask t"
proof -
  let ?old = "snap_ring t ! ring_slot (snap_wr_idx t)"
  obtain s1 where s1: "fill_lookup t pc (tgt \<noteq> 0) ?old = Some s1"
      "length (sn_fidx s1) = n_comp t" "length (sn_ftag s1) = n_comp t" "length (sn_comp_hit s1) = n_comp t"
      "\<forall>i\<in>set (sn_fidx s1). i < 2 ^ comp_idx_bits t"
    using fill_lookup_total [OF t] by blast
  define s2 where "s2 = set_alt t pc (set_provider t s1)"
  have prov: "p < n_comp t \<and> sn_provider_idx s2 < 2 ^ comp_idx_bits t" if "sn_provider s2 = Some p" for p
    using that set_provider_Some [of t s1 p] s1 by (auto simp: s2_def)
  define s3 where "s3 = s2\<lparr>sn_tage_taken := final_direction t s2, sn_valid := True\<rparr>"
  have "snap_ok (n_comp t) (comp_idx_bits t) s3"
    using s1 prov by (auto simp: snap_ok_def s3_def s2_def)
  moreover have "sn_ghr_snap s1 = tg_ghr t"
    using s1(1) by (auto simp: fill_lookup_def Let_def)
  moreover define t' where "t' = t\<lparr>tg_accesses := tg_accesses t + 1, snap_wr_idx := snap_wr_idx t + 1,
      snap_ring := (snap_ring t)[ring_slot (snap_wr_idx t) := s3],
      tg_ghr := (if tgt \<noteq> 0 then (push_bit 1 (tg_ghr t) OR (if final_direction t s2 then 1 else 0)) AND ghr_mask t
                 else tg_ghr t)\<rparr>"
  moreover define r where "r = \<lparr>pr_taken = final_direction t s2, pr_bht_cnt = 0, pr_ghr_snap = snap_wr_idx t,
      pr_tage_overrode = (tgt \<noteq> 0 \<and> final_direction t s2 \<noteq> sn_bimodal_taken s3)\<rparr>"
  moreover have "tage_predict pc tgt t = Some (t', r)"
    using s1(1) unfolding tage_predict_def Let_def t'_def r_def s3_def s2_def by simp
  moreover have "tage_ok t'"
    using t calculation(1) by (auto simp: tage_ok_def t'_def dest: set_update_memD)
  moreover have "sn_ghr_snap s3 = tg_ghr t" "sn_valid s3" "sn_tage_taken s3 = pr_taken r"
    using calculation(2) by (simp_all add: s3_def s2_def r_def)
  ultimately show ?thesis
    by (intro exI [of _ t'] exI [of _ r] exI [of _ s3]) (simp add: t'_def r_def)
qed

lemma snap_provider: "snap_ok n bits s \<Longrightarrow> sn_provider s = Some p \<Longrightarrow> p < n \<and> sn_provider_idx s < 2 ^ bits"
  by (simp add: snap_ok_def)

lemma train_base_ok: "tage_ok t \<Longrightarrow> tage_ok (train_base pc taken t)"
  using fold_index_less [of "base_idx_bits t" pc]
  by (auto simp: tage_ok_def train_base_def Let_def base_index_def cnt_table_nth intro!: cnt_table_upd)

lemma train_base_same [simp]:
  "n_comp (train_base pc taken t) = n_comp t" "comp_idx_bits (train_base pc taken t) = comp_idx_bits t"
  by (simp_all add: train_base_def Let_def)

lemma train_provider_ok:
  assumes "tage_ok t" "snap_ok (n_comp t) (comp_idx_bits t) s"
  shows "tage_ok (train_provider s taken t) \<and> n_comp (train_provider s taken t) = n_comp t \<and>
    comp_idx_bits (train_provider s taken t) = comp_idx_bits t"
proof (cases "sn_provider s")
  case (Some p)
  then have "entry_ok (entry_at t p (sn_provider_idx s))" "p < n_comp t"
    using assms snap_provider [OF assms(2) Some] by (simp_all add: entry_ok_at)
  then show ?thesis
    using assms Some by (auto simp: train_provider_def Let_def entry_ok_def update_ctr_bounds intro!: put_entry_ok)
qed (use assms in \<open>simp add: train_provider_def\<close>)

lemma train_useful_ok:
  assumes "tage_ok t" "snap_ok (n_comp t) (comp_idx_bits t) s"
  shows "tage_ok (train_useful s taken t) \<and> n_comp (train_useful s taken t) = n_comp t \<and>
    comp_idx_bits (train_useful s taken t) = comp_idx_bits t"
proof (cases "sn_provider s")
  case (Some p)
  then have "entry_ok (entry_at t p (sn_provider_idx s))" "p < n_comp t"
    using assms snap_provider [OF assms(2) Some] by (simp_all add: entry_ok_at)
  then show ?thesis
    using assms Some by (auto simp: train_useful_def Let_def entry_ok_def intro!: put_entry_ok)
qed (use assms in \<open>simp add: train_useful_def\<close>)

lemma dec_useful_ok:
  assumes "tage_ok t" "snap_ok (n_comp t) (comp_idx_bits t) s" "i < n_comp t"
  shows "tage_ok (dec_useful s i t) \<and> n_comp (dec_useful s i t) = n_comp t \<and>
    comp_idx_bits (dec_useful s i t) = comp_idx_bits t"
proof -
  have "sn_fidx s ! i < 2 ^ comp_idx_bits t"
    using assms by (simp add: snap_ok_def)
  then have "entry_ok (entry_at t i (sn_fidx s ! i))"
    using assms by (simp add: entry_ok_at)
  then show ?thesis
    using assms by (auto simp: dec_useful_def Let_def entry_ok_def intro!: put_entry_ok)
qed

lemma fold_dec_ok:
  "tage_ok t \<Longrightarrow> snap_ok (n_comp t) (comp_idx_bits t) s \<Longrightarrow> \<forall>i\<in>set is. i < n_comp t \<Longrightarrow>
   tage_ok (fold (dec_useful s) is t) \<and> n_comp (fold (dec_useful s) is t) = n_comp t \<and>
   comp_idx_bits (fold (dec_useful s) is t) = comp_idx_bits t"
proof (induction "is" arbitrary: t)
  case (Cons i "is")
  then show ?case using dec_useful_ok [of t s i] by simp
qed simp

lemma find_Some_mem: "List.find P xs = Some x \<Longrightarrow> x \<in> set xs \<and> P x"
  by (induction xs) (auto split: if_splits)

lemma allocate_ok:
  assumes t: "tage_ok t" and s: "snap_ok (n_comp t) (comp_idx_bits t) s"
  shows "tage_ok (allocate s taken t)"
proof -
  define start where "start = (case sn_provider s of None \<Rightarrow> 0 | Some p \<Rightarrow> p + 1)"
  define u where "u = t\<lparr>tage_stats := (tage_stats t)\<lparr>ts_alloc_tried := ts_alloc_tried (tage_stats t) + 1\<rparr>\<rparr>"
  have u: "tage_ok u" "n_comp u = n_comp t" "comp_idx_bits u = comp_idx_bits t"
    using t by (simp_all add: u_def)
  have e: "entry_ok (alloc_entry s i taken)" for i
    by (simp add: entry_ok_def alloc_entry_def CTR_MIN_def CTR_MAX_def)
  have fold: "tage_ok (fold (dec_useful s) [start..<n_comp t] u)"
    using fold_dec_ok [of u s "[start..<n_comp t]"] u s by simp
  have "tage_ok (put_entry i (sn_fidx s ! i) (alloc_entry s i taken) u)"
    if "alloc_candidate s start u = Some i" for i
    using that u e find_Some_mem by (fastforce simp: alloc_candidate_def intro!: put_entry_ok)
  then show ?thesis
    using t u fold unfolding allocate_def Let_def start_def [symmetric] u_def [symmetric]
    by (simp split: option.split)
qed

lemma entry_ok_halved: "entry_ok e \<Longrightarrow> entry_ok (e\<lparr>te_u := te_u e div 2\<rparr>)"
  by (auto simp: entry_ok_def intro: order.trans [OF div_le_dividend])

lemma age_useful_ok: "tage_ok t \<Longrightarrow> tage_ok (age_useful t)"
  by (auto simp: age_useful_def Let_def tage_ok_def tables_ok_def entry_ok_halved)

lemma fold_dec_ring: "snap_ring (fold (dec_useful s) is t) = snap_ring t"
  by (induction "is" arbitrary: t) (simp_all add: dec_useful_def Let_def)

lemma tage_update_ok:
  assumes t: "tage_ok t"
  shows "tage_ok (tage_update pc taken k t)"
proof -
  let ?s = "snap_ring t ! ring_slot k"
  have s: "snap_ok (n_comp t) (comp_idx_bits t) ?s"
    using t by (rule ring_snap_ok)
  define t1 where "t1 = train_useful ?s taken (train_provider ?s taken (train_base pc taken t))"
  have t1: "tage_ok t1 \<and> n_comp t1 = n_comp t \<and> comp_idx_bits t1 = comp_idx_bits t"
    unfolding t1_def
    using train_base_ok [OF t, of pc taken] s train_provider_ok [of "train_base pc taken t" ?s taken]
      train_useful_ok [of "train_provider ?s taken (train_base pc taken t)" ?s taken] by simp
  define t2 where "t2 = age_useful (allocate ?s taken t1)"
  have same: "n_comp t2 = n_comp t \<and> comp_idx_bits t2 = comp_idx_bits t"
    using t1 fold_dec_ok [of _ ?s] s
    by (auto simp: t2_def age_useful_def Let_def allocate_def split: option.split)
  have t2: "tage_ok t2"
    using t1 s by (simp add: t2_def age_useful_ok allocate_ok)
  have "snap_ok (n_comp t2) (comp_idx_bits t2) (?s\<lparr>sn_valid := False\<rparr>)"
    using s same by (simp add: snap_ok_def)
  then have "tage_ok (t2\<lparr>snap_ring := (snap_ring t2)[ring_slot k := ?s\<lparr>sn_valid := False\<rparr>]\<rparr>)"
    using t2 by (auto simp: tage_ok_def dest: set_update_memD)
  then show ?thesis
    using t unfolding tage_update_def Let_def t1_def [symmetric] t2_def [symmetric] by simp
qed

interpretation tage: direction_predictor tage_ok tage_predict
  "\<lambda>pc taken hit cnt g t. Some (tage_update pc taken g t)" tage_on_mispred
proof
  fix s pc tgt taken g
  assume "tage_ok s"
  then show "\<exists>s' r. tage_predict pc tgt s = Some (s', r) \<and> tage_ok s' \<and> pr_bht_cnt r \<le> 3"
    using tage_predict_total [of s pc tgt] by force
  show "tage_ok (tage_on_mispred taken g s)"
    using \<open>tage_ok s\<close> by (simp add: tage_on_mispred_def)
qed (simp add: tage_update_ok)

lemma new_tage_ok:
  assumes "new_tage base_pow2 comp_pow2 hs = Some t"
  shows "tage_ok t"
proof -
  have "hs \<noteq> []" "1 \<le> comp_pow2"
    using assms by (auto simp: new_tage_def Let_def MAX_COMP_def)
  then show ?thesis
    using assms by (auto simp: new_tage_def Let_def tage_ok_def tables_ok_def entry_ok_def
        tage_entry_zero_def CTR_MIN_def CTR_MAX_def U_MAX_def snap_ok_def tage_snap_zero_def MAX_COMP_def)
qed

section \<open>The longest match decides\<close>

lemma those_nth: "those xs = Some ys \<Longrightarrow> length ys = length xs \<and> (\<forall>i<length xs. xs ! i = Some (ys ! i))"
proof (induction xs arbitrary: ys)
  case (Cons x xs)
  then obtain y zs where "x = Some y" "those xs = Some zs" "ys = y # zs" by (auto split: option.splits)
  then show ?case using Cons.IH [of zs] by (auto simp: nth_Cons split: nat.split)
qed simp

lemma fill_lookup_spec:
  assumes "fill_lookup t pc hit s = Some s1"
  shows "\<forall>i<n_comp t. comp_idx t pc (tg_ghr t) i = Some (sn_fidx s1 ! i) \<and> comp_tag t pc (tg_ghr t) i = Some (sn_ftag s1 ! i) \<and>
      (sn_comp_hit s1 ! i \<longleftrightarrow> te_valid (entry_at t i (sn_fidx s1 ! i)) \<and> te_tag (entry_at t i (sn_fidx s1 ! i)) = sn_ftag s1 ! i)"
    and "length (sn_comp_hit s1) = n_comp t" and "sn_bimodal_taken s1 \<longleftrightarrow> 2 \<le> base_table t ! base_index t pc"
  using assms by (auto simp: fill_lookup_def Let_def dest!: those_nth)

lemma final_direction_spec:
  "final_direction t (set_alt t pc (set_provider t s)) =
    (case hits_desc (sn_comp_hit s) of
       [] \<Rightarrow> sn_bimodal_taken s
     | p # rest \<Rightarrow>
         (let e = entry_at t p (sn_fidx s ! p)
          in if (te_ctr e = 0 \<or> te_ctr e = -1) \<and> te_u e = 0
             then (case rest of [] \<Rightarrow> sn_bimodal_taken s | q # _ \<Rightarrow> 0 \<le> te_ctr (entry_at t q (sn_fidx s ! q)))
             else 0 \<le> te_ctr e))"
proof (cases "hits_desc (sn_comp_hit s)")
  case Nil
  then show ?thesis by (simp add: final_direction_def set_provider_def set_alt_def)
next
  case (Cons p rest)
  have "distinct (hits_desc (sn_comp_hit s))" by (simp add: hits_desc_def)
  then have "distinct (p # rest)" by (simp only: Cons)
  then show ?thesis
    using Cons by (cases rest) (auto simp: final_direction_def set_provider_def set_alt_def Let_def)
qed

text \<open>The alternate provider is the longest match shorter than the provider.\<close>

lemma filter_rev_upt_Cons:
  "filter P (rev [0..<n]) = p # rest \<Longrightarrow> rest = filter P (rev [0..<p])"
  by (induction n) (auto split: if_splits)

lemma hits_desc_find:
  assumes "hits_desc hs = p # rest"
  shows "List.find (\<lambda>i. hs ! i) (rev [0..<p]) = (case rest of [] \<Rightarrow> None | q # _ \<Rightarrow> Some q)"
proof -
  have "rest = filter (\<lambda>i. hs ! i) (rev [0..<p])"
    by (rule filter_rev_upt_Cons [of _ "length hs"]) (use assms in \<open>simp add: hits_desc_def rev_filter\<close>)
  moreover have "List.find P xs = (case filter P xs of [] \<Rightarrow> None | q # _ \<Rightarrow> Some q)" for P and xs :: "nat list"
    by (induction xs) simp_all
  ultimately show ?thesis by simp
qed

lemma tage_predict_direction:
  assumes t: "tage_ok t"
  shows "\<exists>t' r s. tage_predict pc tgt t = Some (t', r) \<and> snap_ring t' ! ring_slot (snap_wr_idx t) = s \<and>
    (\<forall>i<n_comp t. comp_idx t pc (tg_ghr t) i = Some (sn_fidx s ! i) \<and> comp_tag t pc (tg_ghr t) i = Some (sn_ftag s ! i) \<and>
       (sn_comp_hit s ! i \<longleftrightarrow> te_valid (entry_at t i (sn_fidx s ! i)) \<and> te_tag (entry_at t i (sn_fidx s ! i)) = sn_ftag s ! i)) \<and>
    (case sn_provider s of
       None \<Rightarrow> (\<forall>i<n_comp t. \<not> sn_comp_hit s ! i) \<and> pr_taken r = (2 \<le> base_table t ! base_index t pc)
     | Some p \<Rightarrow> p < n_comp t \<and> sn_comp_hit s ! p \<and> (\<forall>i<n_comp t. sn_comp_hit s ! i \<longrightarrow> i \<le> p) \<and>
         (let e = entry_at t p (sn_fidx s ! p)
          in pr_taken r =
               (if (te_ctr e = 0 \<or> te_ctr e = -1) \<and> te_u e = 0
                then (case List.find (\<lambda>i. sn_comp_hit s ! i) (rev [0..<p]) of
                        None \<Rightarrow> 2 \<le> base_table t ! base_index t pc
                      | Some q \<Rightarrow> 0 \<le> te_ctr (entry_at t q (sn_fidx s ! q)))
                else 0 \<le> te_ctr e)))"
proof -
  obtain s1 where s1: "fill_lookup t pc (tgt \<noteq> 0) (snap_ring t ! ring_slot (snap_wr_idx t)) = Some s1"
    using fill_lookup_total [OF t] by blast
  note f = fill_lookup_spec [OF s1]
  define s2 where "s2 = set_alt t pc (set_provider t s1)"
  define s3 where "s3 = s2\<lparr>sn_tage_taken := final_direction t s2, sn_valid := True\<rparr>"
  obtain t' r where p: "tage_predict pc tgt t = Some (t', r)" "snap_ring t' = (snap_ring t)[ring_slot (snap_wr_idx t) := s3]"
      "pr_taken r = final_direction t s2"
    using s1 unfolding tage_predict_def Let_def s3_def s2_def by simp
  have at: "snap_ring t' ! ring_slot (snap_wr_idx t) = s3" using p(2) tage_okD(5) [OF t] by simp
  have sel: "sn_fidx s3 = sn_fidx s1" "sn_ftag s3 = sn_ftag s1" "sn_comp_hit s3 = sn_comp_hit s1"
      "sn_provider s3 = sn_provider (set_provider t s1)" by (simp_all add: s3_def s2_def)
  have dir: "case sn_provider s3 of
       None \<Rightarrow> (\<forall>i<n_comp t. \<not> sn_comp_hit s3 ! i) \<and> pr_taken r = (2 \<le> base_table t ! base_index t pc)
     | Some p \<Rightarrow> p < n_comp t \<and> sn_comp_hit s3 ! p \<and> (\<forall>i<n_comp t. sn_comp_hit s3 ! i \<longrightarrow> i \<le> p) \<and>
         (let e = entry_at t p (sn_fidx s3 ! p)
          in pr_taken r =
               (if (te_ctr e = 0 \<or> te_ctr e = -1) \<and> te_u e = 0
                then (case List.find (\<lambda>i. sn_comp_hit s3 ! i) (rev [0..<p]) of
                        None \<Rightarrow> 2 \<le> base_table t ! base_index t pc
                      | Some q \<Rightarrow> 0 \<le> te_ctr (entry_at t q (sn_fidx s3 ! q)))
                else 0 \<le> te_ctr e))"
  proof (cases "hits_desc (sn_comp_hit s1)")
    case Nil
    then have "sn_provider s3 = None" by (simp add: sel set_provider_def)
    then show ?thesis
      using Nil f(2,3) hits_desc_Nil [of "sn_comp_hit s1"] p(3) by (simp add: sel s2_def final_direction_spec)
  next
    case (Cons q rest)
    then have "sn_provider s3 = Some q" by (simp add: sel set_provider_def Let_def)
    then show ?thesis
      using Cons f(2,3) hits_desc_Cons [OF Cons] hits_desc_find [OF Cons] p(3)
      by (simp add: sel s2_def final_direction_spec Let_def split: list.split)
  qed
  show ?thesis using p(1) at f(1) dir by (intro exI [of _ t'] exI [of _ r] exI [of _ s3]) (simp add: sel)
qed

end
