(* ===== verification/BranchUnit.thy ===== *)
theory BranchUnit
  imports Tage
begin

text \<open>
  The BranchUnit of src/branchSim/BranchPred.hh and .cc: the direction predictor, the
  branch target buffer and the return address stack behind one interface, with the
  model of the one-port SRAM of the target buffer.
\<close>

section \<open>Virtual dispatch on BranchPred\<close>

datatype bpred =
    AlwaysTaken nat
  | NoBPU nat
  | BTFNT nat
  | Bimodal bimodal
  | GShare gshare
  | Tournament tournament
  | TagePred tage

fun bp_predict :: "addr_t \<Rightarrow> addr_t \<Rightarrow> bpred \<Rightarrow> (bpred \<times> bpu_pred_result) option" where
  "bp_predict pc tgt (AlwaysTaken a) = Some (apfst AlwaysTaken (always_taken_predict a))"
| "bp_predict pc tgt (NoBPU a) = Some (apfst NoBPU (nobpu_predict a))"
| "bp_predict pc tgt (BTFNT a) = Some (apfst BTFNT (btfnt_predict pc tgt a))"
| "bp_predict pc tgt (Bimodal b) = map_option (apfst Bimodal) (bimodal_predict pc b)"
| "bp_predict pc tgt (GShare g) = map_option (apfst GShare) (gshare_predict pc g)"
| "bp_predict pc tgt (Tournament t) = Some (apfst Tournament (tournament_predict pc t))"
| "bp_predict pc tgt (TagePred t) = map_option (apfst TagePred) (tage_predict pc tgt t)"

fun bp_update :: "addr_t \<Rightarrow> bool \<Rightarrow> bool \<Rightarrow> nat \<Rightarrow> 32 word \<Rightarrow> bpred \<Rightarrow> bpred option" where
  "bp_update pc taken btb_hit cnt g (Bimodal b) = map_option Bimodal (bimodal_update pc taken btb_hit cnt b)"
| "bp_update pc taken btb_hit cnt g (GShare s) = map_option GShare (gshare_update pc taken btb_hit cnt g s)"
| "bp_update pc taken btb_hit cnt g (Tournament t) = Some (Tournament (tournament_update pc taken g t))"
| "bp_update pc taken btb_hit cnt g (TagePred t) = Some (TagePred (tage_update pc taken g t))"
| "bp_update pc taken btb_hit cnt g p = Some p"

fun bp_on_mispred :: "bool \<Rightarrow> 32 word \<Rightarrow> bpred \<Rightarrow> bpred" where
  "bp_on_mispred actual g (GShare s) = GShare (gshare_on_mispred actual g s)"
| "bp_on_mispred actual g (Tournament t) = Tournament (tournament_on_mispred actual g t)"
| "bp_on_mispred actual g (TagePred t) = TagePred (tage_on_mispred actual g t)"
| "bp_on_mispred actual g p = p"

fun bp_on_resolved :: "bool \<Rightarrow> branch_result \<Rightarrow> bpred \<Rightarrow> bpred" where
  "bp_on_resolved actual pred (TagePred t) = TagePred (tage_on_resolved actual pred t)"
| "bp_on_resolved actual pred p = p"

fun bp_reset :: "bpred \<Rightarrow> bpred" where
  "bp_reset (AlwaysTaken a) = AlwaysTaken 0"
| "bp_reset (NoBPU a) = NoBPU 0"
| "bp_reset (BTFNT a) = BTFNT 0"
| "bp_reset (Bimodal b) = Bimodal (b\<lparr>bi_accesses := 0\<rparr>)"
| "bp_reset (GShare g) = GShare (g\<lparr>gs_accesses := 0\<rparr>)"
| "bp_reset (Tournament t) = Tournament (t\<lparr>tn_accesses := 0\<rparr>)"
| "bp_reset (TagePred t) = TagePred (t\<lparr>tg_accesses := 0\<rparr>)"

section \<open>The unit\<close>

record branch_unit =
  bu_stats :: bp_stats
  bu_bpu :: bpred
  bu_btb :: btb
  bu_ras :: "ras option"
  btb_written_this_tick :: bool
  btb_written_idx :: nat
  bypass_valid :: bool
  bypass_idx :: nat

definition new_branch_unit :: "bpred \<Rightarrow> btb \<Rightarrow> nat \<Rightarrow> branch_unit" where
  "new_branch_unit p b ras_depth =
     \<lparr>bu_stats = bp_stats_zero, bu_bpu = p, bu_btb = b,
      bu_ras = (if ras_depth > 0 then Some (new_ras ras_depth) else None),
      btb_written_this_tick = False, btb_written_idx = 0, bypass_valid = False, bypass_idx = 0\<rparr>"

definition is_no_bpu :: "branch_unit \<Rightarrow> bool" where
  "is_no_bpu u = (case bu_bpu u of NoBPU _ \<Rightarrow> True | _ \<Rightarrow> False)"

text \<open>The target the SRAM delivers: stale (0) right after a write to another index.\<close>

definition port_target :: "branch_unit \<Rightarrow> addr_t \<Rightarrow> addr_t \<Rightarrow> addr_t" where
  "port_target u pc btb_target =
     (if has_rw_conflict (bu_btb u) \<and> bypass_valid u \<and> unit_index (bu_btb u) pc \<noteq> bypass_idx u
      then 0 else btb_target)"

text \<open>A return predicted through the stack is always taken.\<close>

definition ras_override :: "branch_unit \<Rightarrow> addr_t \<Rightarrow> addr_t \<Rightarrow> addr_t option" where
  "ras_override u pc btb_target =
     (case bu_ras u of
        None \<Rightarrow> None
      | Some r \<Rightarrow> (if btb_target \<noteq> 0 \<and> entry_type (bu_btb u) (unit_index (bu_btb u) pc) = 1 \<and> ras_valid r
                    then Some (ras_top r) else None))"

definition unit_predict :: "addr_t \<Rightarrow> branch_unit \<Rightarrow> (branch_unit \<times> branch_result) option" where
  "unit_predict pc u0 = do {
     let u = u0\<lparr>bu_stats := (bu_stats u0)\<lparr>bs_accesses := bs_accesses (bu_stats u0) + 1\<rparr>\<rparr>;
     looked_up \<leftarrow> btb_lookup (bu_btb u) pc;
     let btb_target = port_target u pc looked_up;
     (bpu', res) \<leftarrow> bp_predict pc btb_target (bu_bpu u);
     let (taken, target) = (case ras_override u pc btb_target of
                              Some a \<Rightarrow> (True, a) | None \<Rightarrow> (pr_taken res, btb_target));
     Some (u\<lparr>bu_bpu := bpu'\<rparr>,
           \<lparr>pred_taken = taken, pred_target = target, will_redirect = (taken \<and> target \<noteq> 0),
            bht_cnt = pr_bht_cnt res, ghr_snap = pr_ghr_snap res,
            tage_overrode_bimodal = pr_tage_overrode res\<rparr>) }"

definition predict_at_fetch :: "addr_t \<Rightarrow> bool \<Rightarrow> branch_unit \<Rightarrow> (branch_unit \<times> branch_result) option" where
  "predict_at_fetch pc is_branch u =
     (if \<not> is_branch then Some (u, no_prediction)
      else unit_predict pc (u\<lparr>bu_stats := (bu_stats u)\<lparr>bs_br_accesses := bs_br_accesses (bu_stats u) + 1\<rparr>\<rparr>))"

definition note_btb_write :: "addr_t \<Rightarrow> branch_unit \<Rightarrow> branch_unit" where
  "note_btb_write pc u =
     u\<lparr>btb_written_this_tick := True, btb_written_idx := unit_index (bu_btb u) pc\<rparr>"

definition update_target :: "addr_t \<Rightarrow> addr_t \<Rightarrow> bool \<Rightarrow> branch_unit \<Rightarrow> branch_unit option" where
  "update_target pc target is_ret u = do {
     b \<leftarrow> btb_update pc target (bu_btb u);
     let u1 = note_btb_write pc (u\<lparr>bu_btb := b\<rparr>);
     Some (u1\<lparr>bu_btb := set_entry_type (btb_written_idx u1) (if is_ret then 1 else 0) (bu_btb u1)\<rparr>) }"

definition update_ras :: "addr_t \<Rightarrow> bool \<Rightarrow> bool \<Rightarrow> ras option \<Rightarrow> ras option" where
  "update_ras pc is_call is_ret r =
     map_option (\<lambda>s. (if is_ret then ras_pop else id) ((if is_call then ras_push (pc + 4) else id) s)) r"

definition unit_update ::
    "addr_t \<Rightarrow> bool \<Rightarrow> addr_t \<Rightarrow> bool \<Rightarrow> bool \<Rightarrow> bool \<Rightarrow> branch_result \<Rightarrow> bool \<Rightarrow> branch_unit \<Rightarrow> branch_unit option" where
  "unit_update pc taken target is_call is_ret btb_hit pred mispred u = do {
     let p1 = bp_on_resolved taken pred (bu_bpu u);
     p2 \<leftarrow> (if btb_hit \<or> taken then bp_update pc taken btb_hit (bht_cnt pred) (ghr_snap pred) p1 else Some p1);
     let p3 = (if mispred then bp_on_mispred taken (ghr_snap pred) p2 else p2);
     u1 \<leftarrow> (if taken then update_target pc target is_ret (u\<lparr>bu_bpu := p3\<rparr>) else Some (u\<lparr>bu_bpu := p3\<rparr>));
     Some (u1\<lparr>bu_ras := update_ras pc is_call is_ret (bu_ras u1)\<rparr>) }"

definition judge :: "bool \<Rightarrow> addr_t \<Rightarrow> branch_result \<Rightarrow> branch_unit \<Rightarrow> branch_unit \<times> bool" where
  "judge real_taken real_target pred u =
     (let s = bu_stats u;
          (accurate, s1) =
            (if \<not> real_taken \<and> \<not> will_redirect pred then (True, s)
             else if real_taken \<and> will_redirect pred then
               (if pred_target pred = real_target then (True, s)
                else (False, s\<lparr>bs_bad_target := bs_bad_target s + 1\<rparr>))
             else if real_taken \<and> \<not> will_redirect pred then
               (False, (if pred_taken pred then s\<lparr>bs_no_target := bs_no_target s + 1\<rparr>
                        else s\<lparr>bs_bad_pred := bs_bad_pred s + 1\<rparr>))
             else (False, s\<lparr>bs_bad_pred := bs_bad_pred s + 1\<rparr>));
          s2 = (if accurate then s1 else s1\<lparr>bs_misses := bs_misses s1 + 1\<rparr>)
      in (u\<lparr>bu_stats := s2\<rparr>, accurate))"

definition clear_btb_entry :: "addr_t \<Rightarrow> branch_unit \<Rightarrow> branch_unit option" where
  "clear_btb_entry pc u = do {
     b \<leftarrow> btb_clear_entry pc (bu_btb u);
     Some (note_btb_write pc (u\<lparr>bu_btb := b\<rparr>)) }"

definition begin_tick :: "branch_unit \<Rightarrow> branch_unit" where
  "begin_tick u = u\<lparr>bypass_valid := btb_written_this_tick u, bypass_idx := btb_written_idx u,
                    btb_written_this_tick := False\<rparr>"

definition has_btb_hit :: "branch_unit \<Rightarrow> addr_t \<Rightarrow> bool option" where
  "has_btb_hit u pc = map_option (\<lambda>t. t \<noteq> 0) (btb_lookup (bu_btb u) pc)"

definition unit_reset_stats :: "branch_unit \<Rightarrow> branch_unit" where
  "unit_reset_stats u = u\<lparr>bu_stats := bp_reset_stats (bu_stats u), bu_bpu := bp_reset (bu_bpu u)\<rparr>"

section \<open>Invariant\<close>

fun bp_ok :: "bpred \<Rightarrow> bool" where
  "bp_ok (Bimodal b) = bimodal_ok b"
| "bp_ok (GShare g) = gshare_ok g"
| "bp_ok (Tournament t) = tournament_ok t"
| "bp_ok (TagePred t) = tage_ok t"
| "bp_ok _ = True"

text \<open>Every predictor the unit can hold meets the contract, so the dispatch does.\<close>

interpretation bp: direction_predictor bp_ok bp_predict bp_update bp_on_mispred
proof
  fix s pc tgt taken hit g and cnt :: nat
  assume s: "bp_ok s"
  show "\<exists>s' r. bp_predict pc tgt s = Some (s', r) \<and> bp_ok s' \<and> pr_bht_cnt r \<le> 3"
  proof (cases s)
    case (Bimodal b)
    then show ?thesis using s bimodal.pred_ex [of b pc] by auto
  next
    case (GShare x)
    then show ?thesis using s gshare.pred_ex [of x pc] by auto
  next
    case (Tournament t)
    then show ?thesis using s tournament.pred_ex [of t pc] by auto
  next
    case (TagePred t)
    then show ?thesis using s tage.pred_ex [of t pc tgt] by auto
  qed (simp_all add: always_taken_predict_def nobpu_predict_def btfnt_predict_def pred_result_def)
  show "bp_ok (bp_on_mispred taken g s)"
    using s by (cases s) (simp_all add: gshare.mispred_keeps tournament.mispred_keeps tage.mispred_keeps)
  assume cnt: "cnt \<le> 3"
  show "\<exists>s'. bp_update pc taken hit cnt g s = Some s' \<and> bp_ok s'"
  proof (cases s)
    case (Bimodal b)
    then show ?thesis using s bimodal.upd_ex [of b cnt pc taken hit] cnt by auto
  next
    case (GShare x)
    then show ?thesis using s gshare.upd_ex [of x cnt pc taken hit g] cnt by auto
  next
    case (Tournament t)
    then show ?thesis using s tournament.upd_ex [of t cnt pc taken g] cnt by auto
  next
    case (TagePred t)
    then show ?thesis using s by (simp add: tage_update_ok)
  qed simp_all
qed

lemma bp_resolved_ok: "bp_ok p \<Longrightarrow> bp_ok (bp_on_resolved taken r p)"
  by (cases p) (simp_all add: tage_on_resolved_def Let_def)

definition unit_ok :: "branch_unit \<Rightarrow> bool" where
  "unit_ok u \<longleftrightarrow> bp_ok (bu_bpu u) \<and> btb_ok (bu_btb u) \<and> (\<forall>r. bu_ras u = Some r \<longrightarrow> ras_ok r)"

lemma new_branch_unit_ok: "bp_ok p \<Longrightarrow> btb_ok b \<Longrightarrow> unit_ok (new_branch_unit p b d)"
  by (simp add: unit_ok_def new_branch_unit_def new_ras_ok)

lemma unit_ok_stats [simp]: "unit_ok (u\<lparr>bu_stats := s\<rparr>) = unit_ok u"
  by (simp add: unit_ok_def)

lemma begin_tick_ok [simp]: "unit_ok (begin_tick u) = unit_ok u"
  by (simp add: unit_ok_def begin_tick_def)

lemma unit_predict_ex:
  assumes u: "unit_ok u"
  shows "\<exists>u' r. unit_predict pc u = Some (u', r) \<and> unit_ok u' \<and> bht_cnt r \<le> 3 \<and>
    will_redirect r = (pred_taken r \<and> pred_target r \<noteq> 0)"
proof -
  define u1 where "u1 = u\<lparr>bu_stats := (bu_stats u)\<lparr>bs_accesses := bs_accesses (bu_stats u) + 1\<rparr>\<rparr>"
  have ok: "bp_ok (bu_bpu u1)" "btb_ok (bu_btb u1)" using u by (simp_all add: unit_ok_def u1_def)
  obtain t where t: "btb_lookup (bu_btb u1) pc = Some t" using btb_lookup_ex [OF ok(2)] by blast
  obtain p' res where p': "bp_predict pc (port_target u1 pc t) (bu_bpu u1) = Some (p', res)" "bp_ok p'"
      "pr_bht_cnt res \<le> 3"
    using bp.pred_ex [OF ok(1)] by blast
  have "unit_ok (u1\<lparr>bu_bpu := p'\<rparr>)" using u p' by (simp add: unit_ok_def u1_def)
  then show ?thesis
    using t p' unfolding unit_predict_def Let_def u1_def [symmetric]
    by (simp split: option.split)
qed

lemma predict_at_fetch_ex:
  "unit_ok u \<Longrightarrow> \<exists>u' r. predict_at_fetch pc br u = Some (u', r) \<and> unit_ok u' \<and> bht_cnt r \<le> 3"
  using unit_predict_ex [of "u\<lparr>bu_stats := (bu_stats u)\<lparr>bs_br_accesses := bs_br_accesses (bu_stats u) + 1\<rparr>\<rparr>" pc]
  by (auto simp: predict_at_fetch_def no_prediction_def)

lemma update_target_ex: "unit_ok u \<Longrightarrow> \<exists>u'. update_target pc tgt is_ret u = Some u' \<and> unit_ok u'"
  using btb_update_ok [of "bu_btb u" pc tgt]
  by (auto simp: unit_ok_def update_target_def note_btb_write_def Let_def set_entry_type_ok)

lemma unit_update_ex:
  assumes u: "unit_ok u" and c: "bht_cnt r \<le> 3"
  shows "\<exists>u'. unit_update pc taken tgt call ret hit r mis u = Some u' \<and> unit_ok u'"
proof -
  let ?p1 = "bp_on_resolved taken r (bu_bpu u)"
  have p1: "bp_ok ?p1" using u by (simp add: unit_ok_def bp_resolved_ok)
  obtain p2 where p2: "(if hit \<or> taken then bp_update pc taken hit (bht_cnt r) (ghr_snap r) ?p1 else Some ?p1) = Some p2"
      "bp_ok p2"
    using bp.upd_ex [OF p1 c, of pc taken hit "ghr_snap r"] p1 by (cases "hit \<or> taken") auto
  define p3 where "p3 = (if mis then bp_on_mispred taken (ghr_snap r) p2 else p2)"
  have p3: "unit_ok (u\<lparr>bu_bpu := p3\<rparr>)"
    using u p2(2) by (simp add: unit_ok_def p3_def bp.mispred_keeps)
  obtain u1 where u1: "(if taken then update_target pc tgt ret (u\<lparr>bu_bpu := p3\<rparr>) else Some (u\<lparr>bu_bpu := p3\<rparr>)) = Some u1"
      "unit_ok u1"
    using update_target_ex [OF p3, of pc tgt ret] p3 by (cases taken) auto
  have "unit_ok (u1\<lparr>bu_ras := update_ras pc call ret (bu_ras u1)\<rparr>)"
    using u1(2) by (auto simp: unit_ok_def update_ras_def ras_push_spec ras_pop_spec)
  then show ?thesis
    using p2 u1 unfolding unit_update_def Let_def p3_def by simp
qed

lemma clear_btb_entry_ex: "unit_ok u \<Longrightarrow> \<exists>u'. clear_btb_entry pc u = Some u' \<and> unit_ok u'"
  using btb_clear_ok [of "bu_btb u" pc] by (auto simp: unit_ok_def clear_btb_entry_def note_btb_write_def)

lemma judge_ok [simp]: "unit_ok (fst (judge a b r u)) = unit_ok u"
  by (simp add: judge_def Let_def split: prod.split)

lemma judge_accurate:
  "snd (judge real_taken real_target r u) \<longleftrightarrow>
   (if real_taken then will_redirect r \<and> pred_target r = real_target else \<not> will_redirect r)"
  by (auto simp: judge_def Let_def)

end
