(* ===== verification/TageRun.thy ===== *)
theory TageRun
  imports Tage
begin

text \<open>
  Runs of the TAGE predictor: any sequence of the calls the branch unit makes to it, in any
  order and with any snapshot id. Predictions claim the slots of the snapshot ring one after
  the other; training, repair and bookkeeping leave the history recorded in a slot alone.
\<close>

section \<open>Runs\<close>

datatype tage_op =
    Predict addr_t addr_t
  | Train addr_t bool "32 word"
  | Repair bool "32 word"
  | Resolved bool branch_result

fun tage_step :: "tage_op \<Rightarrow> tage \<Rightarrow> tage option" where
  "tage_step (Predict pc tgt) t = map_option fst (tage_predict pc tgt t)"
| "tage_step (Train pc taken k) t = Some (tage_update pc taken k t)"
| "tage_step (Repair actual k) t = Some (tage_on_mispred actual k t)"
| "tage_step (Resolved actual r) t = Some (tage_on_resolved actual r t)"

fun tage_run :: "tage_op list \<Rightarrow> tage \<Rightarrow> tage option" where
  "tage_run [] t = Some t"
| "tage_run (x # xs) t = do { t1 \<leftarrow> tage_step x t; tage_run xs t1 }"

fun is_predict :: "tage_op \<Rightarrow> bool" where
  "is_predict (Predict pc tgt) = True"
| "is_predict _ = False"

section \<open>What an operation leaves alone\<close>

text \<open>The parts of the predictor that only a prediction changes.\<close>

definition same_snaps :: "tage \<Rightarrow> tage \<Rightarrow> bool" where
  "same_snaps t t' \<longleftrightarrow> snap_wr_idx t' = snap_wr_idx t \<and> ghr_mask t' = ghr_mask t \<and>
     map sn_ghr_snap (snap_ring t') = map sn_ghr_snap (snap_ring t)"

lemma same_snaps_refl [simp]: "same_snaps t t"
  by (simp add: same_snaps_def)

lemma same_snaps_trans: "same_snaps a b \<Longrightarrow> same_snaps b c \<Longrightarrow> same_snaps a c"
  by (simp add: same_snaps_def)

lemma same_snaps_upd [simp]:
  "same_snaps t (u\<lparr>tage_stats := x\<rparr>) = same_snaps t u" "same_snaps t (u\<lparr>tg_ghr := g\<rparr>) = same_snaps t u"
  "same_snaps t (u\<lparr>u_reset_ctr := k\<rparr>) = same_snaps t u" "same_snaps t (u\<lparr>comp_tables := ts\<rparr>) = same_snaps t u"
  "same_snaps t (u\<lparr>base_table := b\<rparr>) = same_snaps t u" "same_snaps (u\<lparr>tage_stats := x\<rparr>) t = same_snaps u t"
  "same_snaps t (put_entry i idx e u) = same_snaps t u"
  by (simp_all add: same_snaps_def put_entry_def)

lemma same_snaps_training [simp]:
  "same_snaps t (train_base pc taken u) = same_snaps t u"
  "same_snaps t (train_provider s taken u) = same_snaps t u"
  "same_snaps t (train_useful s taken u) = same_snaps t u"
  "same_snaps t (dec_useful s i u) = same_snaps t u"
  "same_snaps t (age_useful u) = same_snaps t u"
  by (simp_all add: train_base_def train_provider_def train_useful_def dec_useful_def age_useful_def Let_def
      split: option.split)

lemma same_snaps_fold_dec [simp]: "same_snaps t (fold (dec_useful s) is u) = same_snaps t u"
  by (induction "is" arbitrary: u) simp_all

lemma same_snaps_allocate [simp]: "same_snaps t (allocate s taken u) = same_snaps t u"
  by (simp add: allocate_def Let_def split: option.split)

lemma update_same_snaps: "same_snaps t (tage_update pc taken k t)"
proof -
  define s where "s = snap_ring t ! ring_slot k"
  define t2 where "t2 = age_useful (allocate s taken (train_useful s taken (train_provider s taken (train_base pc taken t))))"
  have t2: "same_snaps t t2" by (simp add: t2_def)
  have "map sn_ghr_snap ((snap_ring t2)[ring_slot k := s\<lparr>sn_valid := False\<rparr>])
      = (map sn_ghr_snap (snap_ring t2))[ring_slot k := sn_ghr_snap s]"
    by (simp add: map_update)
  also have "\<dots> = (map sn_ghr_snap (snap_ring t))[ring_slot k := sn_ghr_snap s]"
    using t2 by (simp add: same_snaps_def)
  also have "\<dots> = map sn_ghr_snap (snap_ring t)"
    by (simp add: s_def list_update_same_conv flip: map_update)
  finally have "same_snaps t (t2\<lparr>snap_ring := (snap_ring t2)[ring_slot k := s\<lparr>sn_valid := False\<rparr>]\<rparr>)"
    using t2 by (simp add: same_snaps_def)
  then show ?thesis
    by (simp add: tage_update_def s_def t2_def Let_def)
qed

text \<open>Every operation returns and keeps the invariant; only a prediction claims a slot.\<close>

lemma tage_step_total:
  assumes t: "tage_ok t"
  shows "\<exists>t'. tage_step x t = Some t' \<and> tage_ok t' \<and> ghr_mask t' = ghr_mask t \<and>
    (if is_predict x
     then snap_wr_idx t' = snap_wr_idx t + 1 \<and> (\<exists>s. snap_ring t' = (snap_ring t)[ring_slot (snap_wr_idx t) := s])
     else same_snaps t t')"
proof (cases x)
  case (Predict pc tgt)
  then show ?thesis using tage_predict_total [OF t, of pc tgt] by auto
next
  case (Train pc taken k)
  then show ?thesis
    using tage_update_ok [OF t, of pc taken k] update_same_snaps [of t pc taken k] by (simp add: same_snaps_def)
next
  case (Repair actual k)
  then show ?thesis using t by (simp add: tage_on_mispred_def)
next
  case (Resolved actual r)
  then show ?thesis using t by (simp add: tage_on_resolved_def Let_def)
qed

lemma tage_run_total: "tage_ok t \<Longrightarrow> \<exists>t'. tage_run xs t = Some t' \<and> tage_ok t'"
proof (induction xs arbitrary: t)
  case (Cons x xs)
  then show ?case using tage_step_total [of t x] by fastforce
qed simp

section \<open>Snapshots survive speculation\<close>

lemma ring_slot_add: "ring_slot (a + of_nat k) = (unat a + k) mod SNAP_RING"
proof -
  have d: "(512 :: nat) dvd 2 ^ 32" by simp
  have "unat (a + of_nat k) = (unat a + k mod 2 ^ 32) mod 2 ^ 32"
    by (simp add: unat_word_ariths unat_of_nat)
  also have "\<dots> = (unat a + k) mod 2 ^ 32" by (rule mod_add_right_eq)
  finally have "unat (a + of_nat k) mod 512 = (unat a + k) mod 512"
    using mod_mod_cancel [OF d, of "unat a + k"] by simp
  then show ?thesis by (simp add: ring_slot_def SNAP_RING_def)
qed

lemma ring_slot_fresh:
  assumes "0 < k" "k < SNAP_RING"
  shows "ring_slot (a + of_nat k) \<noteq> ring_slot a"
proof
  assume "ring_slot (a + of_nat k) = ring_slot a"
  then have "(unat a + k) mod 512 = unat a mod 512"
    unfolding ring_slot_add by (simp add: ring_slot_def SNAP_RING_def)
  then have "512 dvd unat a + k - unat a" using mod_eq_dvd_iff_nat [of "unat a" "unat a + k" 512] by simp
  then show False using assms by (auto simp: SNAP_RING_def dest: dvd_imp_le)
qed

text \<open>
  A slot keeps its history while fewer than 512 predictions, its own included, have been made
  since it was claimed.
\<close>

lemma same_snap_at: "same_snaps t t' \<Longrightarrow> i < length (snap_ring t) \<Longrightarrow> sn_ghr_snap (snap_ring t' ! i) = sn_ghr_snap (snap_ring t ! i)"
  unfolding same_snaps_def by (metis length_map nth_map)

lemma tage_run_keeps:
  "tage_ok t \<Longrightarrow> snap_wr_idx t = id0 + of_nat k \<Longrightarrow> 0 < k \<Longrightarrow>
   \<exists>t'. tage_run xs t = Some t' \<and> tage_ok t' \<and> snap_wr_idx t' = id0 + of_nat (k + length (filter is_predict xs)) \<and>
     ghr_mask t' = ghr_mask t \<and>
     (k + length (filter is_predict xs) \<le> SNAP_RING \<longrightarrow>
        sn_ghr_snap (snap_ring t' ! ring_slot id0) = sn_ghr_snap (snap_ring t ! ring_slot id0))"
proof (induction xs arbitrary: t k)
  case (Cons x xs)
  obtain t1 where t1: "tage_step x t = Some t1" "tage_ok t1" "ghr_mask t1 = ghr_mask t"
      "if is_predict x
       then snap_wr_idx t1 = snap_wr_idx t + 1 \<and> (\<exists>s. snap_ring t1 = (snap_ring t)[ring_slot (snap_wr_idx t) := s])
       else same_snaps t t1"
    using tage_step_total [OF Cons.prems(1), of x] by blast
  have l: "length (snap_ring t) = SNAP_RING" using tage_okD(5) [OF Cons.prems(1)] .
  define k1 where "k1 = k + (if is_predict x then 1 else 0)"
  have w: "snap_wr_idx t1 = id0 + of_nat k1"
    using t1(4) Cons.prems(2) by (simp add: k1_def same_snaps_def split: if_splits)
  have keep: "sn_ghr_snap (snap_ring t1 ! ring_slot id0) = sn_ghr_snap (snap_ring t ! ring_slot id0)"
    if "k1 \<le> SNAP_RING"
  proof (cases "is_predict x")
    case True
    then have "ring_slot (snap_wr_idx t) \<noteq> ring_slot id0"
      using ring_slot_fresh [OF Cons.prems(3), of id0] Cons.prems(2) that by (simp add: k1_def)
    then show ?thesis using t1(4) True by auto
  next
    case False
    then show ?thesis using t1(4) same_snap_at [of t t1 "ring_slot id0"] l by simp
  qed
  have "0 < k1" using Cons.prems(3) by (simp add: k1_def)
  then obtain t' where t': "tage_run xs t1 = Some t'" "tage_ok t'"
      "snap_wr_idx t' = id0 + of_nat (k1 + length (filter is_predict xs))" "ghr_mask t' = ghr_mask t1"
      "k1 + length (filter is_predict xs) \<le> SNAP_RING \<longrightarrow>
        sn_ghr_snap (snap_ring t' ! ring_slot id0) = sn_ghr_snap (snap_ring t1 ! ring_slot id0)"
    using Cons.IH [OF t1(2) w] by blast
  moreover have "k + length (filter is_predict (x # xs)) = k1 + length (filter is_predict xs)"
    by (simp add: k1_def)
  ultimately show ?case
    using t1(1,3) keep by (intro exI [of _ t']) simp
qed simp

lemma predict_then_run:
  assumes t: "tage_ok t" and n: "length (filter is_predict xs) + 1 < 2 ^ 32"
  shows "\<exists>t1 r t2. tage_predict pc tgt t = Some (t1, r) \<and> tage_run xs t1 = Some t2 \<and>
    tg_ghr (tage_on_mispred actual (pr_ghr_snap r) t2)
      = (if length (filter is_predict xs) + 1 < SNAP_RING
         then (push_bit 1 (tg_ghr t) OR (if actual then 1 else 0)) AND ghr_mask t else tg_ghr t2)"
proof -
  let ?p = "length (filter is_predict xs)"
  obtain t1 r s where t1: "tage_predict pc tgt t = Some (t1, r)" "tage_ok t1" "pr_ghr_snap r = snap_wr_idx t"
      "snap_wr_idx t1 = snap_wr_idx t + 1" "snap_ring t1 = (snap_ring t)[ring_slot (snap_wr_idx t) := s]"
      "sn_ghr_snap s = tg_ghr t" "ghr_mask t1 = ghr_mask t"
    using tage_predict_total [OF t, of pc tgt] by blast
  have k: "snap_wr_idx t1 = snap_wr_idx t + of_nat 1" using t1(4) by simp
  obtain t2 where t2: "tage_run xs t1 = Some t2" "snap_wr_idx t2 = snap_wr_idx t + of_nat (1 + ?p)"
      "ghr_mask t2 = ghr_mask t1"
      "1 + ?p \<le> SNAP_RING \<longrightarrow> sn_ghr_snap (snap_ring t2 ! ring_slot (snap_wr_idx t)) = sn_ghr_snap (snap_ring t1 ! ring_slot (snap_wr_idx t))"
    using tage_run_keeps [OF t1(2) k zero_less_one, of xs] by blast
  have l: "length (snap_ring t) = SNAP_RING" using tage_okD(5) [OF t] .
  have "unat (snap_wr_idx t2 - snap_wr_idx t) = 1 + ?p"
    using n by (simp add: t2(2) unat_of_nat del: of_nat_Suc of_nat_add)
  then have "snap_lost t2 (snap_wr_idx t) \<longleftrightarrow> \<not> ?p + 1 < SNAP_RING"
    by (auto simp: snap_lost_def word_le_nat_alt SNAP_RING_def)
  then have "tg_ghr (tage_on_mispred actual (pr_ghr_snap r) t2)
      = (if ?p + 1 < SNAP_RING then (push_bit 1 (tg_ghr t) OR (if actual then 1 else 0)) AND ghr_mask t else tg_ghr t2)"
    using t1 t2(3,4) l by (simp add: tage_on_mispred_def)
  then show ?thesis using t1(1) t2(1) by blast
qed

end
