(* ===== verification/BranchProps.thy ===== *)
theory BranchProps
  imports BranchUnit TageRun
begin

text \<open>
  The properties of the branch predictors, the target buffer, the return address stack and
  the branch unit, each with an instance on a small concrete predictor.
\<close>

section \<open>Concrete instances\<close>

definition demo_tage :: tage where
  "demo_tage = the (new_tage 2 2 [2, 4])"

lemma demo_tage_new: "new_tage 2 2 [2, 4] = Some demo_tage"
  by (simp add: demo_tage_def new_tage_def MAX_COMP_def Let_def)

lemma demo_tage_ok: "tage_ok demo_tage"
  by (rule new_tage_ok [OF demo_tage_new])

definition demo_unit :: branch_unit where
  "demo_unit = new_branch_unit (GShare (new_gshare 4 3 1)) (Compressed (new_compressed_btb 4 16 True 0)) 2"

lemma demo_unit_ok: "unit_ok demo_unit"
  unfolding demo_unit_def by (rule new_branch_unit_ok) (simp_all add: new_predictors_ok new_compressed_btb_ok)

section \<open>TAGE\<close>

text \<open>
  (C25) A TAGE prediction always returns and is the one of the longest matching history: the
  provider is the highest component whose entry is valid and carries the tag, it decides by
  the sign of its counter; while it is a weak fresh entry the next shorter match decides, or
  the base counter when there is none; with no match at all the base counter decides.
\<close>

theorem tage_longest_match:
  assumes "tage_ok t"
  shows "\<exists>t' r s. tage_predict pc tgt t = Some (t', r) \<and> snap_ring t' ! ring_slot (snap_wr_idx t) = s \<and>
    (\<forall>i<n_comp t. comp_idx t pc (tg_ghr t) i = Some (sn_fidx s ! i) \<and> comp_tag t pc (tg_ghr t) i = Some (sn_ftag s ! i) \<and>
       (sn_comp_hit s ! i \<longleftrightarrow> te_valid (entry_at t i (sn_fidx s ! i)) \<and> te_tag (entry_at t i (sn_fidx s ! i)) = sn_ftag s ! i)) \<and>
    (case sn_provider s of
       None \<Rightarrow> (\<forall>i<n_comp t. \<not> sn_comp_hit s ! i) \<and> pr_taken r = (2 \<le> base_table t ! base_index t pc)
     | Some p \<Rightarrow> p < n_comp t \<and> sn_comp_hit s ! p \<and> (\<forall>i<n_comp t. sn_comp_hit s ! i \<longrightarrow> i \<le> p) \<and>
         (let e = entry_at t p (sn_fidx s ! p)
          in pr_taken r =
               (if (te_ctr e = 0 \<or> te_ctr e = -1) \<and> te_u e = 0
                then (case List.find (\<lambda>i. sn_comp_hit s ! i) (rev [0..<p]) of
                        None \<Rightarrow> 2 \<le> base_table t ! base_index t pc
                      | Some q \<Rightarrow> 0 \<le> te_ctr (entry_at t q (sn_fidx s ! q)))
                else 0 \<le> te_ctr e)))"
  by (rule tage_predict_direction [OF assms])

theorem tage_longest_match_witness:
  "\<exists>t' r s. tage_predict 0x80000010 0 demo_tage = Some (t', r) \<and> snap_ring t' ! ring_slot (snap_wr_idx demo_tage) = s \<and>
    (\<forall>i<n_comp demo_tage. comp_idx demo_tage 0x80000010 (tg_ghr demo_tage) i = Some (sn_fidx s ! i) \<and>
       comp_tag demo_tage 0x80000010 (tg_ghr demo_tage) i = Some (sn_ftag s ! i) \<and>
       (sn_comp_hit s ! i \<longleftrightarrow> te_valid (entry_at demo_tage i (sn_fidx s ! i)) \<and>
          te_tag (entry_at demo_tage i (sn_fidx s ! i)) = sn_ftag s ! i)) \<and>
    (case sn_provider s of
       None \<Rightarrow> (\<forall>i<n_comp demo_tage. \<not> sn_comp_hit s ! i) \<and>
          pr_taken r = (2 \<le> base_table demo_tage ! base_index demo_tage 0x80000010)
     | Some p \<Rightarrow> p < n_comp demo_tage \<and> sn_comp_hit s ! p \<and> (\<forall>i<n_comp demo_tage. sn_comp_hit s ! i \<longrightarrow> i \<le> p) \<and>
         (let e = entry_at demo_tage p (sn_fidx s ! p)
          in pr_taken r =
               (if (te_ctr e = 0 \<or> te_ctr e = -1) \<and> te_u e = 0
                then (case List.find (\<lambda>i. sn_comp_hit s ! i) (rev [0..<p]) of
                        None \<Rightarrow> 2 \<le> base_table demo_tage ! base_index demo_tage 0x80000010
                      | Some q \<Rightarrow> 0 \<le> te_ctr (entry_at demo_tage q (sn_fidx s ! q)))
                else 0 \<le> te_ctr e)))"
  by (rule tage_longest_match [OF demo_tage_ok])

text \<open>
  (C26) Between a TAGE prediction and the repair of its misprediction any calls may be made:
  younger predictions, training, repairs and bookkeeping, in any order. If fewer than 511 of
  them are predictions, the repair restores exactly the history before the branch, shifted by
  its actual direction; from the 511th on the snapshot counts as lost and the repair leaves the
  history register as the wrong path left it, for every number of predictions below the wrap of
  the 32-bit ids.
\<close>

theorem tage_history_restored:
  assumes "tage_ok t" and "length (filter is_predict ops) + 1 < 2 ^ 32"
  shows "\<exists>t1 r t2. tage_predict pc tgt t = Some (t1, r) \<and> tage_run ops t1 = Some t2 \<and>
    tg_ghr (tage_on_mispred actual (pr_ghr_snap r) t2)
      = (if length (filter is_predict ops) < SNAP_RING - 1
         then (push_bit 1 (tg_ghr t) OR (if actual then 1 else 0)) AND ghr_mask t
         else tg_ghr t2)"
proof -
  have "length (filter is_predict ops) < SNAP_RING - 1 \<longleftrightarrow> length (filter is_predict ops) + 1 < SNAP_RING"
    by linarith
  then show ?thesis using predict_then_run [OF assms, of pc tgt actual] by simp
qed

definition demo_ops :: "tage_op list" where
  "demo_ops = [Predict 0x44 0x10, Train 0x40 True 0, Predict 0x48 0, Repair False 1]"

theorem tage_history_restored_witness:
  "\<exists>t1 r t2. tage_predict 0x40 0x80 demo_tage = Some (t1, r) \<and> tage_run demo_ops t1 = Some t2 \<and>
    tg_ghr (tage_on_mispred True (pr_ghr_snap r) t2)
      = (if length (filter is_predict demo_ops) < SNAP_RING - 1
         then (push_bit 1 (tg_ghr demo_tage) OR (if True then 1 else 0)) AND ghr_mask demo_tage
         else tg_ghr t2)"
  by (rule tage_history_restored [OF demo_tage_ok]) (simp add: demo_ops_def)

text \<open>
  The folding loop over the history ends for every positive width, and the folded value
  fits that width.
\<close>

lemma fold_ghr_terminates:
  assumes "0 < k" and "k < 32"
  shows "\<exists>r. fold_ghr g h k = Some r \<and> unat r < 2 ^ k"
  using fold_ghr_total [OF assms(1), of g h] fold_ghr_less [OF _ assms(2)] by blast

text \<open>
  (C27) Every run of the TAGE predictor from its constructor, any sequence of predictions,
  trainings, repairs and bookkeeping calls with any snapshot ids, returns and leaves the tables
  in range: every tagged counter is a signed three-bit value, every usefulness counter a
  two-bit value and every base counter a two-bit value.
\<close>

theorem tage_counters_in_range:
  assumes "new_tage base_pow2 comp_pow2 hs = Some t0"
  shows "\<exists>t. tage_run ops t0 = Some t \<and>
    (\<forall>tb\<in>set (comp_tables t). \<forall>e\<in>set tb. -4 \<le> te_ctr e \<and> te_ctr e \<le> 3 \<and> te_u e \<le> 3) \<and>
    (\<forall>c\<in>set (base_table t). c \<le> 3)"
proof -
  obtain t where t: "tage_run ops t0 = Some t" "tage_ok t"
    using tage_run_total [OF new_tage_ok [OF assms]] by blast
  have "\<forall>tb\<in>set (comp_tables t). \<forall>e\<in>set tb. entry_ok e"
    using tage_okD(4) [OF t(2)] unfolding tables_ok_def by blast
  moreover have "\<forall>c\<in>set (base_table t). c \<le> 3"
    using tage_okD(3) [OF t(2)] unfolding cnt_table_ok_def by blast
  ultimately show ?thesis
    using t(1) unfolding entry_ok_def CTR_MIN_def CTR_MAX_def U_MAX_def by blast
qed

text \<open>Six times the same branch, taken: past the top of every counter it trains.\<close>

definition demo_training :: "tage_op list" where
  "demo_training = concat (map (\<lambda>k. [Predict 0x40 0x80, Train 0x40 True k]) [0, 1, 2, 3, 4, 5])"

theorem tage_counters_in_range_witness:
  "\<exists>t. tage_run demo_training demo_tage = Some t \<and>
    list_all (list_all (\<lambda>e. -4 \<le> te_ctr e \<and> te_ctr e \<le> 3 \<and> te_u e \<le> 3)) (comp_tables t) \<and>
    list_all (\<lambda>c. c \<le> 3) (base_table t)"
  using tage_counters_in_range [OF demo_tage_new, of demo_training] by (simp add: list_all_iff)

section \<open>Target buffer and return stack\<close>

text \<open>
  (C30) A lookup in the target buffer after an update: the updated pc, and every pc that shares
  its index and its partial tag, gets the new target; another pc with the same index now
  misses; every other pc is looked up as before.
\<close>

theorem btb_lookup_after_update:
  assumes "cbtb_ok b" and "cbtb_update pc tgt b = Some b'"
  shows "cbtb_lookup b' pc' =
    (if btb_index b pc' = btb_index b pc then Some (if btb_tag_of b pc' = btb_tag_of b pc then tgt else 0)
     else cbtb_lookup b pc')"
  by (rule cbtb_lookup_upd [OF assms])

definition demo_btb :: compressed_btb where
  "demo_btb = new_compressed_btb 2 8 True 0"

theorem btb_lookup_after_update_witness:
  "cbtb_lookup (the (cbtb_update 0x44 0x80 demo_btb)) 0x48 =
    (if btb_index demo_btb 0x48 = btb_index demo_btb 0x44
     then Some (if btb_tag_of demo_btb 0x48 = btb_tag_of demo_btb 0x44 then 0x80 else 0) else cbtb_lookup demo_btb 0x48)"
proof (rule btb_lookup_after_update)
  show "cbtb_ok demo_btb" unfolding demo_btb_def by (rule new_compressed_btb_ok)
  then show "cbtb_update 0x44 0x80 demo_btb = Some (the (cbtb_update 0x44 0x80 demo_btb))"
    by (simp add: cbtb_update_ex)
qed

text \<open>
  (C31) The return address stack is a bounded stack: with calls nested no deeper than its depth,
  popping n of the pushed return addresses leaves the earlier ones in order, and the top is the
  return address of the innermost call that has not returned.
\<close>

theorem ras_matches_nesting:
  assumes "ras_ok s" and "length (ras_list s) + length xs \<le> ras_size s" and "n < length xs"
  shows "ras_list ((ras_pop ^^ n) (fold ras_push xs s)) = rev (take (length xs - n) xs) @ ras_list s \<and>
    ras_top ((ras_pop ^^ n) (fold ras_push xs s)) = xs ! (length xs - n - 1)"
proof -
  let ?s = "(ras_pop ^^ n) (fold ras_push xs s)"
  have l: "ras_list ?s = rev (take (length xs - n) xs) @ ras_list s"
    by (rule ras.nested) (use assms in simp_all)
  have "ras_ok ?s" using ras.pops [of "fold ras_push xs s" n] ras.pushes [OF assms(1,2)] by simp
  moreover have "rev (take (length xs - n) xs) = xs ! (length xs - n - 1) # rev (take (length xs - n - 1) xs)"
  proof -
    have "take (Suc (length xs - n - 1)) xs = take (length xs - n - 1) xs @ [xs ! (length xs - n - 1)]"
      using assms(3) by (intro take_Suc_conv_app_nth) simp
    then show ?thesis using assms(3) by (simp add: Suc_diff_Suc)
  qed
  ultimately show ?thesis using l ras_top_spec [of ?s] by simp
qed

theorem ras_matches_nesting_witness:
  "ras_list ((ras_pop ^^ 1) (fold ras_push [0x14, 0x28] (new_ras 4))) = rev (take (length [0x14 :: addr_t, 0x28] - 1) [0x14, 0x28]) @ ras_list (new_ras 4) \<and>
   ras_top ((ras_pop ^^ 1) (fold ras_push [0x14, 0x28] (new_ras 4))) = [0x14, 0x28] ! (length [0x14 :: addr_t, 0x28] - 1 - 1)"
  by (rule ras_matches_nesting) (use new_ras_ok [of 4] in simp_all)

section \<open>The unit\<close>

text \<open>
  judge calls a prediction accurate exactly when the fetch went where the branch went: not
  redirected for a branch not taken, redirected to the real target for a taken one. The miss
  counters stay a partition: each misprediction is counted once, under one of the three causes.
\<close>

lemma judge_exact:
  assumes "judge real_taken real_target r u = (u', accurate)"
  shows "(accurate \<longleftrightarrow> (if real_taken then will_redirect r \<and> pred_target r = real_target else \<not> will_redirect r)) \<and>
    bs_misses (bu_stats u') = bs_misses (bu_stats u) + (if accurate then 0 else 1) \<and>
    bs_no_target (bu_stats u') + bs_bad_target (bu_stats u') + bs_bad_pred (bu_stats u') + bs_misses (bu_stats u)
      = bs_no_target (bu_stats u) + bs_bad_target (bu_stats u) + bs_bad_pred (bu_stats u) + bs_misses (bu_stats u')"
  using assms by (auto simp: judge_def Let_def split: if_splits)

lemma judge_exact_witness:
  "\<exists>u' accurate. judge True 0x80 no_prediction demo_unit = (u', accurate) \<and>
    (accurate \<longleftrightarrow> (if True then will_redirect no_prediction \<and> pred_target no_prediction = 0x80 else \<not> will_redirect no_prediction))"
proof -
  obtain u' accurate where j: "judge True 0x80 no_prediction demo_unit = (u', accurate)" by fastforce
  show ?thesis using j judge_exact [OF j] by blast
qed

text \<open>
  (C29) A branch unit built from any of the predictors never aborts: every prediction returns,
  every update with the state that prediction carried returns, and the unit stays well formed.
\<close>

theorem branch_unit_total:
  assumes "unit_ok u"
  shows "\<exists>u1 r u2. unit_predict pc u = Some (u1, r) \<and> unit_update pc taken tgt call ret hit r mis u1 = Some u2 \<and> unit_ok u2 \<and>
    (will_redirect r \<longleftrightarrow> pred_taken r \<and> pred_target r \<noteq> 0)"
proof -
  obtain u1 r where p: "unit_predict pc u = Some (u1, r)" "unit_ok u1" "bht_cnt r \<le> 3"
      "will_redirect r = (pred_taken r \<and> pred_target r \<noteq> 0)"
    using unit_predict_ex [OF assms, of pc] by blast
  with unit_update_ex [OF p(2,3), of pc taken tgt call ret hit mis] show ?thesis by blast
qed

theorem branch_unit_total_witness:
  "\<exists>u1 r u2. unit_predict 0x40 demo_unit = Some (u1, r) \<and> unit_update 0x40 True 0x80 True False False r True u1 = Some u2 \<and>
    unit_ok u2 \<and> (will_redirect r \<longleftrightarrow> pred_taken r \<and> pred_target r \<noteq> 0)"
  by (rule branch_unit_total [OF demo_unit_ok])

end
