(* ===== verification/Config.thy ===== *)
theory Config
  imports BranchUnit ReplPolicy Prefetch
begin

text \<open>
  The command line of src/main.cc and the debug flags of src/defines/debug.hh: the settings
  with their defaults, the parsers of sizes and numbers, the switch over the options that
  getopt\_long found, and the construction of the branch unit. An exception the program
  does not catch is a value of its own; std::stoul and std::stoi are written out.
\<close>

section \<open>Numbers\<close>

datatype parse_exn = InvalidArgument | OutOfRange

definition is_space :: "char \<Rightarrow> bool" where
  "is_space c \<longleftrightarrow> (let n = of_char c :: nat in n = 32 \<or> 9 \<le> n \<and> n \<le> 13)"

definition is_digit :: "char \<Rightarrow> bool" where
  "is_digit c \<longleftrightarrow> (let n = of_char c :: nat in 48 \<le> n \<and> n \<le> 57)"

definition digit_val :: "char \<Rightarrow> nat" where
  "digit_val c = of_char c - 48"

definition digits_val :: "string \<Rightarrow> nat" where
  "digits_val ds = foldl (\<lambda>v c. 10 * v + digit_val c) 0 ds"

text \<open>What strtol and strtoul read: blanks, a sign, the digits; the rest is ignored.\<close>

definition read_number :: "string \<Rightarrow> (bool \<times> nat) option" where
  "read_number s =
     (let s1 = dropWhile is_space s;
          neg = (s1 \<noteq> [] \<and> hd s1 = CHR ''-'');
          s2 = (if s1 \<noteq> [] \<and> (hd s1 = CHR ''-'' \<or> hd s1 = CHR ''+'') then tl s1 else s1);
          ds = takeWhile is_digit s2
      in if ds = [] then None else Some (neg, digits_val ds))"

definition stoul :: "string \<Rightarrow> parse_exn + nat" where
  "stoul s =
     (case read_number s of
        None \<Rightarrow> Inl InvalidArgument
      | Some (neg, v) \<Rightarrow>
          (if v \<ge> 2 ^ 64 then Inl OutOfRange
           else Inr (if neg then (2 ^ 64 - v) mod 2 ^ 64 else v)))"

definition stoi :: "string \<Rightarrow> parse_exn + int" where
  "stoi s =
     (case read_number s of
        None \<Rightarrow> Inl InvalidArgument
      | Some (neg, v) \<Rightarrow>
          (let i = (if neg then - int v else int v)
           in if i < - (2 ^ 31) \<or> i \<ge> 2 ^ 31 then Inl OutOfRange else Inr i))"

definition bind_exn :: "parse_exn + 'a \<Rightarrow> ('a \<Rightarrow> parse_exn + 'b) \<Rightarrow> parse_exn + 'b" where
  "bind_exn x f = (case x of Inl e \<Rightarrow> Inl e | Inr a \<Rightarrow> f a)"

lemma bind_exn_simps [simp]: "bind_exn (Inl e) f = Inl e" "bind_exn (Inr a) f = f a"
  by (simp_all add: bind_exn_def)

definition ends_with :: "string \<Rightarrow> string \<Rightarrow> bool" where
  "ends_with s suf \<longleftrightarrow> length suf \<le> length s \<and> drop (length s - length suf) s = suf"

definition parse_size :: "string \<Rightarrow> parse_exn + nat" where
  "parse_size s =
     (let (mult, num) =
        (if ends_with s ''kB'' \<or> ends_with s ''KB'' then (1024, take (length s - 2) s)
         else if ends_with s ''MB'' then (1024 * 1024, take (length s - 2) s)
         else if ends_with s ''B'' then (1, take (length s - 1) s)
         else (1, s))
      in bind_exn (stoul num) (\<lambda>n. Inr (n * mult mod 2 ^ 64)))"

fun countr_zero :: "nat \<Rightarrow> nat" where
  "countr_zero n = (if n = 0 then 64 else if odd n then 0 else 1 + countr_zero (n div 2))"

declare countr_zero.simps [simp del]

definition parse_entries_pow2 :: "string \<Rightarrow> parse_exn + nat" where
  "parse_entries_pow2 s =
     bind_exn (stoul s) (\<lambda>n.
       if n = 0 then Inr 0
       else if n AND (n - 1) \<noteq> 0 then Inl InvalidArgument
       else Inr (countr_zero n))"

text \<open>The comma-separated history lengths of TAGE.\<close>

function parse_hists :: "string \<Rightarrow> parse_exn + int list" where
  "parse_hists s =
     (if s = [] then Inr []
      else (let seg = takeWhile (\<lambda>c. c \<noteq> CHR '','') s
            in bind_exn (stoi seg) (\<lambda>v.
                 bind_exn (parse_hists (drop (length seg + 1) s)) (\<lambda>vs. Inr (v # vs)))))"
  by pat_completeness auto

termination
  by (relation "measure length") auto

declare parse_hists.simps [simp del]

section \<open>Debug flags\<close>

definition flag_bits :: "string \<Rightarrow> 64 word" where
  "flag_bits seg =
     (if seg = ''Cache'' then push_bit 1 1 else if seg = ''BranchPred'' then push_bit 2 1
      else if seg = ''Pipeline'' then push_bit 3 1 else if seg = ''IFQueue'' then push_bit 4 1
      else if seg = ''LDQueue'' then push_bit 5 1 else if seg = ''STQueue'' then push_bit 6 1
      else if seg = ''LSUnit'' then push_bit 5 1 OR push_bit 6 1
      else if seg = ''Mem'' then push_bit 7 1 else if seg = ''Main'' then push_bit 0 1
      else if seg = ''Clock'' then push_bit 62 1 else if seg = ''Event'' then push_bit 63 1
      else if seg = ''All'' then NOT 0 else 0)"

text \<open>getline yields no segment after a final comma.\<close>

function segments :: "string \<Rightarrow> string list" where
  "segments s =
     (if s = [] then []
      else (let seg = takeWhile (\<lambda>c. c \<noteq> CHR '','') s
            in seg # segments (drop (length seg + 1) s)))"
  by pat_completeness auto

termination
  by (relation "measure length") auto

declare segments.simps [simp del]

definition set_flags :: "string \<Rightarrow> 64 word \<Rightarrow> 64 word" where
  "set_flags s enabled = foldl (\<lambda>w seg. w OR flag_bits seg) enabled (segments s)"

section \<open>Settings\<close>

record sim_config =
  sram_lat :: nat
  trace_file :: string
  l1i_size :: nat
  l1i_blksize :: nat
  l1i_assoc :: nat
  l1d_size :: nat
  l1d_blksize :: nat
  l1d_assoc :: nat
  max_insts :: nat
  max_ticks :: nat
  out_dir :: string
  dry_run :: bool
  bpu_type :: string
  bpu_entries_pow2 :: nat
  btb_size_pow2 :: nat
  ras_depth :: nat
  ghr_bits :: nat
  tage_comp_pow2 :: int
  tage_hists :: string
  print_mode :: nat
  stbuf_entries :: nat
  cfg_mmio_lat :: nat
  freq_mhz :: int
  l1i_pref_type :: string
  l1d_pref_type :: string
  l1i_repl :: string
  l1d_repl :: string
  cfg_sram_dff :: bool
  l1i_cwf :: bool
  enabled_flags :: "64 word"

definition default_config :: sim_config where
  "default_config =
     \<lparr>sram_lat = 1, trace_file = [], l1i_size = 1024, l1i_blksize = 16, l1i_assoc = 1,
      l1d_size = 0, l1d_blksize = 16, l1d_assoc = 1, max_insts = 2 ^ 64 - 1, max_ticks = 2 ^ 64 - 1,
      out_dir = [], dry_run = False, bpu_type = [], bpu_entries_pow2 = 4, btb_size_pow2 = 4,
      ras_depth = 0, ghr_bits = 0, tage_comp_pow2 = 7, tage_hists = ''2,4,8,16,32,64'',
      print_mode = 2, stbuf_entries = 0, cfg_mmio_lat = 3, freq_mhz = 1000,
      l1i_pref_type = ''none'', l1d_pref_type = ''none'', l1i_repl = ''plru'', l1d_repl = ''plru'',
      cfg_sram_dff = True, l1i_cwf = False, enabled_flags = 0\<rparr>"

datatype arg_result = Parsed sim_config | Exit nat | Uncaught parse_exn

definition keep_or_throw :: "parse_exn + 'a \<Rightarrow> ('a \<Rightarrow> sim_config) \<Rightarrow> arg_result" where
  "keep_or_throw x f = (case x of Inl e \<Rightarrow> Uncaught e | Inr a \<Rightarrow> Parsed (f a))"

text \<open>The two table sizes catch std::invalid\_argument and nothing else.\<close>

definition keep_or_exit :: "parse_exn + 'a \<Rightarrow> ('a \<Rightarrow> sim_config) \<Rightarrow> arg_result" where
  "keep_or_exit x f =
     (case x of Inl InvalidArgument \<Rightarrow> Exit 1 | Inl OutOfRange \<Rightarrow> Uncaught OutOfRange | Inr a \<Rightarrow> Parsed (f a))"

definition known_repl :: "string \<Rightarrow> bool" where
  "known_repl s \<longleftrightarrow> s = ''plru'' \<or> s = ''lru'' \<or> s = ''srrip'' \<or> s = ''rr''"

text \<open>
  One turn of the option loop. An option is the value getopt\_long returns: the code of a
  character or one of the numbers from 200 on.
\<close>

definition ch :: "char \<Rightarrow> nat" where
  "ch c = of_char c"

definition apply_opt :: "nat \<Rightarrow> string \<Rightarrow> sim_config \<Rightarrow> arg_result" where
  "apply_opt opt arg c =
     (if opt = ch CHR ''s'' then keep_or_throw (parse_size arg) (\<lambda>v. c\<lparr>l1i_size := v\<rparr>)
      else if opt = ch CHR ''b'' then keep_or_throw (parse_size arg) (\<lambda>v. c\<lparr>l1i_blksize := v\<rparr>)
      else if opt = ch CHR ''a'' then keep_or_throw (parse_size arg) (\<lambda>v. c\<lparr>l1i_assoc := v\<rparr>)
      else if opt = ch CHR ''S'' then keep_or_throw (parse_size arg) (\<lambda>v. c\<lparr>l1d_size := v\<rparr>)
      else if opt = ch CHR ''B'' then keep_or_throw (parse_size arg) (\<lambda>v. c\<lparr>l1d_blksize := v\<rparr>)
      else if opt = ch CHR ''A'' then keep_or_throw (parse_size arg) (\<lambda>v. c\<lparr>l1d_assoc := v\<rparr>)
      else if opt = ch CHR ''n'' then keep_or_throw (stoul arg) (\<lambda>v. c\<lparr>max_insts := v\<rparr>)
      else if opt = ch CHR ''N'' then keep_or_throw (stoul arg) (\<lambda>v. c\<lparr>max_ticks := v\<rparr>)
      else if opt = ch CHR ''d'' then Parsed (c\<lparr>enabled_flags := set_flags arg (enabled_flags c)\<rparr>)
      else if opt = ch CHR ''O'' then Parsed (c\<lparr>out_dir := arg\<rparr>)
      else if opt = ch CHR ''D'' then Parsed (c\<lparr>dry_run := True\<rparr>)
      else if opt = ch CHR ''T'' then Parsed (c\<lparr>bpu_type := arg\<rparr>)
      else if opt = ch CHR ''e'' then keep_or_exit (parse_entries_pow2 arg) (\<lambda>v. c\<lparr>bpu_entries_pow2 := v\<rparr>)
      else if opt = ch CHR ''t'' then keep_or_exit (parse_entries_pow2 arg) (\<lambda>v. c\<lparr>btb_size_pow2 := v\<rparr>)
      else if opt = ch CHR ''R'' then keep_or_throw (stoul arg) (\<lambda>v. c\<lparr>ras_depth := v\<rparr>)
      else if opt = ch CHR ''Z'' then keep_or_throw (stoul arg) (\<lambda>v. c\<lparr>stbuf_entries := v\<rparr>)
      else if opt = ch CHR ''P'' then Parsed (c\<lparr>l1i_pref_type := arg\<rparr>)
      else if opt = 215 then (if known_repl arg then Parsed (c\<lparr>l1i_repl := arg\<rparr>) else Exit 1)
      else if opt = ch CHR ''p'' then Parsed (c\<lparr>l1d_pref_type := arg\<rparr>)
      else if opt = 216 then (if known_repl arg then Parsed (c\<lparr>l1d_repl := arg\<rparr>) else Exit 1)
      else if opt = 201 then Parsed (c\<lparr>print_mode := 1\<rparr>)
      else if opt = 200 then Parsed (c\<lparr>print_mode := 0\<rparr>)
      else if opt = 203 then keep_or_throw (stoul arg) (\<lambda>v. c\<lparr>sram_lat := v mod 2 ^ 32\<rparr>)
      else if opt = 204 then Parsed (c\<lparr>cfg_sram_dff := True\<rparr>)
      else if opt = 205 then Parsed (c\<lparr>cfg_sram_dff := False\<rparr>)
      else if opt = 206 then keep_or_throw (stoul arg) (\<lambda>v. c\<lparr>cfg_mmio_lat := v\<rparr>)
      else if opt = 207 then keep_or_throw (stoi arg) (\<lambda>v. c\<lparr>freq_mhz := v\<rparr>)
      else if opt = 211 then Parsed (c\<lparr>l1i_cwf := True\<rparr>)
      else if opt = 212 then keep_or_throw (stoul arg) (\<lambda>v. c\<lparr>ghr_bits := v\<rparr>)
      else if opt = 213 then Parsed (c\<lparr>tage_hists := arg\<rparr>)
      else if opt = 214 then keep_or_throw (stoi arg) (\<lambda>v. c\<lparr>tage_comp_pow2 := v\<rparr>)
      else Exit 1)"

text \<open>The options in the order getopt\_long reports them, and the first operand.\<close>

fun parse_args :: "(nat \<times> string) list \<Rightarrow> string option \<Rightarrow> sim_config \<Rightarrow> arg_result" where
  "parse_args [] operand c =
     (case operand of
        Some f \<Rightarrow> Parsed (c\<lparr>trace_file := f\<rparr>)
      | None \<Rightarrow> (if dry_run c then Parsed c else Exit 1))"
| "parse_args ((opt, arg) # opts) operand c =
     (case apply_opt opt arg c of Parsed c' \<Rightarrow> parse_args opts operand c' | r \<Rightarrow> r)"

section \<open>The branch unit of a configuration\<close>

definition history_bits :: "sim_config \<Rightarrow> nat" where
  "history_bits c = (if ghr_bits c > 0 then ghr_bits c else 12)"

definition create_bpu_core :: "sim_config \<Rightarrow> bpred option" where
  "create_bpu_core c =
     (if bpu_type c = ''bimodal'' then Some (Bimodal (new_bimodal (bpu_entries_pow2 c) 1))
      else if bpu_type c = ''gshare'' then Some (GShare (new_gshare (bpu_entries_pow2 c) (history_bits c) 1))
      else if bpu_type c = ''tournament'' then Some (Tournament (new_tournament (bpu_entries_pow2 c) (history_bits c)))
      else if bpu_type c = ''tage'' then
        (case parse_hists (tage_hists c) of
           Inl e \<Rightarrow> None
         | Inr hs \<Rightarrow> map_option TagePred (new_tage (bpu_entries_pow2 c) (tage_comp_pow2 c) hs))
      else if bpu_type c = ''alwaystaken'' then Some (AlwaysTaken 0)
      else if bpu_type c = ''btfnt'' then Some (BTFNT 0)
      else if bpu_type c = ''none'' \<or> bpu_type c = [] then Some (NoBPU 0)
      else None)"

text \<open>AddrBits - btb\_entries\_pow2 - 2 is unsigned.\<close>

definition btb_tag_width :: "nat \<Rightarrow> nat" where
  "btb_tag_width pow2 = min (unat (32 - of_nat pow2 - 2 :: 64 word)) 16"

definition create_btb :: "sim_config \<Rightarrow> btb" where
  "create_btb c =
     (if btb_size_pow2 c = 0 then no_btb
      else Compressed (new_compressed_btb (btb_size_pow2 c) (btb_tag_width (btb_size_pow2 c)) (cfg_sram_dff c) 0))"

text \<open>Without a predictor the unit has neither a target buffer nor a return stack.\<close>

definition create_branch_unit :: "sim_config \<Rightarrow> (sim_config \<times> branch_unit) option" where
  "create_branch_unit c0 = do {
     let c = (if bpu_type c0 = ''none'' \<or> bpu_type c0 = [] then c0\<lparr>btb_size_pow2 := 0, ras_depth := 0\<rparr> else c0);
     p \<leftarrow> create_bpu_core c;
     Some (c, new_branch_unit p (create_btb c) (ras_depth c)) }"

lemma create_branch_unit_ok: "create_branch_unit c = Some (c', u) \<Longrightarrow> unit_ok u"
  by (auto simp: create_branch_unit_def create_bpu_core_def create_btb_def no_btb_def Let_def
      intro!: new_branch_unit_ok new_predictors_ok new_compressed_btb_ok new_tage_ok split: if_splits sum.splits)

end
