(* ===== verification/CacheMem.thy ===== *)
theory CacheMem
  imports PipeCacheProofs
begin

text \<open>
  The memory side of the pipelined cache: it has at most one read and one write outstanding,
  sends a refill only when no write-back is out, and every request it sends is one the arbiter
  accepts.
\<close>

fun mem_reqs :: "cache_event list \<Rightarrow> mem_trans list" where
  "mem_reqs [] = []"
| "mem_reqs (MemReq q # evs) = q # mem_reqs evs"
| "mem_reqs (_ # evs) = mem_reqs evs"

lemma mem_reqs_append [simp]: "mem_reqs (xs @ ys) = mem_reqs xs @ mem_reqs ys"
  by (induction xs rule: mem_reqs.induct) simp_all

section \<open>Steps that leave the memory side alone\<close>

definition evict_ok :: "pipe_cache \<Rightarrow> bool" where
  "evict_ok c \<longleftrightarrow> (pending_evict c \<longrightarrow> write_back c \<and> length (evict_data c) = lineBytes c div word_bytes)"

definition mem_same :: "pipe_cache \<Rightarrow> pipe_cache \<Rightarrow> bool" where
  "mem_same c c' \<longleftrightarrow> r_waiting c' = r_waiting c \<and> w_waiting c' = w_waiting c \<and> write_back c' = write_back c \<and>
     lineBytes c' = lineBytes c \<and> cache_id c' = cache_id c \<and> (evict_ok c \<longrightarrow> evict_ok c')"

lemma mem_same_trans: "mem_same a b \<Longrightarrow> mem_same b c \<Longrightarrow> mem_same a c"
  by (auto simp: mem_same_def)

lemma mem_same_more:
  "cache.more c' = cache.more c \<Longrightarrow> lineBytes c' = lineBytes c \<Longrightarrow> cache_id c' = cache_id c \<Longrightarrow>
   mem_same c c' \<and> pending_fill_req c' = pending_fill_req c"
  using more_fields [of c' c] by (simp add: mem_same_def evict_ok_def)

lemma mem_same_upd [simp]:
  "mem_same c c" "mem_same c (c\<lparr>blocked_until := n\<rparr>)" "mem_same c (c\<lparr>is_replay := b\<rparr>)" "mem_same c (put_line c p l)"
  "mem_same c (set_back e c)" "mem_same c (c\<lparr>prefetcher := x\<rparr>)" "mem_same c (c\<lparr>repl_policy := rp\<rparr>)"
  "mem_same c (c\<lparr>pipe := es\<rparr>)" "mem_same c (c\<lparr>is_shifted := b\<rparr>)" "mem_same c (c\<lparr>pending_fill_req := b\<rparr>)"
  "mem_same c (c\<lparr>pending_flush := b\<rparr>)" "mem_same c (c\<lparr>sched_hit_resp := m, sched_hit_time := n\<rparr>)"
  by (simp_all add: mem_same_def evict_ok_def put_line_def set_back_def)

lemma note_lag_more: "cache.more (note_lag si c) = cache.more c" "lineBytes (note_lag si c) = lineBytes c"
    "cache_id (note_lag si c) = cache_id c"
  by (simp_all add: note_lag_def)

lemma note_useful_more: "cache.more (note_useful p c) = cache.more c" "lineBytes (note_useful p c) = lineBytes c"
    "cache_id (note_useful p c) = cache_id c"
  by (simp_all add: note_useful_def put_line_def split: option.split)

lemma count_access_keeps: "cache.more (count_access h c) = cache.more c" "lineBytes (count_access h c) = lineBytes c"
    "cache_id (count_access h c) = cache_id c"
  by (simp_all add: count_access_def)

lemma put_line_more: "cache.more (put_line c p l) = cache.more c" "lineBytes (put_line c p l) = lineBytes c"
    "cache_id (put_line c p l) = cache_id c"
  by (simp_all add: put_line_def)

lemma access_more:
  assumes "access now a c = Some (c', p)"
  shows "cache.more c' = cache.more c \<and> lineBytes c' = lineBytes c \<and> cache_id c' = cache_id c"
proof -
  obtain i where "access_hit now (setIndexOf c a) i c = Some (c', p) \<or> access_miss (setIndexOf c a) c = Some (c', p)"
    using assms by (auto simp: access_def Let_def split: option.splits)
  then show ?thesis
    unfolding access_hit_def access_miss_def Let_def
    by (auto simp: note_lag_more note_useful_more count_access_keeps put_line_more)
qed

lemma those_length: "those xs = Some ys \<Longrightarrow> length ys = length xs"
  by (induction xs arbitrary: ys) (auto split: option.splits)

lemma save_evict_cases:
  assumes "save_evict_info a c = Some c'"
  shows "c' = c\<lparr>pending_evict := False\<rparr> \<or>
    (\<exists>it ws. write_back c \<and> those (map (\<lambda>i. atAligned it (i * word_bytes)) [0..<lineBytes c div word_bytes]) = Some ws \<and>
       c' = c\<lparr>pending_evict := True, evict_addr := cl_tag it, evict_data := ws\<rparr>)"
proof (cases "write_back c")
  case False
  then show ?thesis using assms by (simp add: save_evict_info_def)
next
  case True
  let ?c = "c\<lparr>pending_evict := False\<rparr>"
  obtain it where "(if cl_valid it \<and> cl_dirty it
      then do { ws \<leftarrow> those (map (\<lambda>i. atAligned it (i * word_bytes)) [0..<lineBytes c div word_bytes]);
                Some (c\<lparr>pending_evict := True, evict_addr := cl_tag it, evict_data := ws\<rparr>) }
      else Some ?c) = Some c'"
    using assms True unfolding save_evict_info_def Let_def
    by (auto simp del: at_eq_Some cong: if_cong)
  then show ?thesis using True by (cases "cl_valid it \<and> cl_dirty it") auto
qed

lemma save_evict_mem:
  assumes "save_evict_info a c = Some c'"
  shows "mem_same c c' \<and> pending_fill_req c' = pending_fill_req c"
  using save_evict_cases [OF assms] by (auto simp: mem_same_def evict_ok_def dest!: those_length)

lemma handle_hit_mem:
  assumes "handle_hit now bk p c = Some (c', evs)"
  shows "mem_same c c' \<and> pending_fill_req c' = pending_fill_req c \<and> mem_reqs evs = [] \<and> (\<forall>x. CpuAck x \<notin> set evs)"
  using assms
  by (auto simp: handle_hit_def respond_def Let_def mem_same_def evict_ok_def put_line_def split: if_splits)

lemma handle_prefetch_mem:
  assumes "handle_prefetch now a h c = Some (c', b)"
  shows "mem_same c c' \<and> pending_fill_req c' = pending_fill_req c"
  using assms
  by (auto simp: handle_prefetch_def Let_def mem_same_def evict_ok_def put_line_def split: option.splits if_splits prod.splits)

lemma lookup_back_mem:
  assumes "lookup_back now bk c = Some (c', p)"
  shows "mem_same c c' \<and> pending_fill_req c' = pending_fill_req c"
proof (cases "pe_line bk")
  case None
  then obtain c1 c2 where *: "save_evict_info (pe_addr bk) c = Some c1" "access now (pe_addr bk) c1 = Some (c2, p)"
      "c' = set_back (Some (bk\<lparr>pe_line := Some p\<rparr>)) c2"
    using assms by (auto simp: lookup_back_def)
  have "mem_same c1 c2 \<and> pending_fill_req c2 = pending_fill_req c1"
    using mem_same_more [of c2 c1] access_more [OF *(2)] by blast
  then show ?thesis
    using save_evict_mem [OF *(1)] mem_same_trans [of c c1 c2] mem_same_trans [OF _ mem_same_upd(5)] *(3)
    by (auto simp: set_back_def)
next
  case (Some q)
  then show ?thesis using assms by (simp add: lookup_back_def)
qed

lemma shift_pipe_mem:
  assumes "shift_pipe now c = Some (c', evs)"
  shows "mem_same c c' \<and> mem_reqs evs = [] \<and> (\<forall>x. CpuAck x \<in> set evs \<longrightarrow> ack_id x = cache_id c)"
proof -
  define c1 where "c1 = c\<lparr>pipe := shift_entries (pipe c)\<rparr>"
  have s1: "mem_same c c1" by (simp add: c1_def)
  consider (fin) "c' = c1\<lparr>is_shifted := True\<rparr>" "evs = [CpuAck (ack_msg (cache_id c1) Read), CpuAck (ack_msg (cache_id c1) Write)]"
    | (miss) bk c2 c3 p where "save_evict_info (pe_addr bk) c1 = Some c2" "access now (pe_addr bk) c2 = Some (c3, p)"
        "c' = (set_back (Some (bk\<lparr>pe_line := Some p\<rparr>)) c3)\<lparr>pending_fill_req := True, blocked_until := now + 1\<rparr>" "evs = []"
    using assms unfolding shift_pipe_def Let_def c1_def [symmetric] by (auto split: option.splits if_splits)
  then show ?thesis
  proof cases
    case fin
    then show ?thesis using mem_same_trans [OF s1 mem_same_upd(9) [of c1 True]] s1 by (auto simp: mem_same_def)
  next
    case miss
    have "mem_same c2 c3" using mem_same_more [of c3 c2] access_more [OF miss(2)] by blast
    then have "mem_same c c3" using mem_same_trans [OF s1 mem_same_trans [of c1 c2 c3]] save_evict_mem [OF miss(1)] by blast
    moreover have "mem_same c3 c'" by (simp add: miss(3) mem_same_def evict_ok_def set_back_def)
    ultimately show ?thesis using mem_same_trans miss(4) by auto
  qed
qed

section \<open>What a cycle sends\<close>

definition mem_ok :: "pipe_cache \<Rightarrow> bool" where
  "mem_ok c \<longleftrightarrow> evict_ok c \<and> (w_waiting c \<longrightarrow> pending_fill_req c) \<and> lineBytes c < 2 ^ 18"

definition req_ok :: "nat \<Rightarrow> mem_trans \<Rightarrow> bool" where
  "req_ok i q \<longleftrightarrow> mt_id q = i \<and> 1 \<le> mt_bst_len q \<and> mt_lat q = 0"

definition mem_sent :: "pipe_cache \<Rightarrow> cache_event list \<Rightarrow> pipe_cache \<Rightarrow> bool" where
  "mem_sent c evs c' \<longleftrightarrow> cache_id c' = cache_id c \<and> (\<forall>x. CpuAck x \<in> set evs \<longrightarrow> ack_id x = cache_id c) \<and>
     (mem_reqs evs = [] \<and> r_waiting c' = r_waiting c \<and> w_waiting c' = w_waiting c \<or>
      (\<exists>q bk. mem_reqs evs = [q] \<and> req_ok (cache_id c) q \<and> mt_mop q = Read \<and> \<not> r_waiting c \<and> r_waiting c' \<and>
        w_waiting c' = w_waiting c \<and> last (pipe c') = Some bk \<and> mt_addr q = pe_addr bk) \<or>
      (\<exists>q. mem_reqs evs = [q] \<and> req_ok (cache_id c) q \<and> mt_mop q = Write \<and> write_back c \<and> r_waiting c' = r_waiting c \<and>
        \<not> w_waiting c \<and> w_waiting c'))"

lemma line_words:
  assumes "geometry_ok c" "2 \<le> offsetBits c" "lineBytes c < 2 ^ 18"
  shows "1 \<le> lineBytes c div word_bytes mod 2 ^ 16"
proof -
  have "(2 :: nat) ^ 2 \<le> 2 ^ offsetBits c" using assms(2) by (rule power_increasing) simp
  then have "4 \<le> lineBytes c" using assms(1) by (simp add: geometry_ok_def)
  moreover have "lineBytes c div 4 < 2 ^ 16" using assms(3) by simp
  ultimately show ?thesis by (simp add: word_bytes_def)
qed

lemma serve_miss_mem:
  assumes m: "serve_miss now bk c = (c', evs)" and ok: "mem_ok c" and g: "geometry_ok c" "2 \<le> offsetBits c"
    and r: "\<not> r_waiting c" and b: "last (pipe c) = Some bk'" "pe_addr bk' = pe_addr bk"
  shows "mem_ok c' \<and> mem_sent c evs c'"
proof -
  have w: "1 \<le> lineBytes c div word_bytes mod 2 ^ 16" using line_words [OF g] ok by (simp add: mem_ok_def)
  have e: "pending_evict c \<Longrightarrow> write_back c \<and> length (evict_data c) = lineBytes c div word_bytes"
    using ok by (simp add: mem_ok_def evict_ok_def)
  consider "\<not> pending_fill_req c" | "pending_fill_req c" "pending_evict c" "w_waiting c"
    | "pending_fill_req c" "pending_evict c" "\<not> w_waiting c" | "pending_fill_req c" "\<not> pending_evict c" "w_waiting c"
    | "pending_fill_req c" "\<not> pending_evict c" "\<not> w_waiting c" by blast
  then show ?thesis
  proof cases
    case 3
    have q: "req_ok (cache_id c) (mem_req Write (evict_addr c) (cache_id c) (length (evict_data c) mod 2 ^ 16) (evict_data c) [])"
      using e [OF 3(2)] w by (simp add: req_ok_def)
    show ?thesis using m ok 3 e [OF 3(2)] q by (auto simp: serve_miss_def mem_ok_def evict_ok_def mem_sent_def)
  next
    case 5
    have q: "req_ok (cache_id c) (mem_req Read (pe_addr bk) (cache_id c) ((lineBytes c div word_bytes) mod 2 ^ 16) [] [])"
      using w by (simp add: req_ok_def)
    show ?thesis using m ok 5 q r b by (auto simp: serve_miss_def mem_ok_def evict_ok_def mem_sent_def)
  qed (use m ok in \<open>auto simp: serve_miss_def mem_ok_def evict_ok_def mem_sent_def\<close>)
qed

text \<open>The last stage: it either answers or works on its miss.\<close>

lemma phase_no_write:
  assumes "pcache_inv c" "mem_ok c" "case last (pipe c) of None \<Rightarrow> True | Some bk \<Rightarrow> (case pe_line bk of None \<Rightarrow> True | Some p \<Rightarrow> cl_valid (line_at c p))"
  shows "\<not> w_waiting c"
  using pcache_invD(5) [OF assms(1)] assms(2,3)
  by (auto simp: mem_ok_def phase_ok_def idle_def line_phase_def split: option.splits if_splits)

lemma lookup_back_geom:
  assumes c: "pcache_inv c" and bk: "last (pipe c) = Some bk" and l: "lookup_back now bk c = Some (c', p)"
  shows "geometry_ok c' \<and> 2 \<le> offsetBits c' \<and> (\<exists>bk'. last (pipe c') = Some bk' \<and> pe_addr bk' = pe_addr bk)"
proof (cases "pe_line bk")
  case (Some q)
  then show ?thesis using l bk pcache_invD(1,2) [OF c] by (simp add: lookup_back_def cache_ok_def)
next
  case None
  note d = pcache_invD [OF c]
  obtain c1 c2 q where k: "save_evict_info (pe_addr bk) c = Some c1" "access now (pe_addr bk) c1 = Some (c2, q)" "cache_ok c2"
      "same_geom c c2" "pipe c2 = pipe c"
    using lookup_line [OF d(1,2), of "pe_addr bk" now] by blast
  have c': "c' = set_back (Some (bk\<lparr>pe_line := Some q\<rparr>)) c2" using None l k(1,2) by (auto simp: lookup_back_def)
  have b: "same_base c2 c'" by (simp add: c')
  have "pipe c' = butlast (pipe c) @ [Some (bk\<lparr>pe_line := Some q\<rparr>)]"
    using pipe_back [of c2] d(3) k(5) by (simp add: c')
  then show ?thesis
    using same_base_ok(1) [OF b] same_baseD(11) [OF b] k(3,4) d(2) by (simp add: cache_ok_def same_geom_def)
qed

lemma mem_ok_same: "mem_same c c' \<Longrightarrow> mem_ok c \<Longrightarrow> w_waiting c \<longrightarrow> pending_fill_req c' \<Longrightarrow> mem_ok c'"
  by (auto simp: mem_ok_def mem_same_def)

lemma serve_target_mem:
  assumes c: "pcache_inv c" and ok: "mem_ok c" and r: "\<not> r_waiting c" and s: "serve_target now c = Some (stop, c', evs)"
  shows "mem_ok c' \<and> mem_sent c evs c' \<and> (\<not> stop \<longrightarrow> mem_same c c' \<and> mem_reqs evs = [] \<and> \<not> w_waiting c)"
proof (cases "last (pipe c)")
  case None
  then show ?thesis
    using s ok pcache_invD(3) [OF c] phase_no_write [OF c ok] by (auto simp: serve_target_def mem_sent_def)
next
  case (Some bk)
  obtain c1 p where l: "lookup_back now bk c = Some (c1, p)"
    using s Some by (auto simp: serve_target_def)
  define c2 where "c2 = c1\<lparr>is_replay := False\<rparr>"
  have m1: "mem_same c c1" "pending_fill_req c1 = pending_fill_req c" using lookup_back_mem [OF l] by simp_all
  have m2: "mem_same c c2" "pending_fill_req c2 = pending_fill_req c"
    using mem_same_trans [OF m1(1), of c2] m1(2) by (simp_all add: c2_def)
  have b2: "same_base c1 c2" by (simp add: c2_def)
  show ?thesis
  proof (cases "cl_valid (line_at c1 p)")
    case True
    then obtain c3 c4 b where h: "handle_hit now bk p c2 = Some (c3, evs)"
        "(if pe_mop bk = Read \<and> \<not> r_waiting c3 then handle_prefetch now (pe_addr bk) (\<not> is_replay c1) c3 else Some (c3, False)) = Some (c4, b)"
        "c' = set_back None c4" "\<not> stop"
      using s Some l same_baseD(1) [OF b2] unfolding serve_target_def Let_def
      by (auto simp: c2_def [symmetric] simp del: if_split)
    have m3: "mem_same c2 c3" "mem_reqs evs = []" "\<forall>x. CpuAck x \<notin> set evs" using handle_hit_mem [OF h(1)] by simp_all
    have m4: "mem_same c3 c4" using h(2) handle_prefetch_mem [of now "pe_addr bk" "\<not> is_replay c1" c3 c4 b] by (auto split: if_splits)
    have m: "mem_same c c'"
      using mem_same_trans [OF m2(1) mem_same_trans [OF m3(1) mem_same_trans [OF m4 mem_same_upd(5)]]] by (simp add: h(3))
    have w: "\<not> w_waiting c"
      using True l Some by (intro phase_no_write [OF c ok]) (auto simp: lookup_back_def split: option.splits)
    then show ?thesis using m m3(2,3) mem_ok_same [OF m ok] by (auto simp: mem_sent_def mem_same_def)
  next
    case False
    have sm: "serve_miss now bk c2 = (c', evs)" and st: stop
      using s Some l False same_baseD(1) [OF b2] unfolding serve_target_def Let_def
      by (auto simp: c2_def [symmetric] split: prod.splits)
    have g: "geometry_ok c2" "2 \<le> offsetBits c2" "\<exists>bk'. last (pipe c2) = Some bk' \<and> pe_addr bk' = pe_addr bk"
      using lookup_back_geom [OF c Some l] same_base_ok(1) [OF b2] same_baseD(11) [OF b2] by (auto simp: c2_def)
    have ok2: "mem_ok c2" using mem_ok_same [OF m2(1) ok] m2(2) ok by (simp add: mem_ok_def)
    have "\<not> r_waiting c2" using r m2(1) by (simp add: mem_same_def)
    then have "mem_ok c' \<and> mem_sent c2 evs c'" using serve_miss_mem [OF sm ok2 g(1,2)] g(3) by blast
    then show ?thesis using st m2(1) by (auto simp: mem_sent_def mem_same_def)
  qed
qed

lemma pc_update_mem:
  assumes c: "pcache_inv c" and ok: "mem_ok c" and n: "now < InfTime" and u: "pc_do_update now c = Some (c', evs)"
  shows "mem_ok c' \<and> mem_sent c evs c'"
proof (cases "pc_next_update c \<le> now")
  case False
  then show ?thesis using u ok by (auto simp: pc_do_update_def mem_sent_def)
next
  case True
  have r: "\<not> r_waiting c"
  proof
    assume w: "r_waiting c"
    then have "\<not> pending_fill_req c"
      using pcache_invD(5) [OF c] by (auto simp: phase_ok_def idle_def line_phase_def split: option.splits if_splits)
    then show False using True w n pcache_invD(7) [OF c] by (simp add: pc_next_update_def)
  qed
  have ds: "deliver_sched now c = (c, [])" using pcache_invD(7) [OF c] n by (simp add: deliver_sched_def)
  have im: "pc_update_impl now c = Some (c', evs)" using u True by (simp add: pc_do_update_def)
  obtain stop c1 e1 where s: "serve_target now c = Some (stop, c1, e1)" "served c stop c1 e1"
    using serve_target_ok [OF c r] by blast
  have s1: "mem_ok c1" "mem_sent c e1 c1" "\<not> stop \<longrightarrow> mem_same c c1 \<and> mem_reqs e1 = [] \<and> \<not> w_waiting c"
    using serve_target_mem [OF c ok r s(1)] by simp_all
  consider (stop) stop | (flush) "\<not> stop" "pending_flush c1" "\<forall>e\<in>set (pipe c1). e = None"
    | (shift) "\<not> stop" "\<not> (pending_flush c1 \<and> (\<forall>e\<in>set (pipe c1). e = None))" by blast
  then show ?thesis
  proof cases
    case stop
    then show ?thesis using im ds s(1) s1 by (simp add: pc_update_impl_def)
  next
    case flush
    then have e: "c' = handle_flush now c1" "evs = e1" using im ds s(1) by (simp_all add: pc_update_impl_def)
    show ?thesis
      using s1 flush(1) r by (auto simp: e handle_flush_def mem_ok_def evict_ok_def mem_sent_def mem_same_def)
  next
    case shift
    then obtain e2 where sh: "shift_pipe now c1 = Some (c', e2)" "evs = e1 @ e2"
      using im ds s(1) by (cases "shift_pipe now c1") (auto simp: pc_update_impl_def simp del: all_simps split: if_splits)
    note m = shift_pipe_mem [OF sh(1)]
    have "mem_ok c'" using mem_ok_same [of c1 c'] m s1 shift(1) by (simp add: mem_same_def)
    moreover have "mem_sent c evs c'" using m s1 shift(1) by (auto simp: sh(2) mem_sent_def mem_same_def)
    ultimately show ?thesis by simp
  qed
qed

section \<open>The other entry points\<close>

lemma enter_pipe_mem:
  assumes "enter_pipe now e c = Some c'" "pcache_inv c" "mem_ok c"
  shows "mem_ok c' \<and> cache_id c' = cache_id c \<and> r_waiting c' = r_waiting c \<and> w_waiting c' = w_waiting c \<and>
    (r_waiting c \<longrightarrow> last (pipe c') = last (pipe c))"
proof -
  have s: "is_shifted c" "c' = c\<lparr>pipe := (pipe c)[0 := Some e], blocked_until := now + 1, is_shifted := False\<rparr>"
    using assms(1) by (auto simp: enter_pipe_def)
  obtain es where es: "pipe c = None # es" using pcache_invD(3,6) [OF assms(2)] s(1) by (cases "pipe c") auto
  have "r_waiting c \<longrightarrow> es \<noteq> []" using pcache_invD(5) [OF assms(2)] es by (auto simp: phase_ok_def idle_def)
  then show ?thesis using assms(3) es by (auto simp: s(2) mem_ok_def evict_ok_def)
qed

lemma handle_fill_more:
  assumes "handle_fill now p a ret c = Some c'"
  shows "cache.more c' = cache.more c \<and> lineBytes c' = lineBytes c \<and> cache_id c' = cache_id c"
  using assms by (auto simp: handle_fill_def Let_def put_line_def)

lemma recv_mem:
  assumes "pc_recv_mem_resp now t c = Some c'" "mem_ok c" "pcache_inv c"
  shows "mem_ok c' \<and> cache_id c' = cache_id c \<and>
    (if mt_mop t = Read then \<not> r_waiting c' \<and> w_waiting c' = w_waiting c
     else r_waiting c' = r_waiting c \<and> \<not> w_waiting c' \<and> pipe c' = pipe c)"
proof (cases "mt_mop t")
  case Read
  then obtain p c1 where f: "r_waiting c" "handle_fill now p (mt_addr t) (mt_data t) (c\<lparr>r_waiting := False\<rparr>) = Some c1"
      "c' = c1\<lparr>blocked_until := now + (if cwf c then 1 else if write_back c then 2 else 1)\<rparr>"
    using assms(1) by (auto simp: pc_recv_mem_resp_def)
  have "\<not> pending_fill_req c"
    using f(1) pcache_invD(5) [OF assms(3)] by (auto simp: phase_ok_def idle_def line_phase_def split: option.splits if_splits)
  then have "\<not> w_waiting c" using assms(2) by (auto simp: mem_ok_def)
  note k = handle_fill_more [OF f(2)]
  then have "mem_same (c\<lparr>r_waiting := False\<rparr>) c1" using mem_same_more [of c1 "c\<lparr>r_waiting := False\<rparr>"] by simp
  then show ?thesis
    using Read assms(2) \<open>\<not> w_waiting c\<close> by (auto simp: f(3) mem_ok_def mem_same_def evict_ok_def)
next
  case Write
  then show ?thesis using assms(1,2) by (auto simp: pc_recv_mem_resp_def Let_def mem_ok_def evict_ok_def split: if_splits)
qed

end
