(* ===== verification/Trace.thy ===== *)
theory Trace
  imports Prelude
begin

text \<open>
  src/trace.hh and src/trace.cc: the packed trace record, the reader that takes one
  record at a time from the byte stream of the decompressor, and the sanitizer's
  counters. The one-byte flags is\_branch and br\_taken are only tested against zero and
  are booleans here; the other one-byte fields are natural numbers.
\<close>

section \<open>Operation codes\<close>

definition MemNone :: nat where "MemNone = 0"
definition MemLoad :: nat where "MemLoad = 1"
definition MemStore :: nat where "MemStore = 2"

definition SysNone :: nat where "SysNone = 0"
definition SysResetStats :: nat where "SysResetStats = 1"
definition SysDumpStats :: nat where "SysDumpStats = 2"
definition SysFenceI :: nat where "SysFenceI = 3"

definition ExtNone :: nat where "ExtNone = 0"
definition IntMulL :: nat where "IntMulL = 1"
definition IntMulH :: nat where "IntMulH = 2"
definition IntDiv :: nat where "IntDiv = 3"
definition IntRem :: nat where "IntRem = 4"

lemmas op_codes = MemNone_def MemLoad_def MemStore_def SysNone_def SysResetStats_def
  SysDumpStats_def SysFenceI_def ExtNone_def IntMulL_def IntMulH_def IntDiv_def IntRem_def

section \<open>Trace records\<close>

record trace_inst =
  ti_pc :: addr_t
  ti_mem_addr :: addr_t
  ti_mem_op :: nat
  ti_is_branch :: bool
  ti_br_taken :: bool
  ti_dst_reg :: nat
  ti_src0 :: nat
  ti_src1 :: nat
  ti_sys_op :: nat
  ti_ext_op :: nat

text \<open>Inst with all fields zero, the start of a wrong-path placeholder.\<close>

definition inst_zero :: trace_inst where
  "inst_zero = \<lparr>ti_pc = 0, ti_mem_addr = 0, ti_mem_op = 0, ti_is_branch = False, ti_br_taken = False,
     ti_dst_reg = 0, ti_src0 = 0, ti_src1 = 0, ti_sys_op = 0, ti_ext_op = 0\<rparr>"

definition le_word :: "8 word list \<Rightarrow> 32 word" where
  "le_word bs = foldr (\<lambda>b w. ucast b OR push_bit 8 w) bs 0"

definition decode_inst :: "8 word list \<Rightarrow> trace_inst" where
  "decode_inst bs =
     \<lparr>ti_pc = le_word (take 4 bs), ti_mem_addr = le_word (take 4 (drop 4 bs)),
      ti_mem_op = unat (bs ! 8), ti_is_branch = (bs ! 9 \<noteq> 0), ti_br_taken = (bs ! 10 \<noteq> 0),
      ti_dst_reg = unat (bs ! 11), ti_src0 = unat (bs ! 12), ti_src1 = unat (bs ! 13),
      ti_sys_op = unat (bs ! 14), ti_ext_op = unat (bs ! 15)\<rparr>"

text \<open>fread of one record: nothing is returned when fewer than 16 bytes are left.\<close>

definition inst_bytes :: nat where
  "inst_bytes = 16"

definition next_inst :: "8 word list \<Rightarrow> (trace_inst \<times> 8 word list) option" where
  "next_inst bs =
     (if length bs < inst_bytes then None
      else Some (decode_inst (take inst_bytes bs), drop inst_bytes bs))"

text \<open>The layout the comments of the struct give, as an encoder.\<close>

definition word_le :: "32 word \<Rightarrow> 8 word list" where
  "word_le w = map (\<lambda>i. ucast (drop_bit (8 * i) w)) [0..<4]"

definition encode_inst :: "trace_inst \<Rightarrow> 8 word list" where
  "encode_inst t = word_le (ti_pc t) @ word_le (ti_mem_addr t) @
     [of_nat (ti_mem_op t), (if ti_is_branch t then 1 else 0), (if ti_br_taken t then 1 else 0),
      of_nat (ti_dst_reg t), of_nat (ti_src0 t), of_nat (ti_src1 t),
      of_nat (ti_sys_op t), of_nat (ti_ext_op t)]"

definition byte_fields :: "trace_inst \<Rightarrow> bool" where
  "byte_fields t \<longleftrightarrow> ti_mem_op t < 256 \<and> ti_dst_reg t < 256 \<and> ti_src0 t < 256 \<and> ti_src1 t < 256 \<and>
     ti_sys_op t < 256 \<and> ti_ext_op t < 256"

text \<open>What the core relies on: 32 registers, and no branch in the M-extension.\<close>

definition inst_ok :: "trace_inst \<Rightarrow> bool" where
  "inst_ok t \<longleftrightarrow> ti_dst_reg t < 32 \<and> ti_src0 t < 32 \<and> ti_src1 t < 32 \<and>
     (ti_is_branch t \<longrightarrow> ti_ext_op t = ExtNone \<and> ti_mem_op t = MemNone) \<and> ti_ext_op t \<le> IntRem"

lemma inst_ok_zero [simp]: "inst_ok (inst_zero\<lparr>ti_pc := a\<rparr>)"
  by (simp add: inst_ok_def inst_zero_def op_codes)

lemma length_word_le [simp]: "length (word_le w) = 4"
  by (simp add: word_le_def)

lemma le_word_le: "le_word (word_le w) = w"
proof (rule bit_word_eqI)
  fix n
  assume n: "n < LENGTH(32)"
  have "word_le w = [ucast w, ucast (drop_bit 8 w), ucast (drop_bit 16 w), ucast (drop_bit 24 w)]"
    by (simp add: word_le_def upt_rec)
  then have "bit (le_word (word_le w)) n =
      (n < 8 \<and> bit w n \<or> 8 \<le> n \<and> n - 8 < 8 \<and> bit w n \<or> 16 \<le> n \<and> n - 16 < 8 \<and> bit w n \<or>
       24 \<le> n \<and> n - 24 < 8 \<and> bit w n)"
    using n by (auto simp: le_word_def bit_simps dest: bit_imp_le_length)
  then show "bit (le_word (word_le w)) n = bit w n"
    using n by auto
qed

lemma unat_byte: "n < 256 \<Longrightarrow> unat (of_nat n :: 8 word) = n"
  by (simp add: unat_of_nat)

lemma length_encode_inst [simp]: "length (encode_inst t) = inst_bytes"
  by (simp add: encode_inst_def inst_bytes_def)

lemma decode_encode_inst: "byte_fields t \<Longrightarrow> decode_inst (encode_inst t) = t"
  by (simp add: decode_inst_def encode_inst_def nth_append le_word_le byte_fields_def unat_byte)

section \<open>TraceSanitizer\<close>

record sanitizer =
  san_total :: nat
  san_loads :: nat
  san_stores :: nat
  san_branches :: nat
  san_br_taken :: nat
  san_br_not_taken :: nat
  san_alu :: nat
  san_has_dst :: nat
  san_has_src1 :: nat
  san_has_src2 :: nat
  san_sys_ops :: nat
  san_m_ext_ops :: nat
  san_no_target :: nat

definition san_zero :: sanitizer where
  "san_zero = \<lparr>san_total = 0, san_loads = 0, san_stores = 0, san_branches = 0, san_br_taken = 0,
     san_br_not_taken = 0, san_alu = 0, san_has_dst = 0, san_has_src1 = 0, san_has_src2 = 0,
     san_sys_ops = 0, san_m_ext_ops = 0, san_no_target = 0\<rparr>"

definition count_if :: "bool \<Rightarrow> nat \<Rightarrow> nat" where
  "count_if b n = (if b then n + 1 else n)"

definition record_inst :: "trace_inst \<Rightarrow> sanitizer \<Rightarrow> sanitizer" where
  "record_inst t s =
     \<lparr>san_total = san_total s + 1,
      san_loads = count_if (ti_mem_op t = MemLoad) (san_loads s),
      san_stores = count_if (ti_mem_op t \<noteq> MemLoad \<and> ti_mem_op t = MemStore) (san_stores s),
      san_branches = count_if (ti_is_branch t) (san_branches s),
      san_br_taken = count_if (ti_is_branch t \<and> ti_br_taken t) (san_br_taken s),
      san_br_not_taken = count_if (ti_is_branch t \<and> \<not> ti_br_taken t) (san_br_not_taken s),
      san_alu = count_if (ti_mem_op t = MemNone \<and> \<not> ti_is_branch t) (san_alu s),
      san_has_dst = count_if (ti_dst_reg t \<noteq> 0) (san_has_dst s),
      san_has_src1 = count_if (ti_src0 t \<noteq> 0) (san_has_src1 s),
      san_has_src2 = count_if (ti_src1 t \<noteq> 0) (san_has_src2 s),
      san_sys_ops = count_if (ti_sys_op t \<noteq> SysNone) (san_sys_ops s),
      san_m_ext_ops = count_if (ti_ext_op t \<noteq> ExtNone) (san_m_ext_ops s),
      san_no_target = count_if (ti_is_branch t \<and> ti_br_taken t \<and> ti_mem_addr t = 0) (san_no_target s)\<rparr>"

definition san_reset :: "sanitizer \<Rightarrow> sanitizer" where
  "san_reset s = san_zero"

end
