(* ===== verification/Ifq.thy ===== *)
theory Ifq
  imports Prelude
begin

text \<open>
  IFQRingBuf of src/pipeSim/Pipeline.hh: the fixed-capacity ring buffer of the fetch
  queue. A slot is an owning pointer, an option here. The locale states what the
  pipeline needs of a bounded queue, over the list it stands for.
\<close>

section \<open>Operations\<close>

record 'a ring =
  rb_buf :: "'a option list"
  rb_cap :: nat
  rb_head :: nat
  rb_tail :: nat
  rb_cnt :: nat

definition new_ring :: "nat \<Rightarrow> 'a ring" where
  "new_ring n = \<lparr>rb_buf = replicate n None, rb_cap = n, rb_head = 0, rb_tail = 0, rb_cnt = 0\<rparr>"

definition rb_empty :: "'a ring \<Rightarrow> bool" where
  "rb_empty r \<longleftrightarrow> rb_cnt r = 0"

definition rb_full :: "'a ring \<Rightarrow> bool" where
  "rb_full r \<longleftrightarrow> rb_cnt r \<ge> rb_cap r"

definition rb_slot :: "'a ring \<Rightarrow> nat \<Rightarrow> nat" where
  "rb_slot r i = (rb_head r + i) mod rb_cap r"

definition rb_push_back :: "'a \<Rightarrow> 'a ring \<Rightarrow> 'a ring option" where
  "rb_push_back x r = do {
     assert_that (\<not> rb_full r);
     Some (r\<lparr>rb_buf := (rb_buf r)[rb_tail r := Some x],
             rb_tail := (rb_tail r + 1) mod rb_cap r, rb_cnt := rb_cnt r + 1\<rparr>) }"

text \<open>front, dereferenced; the pipeline never looks at an empty slot.\<close>

definition rb_front :: "'a ring \<Rightarrow> 'a option" where
  "rb_front r = do { assert_that (\<not> rb_empty r); rb_buf r ! rb_head r }"

definition rb_pop_front :: "'a ring \<Rightarrow> 'a ring option" where
  "rb_pop_front r = do {
     assert_that (\<not> rb_empty r);
     Some (r\<lparr>rb_buf := (rb_buf r)[rb_head r := None],
             rb_head := (rb_head r + 1) mod rb_cap r, rb_cnt := rb_cnt r - 1\<rparr>) }"

text \<open>Access by position, 0 the front; and assignment through that reference.\<close>

definition rb_at :: "'a ring \<Rightarrow> nat \<Rightarrow> 'a option" where
  "rb_at r i = rb_buf r ! rb_slot r i"

definition rb_put :: "nat \<Rightarrow> 'a \<Rightarrow> 'a ring \<Rightarrow> 'a ring" where
  "rb_put i x r = r\<lparr>rb_buf := (rb_buf r)[rb_slot r i := Some x]\<rparr>"

definition rb_clear :: "'a ring \<Rightarrow> 'a ring" where
  "rb_clear r =
     r\<lparr>rb_buf := fold (\<lambda>i b. b[rb_slot r i := None]) [0..<rb_cnt r] (rb_buf r),
       rb_head := 0, rb_tail := 0, rb_cnt := 0\<rparr>"

text \<open>The entries in queue order; find\_if\_ptr returns the position of the first match.\<close>

definition rb_entries :: "'a ring \<Rightarrow> 'a option list" where
  "rb_entries r = map (rb_at r) [0..<rb_cnt r]"

definition rb_find_if :: "('a option \<Rightarrow> bool) \<Rightarrow> 'a ring \<Rightarrow> nat option" where
  "rb_find_if pr r = List.find (\<lambda>i. pr (rb_at r i)) [0..<rb_cnt r]"

section \<open>Invariant and abstraction\<close>

definition ring_ok :: "'a ring \<Rightarrow> bool" where
  "ring_ok r \<longleftrightarrow> 0 < rb_cap r \<and> length (rb_buf r) = rb_cap r \<and> rb_head r < rb_cap r \<and>
     rb_cnt r \<le> rb_cap r \<and> rb_tail r = rb_slot r (rb_cnt r) \<and>
     (\<forall>i<rb_cnt r. rb_at r i \<noteq> None) \<and> (\<forall>i<rb_cap r. rb_cnt r \<le> i \<longrightarrow> rb_at r i = None)"

definition rb_list :: "'a ring \<Rightarrow> 'a list" where
  "rb_list r = map (\<lambda>i. the (rb_at r i)) [0..<rb_cnt r]"

lemma length_rb_list [simp]: "length (rb_list r) = rb_cnt r"
  by (simp add: rb_list_def)

lemma nth_rb_list [simp]: "i < rb_cnt r \<Longrightarrow> rb_list r ! i = the (rb_at r i)"
  by (simp add: rb_list_def)

lemma mod_inj_window:
  "((h::nat) + i) mod c = (h + j) mod c \<Longrightarrow> i < c \<Longrightarrow> j < c \<Longrightarrow> i = j"
proof (induction i j rule: linorder_wlog)
  case (le a b)
  then have "c dvd (h + b) - (h + a)"
    by (metis mod_eq_dvd_iff_nat nat_add_left_cancel_le)
  then have "c dvd b - a" by simp
  then show ?case
    using le by (metis diff_diff_cancel diff_is_0_eq' diff_le_self dual_order.strict_trans2 dvd_imp_le linorder_not_le neq0_conv order.asym)
next
  case (sym a b)
  then show ?case by simp
qed

lemma rb_slot_inj: "i < rb_cap r \<Longrightarrow> j < rb_cap r \<Longrightarrow> rb_slot r i = rb_slot r j \<longleftrightarrow> i = j"
  unfolding rb_slot_def using mod_inj_window by blast

lemma rb_slot_less: "0 < rb_cap r \<Longrightarrow> rb_slot r i < rb_cap r"
  by (simp add: rb_slot_def)

lemma rb_slot_0: "ring_ok r \<Longrightarrow> rb_slot r 0 = rb_head r"
  by (simp add: rb_slot_def ring_ok_def)


lemma ring_at: "ring_ok r \<Longrightarrow> i < rb_cnt r \<Longrightarrow> rb_at r i = Some (rb_list r ! i)"
  by (auto simp: ring_ok_def)

lemma rb_at_upd:
  assumes "ring_ok r" "j < rb_cap r" "k = rb_slot r j" "i < rb_cap r"
    "rb_cap r' = rb_cap r" "rb_head r' = rb_head r" "rb_buf r' = (rb_buf r)[k := x]"
  shows "rb_at r' i = (if i = j then x else rb_at r i)"
proof -
  have "rb_slot r' i = rb_slot r i" "rb_slot r i < length (rb_buf r)"
    using assms by (simp_all add: rb_slot_def ring_ok_def)
  then show ?thesis
    using assms rb_slot_inj [of i r j] by (simp add: rb_at_def nth_list_update eq_commute)
qed

lemma new_ring_ok: "0 < n \<Longrightarrow> ring_ok (new_ring n)"
  by (simp add: ring_ok_def new_ring_def rb_slot_def rb_at_def)

lemma new_ring_list: "rb_list (new_ring n) = []"
  by (simp add: rb_list_def new_ring_def)

lemma rb_empty_list: "rb_empty r \<longleftrightarrow> rb_list r = []"
  by (auto simp: rb_empty_def rb_list_def)

lemma rb_full_list: "rb_full r \<longleftrightarrow> rb_cap r \<le> length (rb_list r)"
  by (simp add: rb_full_def)

lemma rb_push_back_spec:
  assumes r: "ring_ok r" and n: "\<not> rb_full r"
  shows "\<exists>r'. rb_push_back x r = Some r' \<and> ring_ok r' \<and> rb_list r' = rb_list r @ [x] \<and>
    rb_cap r' = rb_cap r"
proof -
  let ?r = "r\<lparr>rb_buf := (rb_buf r)[rb_tail r := Some x], rb_tail := (rb_tail r + 1) mod rb_cap r,
              rb_cnt := rb_cnt r + 1\<rparr>"
  have lt: "rb_cnt r < rb_cap r"
    using n by (simp add: rb_full_def)
  have at: "rb_at ?r i = (if i = rb_cnt r then Some x else rb_at r i)" if "i < rb_cap r" for i
    using r lt that by (intro rb_at_upd) (auto simp: ring_ok_def)
  have "rb_tail ?r = rb_slot ?r (rb_cnt ?r)"
    using r by (simp add: ring_ok_def rb_slot_def mod_Suc_eq)
  then have "ring_ok ?r"
    using r lt at by (auto simp: ring_ok_def less_Suc_eq)
  moreover have "rb_list ?r = rb_list r @ [x]"
    using lt at by (intro nth_equalityI) (auto simp: nth_append less_Suc_eq)
  ultimately show ?thesis
    using n by (simp add: rb_push_back_def)
qed

lemma rb_front_spec: "ring_ok r \<Longrightarrow> rb_list r \<noteq> [] \<Longrightarrow> rb_front r = Some (hd (rb_list r))"
  using ring_at [of r 0] rb_slot_0 [of r]
  by (simp add: rb_front_def rb_empty_list rb_at_def [of r 0] hd_conv_nth flip: length_greater_0_conv
      del: nth_rb_list)

lemma rb_pop_front_spec:
  assumes r: "ring_ok r" and n: "rb_list r \<noteq> []"
  shows "\<exists>r'. rb_pop_front r = Some r' \<and> ring_ok r' \<and> rb_list r' = tl (rb_list r) \<and>
    rb_cap r' = rb_cap r"
proof -
  let ?c = "rb_cap r"
  let ?r = "r\<lparr>rb_buf := (rb_buf r)[rb_head r := None], rb_head := (rb_head r + 1) mod ?c,
              rb_cnt := rb_cnt r - 1\<rparr>"
  let ?m = "r\<lparr>rb_buf := (rb_buf r)[rb_head r := None]\<rparr>"
  have pos: "0 < rb_cnt r" and c: "0 < ?c" "rb_cnt r \<le> ?c"
    using n r by (auto simp: ring_ok_def rb_list_def)
  have m: "rb_at ?m i = (if i = 0 then None else rb_at r i)" if "i < ?c" for i
    using r that c by (intro rb_at_upd) (auto simp: rb_slot_0)
  have slot: "rb_slot ?r i = rb_slot r (Suc i)" for i
    by (simp add: rb_slot_def mod_simps)
  have at_slot: "rb_at ?r i = (rb_buf r)[rb_head r := None] ! rb_slot r (Suc i)" for i
    unfolding rb_at_def [of ?r] slot by simp
  have at: "rb_at ?r i = (if Suc i < ?c then rb_at r (Suc i) else None)" if "i < ?c" for i
  proof (cases "Suc i < ?c")
    case True
    have "rb_at ?r i = rb_at ?m (Suc i)"
      by (subst at_slot) (simp add: rb_at_def rb_slot_def)
    then show ?thesis using m [OF True] True by simp
  next
    case False
    then have "Suc i = ?c" using that by simp
    then have "rb_slot r (Suc i) = rb_head r"
      using r by (simp add: rb_slot_def ring_ok_def)
    then show ?thesis using False r by (subst at_slot) (simp add: ring_ok_def)
  qed
  have "rb_tail ?r = rb_slot ?r (rb_cnt ?r)"
    using r pos slot [of "rb_cnt r - 1"] by (simp add: ring_ok_def)
  then have "ring_ok ?r"
    using r pos c at by (auto simp: ring_ok_def)
  moreover have "rb_list ?r = tl (rb_list r)"
    using pos c at by (intro nth_equalityI) (auto simp: nth_tl)
  ultimately show ?thesis
    using pos by (simp add: rb_pop_front_def rb_empty_def)
qed

lemma rb_put_spec:
  assumes r: "ring_ok r" and i: "i < rb_cnt r"
  shows "ring_ok (rb_put i x r) \<and> rb_list (rb_put i x r) = (rb_list r)[i := x] \<and>
    rb_cap (rb_put i x r) = rb_cap r"
proof -
  let ?r = "rb_put i x r"
  have c: "rb_cnt r \<le> rb_cap r" using r by (simp add: ring_ok_def)
  have at: "rb_at ?r j = (if j = i then Some x else rb_at r j)" if "j < rb_cap r" for j
    using r i c that by (intro rb_at_upd) (auto simp: rb_put_def)
  have "ring_ok ?r"
    using r at i c by (auto simp: ring_ok_def rb_slot_def rb_put_def)
  moreover have "rb_list ?r = (rb_list r)[i := x]"
    using at c by (intro nth_equalityI) (auto simp: nth_list_update rb_put_def)
  ultimately show ?thesis by (simp add: rb_put_def)
qed

lemma fold_clear:
  "length (fold (\<lambda>i b. b[f i := None]) is b) = length b"
  "k < length b \<Longrightarrow> fold (\<lambda>i b. b[f i := None]) is b ! k = (if k \<in> f ` set is then None else b ! k)"
  by (induction "is" arbitrary: b) (auto simp: nth_list_update)

lemma rb_clear_spec:
  assumes r: "ring_ok r"
  shows "ring_ok (rb_clear r) \<and> rb_list (rb_clear r) = [] \<and> rb_cap (rb_clear r) = rb_cap r"
proof -
  let ?c = "rb_cap r" and ?b = "rb_buf (rb_clear r)"
  have c: "0 < ?c" "length (rb_buf r) = ?c" "rb_head r < ?c"
    using r by (auto simp: ring_ok_def)
  have "?b ! k = None" if k: "k < ?c" for k
  proof -
    define i where "i = (k + ?c - rb_head r) mod ?c"
    have i: "i < ?c" "rb_slot r i = k"
      using k c by (auto simp: i_def rb_slot_def mod_simps)
    show ?thesis
    proof (cases "i < rb_cnt r")
      case True
      then have "k \<in> rb_slot r ` set [0..<rb_cnt r]"
        using i by auto
      then show ?thesis
        using k c by (simp add: rb_clear_def fold_clear)
    next
      case False
      then have "rb_buf r ! k = None"
        using r i by (auto simp: ring_ok_def rb_at_def)
      then show ?thesis
        using k c by (simp add: rb_clear_def fold_clear)
    qed
  qed
  then show ?thesis
    using c by (simp add: ring_ok_def rb_clear_def rb_list_def rb_slot_def rb_at_def fold_clear)
qed

lemma rb_entries_list: "ring_ok r \<Longrightarrow> rb_entries r = map Some (rb_list r)"
  by (auto simp: rb_entries_def rb_list_def ring_ok_def)

lemma find_cong: "(\<And>x. x \<in> set xs \<Longrightarrow> p x = q x) \<Longrightarrow> List.find p xs = List.find q xs"
  by (induction xs) auto

lemma find_map_Suc:
  "List.find (\<lambda>i. q ((x # xs) ! i)) (map Suc is) = map_option Suc (List.find (\<lambda>i. q (xs ! i)) is)"
  by (induction "is") auto

lemma find_upt_nth: "List.find (\<lambda>i. q (xs ! i)) [0..<length xs] = first_idx q xs"
proof (induction xs)
  case (Cons x xs)
  have "[0..<length (x # xs)] = 0 # map Suc [0..<length xs]"
    by (simp add: upt_conv_Cons map_Suc_upt del: upt_Suc)
  then have "List.find (\<lambda>i. q ((x # xs) ! i)) [0..<length (x # xs)] =
      (if q x then Some 0 else map_option Suc (List.find (\<lambda>i. q (xs ! i)) [0..<length xs]))"
    by (simp only: find_map_Suc List.find.simps nth_Cons_0)
  then show ?case
    by (simp only: Cons.IH first_idx.simps)
qed simp

lemma rb_find_if_spec: "ring_ok r \<Longrightarrow> rb_find_if pr r = first_idx (pr \<circ> Some) (rb_list r)"
proof -
  assume r: "ring_ok r"
  have "rb_find_if pr r = List.find (\<lambda>i. (pr \<circ> Some) (rb_list r ! i)) [0..<length (rb_list r)]"
    using r by (auto simp: rb_find_if_def ring_at simp del: nth_rb_list intro!: find_cong)
  then show ?thesis by (simp only: find_upt_nth)
qed

section \<open>The bounded-queue contract\<close>

text \<open>
  A queue of at most cap elements: the client sees the list it stands for and may push
  unless it is full and pop unless it is empty.
\<close>

locale bounded_queue =
  fixes ok :: "'q \<Rightarrow> bool" and entries :: "'q \<Rightarrow> 'a list" and capacity :: "'q \<Rightarrow> nat"
    and push :: "'a \<Rightarrow> 'q \<Rightarrow> 'q option" and pop :: "'q \<Rightarrow> 'q option" and front :: "'q \<Rightarrow> 'a option"
    and clear :: "'q \<Rightarrow> 'q"
  assumes push_ok: "ok q \<Longrightarrow> length (entries q) < capacity q \<Longrightarrow>
      \<exists>q'. push x q = Some q' \<and> ok q' \<and> entries q' = entries q @ [x] \<and> capacity q' = capacity q"
    and push_full: "ok q \<Longrightarrow> length (entries q) = capacity q \<Longrightarrow> push x q = None"
    and pop_ok: "ok q \<Longrightarrow> entries q \<noteq> [] \<Longrightarrow>
      \<exists>q'. pop q = Some q' \<and> ok q' \<and> entries q' = tl (entries q) \<and> capacity q' = capacity q"
    and pop_empty: "ok q \<Longrightarrow> entries q = [] \<Longrightarrow> pop q = None"
    and front_ok: "ok q \<Longrightarrow> entries q \<noteq> [] \<Longrightarrow> front q = Some (hd (entries q))"
    and clear_ok: "ok q \<Longrightarrow> ok (clear q) \<and> entries (clear q) = [] \<and> capacity (clear q) = capacity q"
    and bounded: "ok q \<Longrightarrow> length (entries q) \<le> capacity q"
begin

lemma push_defined: "ok q \<Longrightarrow> push x q \<noteq> None \<longleftrightarrow> length (entries q) < capacity q"
proof -
  assume q: "ok q"
  show ?thesis
  proof (cases "length (entries q) < capacity q")
    case True
    then show ?thesis using push_ok [OF q, of x] by blast
  next
    case False
    then show ?thesis using push_full [OF q, of x] bounded [OF q] by simp
  qed
qed

lemma pop_defined: "ok q \<Longrightarrow> pop q \<noteq> None \<longleftrightarrow> entries q \<noteq> []"
proof -
  assume q: "ok q"
  show ?thesis
  proof (cases "entries q = []")
    case True
    then show ?thesis using pop_empty [OF q] by simp
  next
    case False
    then obtain q' where "pop q = Some q'" using pop_ok [OF q] by blast
    then show ?thesis using False by simp
  qed
qed

lemma pushE:
  assumes "push x q = Some q'" "ok q"
  shows "ok q'" "entries q' = entries q @ [x]" "capacity q' = capacity q" "length (entries q) < capacity q"
proof -
  have "length (entries q) < capacity q"
    using assms push_defined [of q x] by simp
  then show "ok q'" "entries q' = entries q @ [x]" "capacity q' = capacity q" "length (entries q) < capacity q"
    using assms push_ok [of q x] by auto
qed

lemma popE:
  assumes "pop q = Some q'" "ok q"
  shows "ok q'" "entries q' = tl (entries q)" "capacity q' = capacity q" "entries q \<noteq> []"
proof -
  have "entries q \<noteq> []"
    using assms pop_defined [of q] by simp
  then show "ok q'" "entries q' = tl (entries q)" "capacity q' = capacity q" "entries q \<noteq> []"
    using assms pop_ok [of q] by auto
qed

text \<open>First in, first out: what is pushed on a queue comes out behind what was there.\<close>

lemma fifo:
  "ok q \<Longrightarrow> length (entries q) < capacity q \<Longrightarrow>
   \<exists>q' q''. push x q = Some q' \<and> pop q' = Some q'' \<and> entries q'' = tl (entries q @ [x]) \<and>
     front q' = Some (hd (entries q @ [x]))"
proof -
  assume q: "ok q" "length (entries q) < capacity q"
  then obtain q' where q': "push x q = Some q'" "ok q'" "entries q' = entries q @ [x]"
    using push_ok by blast
  then obtain q'' where "pop q' = Some q''" "entries q'' = tl (entries q')"
    using pop_ok [of q'] by auto
  then show ?thesis using q' front_ok [of q'] by simp
qed

end

interpretation ifq: bounded_queue ring_ok rb_list rb_cap rb_push_back rb_pop_front rb_front rb_clear
proof
  fix q :: "'a ring" and x
  assume q: "ring_ok q"
  show "length (rb_list q) \<le> rb_cap q"
    using q by (simp add: ring_ok_def)
  show "ring_ok (rb_clear q) \<and> rb_list (rb_clear q) = [] \<and> rb_cap (rb_clear q) = rb_cap q"
    using q by (rule rb_clear_spec)
  show "length (rb_list q) < rb_cap q \<Longrightarrow>
      \<exists>q'. rb_push_back x q = Some q' \<and> ring_ok q' \<and> rb_list q' = rb_list q @ [x] \<and> rb_cap q' = rb_cap q"
    using q rb_push_back_spec [of q x] by (simp add: rb_full_def)
  show "length (rb_list q) = rb_cap q \<Longrightarrow> rb_push_back x q = None"
    by (simp add: rb_push_back_def rb_full_def)
  show "rb_list q \<noteq> [] \<Longrightarrow>
      \<exists>q'. rb_pop_front q = Some q' \<and> ring_ok q' \<and> rb_list q' = tl (rb_list q) \<and> rb_cap q' = rb_cap q"
    using q rb_pop_front_spec by blast
  show "rb_list q = [] \<Longrightarrow> rb_pop_front q = None"
    by (simp add: rb_pop_front_def rb_empty_list)
  show "rb_list q \<noteq> [] \<Longrightarrow> rb_front q = Some (hd (rb_list q))"
    using q by (rule rb_front_spec)
qed

end
