(* ===== verification/Pipeline.thy ===== *)
theory Pipeline
  imports BranchUnit Trace Ifq
begin

text \<open>
  The five-stage in-order core of src/pipeSim/Pipeline.hh and Pipeline.cc. The arrays
  indexed by a stage are functions on the stages; the unique pointers are options. The
  calls a handler makes on the cache ports are appended to port\_reqs in the order they
  are made; what the handler reads from outside (the tick, is\_ready of the ports,
  whether a bypass port exists) is the argument penv. The branch unit the core points to
  is part of its record. The counter ongoing\_insts is a size\_t and wraps.
\<close>

section \<open>Types\<close>

datatype stall_cause = NoStall | NoInst | LsuStall | BrMispred | RAW

datatype pipe_stage = Fetch | Decode | Execute | IntMulExt | IntDivExt | Memory | WriteBack

record penv =
  now :: tick_t
  imem_ready :: bool
  dmem_ready :: "bool \<times> bool"
  nc_ready :: "(bool \<times> bool) option"

datatype lsu_port = DmemPort | NcPort

datatype port_req =
    ImemRead addr_t
  | LsuRead lsu_port addr_t
  | LsuWrite lsu_port addr_t word_t "8 word"

record transaction =
  tr_inst :: trace_inst
  tr_br_pred :: branch_result
  tr_br_mispred :: bool
  is_wrong_path :: bool
  wait_mem :: bool
  counted_inflight :: bool
  bp_meta_hold :: nat

definition new_transaction :: "trace_inst \<Rightarrow> bool \<Rightarrow> bool \<Rightarrow> transaction" where
  "new_transaction i wrong waits =
     \<lparr>tr_inst = i, tr_br_pred = no_prediction, tr_br_mispred = False, is_wrong_path = wrong,
      wait_mem = waits, counted_inflight = (\<not> wrong), bp_meta_hold = 0\<rparr>"

record pipe_stats =
  ps_insts :: nat
  ps_cycles :: nat
  ps_nostall :: nat
  ps_noinst :: nat
  ps_lsu_stall :: nat
  ps_brmiss_stall :: nat
  ps_raw_stall :: nat
  wp_bpu_queries :: nat
  wp_btb_hits :: nat
  wp_redirects :: nat
  early_redirects :: nat

definition pipe_stats_zero :: pipe_stats where
  "pipe_stats_zero = \<lparr>ps_insts = 0, ps_cycles = 0, ps_nostall = 0, ps_noinst = 0, ps_lsu_stall = 0,
     ps_brmiss_stall = 0, ps_raw_stall = 0, wp_bpu_queries = 0, wp_btb_hits = 0, wp_redirects = 0,
     early_redirects = 0\<rparr>"

text \<open>PipelineStats::reset\_stats leaves the wrong-path counters alone.\<close>

definition ps_reset :: "pipe_stats \<Rightarrow> pipe_stats" where
  "ps_reset s = s\<lparr>ps_insts := 0, ps_cycles := 0, ps_nostall := 0, ps_noinst := 0, ps_lsu_stall := 0,
     ps_brmiss_stall := 0, ps_raw_stall := 0\<rparr>"

record stall_attr =
  st_last_tick :: tick_t
  st_reset_tick :: tick_t
  st_cause :: stall_cause
  in_br_recovery :: bool

record fetch_state =
  wrong_path :: bool
  wp_flushed :: bool
  wrong_path_pc :: addr_t
  resume_tick :: tick_t
  resp_is_orphan :: "bool list"
  wp_redirect_s1 :: bool
  wp_redirect_target_s1 :: addr_t
  wp_redirect_s2 :: bool
  wp_redirect_target_s2 :: addr_t
  early_redir_remaining :: int
  early_redir_seq_pc :: addr_t

definition fetch_state_zero :: fetch_state where
  "fetch_state_zero = \<lparr>wrong_path = False, wp_flushed = False, wrong_path_pc = 0, resume_tick = 0,
     resp_is_orphan = [], wp_redirect_s1 = False, wp_redirect_target_s1 = 0,
     wp_redirect_s2 = False, wp_redirect_target_s2 = 0, early_redir_remaining = 0,
     early_redir_seq_pc = 0\<rparr>"

record pipeline =
  pstats :: pipe_stats
  bpu :: branch_unit
  is_draining :: bool
  input_buffer :: "transaction option"
  sim_pipe :: "pipe_stage \<Rightarrow> transaction option"
  reg_ready :: "tick_t list"
  stage_update :: "pipe_stage \<Rightarrow> tick_t"
  ongoing_insts :: "64 word"
  calc_nxtupd :: tick_t
  stall :: stall_attr
  fetch_queue :: "transaction ring"
  fetch_st :: fetch_state
  mmio_resp_tick :: tick_t
  mmio_lat :: tick_t
  mul_ready_tick :: tick_t
  div_ready_tick :: tick_t
  port_reqs :: "port_req list"

text \<open>calc\_nxtupd\_ has no initial value in the source: it is an argument.\<close>

definition new_pipeline :: "nat \<Rightarrow> branch_unit \<Rightarrow> tick_t \<Rightarrow> tick_t \<Rightarrow> pipeline" where
  "new_pipeline ifq_size u mmio_latency nxtupd =
     \<lparr>pstats = pipe_stats_zero, bpu = u, is_draining = False, input_buffer = None,
      sim_pipe = (\<lambda>_. None), reg_ready = replicate 32 0, stage_update = (\<lambda>_. 0),
      ongoing_insts = 0, calc_nxtupd = nxtupd,
      stall = \<lparr>st_last_tick = 0, st_reset_tick = 0, st_cause = NoInst, in_br_recovery = False\<rparr>,
      fetch_queue = new_ring ifq_size, fetch_st = fetch_state_zero, mmio_resp_tick = InfTime,
      mmio_lat = mmio_latency, mul_ready_tick = 0, div_ready_tick = 0, port_reqs = []\<rparr>"

section \<open>Small helpers\<close>

definition is_cacheable_addr :: "addr_t \<Rightarrow> bool" where
  "is_cacheable_addr a =
     (let top = unat (drop_bit 28 a AND 0xf)
      in top = 3 \<or> top = 8 \<or> top = 9 \<or> top = 10 \<or> top = 11)"

definition put_slot :: "pipe_stage \<Rightarrow> transaction option \<Rightarrow> pipeline \<Rightarrow> pipeline" where
  "put_slot s t p = p\<lparr>sim_pipe := (sim_pipe p)(s := t)\<rparr>"

text \<open>std::move of one slot into another.\<close>

definition move_slot :: "pipe_stage \<Rightarrow> pipe_stage \<Rightarrow> pipeline \<Rightarrow> pipeline" where
  "move_slot src dst p = p\<lparr>sim_pipe := (sim_pipe p)(dst := sim_pipe p src, src := None)\<rparr>"

definition schedule :: "penv \<Rightarrow> pipe_stage \<Rightarrow> tick_t \<Rightarrow> pipeline \<Rightarrow> pipeline option" where
  "schedule e s t p = do {
     assert_that (t \<ge> now e);
     Some (p\<lparr>stage_update := (stage_update p)(s := t)\<rparr>) }"

definition async_schedule :: "penv \<Rightarrow> pipe_stage \<Rightarrow> tick_t \<Rightarrow> pipeline \<Rightarrow> pipeline option" where
  "async_schedule e s t p = do {
     p1 \<leftarrow> schedule e s t p;
     Some (p1\<lparr>calc_nxtupd := min (calc_nxtupd p1) t\<rparr>) }"

definition all_stages :: "pipe_stage list" where
  "all_stages = [Fetch, Decode, Execute, IntMulExt, IntDivExt, Memory, WriteBack]"

definition calc_sched :: "penv \<Rightarrow> pipeline \<Rightarrow> pipeline" where
  "calc_sched e p =
     (let m0 = fold (\<lambda>s m. if stage_update p s > now e then min m (stage_update p s) else m) all_stages InfTime;
          m1 = min m0 (mmio_resp_tick p);
          m2 = (if wrong_path (fetch_st p) then min m1 (now e + 1) else m1);
          m3 = (if early_redir_remaining (fetch_st p) > 0 then min m2 (now e + 1) else m2);
          m4 = (if resume_tick (fetch_st p) > now e then min m3 (now e + 1) else m3)
      in p\<lparr>calc_nxtupd := m4\<rparr>)"

fun prev_stage_valid :: "penv \<Rightarrow> pipeline \<Rightarrow> pipe_stage \<Rightarrow> bool" where
  "prev_stage_valid e p Fetch = True"
| "prev_stage_valid e p Decode = (sim_pipe p Fetch \<noteq> None)"
| "prev_stage_valid e p Execute = (sim_pipe p Decode \<noteq> None)"
| "prev_stage_valid e p IntMulExt = (sim_pipe p Decode \<noteq> None)"
| "prev_stage_valid e p IntDivExt = (sim_pipe p Decode \<noteq> None)"
| "prev_stage_valid e p Memory = (sim_pipe p Execute \<noteq> None)"
| "prev_stage_valid e p WriteBack =
     (sim_pipe p Memory \<noteq> None \<or>
      sim_pipe p IntMulExt \<noteq> None \<and> now e \<ge> mul_ready_tick p \<or>
      sim_pipe p IntDivExt \<noteq> None \<and> now e \<ge> div_ready_tick p)"

section \<open>Stall attribution\<close>

definition charge :: "stall_cause \<Rightarrow> nat \<Rightarrow> pipe_stats \<Rightarrow> pipe_stats" where
  "charge c gap s =
     (case c of
        LsuStall \<Rightarrow> s\<lparr>ps_lsu_stall := ps_lsu_stall s + gap\<rparr>
      | RAW \<Rightarrow> s\<lparr>ps_raw_stall := ps_raw_stall s + gap\<rparr>
      | BrMispred \<Rightarrow> s\<lparr>ps_brmiss_stall := ps_brmiss_stall s + gap\<rparr>
      | _ \<Rightarrow> s\<lparr>ps_noinst := ps_noinst s + gap\<rparr>)"

definition flush_stall_cycles :: "tick_t \<Rightarrow> pipeline \<Rightarrow> pipeline" where
  "flush_stall_cycles until p =
     (if until \<le> st_last_tick (stall p) then p
      else
        (let gap = until - st_last_tick (stall p);
             c = (if in_br_recovery (stall p) \<and> st_cause (stall p) \<noteq> NoStall then BrMispred
                  else st_cause (stall p))
         in p\<lparr>pstats := charge c gap (pstats p), stall := (stall p)\<lparr>st_last_tick := until\<rparr>\<rparr>))"

definition set_stall :: "penv \<Rightarrow> stall_cause \<Rightarrow> pipeline \<Rightarrow> pipeline" where
  "set_stall e c p =
     (let c' = (if in_br_recovery (stall p) \<and> c \<noteq> NoStall then BrMispred else c)
      in if c' = st_cause (stall p) then p
         else (let p1 = flush_stall_cycles (now e) p
               in p1\<lparr>stall := (stall p1)\<lparr>st_cause := c'\<rparr>\<rparr>))"

section \<open>Register availability\<close>

definition src_ready :: "pipeline \<Rightarrow> trace_inst \<Rightarrow> tick_t option" where
  "src_ready p i = do {
     a \<leftarrow> at (reg_ready p) (ti_src0 i);
     b \<leftarrow> at (reg_ready p) (ti_src1 i);
     Some (max a b) }"

definition set_reg_time :: "nat \<Rightarrow> tick_t \<Rightarrow> pipeline \<Rightarrow> pipeline option" where
  "set_reg_time rd t p =
     (if rd \<noteq> 0 then do { r \<leftarrow> at_put (reg_ready p) rd t; Some (p\<lparr>reg_ready := r\<rparr>) } else Some p)"

text \<open>Decode is woken when it waits without a tick of its own.\<close>

definition wake_decode :: "penv \<Rightarrow> pipeline \<Rightarrow> pipeline option" where
  "wake_decode e p =
     (case sim_pipe p Fetch of
        None \<Rightarrow> Some p
      | Some ids \<Rightarrow>
          (let i = tr_inst ids
           in if stage_update p Decode = InfTime \<and> (ti_src0 i \<noteq> 0 \<or> ti_src1 i \<noteq> 0)
              then do {
                t \<leftarrow> src_ready p i;
                schedule e Decode (if t \<le> now e then now e + 1 else t) p }
              else Some p))"

definition update_reg_time :: "penv \<Rightarrow> nat \<Rightarrow> tick_t \<Rightarrow> pipeline \<Rightarrow> pipeline option" where
  "update_reg_time e rd t p = do {
     p1 \<leftarrow> set_reg_time rd t p;
     p2 \<leftarrow> wake_decode e p1;
     r0 \<leftarrow> at (reg_ready p2) 0;
     assert_that (r0 = 0);
     Some p2 }"

section \<open>The flush of the front end\<close>

definition count_trans :: "transaction option \<Rightarrow> nat" where
  "count_trans t = (case t of Some x \<Rightarrow> (if counted_inflight x then 1 else 0) | None \<Rightarrow> 0)"

definition kBranchMissPenalty :: tick_t where
  "kBranchMissPenalty = 1"

definition flush_front :: "penv \<Rightarrow> pipeline \<Rightarrow> pipeline" where
  "flush_front e p =
     (let dropped = sum_list (map count_trans (rb_entries (fetch_queue p))) + count_trans (sim_pipe p Fetch);
          p1 = p\<lparr>ongoing_insts := ongoing_insts p - of_nat dropped,
                 fetch_queue := rb_clear (fetch_queue p),
                 sim_pipe := (sim_pipe p)(Fetch := None),
                 fetch_st := (fetch_st p)\<lparr>resp_is_orphan := map (\<lambda>_. True) (resp_is_orphan (fetch_st p)),
                   wp_flushed := True, wp_redirect_s1 := False, wp_redirect_s2 := False,
                   early_redir_remaining := 0, resume_tick := now e + kBranchMissPenalty\<rparr>\<rparr>;
          p2 = flush_stall_cycles (now e) p1
      in p2\<lparr>stall := (stall p2)\<lparr>in_br_recovery := True\<rparr>\<rparr>)"

definition flush_false_btb_hit :: "penv \<Rightarrow> transaction \<Rightarrow> pipeline \<Rightarrow> pipeline option" where
  "flush_false_btb_hit e t p =
     (let i = tr_inst t; had_btb_hit = (pred_target (tr_br_pred t) \<noteq> 0)
      in if ti_is_branch i then Some p
         else do {
           u1 \<leftarrow> (if had_btb_hit
                  then unit_update (ti_pc i) False 0 False False True (tr_br_pred t) (tr_br_mispred t) (bpu p)
                  else Some (bpu p));
           let p1 = p\<lparr>bpu := u1\<rparr>;
           if had_btb_hit \<and> \<not> tr_br_mispred t
           then do { u2 \<leftarrow> clear_btb_entry (ti_pc i) (bpu p1); Some (p1\<lparr>bpu := u2\<rparr>) }
           else if \<not> tr_br_mispred t then Some p1
           else do {
             u2 \<leftarrow> clear_btb_entry (ti_pc i) (bpu p1);
             Some (flush_front e (p1\<lparr>bpu := u2\<rparr>)) } })"

end
