(* ===== verification/PipeStages.thy ===== *)
theory PipeStages
  imports Pipeline
begin

text \<open>
  The stage handlers, the callbacks and the update of the core (src/pipeSim/Pipeline.cc).
  A handler that dereferences a null slot, throws or fails an assertion is None.
\<close>

section \<open>Fetch\<close>

definition request :: "port_req \<Rightarrow> pipeline \<Rightarrow> pipeline" where
  "request r p = p\<lparr>port_reqs := port_reqs p @ [r]\<rparr>"

definition note_resp :: "bool \<Rightarrow> pipeline \<Rightarrow> pipeline" where
  "note_resp orphan p =
     p\<lparr>fetch_st := (fetch_st p)\<lparr>resp_is_orphan := resp_is_orphan (fetch_st p) @ [orphan]\<rparr>\<rparr>"

definition fetch_early :: "pipeline \<Rightarrow> pipeline" where
  "fetch_early p0 =
     (let p = note_resp True (request (ImemRead (early_redir_seq_pc (fetch_st p0))) p0);
          f = fetch_st p
      in p\<lparr>fetch_st := f\<lparr>early_redir_seq_pc := early_redir_seq_pc f + 4,
                          early_redir_remaining := early_redir_remaining f - 1\<rparr>\<rparr>)"

text \<open>The two-stage delay of a redirect on the wrong path.\<close>

definition wp_advance :: "branch_result \<Rightarrow> pipeline \<Rightarrow> pipeline" where
  "wp_advance pred p =
     (let f0 = (fetch_st p)\<lparr>wrong_path_pc := wrong_path_pc (fetch_st p) + 4\<rparr>;
          s0 = pstats p;
          redirected = wp_redirect_s2 f0;
          f1 = (if redirected then f0\<lparr>wrong_path_pc := wp_redirect_target_s2 f0, wp_redirect_s2 := False,
                                      wp_redirect_s1 := False\<rparr> else f0);
          s1 = (if redirected then s0\<lparr>wp_redirects := wp_redirects s0 + 1\<rparr> else s0);
          f2 = (if wp_redirect_s1 f1 then f1\<lparr>wp_redirect_s2 := True,
                  wp_redirect_target_s2 := wp_redirect_target_s1 f1, wp_redirect_s1 := False\<rparr> else f1);
          take_it = (will_redirect pred \<and> \<not> redirected);
          f3 = (if take_it then f2\<lparr>wp_redirect_s1 := True, wp_redirect_target_s1 := pred_target pred\<rparr> else f2);
          s2 = (if take_it then s1\<lparr>wp_btb_hits := wp_btb_hits s1 + 1\<rparr> else s1)
      in p\<lparr>fetch_st := f3, pstats := s2\<rparr>)"

definition fetch_wrong :: "pipeline \<Rightarrow> pipeline option" where
  "fetch_wrong p =
     (if rb_full (fetch_queue p) then Some p
      else do {
        let pc = wrong_path_pc (fetch_st p);
        (u, pred) \<leftarrow> unit_predict pc (bpu p);
        q \<leftarrow> rb_push_back (new_transaction (inst_zero\<lparr>ti_pc := pc\<rparr>) True True) (fetch_queue p);
        let p1 = p\<lparr>bpu := u, fetch_queue := q,
                   pstats := (pstats p)\<lparr>wp_bpu_queries := wp_bpu_queries (pstats p) + 1\<rparr>\<rparr>;
        Some (wp_advance pred (note_resp False (request (ImemRead pc) p1))) })"

definition predict_candidate :: "transaction \<Rightarrow> pipeline \<Rightarrow> (pipeline \<times> transaction) option" where
  "predict_candidate t p = do {
     let i = tr_inst t;
     let hold = (if ti_is_branch i \<and> is_no_bpu (bpu p) then (if ti_br_taken i then 2 else 0) else bp_meta_hold t);
     (u1, pred) \<leftarrow> predict_at_fetch (ti_pc i) (ti_is_branch i) (bpu p);
     let real_taken = (ti_is_branch i \<and> ti_br_taken i);
     let real_target = (if real_taken then ti_mem_addr i else 0);
     let (u2, accurate) = judge real_taken real_target pred u1;
     Some (p\<lparr>bpu := u2\<rparr>,
           t\<lparr>wait_mem := True, bp_meta_hold := hold, tr_br_pred := pred, tr_br_mispred := \<not> accurate\<rparr>) }"

definition enter_wrong_path :: "penv \<Rightarrow> transaction \<Rightarrow> pipeline \<Rightarrow> pipeline" where
  "enter_wrong_path e t p =
     (let i = tr_inst t;
          real_taken = (ti_is_branch i \<and> ti_br_taken i);
          wpc = (if real_taken \<and> \<not> will_redirect (tr_br_pred t) then ti_pc i + 4
                 else pred_target (tr_br_pred t));
          p1 = flush_stall_cycles (now e) p
      in p1\<lparr>fetch_st := (fetch_st p1)\<lparr>wrong_path := True, wrong_path_pc := wpc\<rparr>\<rparr>)"

definition fetch_real :: "penv \<Rightarrow> pipeline \<Rightarrow> pipeline option" where
  "fetch_real e p =
     (if rb_full (fetch_queue p) then Some p
      else case input_buffer p of
        None \<Rightarrow> Some p
      | Some t0 \<Rightarrow> do {
          (p1, t) \<leftarrow> predict_candidate t0 (p\<lparr>input_buffer := None\<rparr>);
          let p2 = (if tr_br_mispred t then enter_wrong_path e t p1 else p1);
          let p3 = note_resp False (request (ImemRead (ti_pc (tr_inst t))) p2);
          let p4 = (if tage_overrode_bimodal (tr_br_pred t)
                    then p3\<lparr>fetch_st := (fetch_st p3)\<lparr>resume_tick := max (resume_tick (fetch_st p3)) (now e + 2)\<rparr>\<rparr>
                    else p3);
          let p5 = (if \<not> tr_br_mispred t \<and> will_redirect (tr_br_pred t)
                    then p4\<lparr>fetch_st := (fetch_st p4)\<lparr>early_redir_remaining := 2,
                                            early_redir_seq_pc := ti_pc (tr_inst t) + 4\<rparr>,
                            pstats := (pstats p4)\<lparr>early_redirects := early_redirects (pstats p4) + 1\<rparr>\<rparr>
                    else p4);
          q \<leftarrow> rb_push_back t (fetch_queue p5);
          Some (p5\<lparr>fetch_queue := q\<rparr>) })"

definition leave_wrong_path :: "pipeline \<Rightarrow> pipeline" where
  "leave_wrong_path p = p\<lparr>fetch_st := (fetch_st p)\<lparr>wrong_path := False, wp_flushed := False\<rparr>\<rparr>"

definition do_fetch_0 :: "penv \<Rightarrow> pipeline \<Rightarrow> pipeline option" where
  "do_fetch_0 e p =
     (if now e < resume_tick (fetch_st p) then Some (set_stall e BrMispred p)
      else if \<not> imem_ready e then Some p
      else if early_redir_remaining (fetch_st p) > 0 then Some (fetch_early p)
      else if wrong_path (fetch_st p) \<and> \<not> wp_flushed (fetch_st p) then fetch_wrong p
      else fetch_real e (if wrong_path (fetch_st p) then leave_wrong_path p else p))"

definition do_fetch_1 :: "penv \<Rightarrow> pipeline \<Rightarrow> pipeline option" where
  "do_fetch_1 e p =
     (if rb_empty (fetch_queue p) then schedule e Fetch InfTime p
      else do {
        t \<leftarrow> rb_front (fetch_queue p);
        if wait_mem t then schedule e Fetch InfTime p
        else if bp_meta_hold t > 0 then
          schedule e Fetch (now e + 1)
            (p\<lparr>fetch_queue := rb_put 0 (t\<lparr>bp_meta_hold := bp_meta_hold t - 1\<rparr>) (fetch_queue p)\<rparr>)
        else do {
          assert_that (sim_pipe p Fetch = None);
          q \<leftarrow> rb_pop_front (fetch_queue p);
          Some (put_slot Fetch (Some t) (p\<lparr>fetch_queue := q\<rparr>)) } })"

definition handle_ifu_resp :: "penv \<Rightarrow> pipeline \<Rightarrow> pipeline option" where
  "handle_ifu_resp e p =
     (case resp_is_orphan (fetch_st p) of
        [] \<Rightarrow> None
      | orphan # rest \<Rightarrow>
          (let p1 = p\<lparr>fetch_st := (fetch_st p)\<lparr>resp_is_orphan := rest\<rparr>\<rparr>
           in if orphan then Some p1
              else do {
                i \<leftarrow> rb_find_if (\<lambda>t. case t of Some x \<Rightarrow> wait_mem x | None \<Rightarrow> False) (fetch_queue p1);
                t \<leftarrow> rb_at (fetch_queue p1) i;
                async_schedule e Fetch (now e + 1)
                  (p1\<lparr>fetch_queue := rb_put i (t\<lparr>wait_mem := False\<rparr>) (fetch_queue p1)\<rparr>) }))"

section \<open>Decode\<close>

definition stall_unless :: "penv \<Rightarrow> bool \<Rightarrow> stall_cause \<Rightarrow> pipeline \<Rightarrow> pipeline" where
  "stall_unless e lsu_active c p = (if lsu_active then p else set_stall e c p)"

definition lsu_waits :: "pipeline \<Rightarrow> bool" where
  "lsu_waits p = (case sim_pipe p Execute of Some x \<Rightarrow> wait_mem x | None \<Rightarrow> False)"

definition drop_wrong_path :: "penv \<Rightarrow> pipeline \<Rightarrow> pipeline option" where
  "drop_wrong_path e p =
     (let p1 = (if in_br_recovery (stall p) then set_stall e BrMispred p else p)
      in schedule e Decode (now e + 1) (put_slot Fetch None p1))"

definition mext_ready :: "penv \<Rightarrow> pipeline \<Rightarrow> tick_t" where
  "mext_ready e p =
     (let r0 = InfTime;
          r1 = (if sim_pipe p IntMulExt \<noteq> None then min r0 (mul_ready_tick p) else r0);
          r2 = (if sim_pipe p IntDivExt \<noteq> None then min r1 (div_ready_tick p) else r1)
      in if r2 \<le> now e then now e + 1 else r2)"

definition writes_reg :: "pipeline \<Rightarrow> pipe_stage \<Rightarrow> nat \<Rightarrow> bool" where
  "writes_reg p s rd = (case sim_pipe p s of Some x \<Rightarrow> ti_dst_reg (tr_inst x) = rd | None \<Rightarrow> False)"

definition pass_decode :: "penv \<Rightarrow> bool \<Rightarrow> tick_t \<Rightarrow> trace_inst \<Rightarrow> pipeline \<Rightarrow> pipeline option" where
  "pass_decode e lsu_active ready_time i p = do {
     let finish_time = max (now e) ready_time + 1;
     p1 \<leftarrow> schedule e Decode finish_time (stall_unless e lsu_active NoInst p);
     p2 \<leftarrow> set_reg_time (ti_dst_reg i) InfTime p1;
     Some (move_slot Fetch Decode p2) }"

definition do_decode :: "penv \<Rightarrow> pipeline \<Rightarrow> pipeline option" where
  "do_decode e p = do {
     t \<leftarrow> sim_pipe p Fetch;
     let i = tr_inst t;
     if is_wrong_path t then drop_wrong_path e p
     else do {
       let lsu_active = lsu_waits p;
       if ti_ext_op i \<noteq> ExtNone \<and> (sim_pipe p IntMulExt \<noteq> None \<or> sim_pipe p IntDivExt \<noteq> None)
       then schedule e Decode (mext_ready e p) (stall_unless e lsu_active RAW p)
       else do {
         ready_time \<leftarrow> src_ready p i;
         if ready_time = InfTime
         then schedule e Decode InfTime (stall_unless e lsu_active RAW p)
         else if ready_time > now e
         then schedule e Decode ready_time (stall_unless e lsu_active RAW p)
         else if ti_dst_reg i \<noteq> 0 \<and> (writes_reg p IntMulExt (ti_dst_reg i) \<or> writes_reg p IntDivExt (ti_dst_reg i))
         then do {
           w \<leftarrow> at (reg_ready p) (ti_dst_reg i);
           schedule e Decode (if w \<le> now e then now e + 1 else w) (stall_unless e lsu_active RAW p) }
         else pass_decode e lsu_active ready_time i p } } }"

section \<open>Execute\<close>

definition resolve_branch :: "penv \<Rightarrow> transaction \<Rightarrow> pipeline \<Rightarrow> pipeline option" where
  "resolve_branch e t p =
     (let i = tr_inst t
      in if \<not> ti_is_branch i then Some p
         else do {
           let real_taken = ti_br_taken i;
           let real_target = (if real_taken then ti_mem_addr i else 0);
           let is_call = (ti_dst_reg i = 1);
           let is_ret = (ti_src0 i = 1 \<and> ti_dst_reg i = 0);
           let btb_hit = (pred_target (tr_br_pred t) \<noteq> 0);
           u \<leftarrow> unit_update (ti_pc i) real_taken real_target is_call is_ret btb_hit (tr_br_pred t)
                  (tr_br_mispred t) (bpu p);
           let p1 = p\<lparr>bpu := u\<rparr>;
           Some (if tr_br_mispred t then flush_front e p1 else p1) })"

definition forward_result :: "penv \<Rightarrow> trace_inst \<Rightarrow> pipeline \<Rightarrow> pipeline option" where
  "forward_result e i p =
     (if ti_mem_op i = MemNone
      then update_reg_time e (ti_dst_reg i)
             (if ti_is_branch i \<and> ti_dst_reg i \<noteq> 0 then now e + 2 else now e) p
      else Some p)"

definition do_execute :: "penv \<Rightarrow> pipeline \<Rightarrow> pipeline option" where
  "do_execute e p = do {
     assert_that (stage_update p Decode \<le> now e);
     t \<leftarrow> sim_pipe p Decode;
     let i = tr_inst t;
     if ti_ext_op i \<noteq> ExtNone then Some p
     else do {
       p1 \<leftarrow> resolve_branch e t p;
       p2 \<leftarrow> flush_false_btb_hit e t p1;
       p3 \<leftarrow> forward_result e i p2;
       schedule e Execute (now e + 1) (move_slot Decode Execute p3) } }"

definition MulLat :: tick_t where
  "MulLat = 4"

definition DivLat :: tick_t where
  "DivLat = 34"

definition do_mul_ext :: "penv \<Rightarrow> pipeline \<Rightarrow> pipeline option" where
  "do_mul_ext e p = do {
     assert_that (stage_update p Decode \<le> now e);
     t \<leftarrow> sim_pipe p Decode;
     let i = tr_inst t;
     if \<not> (ti_ext_op i = IntMulH \<or> ti_ext_op i = IntMulL) then Some p
     else do {
       p1 \<leftarrow> flush_false_btb_hit e t p;
       p2 \<leftarrow> update_reg_time e (ti_dst_reg i) (now e + MulLat) (p1\<lparr>mul_ready_tick := now e + MulLat\<rparr>);
       p3 \<leftarrow> schedule e IntMulExt (now e + MulLat) p2;
       p4 \<leftarrow> async_schedule e WriteBack (now e + MulLat) p3;
       Some (move_slot Decode IntMulExt p4) } }"

definition do_div_ext :: "penv \<Rightarrow> pipeline \<Rightarrow> pipeline option" where
  "do_div_ext e p = do {
     assert_that (stage_update p Decode \<le> now e);
     t \<leftarrow> sim_pipe p Decode;
     let i = tr_inst t;
     if \<not> (ti_ext_op i = IntDiv \<or> ti_ext_op i = IntRem) then Some p
     else do {
       p1 \<leftarrow> flush_false_btb_hit e t p;
       p2 \<leftarrow> update_reg_time e (ti_dst_reg i) (now e + DivLat) (p1\<lparr>div_ready_tick := now e + DivLat\<rparr>);
       p3 \<leftarrow> schedule e IntDivExt (now e + DivLat) p2;
       p4 \<leftarrow> async_schedule e WriteBack (now e + DivLat) p3;
       Some (move_slot Decode IntDivExt p4) } }"

section \<open>Memory\<close>

definition set_waiting :: "bool \<Rightarrow> pipeline \<Rightarrow> pipeline option" where
  "set_waiting b p = do {
     t \<leftarrow> sim_pipe p Execute;
     Some (put_slot Execute (Some (t\<lparr>wait_mem := b\<rparr>)) p) }"

definition send_lsu_req :: "penv \<Rightarrow> lsu_port \<Rightarrow> addr_t \<Rightarrow> word_t \<Rightarrow> 8 word \<Rightarrow> bool \<Rightarrow> pipeline \<Rightarrow> pipeline option" where
  "send_lsu_req e port a data strb is_write p = do {
     (rready, wready) \<leftarrow> (case port of DmemPort \<Rightarrow> Some (dmem_ready e) | NcPort \<Rightarrow> nc_ready e);
     p1 \<leftarrow> schedule e Memory InfTime p;
     if (if is_write then wready else rready)
     then do {
       p2 \<leftarrow> set_waiting True p1;
       let aligned = a AND NOT 3;
       Some (request (if is_write then LsuWrite port aligned data strb else LsuRead port aligned) p2) }
     else Some p1 }"

definition do_memory :: "penv \<Rightarrow> pipeline \<Rightarrow> pipeline option" where
  "do_memory e p = do {
     t \<leftarrow> sim_pipe p Execute;
     let i = tr_inst t;
     let direct = (ti_mem_op i \<noteq> MemNone \<and> \<not> is_cacheable_addr (ti_mem_addr i) \<and> nc_ready e = None);
     if wait_mem t then
       (if direct then do {
          p1 \<leftarrow> set_waiting False p;
          p2 \<leftarrow> (if ti_mem_op i = MemLoad then update_reg_time e (ti_dst_reg i) (now e + 2) p1 else Some p1);
          p3 \<leftarrow> schedule e Memory (now e + 1) p2;
          Some (move_slot Execute Memory p3) }
        else schedule e Memory InfTime p)
     else if direct then do {
       p1 \<leftarrow> set_waiting True (set_stall e LsuStall p);
       schedule e Memory (now e + mmio_lat p1) p1 }
     else do {
       let port = (if ti_mem_op i \<noteq> MemNone \<and> \<not> is_cacheable_addr (ti_mem_addr i) \<and> nc_ready e \<noteq> None
                   then NcPort else DmemPort);
       if ti_mem_op i = MemLoad
       then send_lsu_req e port (ti_mem_addr i) 0xbad 0xf False (set_stall e LsuStall p)
       else if ti_mem_op i = MemStore
       then do {
         p1 \<leftarrow> send_lsu_req e port (ti_mem_addr i) 0xbad 0xf True (set_stall e LsuStall p);
         schedule e Memory InfTime p1 }
       else do {
         p1 \<leftarrow> schedule e Memory (now e + 1) p;
         Some (move_slot Execute Memory p1) } } }"

definition blocked_by_raw :: "penv \<Rightarrow> pipeline \<Rightarrow> pipeline option" where
  "blocked_by_raw e p =
     (case sim_pipe p Fetch of
        None \<Rightarrow> Some p
      | Some ids \<Rightarrow> do {
          rdy \<leftarrow> src_ready p (tr_inst ids);
          Some (if rdy > now e then set_stall e RAW p else p) })"

definition handle_lsu_resp :: "penv \<Rightarrow> pipeline \<Rightarrow> pipeline option" where
  "handle_lsu_resp e p = do {
     t \<leftarrow> sim_pipe p Execute;
     assert_that (wait_mem t);
     assert_that (sim_pipe p Memory = None);
     p1 \<leftarrow> set_waiting False p;
     let i = tr_inst t;
     p2 \<leftarrow> (if ti_mem_op i = MemLoad then update_reg_time e (ti_dst_reg i) (now e + 2) p1 else Some p1);
     p3 \<leftarrow> blocked_by_raw e (set_stall e LsuStall p2);
     p4 \<leftarrow> async_schedule e Memory (now e + 1) p3;
     Some (move_slot Execute Memory p4) }"

section \<open>Write-back\<close>

definition wb_source :: "penv \<Rightarrow> pipeline \<Rightarrow> pipe_stage option" where
  "wb_source e p =
     (let pending_alu = (sim_pipe p Execute \<noteq> None)
      in if sim_pipe p Memory \<noteq> None then Some Memory
         else if \<not> pending_alu \<and> sim_pipe p IntDivExt \<noteq> None \<and> now e \<ge> div_ready_tick p then Some IntDivExt
         else if \<not> pending_alu \<and> sim_pipe p IntMulExt \<noteq> None \<and> now e \<ge> mul_ready_tick p then Some IntMulExt
         else None)"

definition wb_retry_tick :: "pipeline \<Rightarrow> tick_t" where
  "wb_retry_tick p =
     (let n1 = (if sim_pipe p IntDivExt \<noteq> None then min InfTime (div_ready_tick p) else InfTime)
      in if sim_pipe p IntMulExt \<noteq> None then min n1 (mul_ready_tick p) else n1)"

definition commit_stall :: "penv \<Rightarrow> transaction \<Rightarrow> pipeline \<Rightarrow> pipeline" where
  "commit_stall e t p0 =
     (let p1 = flush_stall_cycles (now e) p0;
          p2 = p1\<lparr>pstats := (pstats p1)\<lparr>ps_nostall := ps_nostall (pstats p1) + 1\<rparr>,
                 stall := (stall p1)\<lparr>st_last_tick := now e + 1, in_br_recovery := False\<rparr>\<rparr>;
          c = (if tr_br_mispred t then BrMispred else if lsu_waits p2 then LsuStall else NoInst)
      in p2\<lparr>stall := (stall p2)\<lparr>st_cause := c\<rparr>\<rparr>)"

text \<open>stats.cycles is the unsigned difference to the last reset.\<close>

definition count_inst :: "penv \<Rightarrow> pipeline \<Rightarrow> pipeline" where
  "count_inst e p =
     p\<lparr>pstats := (pstats p)\<lparr>ps_insts := ps_insts (pstats p) + 1,
                              ps_cycles := now e - st_reset_tick (stall p)\<rparr>\<rparr>"

definition do_writeback :: "penv \<Rightarrow> pipeline \<Rightarrow> pipeline option" where
  "do_writeback e p =
     (case wb_source e p of
        None \<Rightarrow> schedule e WriteBack (max (wb_retry_tick p) (now e + 1)) p
      | Some src \<Rightarrow> do {
          t \<leftarrow> sim_pipe p src;
          let p1 = commit_stall e t (p\<lparr>ongoing_insts := ongoing_insts p - 1\<rparr>);
          schedule e WriteBack (now e + 1) (put_slot src None (count_inst e p1)) })"

section \<open>Update and callbacks\<close>

fun stage_handler :: "penv \<Rightarrow> pipe_stage \<Rightarrow> pipeline \<Rightarrow> pipeline option" where
  "stage_handler e Fetch p = do_fetch_1 e p"
| "stage_handler e Decode p = do_decode e p"
| "stage_handler e Execute p = do_execute e p"
| "stage_handler e IntMulExt p = do_mul_ext e p"
| "stage_handler e IntDivExt p = do_div_ext e p"
| "stage_handler e Memory p = do_memory e p"
| "stage_handler e WriteBack p = do_writeback e p"

definition run_stage :: "penv \<Rightarrow> pipe_stage \<Rightarrow> pipeline \<Rightarrow> pipeline option" where
  "run_stage e s p =
     (if sim_pipe p s = None \<and> prev_stage_valid e p s \<and> stage_update p s \<le> now e
      then stage_handler e s p else Some p)"

fun run_stages :: "penv \<Rightarrow> pipe_stage list \<Rightarrow> pipeline \<Rightarrow> pipeline option" where
  "run_stages e [] p = Some p"
| "run_stages e (s # ss) p = do { p1 \<leftarrow> run_stage e s p; run_stages e ss p1 }"

definition pipe_update_impl :: "penv \<Rightarrow> pipeline \<Rightarrow> pipeline option" where
  "pipe_update_impl e p = do {
     p1 \<leftarrow> run_stages e (rev all_stages) (p\<lparr>bpu := begin_tick (bpu p)\<rparr>);
     p2 \<leftarrow> do_fetch_0 e p1;
     Some (calc_sched e p2) }"

definition pipe_do_update :: "penv \<Rightarrow> pipeline \<Rightarrow> pipeline option" where
  "pipe_do_update e p = (if calc_nxtupd p \<le> now e then pipe_update_impl e p else Some p)"

definition inst_avail :: "pipeline \<Rightarrow> bool" where
  "inst_avail p \<longleftrightarrow> input_buffer p = None \<and> \<not> is_draining p"

definition feed_inst :: "penv \<Rightarrow> trace_inst \<Rightarrow> pipeline \<Rightarrow> pipeline option" where
  "feed_inst e i p = do {
     assert_that (input_buffer p = None);
     do_fetch_0 e (p\<lparr>ongoing_insts := ongoing_insts p + 1,
                      input_buffer := Some (new_transaction i False False)\<rparr>) }"

definition is_finished :: "pipeline \<Rightarrow> bool" where
  "is_finished p \<longleftrightarrow> ongoing_insts p = 0"

definition set_draining :: "pipeline \<Rightarrow> pipeline" where
  "set_draining p = p\<lparr>is_draining := True\<rparr>"

definition recv_mem_resp :: "penv \<Rightarrow> nat \<Rightarrow> bool \<Rightarrow> pipeline \<Rightarrow> pipeline option" where
  "recv_mem_resp e resp_id is_write p =
     (if resp_id = 0 then do { assert_that (\<not> is_write); handle_ifu_resp e p }
      else if resp_id = 1 \<or> resp_id = 2 then handle_lsu_resp e p
      else None)"

definition ack_mem_avail :: "penv \<Rightarrow> nat \<Rightarrow> pipeline \<Rightarrow> pipeline option" where
  "ack_mem_avail e ack_id p =
     (if ack_id = 0 then async_schedule e Fetch (now e) p
      else if ack_id = 1 \<or> ack_id = 2 then
        (case sim_pipe p Execute of
           Some x \<Rightarrow> (if \<not> wait_mem x \<and> ti_mem_op (tr_inst x) \<noteq> MemNone
                      then async_schedule e Memory (now e) p else Some p)
         | None \<Rightarrow> Some p)
      else None)"

definition pipe_reset_stats :: "tick_t \<Rightarrow> pipeline \<Rightarrow> pipeline" where
  "pipe_reset_stats t p =
     p\<lparr>pstats := ps_reset (pstats p),
       stall := \<lparr>st_last_tick = t, st_reset_tick = t, st_cause = NoInst, in_br_recovery = False\<rparr>\<rparr>"

end
