(* ===== verification/Sdram.thy ===== *)
theory Sdram
  imports Prelude
begin

text \<open>
  SdramModel of src/cacheSim/RamModel.hh and .cc. The model's int fields are HOL
  integers; the theorems bound them so that no signed operation overflows. The tick
  parameter of access is a tint\_t: the caller's 64-bit tick is cut to 32 bits, which
  the model writes out.
\<close>

section \<open>Constants\<close>

definition DEV_MHZ :: int where "DEV_MHZ = 100"
definition N_HOSTS :: nat where "N_HOSTS = 3"
definition N_BANKS :: nat where "N_BANKS = 4"
definition T_RCD :: int where "T_RCD = 2"
definition REFRESH_PERIOD :: int where "REFRESH_PERIOD = 781"
definition PER_WORD :: int where "PER_WORD = 2"
definition ACT_COST :: int where "ACT_COST = 1 + T_RCD"
definition PRE_COST :: int where "PRE_COST = 1"
definition RD_BASE :: int where "RD_BASE = 2"
definition WR_BASE :: int where "WR_BASE = 0"

lemmas sdram_consts =
  DEV_MHZ_def N_HOSTS_def N_BANKS_def T_RCD_def REFRESH_PERIOD_def PER_WORD_def ACT_COST_def
  PRE_COST_def RD_BASE_def WR_BASE_def

section \<open>State\<close>

record bank =
  bk_open :: bool
  bk_row :: "32 word"

record sdram =
  freq_ratio :: int
  ctrl_free_at :: "int list"
  next_refresh_tick :: int
  banks :: "bank list list"
  row_hit :: nat
  row_miss :: nat
  row_conf :: nat
  refresh_count :: nat
  ctrl_stall :: nat

definition new_sdram :: "int \<Rightarrow> sdram" where
  "new_sdram cpu_freq_mhz =
     \<lparr>freq_ratio = sgn cpu_freq_mhz * (\<bar>cpu_freq_mhz\<bar> div DEV_MHZ),
      ctrl_free_at = replicate N_HOSTS 0, next_refresh_tick = REFRESH_PERIOD,
      banks = replicate N_HOSTS (replicate N_BANKS \<lparr>bk_open = False, bk_row = 0\<rparr>),
      row_hit = 0, row_miss = 0, row_conf = 0, refresh_count = 0, ctrl_stall = 0\<rparr>"

section \<open>Operations\<close>

definition bank_of :: "addr_t \<Rightarrow> nat" where
  "bank_of a = unat (drop_bit 10 a AND 0x3)"

definition row_of :: "addr_t \<Rightarrow> 32 word" where
  "row_of a = drop_bit 12 a AND 0x1FFF"

definition close_banks :: "bank list list \<Rightarrow> bank list list" where
  "close_banks bss = map (map (\<lambda>b. b\<lparr>bk_open := False\<rparr>)) bss"

definition check_refresh :: "int \<Rightarrow> sdram \<Rightarrow> sdram" where
  "check_refresh dev_tick m =
     (if dev_tick < next_refresh_tick m then m
      else
        (let elapsed = dev_tick - next_refresh_tick m;
             n_refreshes = elapsed div REFRESH_PERIOD + 1
         in m\<lparr>banks := close_banks (banks m),
              next_refresh_tick := next_refresh_tick m + n_refreshes * REFRESH_PERIOD,
              refresh_count := refresh_count m + nat n_refreshes\<rparr>))"

text \<open>The extra cost of a request against the state of its bank.\<close>

definition row_extra :: "bank \<Rightarrow> 32 word \<Rightarrow> int" where
  "row_extra b r =
     (if \<not> bk_open b then ACT_COST
      else if bk_row b \<noteq> r then PRE_COST + ACT_COST else 0)"

definition count_row :: "bank \<Rightarrow> 32 word \<Rightarrow> sdram \<Rightarrow> sdram" where
  "count_row b r m =
     (if \<not> bk_open b then m\<lparr>row_miss := row_miss m + 1\<rparr>
      else if bk_row b \<noteq> r then m\<lparr>row_conf := row_conf m + 1\<rparr>
      else m\<lparr>row_hit := row_hit m + 1\<rparr>)"

definition dev_cycles :: "bool \<Rightarrow> int \<Rightarrow> bank \<Rightarrow> 32 word \<Rightarrow> int" where
  "dev_cycles is_write bst_len b r =
     PER_WORD * bst_len + (if is_write then WR_BASE else RD_BASE) + row_extra b r"

text \<open>static\_cast<int> of the 32-bit quotient. A ratio of zero divides by zero.\<close>

definition dev_tick_of :: "int \<Rightarrow> tick_t \<Rightarrow> int option" where
  "dev_tick_of ratio now =
     (if ratio = 0 then None
      else Some (sint (word_of_int ((int now mod 2 ^ 32) div (ratio mod 2 ^ 32)) :: 32 word)))"

definition sdram_access :: "addr_t \<Rightarrow> int \<Rightarrow> bool \<Rightarrow> tick_t \<Rightarrow> nat \<Rightarrow> sdram \<Rightarrow> (sdram \<times> nat) option" where
  "sdram_access addr bst_len is_write now host_id m0 = do {
     dev_tick \<leftarrow> dev_tick_of (freq_ratio m0) now;
     let host = min host_id (N_HOSTS - 1);
     let m1 = check_refresh dev_tick m0;
     let start_dev = max dev_tick (ctrl_free_at m1 ! host);
     let m2 = (if start_dev > dev_tick
               then m1\<lparr>ctrl_stall := ctrl_stall m1 + nat (start_dev - dev_tick)\<rparr> else m1);
     let b = bank_of addr;
     let r = row_of addr;
     let bk = banks m2 ! host ! b;
     let m3 = count_row bk r m2;
     let dev_cyc = dev_cycles is_write bst_len bk r;
     let m4 = m3\<lparr>ctrl_free_at := (ctrl_free_at m3)[host := start_dev + dev_cyc],
                  banks := (banks m3)[host := (banks m3 ! host)[b := bk\<lparr>bk_open := True, bk_row := r\<rparr>]]\<rparr>;
     let total_dev = ctrl_free_at m4 ! host - dev_tick;
     Some (m4, nat (total_dev * freq_ratio m4 mod 2 ^ 32)) }"

definition sdram_reset_stats :: "sdram \<Rightarrow> sdram" where
  "sdram_reset_stats m =
     m\<lparr>row_hit := 0, row_miss := 0, row_conf := 0, refresh_count := 0, ctrl_stall := 0,
       ctrl_free_at := map (\<lambda>_. 0) (ctrl_free_at m), next_refresh_tick := REFRESH_PERIOD,
       banks := map (map (\<lambda>b. b\<lparr>bk_open := False, bk_row := 0\<rparr>)) (banks m)\<rparr>"

section \<open>Invariant\<close>

definition sdram_ok :: "sdram \<Rightarrow> bool" where
  "sdram_ok m \<longleftrightarrow> freq_ratio m \<noteq> 0 \<and> length (ctrl_free_at m) = N_HOSTS \<and>
     length (banks m) = N_HOSTS \<and> (\<forall>bs\<in>set (banks m). length bs = N_BANKS)"

lemma new_sdram_ok: "100 \<le> f \<Longrightarrow> sdram_ok (new_sdram f)"
  by (auto simp: sdram_ok_def new_sdram_def sdram_consts sgn_if)

lemma bank_of_less: "bank_of a < N_BANKS"
proof -
  have "drop_bit 10 a AND 3 \<le> 3" by (rule word_and_le1)
  then have "unat (drop_bit 10 a AND 3) \<le> unat (3 :: 32 word)" by (simp only: word_le_nat_alt)
  then show ?thesis by (simp add: bank_of_def N_BANKS_def)
qed

lemma sdram_ok_host: "sdram_ok m \<Longrightarrow> min h (N_HOSTS - 1) < length (banks m) \<and>
    min h (N_HOSTS - 1) < length (ctrl_free_at m) \<and> length (banks m ! min h (N_HOSTS - 1)) = N_BANKS"
  by (simp add: sdram_ok_def N_HOSTS_def min_def)

lemma check_refresh_ok: "sdram_ok m \<Longrightarrow> sdram_ok (check_refresh d m)"
  by (auto simp: sdram_ok_def check_refresh_def close_banks_def Let_def)

lemma check_refresh_sel [simp]: "ctrl_free_at (check_refresh d m) = ctrl_free_at m"
  "freq_ratio (check_refresh d m) = freq_ratio m"
  "banks (check_refresh d m) = (if d < next_refresh_tick m then banks m else close_banks (banks m))"
  by (simp_all add: check_refresh_def Let_def)

lemma count_row_sel [simp]: "ctrl_free_at (count_row b r m) = ctrl_free_at m"
  "freq_ratio (count_row b r m) = freq_ratio m" "banks (count_row b r m) = banks m"
  "next_refresh_tick (count_row b r m) = next_refresh_tick m"
  by (simp_all add: count_row_def)

lemma sdram_ok_upd:
  assumes "sdram_ok m" "h < N_HOSTS" "freq_ratio m' = freq_ratio m"
    "ctrl_free_at m' = (ctrl_free_at m)[h := x]" "banks m' = (banks m)[h := (banks m ! h)[b := k]]"
  shows "sdram_ok m'"
  using assms by (auto simp: sdram_ok_def dest!: set_update_memD)

text \<open>The bank a request finds, after the refreshes that are due.\<close>

definition found_bank :: "int \<Rightarrow> nat \<Rightarrow> addr_t \<Rightarrow> sdram \<Rightarrow> bank" where
  "found_bank d h a m = banks (check_refresh d m) ! min h (N_HOSTS - 1) ! bank_of a"

text \<open>Every access returns; its cost is what the controller is busy for, and the row is open.\<close>

lemma sdram_access_ex:
  fixes host :: nat and len :: int and w :: bool and a :: addr_t
  assumes ok: "sdram_ok m" and d: "dev_tick_of (freq_ratio m) now = Some d"
  defines "h \<equiv> min host (N_HOSTS - 1)"
  defines "free \<equiv> max d (ctrl_free_at m ! h) + dev_cycles w len (found_bank d host a m) (row_of a)"
  shows "\<exists>m'. sdram_access a len w now host m = Some (m', nat ((free - d) * freq_ratio m mod 2 ^ 32)) \<and>
    sdram_ok m' \<and> freq_ratio m' = freq_ratio m \<and> ctrl_free_at m' = (ctrl_free_at m)[h := free] \<and>
    next_refresh_tick m' = next_refresh_tick (check_refresh d m) \<and>
    banks m' ! h ! bank_of a = (found_bank d host a m)\<lparr>bk_open := True, bk_row := row_of a\<rparr>"
proof -
  let ?m1 = "check_refresh d m"
  note ok1 = check_refresh_ok [OF ok, of d]
  have h: "h < N_HOSTS" by (simp add: h_def N_HOSTS_def min_def)
  have len: "h < length (ctrl_free_at m)" "h < length (banks ?m1)" "bank_of a < length (banks ?m1 ! h)"
    using sdram_ok_host [OF ok, of host] sdram_ok_host [OF ok1, of host] bank_of_less [of a]
    by (simp_all only: h_def)
  define bk where "bk = banks ?m1 ! h ! bank_of a"
  define start where "start = max d (ctrl_free_at ?m1 ! h)"
  define m2 where "m2 = (if start > d then ?m1\<lparr>ctrl_stall := ctrl_stall ?m1 + nat (start - d)\<rparr> else ?m1)"
  define m3 where "m3 = count_row bk (row_of a) m2"
  define m' where "m' = m3\<lparr>ctrl_free_at := (ctrl_free_at m3)[h := start + dev_cycles w len bk (row_of a)],
      banks := (banks m3)[h := (banks m3 ! h)[bank_of a := bk\<lparr>bk_open := True, bk_row := row_of a\<rparr>]]\<rparr>"
  have s2: "banks m2 = banks ?m1" "ctrl_free_at m2 = ctrl_free_at m" "freq_ratio m2 = freq_ratio m"
      "next_refresh_tick m2 = next_refresh_tick ?m1"
    by (simp_all add: m2_def)
  have bk: "banks m2 ! h ! bank_of a = bk" by (simp only: s2 bk_def)
  have acc: "sdram_access a len w now host m = Some (m', nat ((ctrl_free_at m' ! h - d) * freq_ratio m' mod 2 ^ 32))"
    by (simp only: sdram_access_def d Let_def Option.bind.simps m'_def m3_def bk [symmetric] m2_def start_def h_def)
  have fb: "found_bank d host a m = bk" by (simp only: found_bank_def bk_def h_def)
  have sel: "freq_ratio m' = freq_ratio m" "ctrl_free_at m' = (ctrl_free_at m)[h := free]"
      "next_refresh_tick m' = next_refresh_tick ?m1"
      "banks m' = (banks ?m1)[h := (banks ?m1 ! h)[bank_of a := (found_bank d host a m)\<lparr>bk_open := True, bk_row := row_of a\<rparr>]]"
    by (simp_all add: m'_def m3_def s2 fb free_def start_def del: check_refresh_sel(3))
  have "ctrl_free_at m' ! h = free" using len(1) by (simp add: sel)
  then have m': "sdram_access a len w now host m = Some (m', nat ((free - d) * freq_ratio m mod 2 ^ 32))"
    using acc by (simp only: sel)
  have "sdram_ok m'"
    by (rule sdram_ok_upd [OF ok1 h, where x = free]) (simp_all add: sel)
  moreover have "banks m' ! h ! bank_of a = (found_bank d host a m)\<lparr>bk_open := True, bk_row := row_of a\<rparr>"
    using len sel(4) by simp
  ultimately show ?thesis using m' sel by blast
qed

lemma dev_tick_of_ex: "ratio \<noteq> 0 \<Longrightarrow> \<exists>d. dev_tick_of ratio now = Some d"
  by (simp add: dev_tick_of_def)

lemma dev_tick_of_exact:
  assumes "0 < ratio" "ratio < 2 ^ 31" "now < 2 ^ 31"
  shows "dev_tick_of ratio now = Some (int now div ratio)"
proof -
  have r: "ratio mod 2 ^ 32 = ratio" "int now mod 2 ^ 32 = int now" using assms by simp_all
  have "0 \<le> int now div ratio" "int now div ratio \<le> int now"
    using assms zdiv_mono2 [of "int now" 1 ratio] by (simp_all add: pos_imp_zdiv_nonneg_iff)
  moreover have "int now < 2 ^ 31" using assms(3) by simp
  ultimately have "sint (word_of_int (int now div ratio) :: 32 word) = int now div ratio"
    by (simp add: sint_sbintrunc' signed_take_bit_int_eq_self)
  then show ?thesis using assms r by (simp add: dev_tick_of_def)
qed

text \<open>The next refresh is always ahead, at a whole number of periods.\<close>

lemma check_refresh_next:
  "d < next_refresh_tick (check_refresh d m)"
  "REFRESH_PERIOD dvd next_refresh_tick (check_refresh d m) - next_refresh_tick m"
  "next_refresh_tick m \<le> d \<Longrightarrow> next_refresh_tick (check_refresh d m) \<le> d + REFRESH_PERIOD"
proof -
  let ?k = "(d - next_refresh_tick m) div REFRESH_PERIOD"
  have m: "(d - next_refresh_tick m) = REFRESH_PERIOD * ?k + (d - next_refresh_tick m) mod REFRESH_PERIOD"
    by simp
  have b: "0 \<le> (d - next_refresh_tick m) mod REFRESH_PERIOD" "(d - next_refresh_tick m) mod REFRESH_PERIOD < REFRESH_PERIOD"
    by (simp_all add: REFRESH_PERIOD_def)
  have n: "next_refresh_tick m + (?k + 1) * REFRESH_PERIOD = next_refresh_tick m + REFRESH_PERIOD * ?k + REFRESH_PERIOD"
    by (simp add: algebra_simps)
  have lt: "d < next_refresh_tick m + (?k + 1) * REFRESH_PERIOD" and le: "next_refresh_tick m + (?k + 1) * REFRESH_PERIOD \<le> d + REFRESH_PERIOD"
    using m b unfolding n by linarith+
  show "d < next_refresh_tick (check_refresh d m)"
    using lt by (simp add: check_refresh_def Let_def)
  show "REFRESH_PERIOD dvd next_refresh_tick (check_refresh d m) - next_refresh_tick m"
    by (simp add: check_refresh_def Let_def)
  show "next_refresh_tick m \<le> d \<Longrightarrow> next_refresh_tick (check_refresh d m) \<le> d + REFRESH_PERIOD"
    using le by (simp add: check_refresh_def Let_def)
qed

end
