(* ===== verification/RamArbiter.thy ===== *)
theory RamArbiter
  imports Sdram Interface
begin

text \<open>
  src/cacheSim/RamConn.hh and .cc: the memory devices, the address map and the
  RAMArbiter. The arbiter has one read and one write channel; each serves one request
  at a time, and every host has one slot per channel. The completion callback
  hosts\_[i]->recv\_mem\_resp is a parameter of the update: it may send new requests
  back to the arbiter before the next request is picked, as the source allows.
\<close>

section \<open>Devices\<close>

datatype device_model =
    ConstLatency (lat_read: nat) (lat_write: nat)
  | SdramDev sdram

record ram_device =
  dev_model :: device_model
  dev_accesses :: nat
  dev_reads :: nat
  dev_writes :: nat
  dev_total_lat :: nat

definition new_device :: "device_model \<Rightarrow> ram_device" where
  "new_device m = \<lparr>dev_model = m, dev_accesses = 0, dev_reads = 0, dev_writes = 0, dev_total_lat = 0\<rparr>"

text \<open>The second latency defaults to zero, which means the first.\<close>

definition const_latency :: "nat \<Rightarrow> nat \<Rightarrow> device_model" where
  "const_latency lr lw = ConstLatency lr (if lw \<noteq> 0 then lw else lr)"

fun latency_impl :: "device_model \<Rightarrow> mem_trans \<Rightarrow> tick_t \<Rightarrow> (device_model \<times> nat) option" where
  "latency_impl (ConstLatency lr lw) req now =
     Some (ConstLatency lr lw, if mt_mop req = Read then lr else lw)"
| "latency_impl (SdramDev m) req now = do {
     assert_that (mt_bst_len req \<ge> 1);
     (m', lat) \<leftarrow> sdram_access (mt_addr req) (int (mt_bst_len req)) (mt_mop req = Write) now (mt_id req) m;
     Some (SdramDev m', lat) }"

definition dev_access :: "mem_trans \<Rightarrow> tick_t \<Rightarrow> ram_device \<Rightarrow> (ram_device \<times> nat) option" where
  "dev_access req now d = do {
     (m, lat) \<leftarrow> latency_impl (dev_model d) req now;
     Some (d\<lparr>dev_model := m, dev_accesses := dev_accesses d + 1,
             dev_reads := dev_reads d + (if mt_mop req = Read then 1 else 0),
             dev_writes := dev_writes d + (if mt_mop req = Read then 0 else 1),
             dev_total_lat := dev_total_lat d + lat\<rparr>, lat) }"

definition dev_reset_stats :: "ram_device \<Rightarrow> ram_device" where
  "dev_reset_stats d =
     d\<lparr>dev_accesses := 0, dev_reads := 0, dev_writes := 0, dev_total_lat := 0,
       dev_model := (case dev_model d of
                       SdramDev m \<Rightarrow> SdramDev (sdram_reset_stats m)
                     | ConstLatency lr lw \<Rightarrow> ConstLatency lr lw)\<rparr>"

section \<open>The address map\<close>

record addr_map_entry =
  am_lo :: addr_t
  am_hi :: addr_t
  am_device :: nat

definition contains :: "addr_map_entry \<Rightarrow> addr_t \<Rightarrow> bool" where
  "contains e a \<longleftrightarrow> a \<ge> am_lo e \<and> a \<le> am_hi e"

fun device_of_map :: "addr_map_entry list \<Rightarrow> nat \<Rightarrow> addr_t \<Rightarrow> nat" where
  "device_of_map [] dflt a = dflt"
| "device_of_map (e # es) dflt a = (if contains e a then am_device e else device_of_map es dflt a)"

section \<open>The arbiter\<close>

definition NO_ID :: nat where
  "NO_ID = 65535"

record arbiter =
  r_serving_id :: nat
  w_serving_id :: nat
  r_busy_until :: tick_t
  w_busy_until :: tick_t
  num_hosts :: nat
  devices :: "ram_device list"
  addr_map :: "addr_map_entry list"
  default_device :: nat
  reqs_rd :: "mem_trans option list"
  reqs_wr :: "mem_trans option list"
  host_rd :: "nat list"
  host_wr :: "nat list"
  host_dev :: "nat list list"

definition new_arbiter :: "nat \<Rightarrow> ram_device list \<Rightarrow> addr_map_entry list \<Rightarrow> nat \<Rightarrow> arbiter option" where
  "new_arbiter nh devs amap dflt = do {
     assert_that (nh \<noteq> 0);
     assert_that (devs \<noteq> []);
     assert_that (dflt < length devs);
     Some \<lparr>r_serving_id = NO_ID, w_serving_id = NO_ID, r_busy_until = InfTime,
           w_busy_until = InfTime, num_hosts = nh, devices = devs, addr_map = amap,
           default_device = dflt, reqs_rd = replicate nh None, reqs_wr = replicate nh None,
           host_rd = replicate nh 0, host_wr = replicate nh 0,
           host_dev = replicate nh (replicate (length devs) 0)\<rparr> }"

definition device_of :: "arbiter \<Rightarrow> addr_t \<Rightarrow> nat" where
  "device_of m a = device_of_map (addr_map m) (default_device m) a"

definition lat_of :: "tick_t \<Rightarrow> mem_trans \<Rightarrow> arbiter \<Rightarrow> (arbiter \<times> nat) option" where
  "lat_of now req m = do {
     let h = mt_id req;
     assert_that (h < num_hosts m);
     let did = device_of m (mt_addr req);
     assert_that (did < length (devices m));
     let m1 = (if mt_mop req = Read
               then m\<lparr>host_rd := (host_rd m)[h := host_rd m ! h + 1]\<rparr>
               else m\<lparr>host_wr := (host_wr m)[h := host_wr m ! h + 1]\<rparr>);
     let m2 = m1\<lparr>host_dev := (host_dev m1)[h := (host_dev m1 ! h)[did := host_dev m1 ! h ! did + 1]]\<rparr>;
     (d, lat) \<leftarrow> dev_access req now (devices m2 ! did);
     Some (m2\<lparr>devices := (devices m2)[did := d]\<rparr>, lat) }"

definition arb_recv_req :: "tick_t \<Rightarrow> mem_trans \<Rightarrow> arbiter \<Rightarrow> arbiter option" where
  "arb_recv_req now req m =
     (let i = mt_id req in
      if mt_mop req = Read then do {
        e \<leftarrow> at (reqs_rd m) i;
        assert_that (e = None);
        if r_busy_until m = InfTime then do {
          (m', lat) \<leftarrow> lat_of now req m;
          Some (m'\<lparr>reqs_rd := (reqs_rd m')[i := Some (req\<lparr>mt_lat := lat\<rparr>)],
                   r_busy_until := now + lat, r_serving_id := i\<rparr>) }
        else Some (m\<lparr>reqs_rd := (reqs_rd m)[i := Some req]\<rparr>) }
      else do {
        e \<leftarrow> at (reqs_wr m) i;
        assert_that (e = None);
        if w_busy_until m = InfTime then do {
          (m', lat) \<leftarrow> lat_of now req m;
          Some (m'\<lparr>reqs_wr := (reqs_wr m')[i := Some (req\<lparr>mt_lat := lat\<rparr>)],
                   w_busy_until := now + lat, w_serving_id := i\<rparr>) }
        else Some (m\<lparr>reqs_wr := (reqs_wr m)[i := Some req]\<rparr>) })"

fun recv_all :: "tick_t \<Rightarrow> mem_trans list \<Rightarrow> arbiter \<Rightarrow> arbiter option" where
  "recv_all now [] m = Some m"
| "recv_all now (r # rs) m = do { m' \<leftarrow> arb_recv_req now r m; recv_all now rs m' }"

text \<open>The search from the last host down to the first: a later host has priority.\<close>

fun last_pending :: "mem_trans option list \<Rightarrow> nat option" where
  "last_pending [] = None"
| "last_pending (x # xs) =
     (case last_pending xs of
        Some i \<Rightarrow> Some (Suc i)
      | None \<Rightarrow> (if x \<noteq> None then Some 0 else None))"

definition pick_read :: "tick_t \<Rightarrow> arbiter \<Rightarrow> arbiter option" where
  "pick_read now m0 = do {
     let m = m0\<lparr>r_busy_until := InfTime, r_serving_id := NO_ID\<rparr>;
     (case last_pending (reqs_rd m) of
        None \<Rightarrow> Some m
      | Some i \<Rightarrow> do {
          req \<leftarrow> reqs_rd m ! i;
          (m', lat) \<leftarrow> lat_of now req (m\<lparr>r_serving_id := mt_id req\<rparr>);
          Some (m'\<lparr>reqs_rd := (reqs_rd m')[i := Some (req\<lparr>mt_lat := lat\<rparr>)],
                   r_busy_until := now + 1 + lat\<rparr>) }) }"

definition pick_write :: "tick_t \<Rightarrow> arbiter \<Rightarrow> arbiter option" where
  "pick_write now m0 = do {
     let m = m0\<lparr>w_busy_until := InfTime, w_serving_id := NO_ID\<rparr>;
     (case last_pending (reqs_wr m) of
        None \<Rightarrow> Some m
      | Some i \<Rightarrow> do {
          req \<leftarrow> reqs_wr m ! i;
          (m', lat) \<leftarrow> lat_of now req (m\<lparr>w_serving_id := mt_id req\<rparr>);
          Some (m'\<lparr>reqs_wr := (reqs_wr m')[i := Some (req\<lparr>mt_lat := lat\<rparr>)],
                   w_busy_until := now + 1 + lat\<rparr>) }) }"

text \<open>The callback takes the response and the hosts, and returns the requests they send at once.\<close>

type_synonym 'h host_cb = "nat \<Rightarrow> mem_trans \<Rightarrow> 'h \<Rightarrow> ('h \<times> mem_trans list) option"

definition complete_read :: "'h host_cb \<Rightarrow> tick_t \<Rightarrow> arbiter \<times> 'h \<Rightarrow> (arbiter \<times> 'h) option" where
  "complete_read cb now mh = do {
     let (m, h) = mh;
     if r_busy_until m \<le> now \<and> r_serving_id m \<noteq> NO_ID then do {
       slot \<leftarrow> at (reqs_rd m) (r_serving_id m);
       rd \<leftarrow> slot;
       assert_that (r_serving_id m < num_hosts m);
       (h', rs) \<leftarrow> cb (r_serving_id m) (rd\<lparr>mt_dir := Resp\<rparr>) h;
       m1 \<leftarrow> recv_all now rs (m\<lparr>reqs_rd := (reqs_rd m)[r_serving_id m := None]\<rparr>);
       m2 \<leftarrow> pick_read now m1;
       Some (m2, h') }
     else Some (m, h) }"

definition complete_write :: "'h host_cb \<Rightarrow> tick_t \<Rightarrow> arbiter \<times> 'h \<Rightarrow> (arbiter \<times> 'h) option" where
  "complete_write cb now mh = do {
     let (m, h) = mh;
     if w_busy_until m \<le> now \<and> w_serving_id m \<noteq> NO_ID then do {
       slot \<leftarrow> at (reqs_wr m) (w_serving_id m);
       wr \<leftarrow> slot;
       assert_that (w_serving_id m < num_hosts m);
       (h', rs) \<leftarrow> cb (w_serving_id m) (wr\<lparr>mt_dir := Resp\<rparr>) h;
       m1 \<leftarrow> recv_all now rs (m\<lparr>reqs_wr := (reqs_wr m)[w_serving_id m := None]\<rparr>);
       m2 \<leftarrow> pick_write now m1;
       Some (m2, h') }
     else Some (m, h) }"

definition arb_update_impl :: "'h host_cb \<Rightarrow> tick_t \<Rightarrow> arbiter \<times> 'h \<Rightarrow> (arbiter \<times> 'h) option" where
  "arb_update_impl cb now mh = do {
     mh1 \<leftarrow> complete_read cb now mh;
     complete_write cb now mh1 }"

definition arb_next_update :: "arbiter \<Rightarrow> tick_t" where
  "arb_next_update m = min (r_busy_until m) (w_busy_until m)"

definition arb_do_update :: "'h host_cb \<Rightarrow> tick_t \<Rightarrow> arbiter \<times> 'h \<Rightarrow> (arbiter \<times> 'h) option" where
  "arb_do_update cb now mh =
     (if arb_next_update (fst mh) \<le> now then arb_update_impl cb now mh else Some mh)"

definition arb_reset_stats :: "arbiter \<Rightarrow> arbiter" where
  "arb_reset_stats m =
     m\<lparr>host_rd := map (\<lambda>_. 0) (host_rd m), host_wr := map (\<lambda>_. 0) (host_wr m),
       host_dev := map (map (\<lambda>_. 0)) (host_dev m), devices := map dev_reset_stats (devices m)\<rparr>"

end
