(* ===== verification/TraceProps.thy ===== *)
theory TraceProps
  imports Trace Ifq
begin

text \<open>
  The trace reader, the sanitizer and the fetch queue: a trace file is read back as it was
  written, the sanitizer's categories are a partition, and the ring buffer is a bounded FIFO.
\<close>

section \<open>Reading a trace\<close>

text \<open>The records the reader delivers until next returns false.\<close>

function read_trace :: "8 word list \<Rightarrow> trace_inst list" where
  "read_trace bs = (case next_inst bs of None \<Rightarrow> [] | Some (t, rest) \<Rightarrow> t # read_trace rest)"
  by pat_completeness auto
termination
  by (relation "measure length") (auto simp: next_inst_def inst_bytes_def split: if_splits)

declare read_trace.simps [simp del]

lemma read_trace_Cons: "byte_fields t \<Longrightarrow> read_trace (encode_inst t @ bs) = t # read_trace bs"
  by (subst read_trace.simps) (simp add: next_inst_def decode_encode_inst)

lemma read_trace_Nil: "length bs < inst_bytes \<Longrightarrow> read_trace bs = []"
  by (subst read_trace.simps) (simp add: next_inst_def)

text \<open>
  (C35) Reading back a trace gives the instructions that were written, in order, and stops at
  the end of the file; a last record that was cut off is not delivered.
\<close>

theorem trace_roundtrip:
  assumes "\<forall>t\<in>set ts. byte_fields t" and "length rest < 16"
  shows "read_trace (concat (map encode_inst ts) @ rest) = ts"
  using assms(1) by (induction ts) (simp_all add: read_trace_Cons read_trace_Nil assms(2) inst_bytes_def)

theorem trace_roundtrip_witness:
  "read_trace (concat (map encode_inst [inst_zero\<lparr>ti_pc := 0x30000000, ti_dst_reg := 7\<rparr>, inst_zero]) @ [1, 2, 3]) =
    [inst_zero\<lparr>ti_pc := 0x30000000, ti_dst_reg := 7\<rparr>, inst_zero]"
  by (rule trace_roundtrip) (simp_all add: byte_fields_def inst_zero_def)

section \<open>The sanitizer\<close>

lemma record_inst_totals:
  assumes "ti_mem_op t \<le> MemStore" and "ti_is_branch t \<longrightarrow> ti_mem_op t = MemNone"
    and "san_loads s + san_stores s + san_branches s + san_alu s = san_total s"
    and "san_br_taken s + san_br_not_taken s = san_branches s"
  shows "san_loads (record_inst t s) + san_stores (record_inst t s) + san_branches (record_inst t s) +
      san_alu (record_inst t s) = san_total (record_inst t s)"
    and "san_br_taken (record_inst t s) + san_br_not_taken (record_inst t s) = san_branches (record_inst t s)"
proof -
  have "ti_mem_op t = MemNone \<or> ti_mem_op t = MemLoad \<or> ti_mem_op t = MemStore"
    using assms(1) by (auto simp: op_codes)
  then show "san_loads (record_inst t s) + san_stores (record_inst t s) + san_branches (record_inst t s) +
      san_alu (record_inst t s) = san_total (record_inst t s)"
    using assms(2,3) by (auto simp: record_inst_def count_if_def op_codes)
  show "san_br_taken (record_inst t s) + san_br_not_taken (record_inst t s) = san_branches (record_inst t s)"
    using assms(4) by (simp add: record_inst_def count_if_def)
qed

text \<open>
  Over a trace whose memory operations are none, load or store and whose branches do not
  access memory, the sanitizer counts every instruction once: loads, stores, branches and ALU
  instructions add up to the total, and taken and not-taken branches to the branches.
\<close>

lemma sanitizer_partition:
  assumes "\<forall>t\<in>set ts. ti_mem_op t \<le> MemStore \<and> (ti_is_branch t \<longrightarrow> ti_mem_op t = MemNone)"
  shows "san_total (fold record_inst ts san_zero) = length ts \<and>
    san_loads (fold record_inst ts san_zero) + san_stores (fold record_inst ts san_zero) +
      san_branches (fold record_inst ts san_zero) + san_alu (fold record_inst ts san_zero) = length ts \<and>
    san_br_taken (fold record_inst ts san_zero) + san_br_not_taken (fold record_inst ts san_zero) =
      san_branches (fold record_inst ts san_zero)"
proof -
  have "san_total (fold record_inst ts s) = san_total s + length ts \<and>
      san_loads (fold record_inst ts s) + san_stores (fold record_inst ts s) +
        san_branches (fold record_inst ts s) + san_alu (fold record_inst ts s) = san_total (fold record_inst ts s) \<and>
      san_br_taken (fold record_inst ts s) + san_br_not_taken (fold record_inst ts s) = san_branches (fold record_inst ts s)"
    if "san_loads s + san_stores s + san_branches s + san_alu s = san_total s"
      "san_br_taken s + san_br_not_taken s = san_branches s" for s
    using assms that
  proof (induction ts arbitrary: s)
    case (Cons t ts)
    have t: "ti_mem_op t \<le> MemStore" "ti_is_branch t \<longrightarrow> ti_mem_op t = MemNone" using Cons.prems(1) by simp_all
    have "san_total (record_inst t s) = san_total s + 1" by (simp add: record_inst_def)
    then show ?case
      using Cons.IH [OF _ record_inst_totals [OF t Cons.prems(2,3)]] Cons.prems(1) by simp
  qed simp
  from this [of san_zero] show ?thesis by (simp add: san_zero_def)
qed

section \<open>The fetch queue\<close>

datatype 'a queue_op = Push 'a | Pop | Clear

text \<open>The queue as a list of at most cap elements: the specification.\<close>

fun spec_op :: "nat \<Rightarrow> 'a queue_op \<Rightarrow> 'a list \<Rightarrow> 'a list option" where
  "spec_op cap (Push x) xs = (if length xs < cap then Some (xs @ [x]) else None)"
| "spec_op cap Pop xs = (case xs of [] \<Rightarrow> None | _ # ys \<Rightarrow> Some ys)"
| "spec_op cap Clear xs = Some []"

fun ring_op :: "'a queue_op \<Rightarrow> 'a ring \<Rightarrow> 'a ring option" where
  "ring_op (Push x) r = rb_push_back x r"
| "ring_op Pop r = rb_pop_front r"
| "ring_op Clear r = Some (rb_clear r)"

fun run_ops :: "('o \<Rightarrow> 's \<Rightarrow> 's option) \<Rightarrow> 'o list \<Rightarrow> 's \<Rightarrow> 's option" where
  "run_ops f [] s = Some s"
| "run_ops f (x # xs) s = do { s1 \<leftarrow> f x s; run_ops f xs s1 }"

lemma ring_op_refines:
  assumes "ring_ok r"
  shows "map_option rb_list (ring_op x r) = spec_op (rb_cap r) x (rb_list r) \<and>
    (\<forall>r'. ring_op x r = Some r' \<longrightarrow> ring_ok r' \<and> rb_cap r' = rb_cap r)"
proof (cases x)
  case (Push y)
  then show ?thesis
    using ifq.push_defined [OF assms, of y] ifq.pushE [OF _ assms, of y]
    by (cases "rb_push_back y r") auto
next
  case Pop
  show ?thesis
  proof (cases "rb_list r = []")
    case True
    then show ?thesis using Pop ifq.pop_empty [OF assms] by simp
  next
    case False
    then obtain r' where "rb_pop_front r = Some r'" "ring_ok r'" "rb_list r' = tl (rb_list r)" "rb_cap r' = rb_cap r"
      using ifq.pop_ok [OF assms] by blast
    then show ?thesis using Pop False by (simp add: neq_Nil_conv split: list.split)
  qed
next
  case Clear
  then show ?thesis using ifq.clear_ok [OF assms] by simp
qed

text \<open>
  (C34) The ring buffer of the fetch queue refines a bounded FIFO: any sequence of pushes, pops
  and clears does on the buffer what it does on the list of its entries, it is refused exactly
  when the list specification refuses it, and the head and tail indices stay consistent.
\<close>

theorem ring_refines_fifo:
  assumes "ring_ok r"
  shows "map_option rb_list (run_ops ring_op ops r) = run_ops (spec_op (rb_cap r)) ops (rb_list r)"
  using assms
proof (induction ops arbitrary: r)
  case (Cons x ops)
  note step = ring_op_refines [OF Cons.prems, of x]
  show ?case
  proof (cases "ring_op x r")
    case None
    then show ?thesis using step by simp
  next
    case (Some r')
    then have "ring_ok r'" "rb_cap r' = rb_cap r" "spec_op (rb_cap r) x (rb_list r) = Some (rb_list r')"
      using step by auto
    then show ?thesis using Cons.IH [of r'] Some by simp
  qed
qed simp

theorem ring_refines_fifo_witness:
  "map_option rb_list (run_ops ring_op [Push 1, Push 2, Pop, Push 3] (new_ring 2)) =
    run_ops (spec_op (rb_cap (new_ring 2 :: nat ring))) [Push (1::nat), Push 2, Pop, Push 3] (rb_list (new_ring 2))"
  by (rule ring_refines_fifo) (rule new_ring_ok, simp)

end
