(* ===== verification/System.thy ===== *)
theory System
  imports Config CacheMem Uncached PipeStages RamArbiter TraceProps
begin

text \<open>
  src/main.cc: the machine that main builds and its simulation loop. The machine holds the
  clock, the core with its branch unit, the instruction cache (host 0), the data port (host 1),
  the bypass port (host 2) and the arbiter; the pointers between them are the host numbers
  and the two handlers to the core. A callback reaches its receiver through the functions
  below: core handlers never call a port, so what an operation reports is delivered right
  after it, in the order of the calls.
\<close>

section \<open>The machine\<close>

text \<open>A data cache of size zero is replaced by the plain port.\<close>

datatype dport = DCache pipe_cache | DPlain no_cache

record machine =
  m_tick :: tick_t
  m_core :: pipeline
  m_icache :: pipe_cache
  m_dcache :: dport
  m_bypass :: no_cache
  m_mem :: arbiter

definition dport_ready :: "dport \<Rightarrow> bool \<times> bool" where
  "dport_ready d = (case d of DCache c \<Rightarrow> pc_is_ready c | DPlain c \<Rightarrow> nc_is_ready c)"

text \<open>What the core sees of the machine: the clock and is\_ready of its three ports.\<close>

definition main_env :: "machine \<Rightarrow> penv" where
  "main_env m = \<lparr>now = m_tick m, imem_ready = fst (pc_is_ready (m_icache m)),
                 dmem_ready = dport_ready (m_dcache m), nc_ready = Some (nc_is_ready (m_bypass m))\<rparr>"

text \<open>The handlers cpu\_rsp and cpu\_ack, and mem\_side\_->recv\_req.\<close>

fun deliver :: "cache_event \<Rightarrow> machine \<Rightarrow> machine option" where
  "deliver (CpuResp r) m = do {
     p \<leftarrow> recv_mem_resp (main_env m) (ct_id r) (ct_mop r = Write) (m_core m);
     Some (m\<lparr>m_core := p\<rparr>) }"
| "deliver (CpuAck a) m = do {
     p \<leftarrow> ack_mem_avail (main_env m) (ack_id a) (m_core m);
     Some (m\<lparr>m_core := p\<rparr>) }"
| "deliver (MemReq q) m = do {
     a \<leftarrow> arb_recv_req (m_tick m) q (m_mem m);
     Some (m\<lparr>m_mem := a\<rparr>) }"

fun deliver_all :: "cache_event list \<Rightarrow> machine \<Rightarrow> machine option" where
  "deliver_all [] m = Some m"
| "deliver_all (ev # evs) m = do { m' \<leftarrow> deliver ev m; deliver_all evs m' }"

section \<open>The memory\<close>

text \<open>
  hosts\_.at(i)->recv\_mem\_resp: the answers a plain port passes on to the core are delivered,
  the requests it sends go back to the arbiter, which is in the middle of its update.
\<close>

definition to_core :: "cache_event list \<Rightarrow> cache_event list" where
  "to_core evs = filter (\<lambda>ev. \<not> is_MemReq ev) evs"

definition host_resp :: "machine host_cb" where
  "host_resp i t m =
     (if i = 0 then do {
        c \<leftarrow> pc_recv_mem_resp (m_tick m) t (m_icache m);
        Some (m\<lparr>m_icache := c\<rparr>, []) }
      else if i = 1 then
        (case m_dcache m of
           DCache c0 \<Rightarrow> do {
             c \<leftarrow> pc_recv_mem_resp (m_tick m) t c0;
             Some (m\<lparr>m_dcache := DCache c\<rparr>, []) }
         | DPlain c0 \<Rightarrow> do {
             (c, evs) \<leftarrow> nc_recv_mem_resp t c0;
             m1 \<leftarrow> deliver_all (to_core evs) (m\<lparr>m_dcache := DPlain c\<rparr>);
             Some (m1, mem_reqs evs) })
      else if i = 2 then do {
        (c, evs) \<leftarrow> nc_recv_mem_resp t (m_bypass m);
        m1 \<leftarrow> deliver_all (to_core evs) (m\<lparr>m_bypass := c\<rparr>);
        Some (m1, mem_reqs evs) }
      else None)"

definition mem_update :: "machine \<Rightarrow> machine option" where
  "mem_update m = do {
     (a, m1) \<leftarrow> arb_do_update host_resp (m_tick m) (m_mem m, m);
     Some (m1\<lparr>m_mem := a\<rparr>) }"

section \<open>The caches\<close>

definition nc_do_update :: "tick_t \<Rightarrow> no_cache \<Rightarrow> no_cache" where
  "nc_do_update t c = (if nc_next_update c \<le> t then nc_update_impl c else c)"

definition bypass_update :: "machine \<Rightarrow> machine option" where
  "bypass_update m = Some (m\<lparr>m_bypass := nc_do_update (m_tick m) (m_bypass m)\<rparr>)"

definition dcache_update :: "machine \<Rightarrow> machine option" where
  "dcache_update m =
     (case m_dcache m of
        DCache c0 \<Rightarrow> do {
          (c, evs) \<leftarrow> pc_do_update (m_tick m) c0;
          deliver_all evs (m\<lparr>m_dcache := DCache c\<rparr>) }
      | DPlain c \<Rightarrow> Some (m\<lparr>m_dcache := DPlain (nc_do_update (m_tick m) c)\<rparr>))"

definition icache_update :: "machine \<Rightarrow> machine option" where
  "icache_update m = do {
     (c, evs) \<leftarrow> pc_do_update (m_tick m) (m_icache m);
     deliver_all evs (m\<lparr>m_icache := c\<rparr>) }"

section \<open>The core\<close>

text \<open>The calls read\_req and write\_req the core has made on its ports, in their order.\<close>

fun send_req :: "port_req \<Rightarrow> machine \<Rightarrow> machine option" where
  "send_req (ImemRead a) m = do {
     c \<leftarrow> pc_read_req (m_tick m) a (m_icache m);
     Some (m\<lparr>m_icache := c\<rparr>) }"
| "send_req (LsuRead DmemPort a) m =
     (case m_dcache m of
        DCache c0 \<Rightarrow> do {
          c \<leftarrow> pc_read_req (m_tick m) a c0;
          Some (m\<lparr>m_dcache := DCache c\<rparr>) }
      | DPlain c0 \<Rightarrow> do {
          (c, evs) \<leftarrow> nc_read_req a c0;
          deliver_all evs (m\<lparr>m_dcache := DPlain c\<rparr>) })"
| "send_req (LsuWrite DmemPort a d s) m =
     (case m_dcache m of
        DCache c0 \<Rightarrow> do {
          (c, evs) \<leftarrow> pc_write_req (m_tick m) a d s c0;
          deliver_all evs (m\<lparr>m_dcache := DCache c\<rparr>) }
      | DPlain c0 \<Rightarrow> do {
          (c, evs) \<leftarrow> nc_write_req a d s c0;
          deliver_all evs (m\<lparr>m_dcache := DPlain c\<rparr>) })"
| "send_req (LsuRead NcPort a) m = do {
     (c, evs) \<leftarrow> nc_read_req a (m_bypass m);
     deliver_all evs (m\<lparr>m_bypass := c\<rparr>) }"
| "send_req (LsuWrite NcPort a d s) m = do {
     (c, evs) \<leftarrow> nc_write_req a d s (m_bypass m);
     deliver_all evs (m\<lparr>m_bypass := c\<rparr>) }"

fun send_all :: "port_req list \<Rightarrow> machine \<Rightarrow> machine option" where
  "send_all [] m = Some m"
| "send_all (r # rs) m = do { m' \<leftarrow> send_req r m; send_all rs m' }"

definition with_core :: "pipeline \<Rightarrow> machine \<Rightarrow> machine option" where
  "with_core p m = send_all (port_reqs p) (m\<lparr>m_core := p\<lparr>port_reqs := []\<rparr>\<rparr>)"

definition core_do_update :: "machine \<Rightarrow> machine option" where
  "core_do_update m = do { p \<leftarrow> pipe_do_update (main_env m) (m_core m); with_core p m }"

definition core_feed :: "trace_inst \<Rightarrow> machine \<Rightarrow> machine option" where
  "core_feed i m = do { p \<leftarrow> feed_inst (main_env m) i (m_core m); with_core p m }"

text \<open>The loop over devlist, bottom-up.\<close>

definition update_devices :: "machine \<Rightarrow> machine option" where
  "update_devices m = do {
     m1 \<leftarrow> mem_update m;
     m2 \<leftarrow> bypass_update m1;
     m3 \<leftarrow> dcache_update m2;
     m4 \<leftarrow> icache_update m3;
     core_do_update m4 }"

section \<open>The simulation\<close>

record simulation =
  mach :: machine
  sim_input :: "8 word list"
  sim_inst :: trace_inst
  has_next :: bool
  stop_after_dump :: bool
  inst_cnt :: nat
  dump_cnt :: nat
  sanitizer :: sanitizer
  sanitizer_all :: sanitizer

definition drain_core :: "machine \<Rightarrow> machine" where
  "drain_core m = m\<lparr>m_core := set_draining (m_core m)\<rparr>"

text \<open>Taking the next record of the trace when the core has room for it.\<close>

definition feed_phase :: "sim_config \<Rightarrow> simulation \<Rightarrow> simulation option" where
  "feed_phase cfg s =
     (if \<not> inst_avail (m_core (mach s)) then Some s
      else if \<not> stop_after_dump s \<and> has_next s \<and> inst_cnt s < max_insts cfg then
        (case next_inst (sim_input s) of
           None \<Rightarrow> Some (s\<lparr>has_next := False, mach := drain_core (mach s)\<rparr>)
         | Some (i, rest) \<Rightarrow> do {
             m \<leftarrow> core_feed i (mach s);
             Some (s\<lparr>mach := m, sim_input := rest, sim_inst := i, inst_cnt := inst_cnt s + 1,
                     sanitizer := record_inst i (sanitizer s), sanitizer_all := record_inst i (sanitizer_all s)\<rparr>) })
      else Some (s\<lparr>mach := drain_core (mach s)\<rparr>))"

definition set_global_tick :: "tick_t \<Rightarrow> machine \<Rightarrow> machine option" where
  "set_global_tick t m = do { assert_that (t \<ge> m_tick m); Some (m\<lparr>m_tick := t\<rparr>) }"

text \<open>reset\_stats of every object of simlist; the prefetcher of the instruction cache is one.\<close>

definition reset_cache_stats :: "'a cache_scheme \<Rightarrow> 'a cache_scheme" where
  "reset_cache_stats c = c\<lparr>stats := cs_reset_stats (stats c)\<rparr>"

definition reset_all_stats :: "machine \<Rightarrow> machine" where
  "reset_all_stats m =
     (let ic = reset_cache_stats (m_icache m);
          p = pipe_reset_stats (m_tick m) ((m_core m)\<lparr>bpu := unit_reset_stats (bpu (m_core m))\<rparr>)
      in m\<lparr>m_mem := arb_reset_stats (m_mem m),
           m_bypass := reset_cache_stats (m_bypass m),
           m_dcache := (case m_dcache m of DCache c \<Rightarrow> DCache (reset_cache_stats c)
                                         | DPlain c \<Rightarrow> DPlain (reset_cache_stats c)),
           m_icache := ic\<lparr>prefetcher := map_option pf_reset_stats (prefetcher ic)\<rparr>,
           m_core := p\<rparr>)"

definition flush_caches :: "machine \<Rightarrow> machine" where
  "flush_caches m =
     m\<lparr>m_icache := pc_flush_all (m_icache m),
       m_dcache := (case m_dcache m of DCache c \<Rightarrow> DCache (pc_flush_all c) | DPlain c \<Rightarrow> DPlain (nc_flush_all c)),
       m_bypass := nc_flush_all (m_bypass m)\<rparr>"

text \<open>The marker instructions; printing is left out.\<close>

definition sys_phase :: "simulation \<Rightarrow> simulation option" where
  "sys_phase s =
     (let op = ti_sys_op (sim_inst s); s1 = s\<lparr>sim_inst := (sim_inst s)\<lparr>ti_sys_op := SysNone\<rparr>\<rparr>
      in if op = SysResetStats then
           Some (s1\<lparr>mach := reset_all_stats (mach s1), sanitizer := san_reset (sanitizer s1)\<rparr>)
         else if op = SysFenceI then do {
           m1 \<leftarrow> icache_update (flush_caches (mach s1));
           m2 \<leftarrow> dcache_update m1;
           m3 \<leftarrow> bypass_update m2;
           Some (s1\<lparr>mach := m3\<rparr>) }
         else if op = SysDumpStats then
           Some (s1\<lparr>dump_cnt := dump_cnt s1 + 1, stop_after_dump := True\<rparr>)
         else Some s)"

definition sim_iter :: "sim_config \<Rightarrow> simulation \<Rightarrow> simulation option" where
  "sim_iter cfg s = do {
     m1 \<leftarrow> update_devices (mach s);
     s1 \<leftarrow> feed_phase cfg (s\<lparr>mach := m1\<rparr>);
     m2 \<leftarrow> set_global_tick (m_tick (mach s1) + 1) (mach s1);
     sys_phase (s1\<lparr>mach := m2\<rparr>) }"

partial_function (option) sim_loop :: "sim_config \<Rightarrow> simulation \<Rightarrow> simulation option" where
  "sim_loop cfg s = do {
     s1 \<leftarrow> sim_iter cfg s;
     if \<not> is_finished (m_core (mach s1)) \<and> m_tick (mach s1) < max_ticks cfg
     then sim_loop cfg s1 else Some s1 }"

declare sim_loop.simps [code]

section \<open>Construction\<close>

definition l1i_pipe_depth :: nat where "l1i_pipe_depth = 2"
definition l1d_pipe_depth :: nat where "l1d_pipe_depth = 1"
definition ifq_size :: nat where "ifq_size = 8"

definition sets_of :: "nat \<Rightarrow> nat \<Rightarrow> nat \<Rightarrow> nat option" where
  "sets_of bytes blk asc = do { assert_that (blk * asc \<noteq> 0); Some (bytes div (blk * asc)) }"

definition build_icache :: "sim_config \<Rightarrow> pipe_cache option" where
  "build_icache c = do {
     n \<leftarrow> sets_of (l1i_size c) (l1i_blksize c) (l1i_assoc c);
     rp \<leftarrow> make_repl_policy (l1i_repl c) (l1i_assoc c) n;
     new_pipe_cache l1i_pipe_depth (l1i_size c) (l1i_blksize c) (l1i_assoc c)
       (make_prefetcher (l1i_pref_type c)) 0 (cfg_sram_dff c) False (l1i_cwf c) 1 (Some rp) }"

text \<open>The store buffer is no longer allowed behind the core: main asserts so.\<close>

definition build_dcache :: "sim_config \<Rightarrow> dport option" where
  "build_dcache c =
     (if l1d_size c > 0 then do {
        n \<leftarrow> sets_of (l1d_size c) (l1d_blksize c) (l1d_assoc c);
        rp \<leftarrow> make_repl_policy (l1d_repl c) (l1d_assoc c) n;
        map_option DCache (new_pipe_cache l1d_pipe_depth (l1d_size c) (l1d_blksize c) (l1d_assoc c)
          (make_prefetcher (l1d_pref_type c)) 1 (cfg_sram_dff c) True False 0 (Some rp)) }
      else if stbuf_entries c = 0 then map_option DPlain (new_no_cache 1)
      else None)"

definition build_devices :: "sim_config \<Rightarrow> ram_device list" where
  "build_devices c =
     [new_device (SdramDev (new_sdram (freq_mhz c))),
      new_device (const_latency (sram_lat c) 0),
      new_device (const_latency (sram_lat c) 0),
      new_device (const_latency (cfg_mmio_lat c mod 2 ^ 32) 0)]"

definition mem_map :: "addr_map_entry list" where
  "mem_map =
     [\<lparr>am_lo = 0x02000000, am_hi = 0x0200ffff, am_device = 2\<rparr>,
      \<lparr>am_lo = 0x0f000000, am_hi = 0x0fffffff, am_device = 1\<rparr>,
      \<lparr>am_lo = 0x30000000, am_hi = 0x3fffffff, am_device = 0\<rparr>,
      \<lparr>am_lo = 0x80000000, am_hi = 0x9fffffff, am_device = 0\<rparr>,
      \<lparr>am_lo = 0xa0000000, am_hi = 0xbfffffff, am_device = 0\<rparr>]"

text \<open>The first argument is the value calc\_nxtupd\_ happens to hold.\<close>

definition build_machine :: "tick_t \<Rightarrow> sim_config \<Rightarrow> machine option" where
  "build_machine nx c0 = do {
     (c, u) \<leftarrow> create_branch_unit c0;
     ic \<leftarrow> build_icache c;
     dc \<leftarrow> build_dcache c;
     bp \<leftarrow> new_no_cache 2;
     a \<leftarrow> new_arbiter 3 (build_devices c) mem_map 3;
     Some \<lparr>m_tick = 0, m_core = new_pipeline ifq_size u (cfg_mmio_lat c) nx, m_icache = ic,
           m_dcache = dc, m_bypass = bp, m_mem = a\<rparr> }"

text \<open>
  A dry run stops before the trace is opened. The record inst has no initial value; the loop
  writes it before it reads it unless the trace is empty.
\<close>

definition start_simulation :: "machine \<Rightarrow> 8 word list \<Rightarrow> trace_inst \<Rightarrow> simulation" where
  "start_simulation m bytes i =
     \<lparr>mach = m, sim_input = bytes, sim_inst = i, has_next = True, stop_after_dump = False,
      inst_cnt = 0, dump_cnt = 0, sanitizer = san_zero, sanitizer_all = san_zero\<rparr>"

definition run_main :: "tick_t \<Rightarrow> sim_config \<Rightarrow> 8 word list \<Rightarrow> trace_inst \<Rightarrow> simulation option option" where
  "run_main nx c bytes i = do {
     m \<leftarrow> build_machine nx c;
     if dry_run c then Some None
     else do {
       s \<leftarrow> sim_loop c (start_simulation m bytes i);
       Some (Some (s\<lparr>dump_cnt := dump_cnt s + 1\<rparr>)) } }"

end
