(* ===== verification/PipeInv.thy ===== *)
theory PipeInv
  imports PipeStages
begin

text \<open>
  The invariant of the core and its preservation by every handler. It says that the
  front end holds the trace instructions in program order with wrong-path placeholders
  only behind a mispredicted branch, that ongoing\_insts counts the trace instructions in
  flight, that the response FIFO matches the waiting fetch-queue entries, and what the
  assertions of the source need.
\<close>

section \<open>The instructions in flight\<close>

definition opt_list :: "'a option \<Rightarrow> 'a list" where
  "opt_list x = (case x of None \<Rightarrow> [] | Some y \<Rightarrow> [y])"

lemma opt_list_simps [simp]: "opt_list None = []" "opt_list (Some x) = [x]"
  by (simp_all add: opt_list_def)

text \<open>Oldest first: the decode slot, the fetch slot, the fetch queue.\<close>

definition front_list :: "pipeline \<Rightarrow> transaction list" where
  "front_list p = opt_list (sim_pipe p Decode) @ opt_list (sim_pipe p Fetch) @ rb_list (fetch_queue p)"

definition back_list :: "pipeline \<Rightarrow> transaction list" where
  "back_list p = opt_list (sim_pipe p Execute) @ opt_list (sim_pipe p IntMulExt) @
     opt_list (sim_pipe p IntDivExt) @ opt_list (sim_pipe p Memory)"

definition real_count :: "transaction list \<Rightarrow> nat" where
  "real_count ts = length (filter counted_inflight ts)"

lemma real_count_simps [simp]:
  "real_count [] = 0" "real_count (t # ts) = (if counted_inflight t then 1 else 0) + real_count ts"
  "real_count (xs @ ys) = real_count xs + real_count ys"
  by (simp_all add: real_count_def)

lemma real_count_le: "real_count ts \<le> length ts"
  by (simp add: real_count_def)

definition in_flight :: "pipeline \<Rightarrow> nat" where
  "in_flight p = real_count (opt_list (input_buffer p)) + real_count (front_list p) + real_count (back_list p)"

section \<open>The invariant\<close>

text \<open>What is known of a transaction wherever it is.\<close>

definition trans_ok :: "transaction \<Rightarrow> bool" where
  "trans_ok t \<longleftrightarrow> inst_ok (tr_inst t) \<and> bht_cnt (tr_br_pred t) \<le> 3 \<and>
     counted_inflight t = (\<not> is_wrong_path t) \<and>
     (is_wrong_path t \<longrightarrow> \<not> ti_is_branch (tr_inst t)) \<and>
     (\<not> ti_is_branch (tr_inst t) \<longrightarrow> tr_br_pred t = no_prediction \<and> \<not> tr_br_mispred t)"

definition on_path :: "transaction \<Rightarrow> bool" where
  "on_path t \<longleftrightarrow> \<not> tr_br_mispred t \<and> \<not> is_wrong_path t"

text \<open>
  While the core follows a wrong path, one mispredicted branch waits in the front end,
  everything older is on the right path and everything younger is a placeholder.
\<close>

fun split_path :: "transaction list \<Rightarrow> bool" where
  "split_path [] = False"
| "split_path (t # ts) =
     (if tr_br_mispred t then \<not> is_wrong_path t \<and> (\<forall>x\<in>set ts. is_wrong_path x)
      else \<not> is_wrong_path t \<and> split_path ts)"

definition path_ok :: "fetch_state \<Rightarrow> transaction list \<Rightarrow> bool" where
  "path_ok f ts \<longleftrightarrow> (wp_flushed f \<longrightarrow> wrong_path f) \<and>
     (if wrong_path f \<and> \<not> wp_flushed f then split_path ts else (\<forall>t\<in>set ts. on_path t))"

text \<open>The entries that wait are the youngest, and each has its place in the FIFO.\<close>

fun waiting_suffix :: "transaction list \<Rightarrow> bool" where
  "waiting_suffix [] = True"
| "waiting_suffix (t # ts) = (if wait_mem t then (\<forall>x\<in>set ts. wait_mem x) else waiting_suffix ts)"

definition n_waiting :: "transaction list \<Rightarrow> nat" where
  "n_waiting ts = length (filter wait_mem ts)"

definition n_expected :: "bool list \<Rightarrow> nat" where
  "n_expected os = length (filter Not os)"

definition resp_ok :: "bool list \<Rightarrow> transaction list \<Rightarrow> bool" where
  "resp_ok os q \<longleftrightarrow> waiting_suffix q \<and> n_expected os = n_waiting q"

definition regs_ok :: "tick_t list \<Rightarrow> bool" where
  "regs_ok r \<longleftrightarrow> length r = 32 \<and> r ! 0 = 0"

definition slot_all :: "(transaction \<Rightarrow> bool) \<Rightarrow> transaction option \<Rightarrow> bool" where
  "slot_all P s = (case s of None \<Rightarrow> True | Some t \<Rightarrow> P t)"

lemma slot_all_simps [simp]: "slot_all P None" "slot_all P (Some t) = P t"
  by (simp_all add: slot_all_def)

text \<open>T bounds the tick of the decode stage while its slot is occupied.\<close>

definition pipe_base :: "tick_t \<Rightarrow> pipeline \<Rightarrow> bool" where
  "pipe_base T p \<longleftrightarrow>
     regs_ok (reg_ready p) \<and> unit_ok (bpu p) \<and>
     ring_ok (fetch_queue p) \<and> rb_cap (fetch_queue p) < 2 ^ 32 \<and>
     sim_pipe p WriteBack = None \<and>
     (\<forall>t\<in>set (front_list p). trans_ok t) \<and> (\<forall>t\<in>set (back_list p). trans_ok t \<and> \<not> is_wrong_path t) \<and>
     slot_all (\<lambda>t. inst_ok (tr_inst t) \<and> \<not> tr_br_mispred t \<and> \<not> is_wrong_path t \<and> counted_inflight t) (input_buffer p) \<and>
     slot_all (\<lambda>t. \<not> wait_mem t) (sim_pipe p Fetch) \<and> slot_all (\<lambda>t. \<not> wait_mem t) (sim_pipe p Decode) \<and>
     resp_ok (resp_is_orphan (fetch_st p)) (rb_list (fetch_queue p)) \<and>
     ongoing_insts p = of_nat (in_flight p) \<and>
     (lsu_waits p \<longrightarrow> sim_pipe p Memory = None) \<and>
     (sim_pipe p Decode \<noteq> None \<longrightarrow> stage_update p Decode \<le> T)"

definition pipe_inv :: "tick_t \<Rightarrow> pipeline \<Rightarrow> bool" where
  "pipe_inv T p \<longleftrightarrow> pipe_base T p \<and> path_ok (fetch_st p) (front_list p)"

lemma pipe_baseD:
  assumes "pipe_base T p"
  shows "regs_ok (reg_ready p)" "unit_ok (bpu p)" "ring_ok (fetch_queue p)" "sim_pipe p WriteBack = None"
    "\<And>t. t \<in> set (front_list p) \<Longrightarrow> trans_ok t" "\<And>t. t \<in> set (back_list p) \<Longrightarrow> trans_ok t \<and> \<not> is_wrong_path t"
    "resp_ok (resp_is_orphan (fetch_st p)) (rb_list (fetch_queue p))"
    "ongoing_insts p = of_nat (in_flight p)" "lsu_waits p \<Longrightarrow> sim_pipe p Memory = None"
  using assms by (simp_all add: pipe_base_def)

lemma pipe_invD: "pipe_inv T p \<Longrightarrow> pipe_base T p" "pipe_inv T p \<Longrightarrow> path_ok (fetch_st p) (front_list p)"
  by (simp_all add: pipe_inv_def)

lemma pipe_base_dec: "pipe_base T p \<Longrightarrow> sim_pipe p Decode = Some y \<Longrightarrow> stage_update p Decode \<le> T"
  by (auto simp: pipe_base_def)

lemma new_pipeline_inv:
  "0 < n \<Longrightarrow> n < 2 ^ 32 \<Longrightarrow> unit_ok u \<Longrightarrow> pipe_inv T (new_pipeline n u lat nx)"
  by (simp add: pipe_inv_def pipe_base_def new_pipeline_def regs_ok_def new_ring_ok new_ring_list front_list_def
      back_list_def path_ok_def resp_ok_def n_expected_def n_waiting_def fetch_state_zero_def in_flight_def
      lsu_waits_def new_ring_def [where n = n, THEN arg_cong [where f = rb_cap]])

section \<open>Operations the invariant does not see\<close>

definition same_view :: "pipeline \<Rightarrow> pipeline \<Rightarrow> bool" where
  "same_view p q \<longleftrightarrow> bpu q = bpu p \<and> fetch_queue q = fetch_queue p \<and> sim_pipe q = sim_pipe p \<and>
     input_buffer q = input_buffer p \<and> ongoing_insts q = ongoing_insts p \<and> fetch_st q = fetch_st p \<and>
     is_draining q = is_draining p \<and> mul_ready_tick q = mul_ready_tick p \<and> div_ready_tick q = div_ready_tick p"

lemma same_viewD:
  assumes "same_view p q"
  shows "bpu q = bpu p" "fetch_queue q = fetch_queue p" "sim_pipe q = sim_pipe p"
    "input_buffer q = input_buffer p" "ongoing_insts q = ongoing_insts p" "fetch_st q = fetch_st p"
    "front_list q = front_list p" "back_list q = back_list p" "in_flight q = in_flight p"
    "lsu_waits q = lsu_waits p"
  using assms by (simp_all add: same_view_def front_list_def back_list_def in_flight_def lsu_waits_def)

lemma same_view_trans: "same_view p q \<Longrightarrow> same_view q r \<Longrightarrow> same_view p r"
  by (simp add: same_view_def)

lemma same_view_refl [simp]: "same_view p p"
  by (simp add: same_view_def)

lemma same_view_base:
  assumes "same_view p q" "pipe_base T p" "regs_ok (reg_ready q)"
    "sim_pipe p Decode \<noteq> None \<longrightarrow> stage_update q Decode \<le> T'"
  shows "pipe_base T' q"
  using assms(2-4) by (simp add: pipe_base_def same_viewD [OF assms(1)])

lemma same_view_inv: "pipe_inv T p \<Longrightarrow> pipe_base T' q \<Longrightarrow> same_view p q \<Longrightarrow> pipe_inv T' q"
  by (simp add: pipe_inv_def same_viewD)

lemma flush_stall_cycles_view [simp]:
  "same_view p (flush_stall_cycles u p)"
  "reg_ready (flush_stall_cycles u p) = reg_ready p"
  "stage_update (flush_stall_cycles u p) = stage_update p"
  "mmio_lat (flush_stall_cycles u p) = mmio_lat p"
  by (simp_all add: same_view_def flush_stall_cycles_def Let_def)

lemma set_stall_view [simp]:
  "same_view p (set_stall e c p)" "reg_ready (set_stall e c p) = reg_ready p"
  "stage_update (set_stall e c p) = stage_update p" "mmio_lat (set_stall e c p) = mmio_lat p"
  using flush_stall_cycles_view(1) [of p "now e"]
  by (simp_all add: same_view_def set_stall_def Let_def)

lemmas flush_stall_sel [simp] = same_viewD [OF flush_stall_cycles_view(1)]

lemmas set_stall_sel [simp] = same_viewD [OF set_stall_view(1)]

lemma set_stall_base [simp]: "pipe_base T p \<Longrightarrow> pipe_base T (set_stall e c p)"
  by (rule same_view_base [of p]) (auto simp: pipe_baseD pipe_base_dec)

lemma set_stall_inv [simp]: "pipe_inv T p \<Longrightarrow> pipe_inv T (set_stall e c p)"
  by (simp add: pipe_inv_def)

lemma stall_unless_inv [simp]: "pipe_inv T p \<Longrightarrow> pipe_inv T (stall_unless e b c p)"
  by (simp add: stall_unless_def)

lemma stall_unless_sel [simp]:
  "sim_pipe (stall_unless e b c p) = sim_pipe p" "stage_update (stall_unless e b c p) = stage_update p"
  "reg_ready (stall_unless e b c p) = reg_ready p" "same_view p (stall_unless e b c p)"
  by (simp_all add: stall_unless_def)

lemma schedule_ex: "now e \<le> t \<Longrightarrow> schedule e s t p = Some (p\<lparr>stage_update := (stage_update p)(s := t)\<rparr>)"
  by (simp add: schedule_def)

lemma schedule_view [simp]: "same_view p (p\<lparr>stage_update := f\<rparr>)" "same_view p (p\<lparr>calc_nxtupd := x\<rparr>)"
  "same_view p (p\<lparr>stage_update := f, calc_nxtupd := x\<rparr>)" "same_view p (p\<lparr>reg_ready := r\<rparr>)"
  "same_view p (request rq p)" "same_view p (p\<lparr>pstats := ps\<rparr>)" "same_view p (calc_sched e p)"
  by (simp_all add: same_view_def request_def calc_sched_def Let_def)

lemma schedule_base:
  "pipe_base T p \<Longrightarrow> s \<noteq> Decode \<or> sim_pipe p Decode = None \<Longrightarrow>
   pipe_base T (p\<lparr>stage_update := (stage_update p)(s := t)\<rparr>)"
  by (rule same_view_base [of p]) (auto simp: pipe_baseD pipe_base_dec)

lemma schedule_ok:
  "pipe_base T p \<Longrightarrow> now e \<le> t \<Longrightarrow> s \<noteq> Decode \<or> sim_pipe p Decode = None \<Longrightarrow>
   \<exists>p'. schedule e s t p = Some p' \<and> pipe_base T p' \<and> same_view p p'"
  by (simp add: schedule_ex schedule_base)

lemma schedule_inv:
  "pipe_inv T p \<Longrightarrow> s \<noteq> Decode \<or> sim_pipe p Decode = None \<Longrightarrow>
   pipe_inv T (p\<lparr>stage_update := (stage_update p)(s := t)\<rparr>)"
  by (rule same_view_inv [of T p T]) (simp_all add: schedule_base pipe_invD(1))

lemma schedule_inv_ok:
  "pipe_inv T p \<Longrightarrow> now e \<le> t \<Longrightarrow> s \<noteq> Decode \<or> sim_pipe p Decode = None \<Longrightarrow>
   \<exists>p'. schedule e s t p = Some p' \<and> pipe_inv T p'"
  by (simp add: schedule_ex schedule_inv)

lemma async_schedule_ex:
  "now e \<le> t \<Longrightarrow> async_schedule e s t p =
     Some (p\<lparr>stage_update := (stage_update p)(s := t), calc_nxtupd := min (calc_nxtupd p) t\<rparr>)"
  by (simp add: async_schedule_def schedule_ex)

lemma base_upd [simp]: "pipe_base T (p\<lparr>calc_nxtupd := x\<rparr>) = pipe_base T p"
  "pipe_base T (request r p) = pipe_base T p" "pipe_base T (p\<lparr>pstats := s\<rparr>) = pipe_base T p"
  "pipe_base T (p\<lparr>mul_ready_tick := m\<rparr>) = pipe_base T p" "pipe_base T (p\<lparr>div_ready_tick := m\<rparr>) = pipe_base T p"
  "pipe_base T (p\<lparr>stall := sa\<rparr>) = pipe_base T p"
  by (simp_all add: pipe_base_def request_def front_list_def back_list_def in_flight_def lsu_waits_def)

lemma front_upd [simp]: "front_list (p\<lparr>calc_nxtupd := x\<rparr>) = front_list p"
  "front_list (request r p) = front_list p" "front_list (p\<lparr>pstats := s\<rparr>) = front_list p"
  "front_list (p\<lparr>mul_ready_tick := m\<rparr>) = front_list p" "front_list (p\<lparr>div_ready_tick := m\<rparr>) = front_list p"
  "front_list (p\<lparr>stall := sa\<rparr>) = front_list p" "fetch_st (request r p) = fetch_st p"
  "front_list (p\<lparr>stage_update := su\<rparr>) = front_list p" "front_list (p\<lparr>bpu := u\<rparr>) = front_list p"
  by (simp_all add: request_def front_list_def)

lemma inv_upd [simp]: "pipe_inv T (p\<lparr>calc_nxtupd := x\<rparr>) = pipe_inv T p"
  "pipe_inv T (request r p) = pipe_inv T p" "pipe_inv T (p\<lparr>pstats := s\<rparr>) = pipe_inv T p"
  "pipe_inv T (p\<lparr>mul_ready_tick := m\<rparr>) = pipe_inv T p" "pipe_inv T (p\<lparr>div_ready_tick := m\<rparr>) = pipe_inv T p"
  "pipe_inv T (p\<lparr>stall := sa\<rparr>) = pipe_inv T p"
  by (simp_all add: pipe_inv_def)

lemma calc_sched_inv [simp]: "pipe_inv T (calc_sched e p) = pipe_inv T p"
  by (simp add: calc_sched_def Let_def)

lemma bpu_base: "pipe_base T p \<Longrightarrow> unit_ok u \<Longrightarrow> pipe_base T (p\<lparr>bpu := u\<rparr>)"
  by (simp add: pipe_base_def front_list_def back_list_def in_flight_def lsu_waits_def)

lemma bpu_inv: "pipe_inv T p \<Longrightarrow> unit_ok u \<Longrightarrow> pipe_inv T (p\<lparr>bpu := u\<rparr>)"
  by (simp add: pipe_inv_def bpu_base)

lemma base_later: "pipe_base T p \<Longrightarrow> T \<le> T' \<Longrightarrow> pipe_base T' p"
  by (auto simp: pipe_base_def)

lemma inv_later: "pipe_inv T p \<Longrightarrow> T \<le> T' \<Longrightarrow> pipe_inv T' p"
  by (auto simp: pipe_inv_def base_later)

section \<open>Registers\<close>

lemma regs_at: "regs_ok r \<Longrightarrow> i < 32 \<Longrightarrow> at r i = Some (r ! i)"
  by (simp add: regs_ok_def)

lemma regs_put: "regs_ok r \<Longrightarrow> 0 < rd \<Longrightarrow> regs_ok (r[rd := t])"
  by (simp add: regs_ok_def nth_list_update)

lemma src_ready_ex:
  "regs_ok (reg_ready p) \<Longrightarrow> inst_ok i \<Longrightarrow>
   src_ready p i = Some (max (reg_ready p ! ti_src0 i) (reg_ready p ! ti_src1 i))"
  by (simp add: src_ready_def regs_at inst_ok_def)

lemma set_reg_time_ex:
  assumes "regs_ok (reg_ready p)" "rd < 32"
  shows "set_reg_time rd t p = Some (if rd = 0 then p else p\<lparr>reg_ready := (reg_ready p)[rd := t]\<rparr>)"
  using assms by (simp add: set_reg_time_def at_put_def regs_ok_def)

lemma fetch_slot_ok: "pipe_base T p \<Longrightarrow> sim_pipe p Fetch = Some t \<Longrightarrow> trans_ok t"
  by (simp add: pipe_base_def front_list_def)

lemma decode_slot_ok: "pipe_base T p \<Longrightarrow> sim_pipe p Decode = Some t \<Longrightarrow> trans_ok t"
  by (simp add: pipe_base_def front_list_def)

lemma execute_slot_ok: "pipe_base T p \<Longrightarrow> sim_pipe p Execute = Some t \<Longrightarrow> trans_ok t \<and> \<not> is_wrong_path t"
  by (simp add: pipe_base_def back_list_def)

lemma update_reg_time_ok:
  assumes p: "pipe_base T p" and rd: "rd < 32" and T: "T < InfTime"
  shows "\<exists>p'. update_reg_time e rd t p = Some p' \<and> pipe_base T p' \<and> same_view p p'"
proof -
  define p1 where "p1 = (if rd = 0 then p else p\<lparr>reg_ready := (reg_ready p)[rd := t]\<rparr>)"
  have s1: "set_reg_time rd t p = Some p1"
    using p rd by (simp add: set_reg_time_ex pipe_baseD p1_def)
  have v1: "same_view p p1" "stage_update p1 = stage_update p" by (simp_all add: p1_def)
  have r1: "regs_ok (reg_ready p1)"
    using p by (simp add: p1_def pipe_baseD regs_put)
  have b1: "pipe_base T p1"
    by (rule same_view_base [OF v1(1) p r1]) (auto simp: v1 pipe_base_dec [OF p])
  have "\<exists>p2. wake_decode e p1 = Some p2 \<and> pipe_base T p2 \<and> same_view p1 p2 \<and> reg_ready p2 = reg_ready p1"
  proof (cases "sim_pipe p1 Fetch")
    case None
    then show ?thesis using b1 by (simp add: wake_decode_def)
  next
    case (Some ids)
    then have i: "inst_ok (tr_inst ids)" using b1 fetch_slot_ok by (auto simp: trans_ok_def)
    show ?thesis
    proof (cases "stage_update p1 Decode = InfTime")
      case True
      then have "sim_pipe p1 Decode = None"
        using pipe_base_dec [OF b1] T by (cases "sim_pipe p1 Decode") auto
      then show ?thesis
        using Some True i r1 b1 schedule_base [OF b1, of Decode]
        by (auto simp: wake_decode_def Let_def src_ready_ex schedule_ex)
    qed (use Some b1 in \<open>simp add: wake_decode_def\<close>)
  qed
  then obtain p2 where "wake_decode e p1 = Some p2" "pipe_base T p2" "same_view p1 p2" "reg_ready p2 = reg_ready p1"
    by blast
  then show ?thesis
    using s1 v1(1) r1 by (auto simp: update_reg_time_def regs_ok_def intro: same_view_trans)
qed

section \<open>Wrong paths\<close>

lemma split_path_filter: "split_path ts \<Longrightarrow> \<exists>xs m ys. ts = xs @ m # ys \<and> (\<forall>x\<in>set xs. on_path x) \<and>
    tr_br_mispred m \<and> \<not> is_wrong_path m \<and> (\<forall>y\<in>set ys. is_wrong_path y)"
proof (induction ts)
  case (Cons t ts)
  show ?case
  proof (cases "tr_br_mispred t")
    case True
    then show ?thesis using Cons.prems by (intro exI [of _ "[]"]) auto
  next
    case False
    then obtain xs m ys where "ts = xs @ m # ys" "\<forall>x\<in>set xs. on_path x" "tr_br_mispred m"
        "\<not> is_wrong_path m" "\<forall>y\<in>set ys. is_wrong_path y"
      using Cons by auto
    then show ?thesis using False Cons.prems by (intro exI [of _ "t # xs"]) (auto simp: on_path_def)
  qed
qed simp

lemma path_ok_head: "path_ok f (t # ts) \<Longrightarrow> \<not> is_wrong_path t"
  by (auto simp: path_ok_def on_path_def split: if_splits)

lemma path_ok_mispred: "path_ok f (t # ts) \<Longrightarrow> tr_br_mispred t \<Longrightarrow>
    wrong_path f \<and> \<not> wp_flushed f \<and> (\<forall>x\<in>set ts. is_wrong_path x)"
  by (auto simp: path_ok_def on_path_def split: if_splits)

lemma path_ok_tail: "path_ok f (t # ts) \<Longrightarrow> \<not> tr_br_mispred t \<Longrightarrow> path_ok f ts"
  by (auto simp: path_ok_def split: if_splits)

lemma split_path_snoc: "split_path ts \<Longrightarrow> is_wrong_path t \<Longrightarrow> split_path (ts @ [t])"
  by (induction ts) auto

lemma split_path_enter: "\<forall>x\<in>set ts. on_path x \<Longrightarrow> tr_br_mispred t \<Longrightarrow> \<not> is_wrong_path t \<Longrightarrow> split_path (ts @ [t])"
  by (induction ts) (auto simp: on_path_def)

lemma split_path_drop_wrong: "split_path (xs @ w # ys) \<Longrightarrow> is_wrong_path w \<Longrightarrow> \<not> tr_br_mispred w \<Longrightarrow> split_path (xs @ ys)"
  by (induction xs) auto

text \<open>A prediction is only ever made for a branch, so the false-hit flush never acts.\<close>

lemma flush_false_btb_hit_noop: "trans_ok t \<Longrightarrow> flush_false_btb_hit e t p = Some p"
  by (auto simp: flush_false_btb_hit_def trans_ok_def Let_def no_prediction_def)

end
