(* ===== verification/PipeProofs.thy ===== *)
theory PipeProofs
  imports PipeInv
begin

text \<open>
  Every handler of the core, run from a state that satisfies the invariant, returns and
  keeps it; so does a whole update.
\<close>

section \<open>Write-back\<close>

lemma commit_stall_view [simp]:
  "same_view p (commit_stall e t p)" "reg_ready (commit_stall e t p) = reg_ready p"
  "stage_update (commit_stall e t p) = stage_update p"
  using flush_stall_cycles_view(1) [of p "now e"] by (simp_all add: same_view_def commit_stall_def Let_def)

lemma count_inst_view [simp]:
  "same_view p (count_inst e p)" "reg_ready (count_inst e p) = reg_ready p"
  "stage_update (count_inst e p) = stage_update p"
  by (simp_all add: same_view_def count_inst_def)

lemma put_slot_view: "same_view p q \<Longrightarrow> same_view (put_slot s t p) (put_slot s t q)"
  by (simp add: same_view_def put_slot_def)

lemma put_slot_sel [simp]: "reg_ready (put_slot s t p) = reg_ready p"
  "stage_update (put_slot s t p) = stage_update p" "sim_pipe (put_slot s t p) = (sim_pipe p)(s := t)"
  "fetch_st (put_slot s t p) = fetch_st p" "fetch_queue (put_slot s t p) = fetch_queue p"
  by (simp_all add: put_slot_def)

lemma retire_base:
  assumes p: "pipe_base T p" and t: "sim_pipe p src = Some t" and src: "src \<in> {Memory, IntDivExt, IntMulExt}"
  shows "pipe_base T (put_slot src None (p\<lparr>ongoing_insts := ongoing_insts p - 1\<rparr>))"
    and "front_list (put_slot src None (p\<lparr>ongoing_insts := ongoing_insts p - 1\<rparr>)) = front_list p"
    and "in_flight p = Suc (in_flight (put_slot src None (p\<lparr>ongoing_insts := ongoing_insts p - 1\<rparr>)))"
proof -
  let ?q = "put_slot src None (p\<lparr>ongoing_insts := ongoing_insts p - 1\<rparr>)"
  show f: "front_list ?q = front_list p"
    using src by (auto simp: front_list_def put_slot_def)
  have tb: "t \<in> set (back_list p)"
    using t src by (auto simp: back_list_def)
  then have c: "counted_inflight t" using pipe_baseD(6) [OF p] by (auto simp: trans_ok_def)
  show n: "in_flight p = Suc (in_flight ?q)"
    using t src c f by (auto simp: in_flight_def back_list_def put_slot_def)
  have sub: "set (back_list ?q) \<subseteq> set (back_list p)"
    using src by (auto simp: back_list_def put_slot_def)
  have w: "lsu_waits ?q = lsu_waits p"
    using src by (auto simp: lsu_waits_def put_slot_def)
  have "ongoing_insts ?q = of_nat (in_flight ?q)"
  proof -
    have "ongoing_insts ?q = of_nat (Suc (in_flight ?q)) - 1"
      using pipe_baseD(8) [OF p] n by (simp add: put_slot_def del: of_nat_Suc)
    then show ?thesis by simp
  qed
  then show "pipe_base T ?q"
    using p f sub w src by (auto simp: pipe_base_def put_slot_def)
qed

lemma wb_source_some: "wb_source e p = Some src \<Longrightarrow>
    src \<in> {Memory, IntDivExt, IntMulExt} \<and> (\<exists>t. sim_pipe p src = Some t)"
  by (auto simp: wb_source_def Let_def split: if_splits)

lemma do_writeback_ok:
  assumes p: "pipe_inv T p"
  shows "\<exists>p'. do_writeback e p = Some p' \<and> pipe_inv T p' \<and>
    in_flight p = in_flight p' + (if wb_source e p = None then 0 else 1) \<and>
    ps_insts (pstats p') = ps_insts (pstats p) + (if wb_source e p = None then 0 else 1)"
proof (cases "wb_source e p")
  case None
  then show ?thesis
    using p by (simp add: do_writeback_def schedule_ex schedule_inv same_viewD [OF schedule_view(1)])
next
  case (Some src)
  obtain t where t: "sim_pipe p src = Some t" and src: "src \<in> {Memory, IntDivExt, IntMulExt}"
    using wb_source_some [OF Some] by blast
  define p0 where "p0 = p\<lparr>ongoing_insts := ongoing_insts p - 1\<rparr>"
  define p1 where "p1 = count_inst e (commit_stall e t p0)"
  define p2 where "p2 = put_slot src None p1"
  have v: "same_view (put_slot src None p0) p2"
    unfolding p2_def p1_def by (meson put_slot_view same_view_trans commit_stall_view(1) count_inst_view(1))
  note r = retire_base [OF pipe_invD(1) [OF p] t src, folded p0_def]
  have sel: "reg_ready p2 = reg_ready p" "stage_update p2 = stage_update p"
    by (simp_all add: p2_def p1_def) (simp_all add: p0_def)
  have b: "pipe_base T p2"
    by (rule same_view_base [OF v r(1)])
      (use sel p r(1) in \<open>auto simp: pipe_baseD pipe_base_dec p0_def dest: pipe_invD(1)\<close>)
  have i: "pipe_inv T p2"
    using b p r(2) by (simp add: pipe_inv_def same_viewD [OF v] p0_def)
  obtain p3 where p3: "schedule e WriteBack (now e + 1) p2 = Some p3" "pipe_inv T p3"
    using schedule_inv_ok [OF i, of e "now e + 1" WriteBack] by auto
  have "p3 = p2\<lparr>stage_update := (stage_update p2)(WriteBack := now e + 1)\<rparr>"
    using p3(1) by (simp add: schedule_ex)
  then have "in_flight p3 = in_flight p2" "pstats p3 = pstats p2"
    by (simp_all add: same_viewD [OF schedule_view(1)])
  moreover have "ps_insts (pstats p2) = ps_insts (pstats p) + 1"
    by (simp add: p2_def p1_def p0_def put_slot_def count_inst_def commit_stall_def Let_def
        flush_stall_cycles_def charge_def split: stall_cause.split)
  ultimately show ?thesis
    using p3 r(3) Some t v
    by (simp add: do_writeback_def p2_def [symmetric] p1_def [symmetric] p0_def [symmetric] same_viewD [OF v])
qed

section \<open>Memory\<close>

lemma move_slot_sel [simp]: "reg_ready (move_slot a b p) = reg_ready p"
  "stage_update (move_slot a b p) = stage_update p" "fetch_st (move_slot a b p) = fetch_st p"
  "sim_pipe (move_slot a b p) = (sim_pipe p)(b := sim_pipe p a, a := None)"
  "fetch_queue (move_slot a b p) = fetch_queue p"
  by (simp_all add: move_slot_def)

lemma move_to_memory_inv:
  assumes p: "pipe_inv T p" and t: "sim_pipe p Execute = Some t" and m: "sim_pipe p Memory = None"
  shows "pipe_inv T (move_slot Execute Memory p)"
proof -
  let ?q = "move_slot Execute Memory p"
  have f: "front_list ?q = front_list p"
    by (simp add: front_list_def move_slot_def)
  have b: "set (back_list ?q) = set (back_list p)" "real_count (back_list ?q) = real_count (back_list p)"
    using t m by (auto simp: back_list_def move_slot_def)
  have "in_flight ?q = in_flight p" "\<not> lsu_waits ?q"
    using f b by (simp_all add: in_flight_def lsu_waits_def move_slot_def)
  then show ?thesis
    using p f b by (auto simp: pipe_inv_def pipe_base_def move_slot_def)
qed

lemma set_waiting_ex: "sim_pipe p Execute = Some t \<Longrightarrow>
    set_waiting b p = Some (put_slot Execute (Some (t\<lparr>wait_mem := b\<rparr>)) p)"
  by (simp add: set_waiting_def)

lemma set_waiting_inv:
  assumes p: "pipe_inv T p" and t: "sim_pipe p Execute = Some t" and b: "b \<longrightarrow> sim_pipe p Memory = None"
  shows "pipe_inv T (put_slot Execute (Some (t\<lparr>wait_mem := b\<rparr>)) p)"
proof -
  let ?t = "t\<lparr>wait_mem := b\<rparr>"
  let ?q = "put_slot Execute (Some ?t) p"
  have tok: "trans_ok t \<and> \<not> is_wrong_path t"
    using execute_slot_ok [OF pipe_invD(1) [OF p] t] .
  have f: "front_list ?q = front_list p"
    by (simp add: front_list_def put_slot_def)
  have n: "in_flight ?q = in_flight p"
    using t f by (simp add: in_flight_def back_list_def put_slot_def)
  have bl: "\<forall>x\<in>set (back_list ?q). trans_ok x \<and> \<not> is_wrong_path x"
  proof
    fix x assume "x \<in> set (back_list ?q)"
    then have "x = ?t \<or> x \<in> set (back_list p)" by (auto simp: back_list_def put_slot_def)
    then show "trans_ok x \<and> \<not> is_wrong_path x"
      using tok pipe_baseD(6) [OF pipe_invD(1) [OF p], of x] by (auto simp: trans_ok_def)
  qed
  have w: "lsu_waits ?q \<longrightarrow> sim_pipe ?q Memory = None"
    using b by (simp add: lsu_waits_def put_slot_def)
  show ?thesis
    using p f n bl w by (auto simp: pipe_inv_def pipe_base_def put_slot_def)
qed

lemma inst_regs: "trans_ok t \<Longrightarrow> ti_dst_reg (tr_inst t) < 32" "trans_ok t \<Longrightarrow> inst_ok (tr_inst t)"
  by (simp_all add: trans_ok_def inst_ok_def)

lemma update_reg_time_inv:
  assumes "pipe_inv T p" "rd < 32" "T < InfTime"
  shows "\<exists>p'. update_reg_time e rd t p = Some p' \<and> pipe_inv T p' \<and> same_view p p'"
proof -
  obtain p' where "update_reg_time e rd t p = Some p'" "pipe_base T p'" "same_view p p'"
    using update_reg_time_ok [OF pipe_invD(1) [OF assms(1)] assms(2,3)] by blast
  then show ?thesis using same_view_inv [OF assms(1)] by simp
qed

lemma now_le_Inf: "T < InfTime \<Longrightarrow> now e \<le> T \<Longrightarrow> now e \<le> InfTime"
  by simp

lemma load_ready_inv:
  assumes p: "pipe_inv T p" and t: "trans_ok t" and T: "T < InfTime"
  shows "\<exists>p'. (if ti_mem_op (tr_inst t) = MemLoad then update_reg_time e (ti_dst_reg (tr_inst t)) w p else Some p) = Some p' \<and>
    pipe_inv T p' \<and> same_view p p'"
  using update_reg_time_inv [OF p inst_regs(1) [OF t] T, of e w] p by auto

lemma send_lsu_req_ok:
  assumes p: "pipe_inv T p" and t: "sim_pipe p Execute = Some t" and m: "sim_pipe p Memory = None"
    and port: "port = NcPort \<longrightarrow> nc_ready e \<noteq> None" and inf: "now e \<le> InfTime"
  shows "\<exists>p'. send_lsu_req e port a d sb w p = Some p' \<and> pipe_inv T p'"
proof -
  obtain rr wr where rw: "(case port of DmemPort \<Rightarrow> Some (dmem_ready e) | NcPort \<Rightarrow> nc_ready e) = Some (rr, wr)"
    using port by (cases port; cases "dmem_ready e") auto
  define p1 where "p1 = p\<lparr>stage_update := (stage_update p)(Memory := InfTime)\<rparr>"
  have "pipe_inv T p1" "sim_pipe p1 Execute = Some t" "sim_pipe p1 Memory = None"
    using p t m by (simp_all add: p1_def schedule_inv)
  then show ?thesis
    using rw inf set_waiting_inv [of T p1 t True]
    by (auto simp: send_lsu_req_def schedule_ex p1_def [symmetric] set_waiting_ex)
qed

lemma do_memory_ok:
  assumes p: "pipe_inv T p" and x: "sim_pipe p Execute \<noteq> None" and m: "sim_pipe p Memory = None"
    and T: "T < InfTime" and inf: "now e \<le> InfTime"
  shows "\<exists>p'. do_memory e p = Some p' \<and> pipe_inv T p'"
proof -
  obtain t where t: "sim_pipe p Execute = Some t" using x by blast
  have tok: "trans_ok t" using execute_slot_ok [OF pipe_invD(1) [OF p] t] by simp
  define direct where "direct = (ti_mem_op (tr_inst t) \<noteq> MemNone \<and> \<not> is_cacheable_addr (ti_mem_addr (tr_inst t)) \<and> nc_ready e = None)"
  define q where "q = set_stall e LsuStall p"
  have q: "pipe_inv T q" "sim_pipe q = sim_pipe p" using p by (simp_all add: q_def)
  show ?thesis
  proof (cases "wait_mem t")
    case w: True
    show ?thesis
    proof (cases direct)
      case True
      define p1 where "p1 = put_slot Execute (Some (t\<lparr>wait_mem := False\<rparr>)) p"
      have p1: "pipe_inv T p1" unfolding p1_def using set_waiting_inv [OF p t, of False] by simp
      obtain p2 where p2: "(if ti_mem_op (tr_inst t) = MemLoad then update_reg_time e (ti_dst_reg (tr_inst t)) (now e + 2) p1 else Some p1) = Some p2"
          "pipe_inv T p2" "same_view p1 p2"
        using load_ready_inv [OF p1 tok T] by blast
      have s2: "sim_pipe p2 = (sim_pipe p)(Execute := Some (t\<lparr>wait_mem := False\<rparr>))"
        using same_viewD(3) [OF p2(3)] by (simp add: p1_def)
      have p3: "pipe_inv T (move_slot Execute Memory (p2\<lparr>stage_update := (stage_update p2)(Memory := now e + 1)\<rparr>))"
        by (rule move_to_memory_inv) (use p2 s2 m in \<open>auto intro!: schedule_inv\<close>)
      show ?thesis
        using t w True p2(1) p3
        by (simp add: do_memory_def direct_def set_waiting_ex p1_def [symmetric] schedule_ex)
    next
      case False
      then show ?thesis
        using t w p inf by (auto simp: do_memory_def direct_def schedule_ex schedule_inv)
    qed
  next
    case nw: False
    show ?thesis
    proof (cases direct)
      case True
      define p1 where "p1 = put_slot Execute (Some (t\<lparr>wait_mem := True\<rparr>)) q"
      have "pipe_inv T p1" unfolding p1_def using set_waiting_inv [OF q(1), of t True] q t m by simp
      then show ?thesis
        using True t nw q schedule_inv_ok [of T p1 e "now e + mmio_lat p1" Memory]
        by (auto simp: do_memory_def direct_def q_def [symmetric] set_waiting_ex p1_def)
    next
      case nd: False
      define port where "port = (if ti_mem_op (tr_inst t) \<noteq> MemNone \<and> \<not> is_cacheable_addr (ti_mem_addr (tr_inst t)) \<and> nc_ready e \<noteq> None
                   then NcPort else DmemPort)"
      have send: "\<exists>p'. send_lsu_req e port a d sb w q = Some p' \<and> pipe_inv T p'" for a d sb w
        using send_lsu_req_ok [of T q t port e] q t m inf by (simp add: port_def)
      have move: "pipe_inv T (move_slot Execute Memory (p\<lparr>stage_update := (stage_update p)(Memory := now e + 1)\<rparr>))"
        by (rule move_to_memory_inv) (use p t m in \<open>auto intro!: schedule_inv\<close>)
      have eq: "do_memory e p =
          (if ti_mem_op (tr_inst t) = MemLoad then send_lsu_req e port (ti_mem_addr (tr_inst t)) 0xbad 0xf False q
           else if ti_mem_op (tr_inst t) = MemStore
           then send_lsu_req e port (ti_mem_addr (tr_inst t)) 0xbad 0xf True q \<bind> schedule e Memory InfTime
           else Some (move_slot Execute Memory (p\<lparr>stage_update := (stage_update p)(Memory := now e + 1)\<rparr>)))"
        using t nw nd unfolding do_memory_def Let_def direct_def port_def q_def
        by (cases "nc_ready e") (auto simp: schedule_ex op_codes)
      obtain p1 where p1: "send_lsu_req e port (ti_mem_addr (tr_inst t)) 0xbad 0xf True q = Some p1" "pipe_inv T p1"
        using send by blast
      show ?thesis
        unfolding eq using send move p1 inf by (simp add: schedule_ex schedule_inv)
    qed
  qed
qed

lemma handle_lsu_resp_ok:
  assumes p: "pipe_inv T p" and w: "lsu_waits p" and T: "T < InfTime"
  shows "\<exists>p'. handle_lsu_resp e p = Some p' \<and> pipe_inv T p'"
proof -
  obtain t where t: "sim_pipe p Execute = Some t" "wait_mem t"
    using w by (auto simp: lsu_waits_def split: option.splits)
  have m: "sim_pipe p Memory = None" using pipe_baseD(9) [OF pipe_invD(1) [OF p] w] .
  have tok: "trans_ok t" using execute_slot_ok [OF pipe_invD(1) [OF p] t(1)] by simp
  define p1 where "p1 = put_slot Execute (Some (t\<lparr>wait_mem := False\<rparr>)) p"
  have p1: "pipe_inv T p1" unfolding p1_def using set_waiting_inv [OF p t(1), of False] by simp
  obtain p2 where p2: "(if ti_mem_op (tr_inst t) = MemLoad then update_reg_time e (ti_dst_reg (tr_inst t)) (now e + 2) p1 else Some p1) = Some p2"
      "pipe_inv T p2" "same_view p1 p2"
    using load_ready_inv [OF p1 tok T] by blast
  define q where "q = set_stall e LsuStall p2"
  have q: "pipe_inv T q" "sim_pipe q = (sim_pipe p)(Execute := Some (t\<lparr>wait_mem := False\<rparr>))"
    using p2 same_viewD(3) [OF p2(3)] by (simp_all add: q_def p1_def)
  have "\<exists>p3. blocked_by_raw e q = Some p3 \<and> pipe_inv T p3 \<and> sim_pipe p3 = sim_pipe q"
  proof (cases "sim_pipe q Fetch")
    case (Some ids)
    then have "inst_ok (tr_inst ids)"
      using fetch_slot_ok [OF pipe_invD(1) [OF q(1)]] by (simp add: trans_ok_def)
    then show ?thesis
      using Some q(1) pipe_baseD(1) [OF pipe_invD(1) [OF q(1)]]
      by (simp add: blocked_by_raw_def src_ready_ex)
  qed (use q in \<open>simp add: blocked_by_raw_def\<close>)
  then obtain p3 where p3: "blocked_by_raw e q = Some p3" "pipe_inv T p3" "sim_pipe p3 = sim_pipe q"
    by blast
  have "pipe_inv T (move_slot Execute Memory (p3\<lparr>stage_update := (stage_update p3)(Memory := now e + 1), calc_nxtupd := min (calc_nxtupd p3) (now e + 1)\<rparr>))"
    by (rule move_to_memory_inv) (use p3 q m in \<open>auto intro!: schedule_inv\<close>)
  then show ?thesis
    using t m p2(1) p3(1)
    by (simp add: handle_lsu_resp_def set_waiting_ex p1_def [symmetric] Let_def q_def [symmetric] async_schedule_ex)
qed

section \<open>Execute\<close>

lemma leave_decode_base:
  assumes p: "pipe_base T p" and t: "sim_pipe p Decode = Some t" and w: "\<not> is_wrong_path t"
    and d: "d \<in> {Execute, IntMulExt, IntDivExt}" "sim_pipe p d = None"
  shows "pipe_base T (move_slot Decode d p) \<and> front_list p = t # front_list (move_slot Decode d p) \<and>
    in_flight (move_slot Decode d p) = in_flight p"
proof -
  let ?q = "move_slot Decode d p"
  have nw: "\<not> wait_mem t" using p t by (simp add: pipe_base_def)
  have f: "front_list p = t # front_list ?q"
    using t d by (auto simp: front_list_def)
  have b: "set (back_list ?q) = insert t (set (back_list p))"
      "real_count (back_list ?q) = real_count [t] + real_count (back_list p)"
    using t d by (auto simp: back_list_def)
  have n: "in_flight ?q = in_flight p"
    using f b(2) by (simp add: in_flight_def move_slot_def)
  have l: "lsu_waits ?q \<longrightarrow> lsu_waits p" "sim_pipe ?q Memory = sim_pipe p Memory"
    using t nw d by (auto simp: lsu_waits_def)
  have "\<forall>x\<in>set (front_list ?q). trans_ok x" "trans_ok t"
    using p f by (simp_all add: pipe_base_def)
  moreover have "input_buffer ?q = input_buffer p" "ongoing_insts ?q = ongoing_insts p" "bpu ?q = bpu p"
    by (simp_all add: move_slot_def)
  ultimately have "pipe_base T ?q"
    using p w b(1) n l d unfolding pipe_base_def by auto
  then show ?thesis using f n by simp
qed

lemma count_entries: "ring_ok r \<Longrightarrow> sum_list (map count_trans (rb_entries r)) = real_count (rb_list r)"
proof -
  have "sum_list (map count_trans (map Some xs)) = real_count xs" for xs
    by (induction xs) (simp_all add: count_trans_def)
  then show "ring_ok r \<Longrightarrow> ?thesis" by (simp only: rb_entries_list)
qed

lemma count_trans_opt: "count_trans x = real_count (opt_list x)"
  by (simp add: count_trans_def split: option.split)

text \<open>What a flush leaves; it drops nothing that counts when all it drops is wrong-path.\<close>

lemma flush_front_base:
  assumes p: "pipe_base T p"
  shows "pipe_base T (flush_front e p)"
    and "sim_pipe (flush_front e p) = (sim_pipe p)(Fetch := None)"
    and "rb_list (fetch_queue (flush_front e p)) = []"
    and "wp_flushed (fetch_st (flush_front e p)) \<and> wrong_path (fetch_st (flush_front e p)) = wrong_path (fetch_st p)"
    and "input_buffer (flush_front e p) = input_buffer p"
    and "in_flight p = in_flight (flush_front e p) + real_count (rb_list (fetch_queue p)) +
           real_count (opt_list (sim_pipe p Fetch))"
proof -
  let ?q = "flush_front e p" and ?r = "fetch_queue p"
  have r: "ring_ok ?r" using p by (simp add: pipe_base_def)
  show sp: "sim_pipe ?q = (sim_pipe p)(Fetch := None)" and wf: "wp_flushed (fetch_st ?q) \<and> wrong_path (fetch_st ?q) = wrong_path (fetch_st p)"
      and ib: "input_buffer ?q = input_buffer p"
    by (simp_all add: flush_front_def Let_def)
  have fq: "fetch_queue ?q = rb_clear ?r"
    by (simp add: flush_front_def Let_def)
  then show fl: "rb_list (fetch_queue ?q) = []" using rb_clear_spec [OF r] by simp
  show n: "in_flight p = in_flight ?q + real_count (rb_list ?r) + real_count (opt_list (sim_pipe p Fetch))"
    using fl by (simp add: in_flight_def front_list_def back_list_def sp ib)
  have sel: "reg_ready ?q = reg_ready p" "bpu ?q = bpu p" "stage_update ?q = stage_update p"
      "resp_is_orphan (fetch_st ?q) = map (\<lambda>_. True) (resp_is_orphan (fetch_st p))"
    by (simp_all add: flush_front_def Let_def)
  have fr: "set (front_list ?q) \<subseteq> set (front_list p)" "back_list ?q = back_list p" "lsu_waits ?q = lsu_waits p"
    by (auto simp: front_list_def back_list_def lsu_waits_def sp fl)
  have "ongoing_insts ?q = ongoing_insts p - of_nat (real_count (rb_list ?r) + real_count (opt_list (sim_pipe p Fetch)))"
    using r by (simp add: flush_front_def Let_def count_entries count_trans_opt)
  then have "ongoing_insts ?q = of_nat (in_flight ?q)"
    using p n by (simp add: pipe_base_def)
  moreover have "resp_ok (resp_is_orphan (fetch_st ?q)) (rb_list (fetch_queue ?q))"
    by (simp add: sel fl resp_ok_def n_expected_def n_waiting_def)
  ultimately show "pipe_base T ?q"
    using p fr sp ib sel rb_clear_spec [OF r] unfolding pipe_base_def fq by auto
qed

lemma flush_front_waits [simp]: "lsu_waits (flush_front e p) = lsu_waits p"
  by (simp add: lsu_waits_def flush_front_def Let_def)

text \<open>Resolving a branch never removes a trace instruction.\<close>

lemma resolve_branch_ok:
  assumes p: "pipe_inv T p" and t: "sim_pipe p Decode = Some t"
  shows "\<exists>p'. resolve_branch e t p = Some p' \<and> pipe_base T p' \<and> in_flight p' = in_flight p \<and>
    sim_pipe p' Decode = Some t \<and> (\<forall>s. s \<noteq> Fetch \<longrightarrow> sim_pipe p' s = sim_pipe p s) \<and>
    (\<exists>ys. front_list p' = t # ys \<and> path_ok (fetch_st p') ys)"
proof -
  let ?i = "tr_inst t"
  obtain ys where f: "front_list p = t # ys" using t by (simp add: front_list_def)
  have tok: "trans_ok t" using decode_slot_ok [OF pipe_invD(1) [OF p] t] .
  have path: "path_ok (fetch_st p) (t # ys)" using pipe_invD(2) [OF p] f by simp
  show ?thesis
  proof (cases "ti_is_branch ?i")
    case False
    then have "\<not> tr_br_mispred t" using tok by (simp add: trans_ok_def)
    then show ?thesis
      using False p f t path path_ok_tail by (auto simp: resolve_branch_def Let_def pipe_invD)
  next
    case br: True
    obtain u where u: "unit_update (ti_pc ?i) (ti_br_taken ?i) (if ti_br_taken ?i then ti_mem_addr ?i else 0)
        (ti_dst_reg ?i = 1) (ti_src0 ?i = 1 \<and> ti_dst_reg ?i = 0) (pred_target (tr_br_pred t) \<noteq> 0)
        (tr_br_pred t) (tr_br_mispred t) (bpu p) = Some u" "unit_ok u"
      using unit_update_ex pipe_baseD(2) [OF pipe_invD(1) [OF p]] tok by (metis trans_ok_def)
    define p1 where "p1 = p\<lparr>bpu := u\<rparr>"
    have p1: "pipe_base T p1" "sim_pipe p1 = sim_pipe p" "fetch_queue p1 = fetch_queue p" "front_list p1 = t # ys"
        "fetch_st p1 = fetch_st p" "in_flight p1 = in_flight p"
      using bpu_base [OF pipe_invD(1) [OF p] u(2)] f
      by (simp_all add: p1_def front_list_def in_flight_def back_list_def)
    have eq: "resolve_branch e t p = Some (if tr_br_mispred t then flush_front e p1 else p1)"
      using br u(1) by (simp add: resolve_branch_def Let_def p1_def)
    show ?thesis
    proof (cases "tr_br_mispred t")
      case False
      then show ?thesis using eq p1 t path path_ok_tail by auto
    next
      case True
      have "\<forall>x\<in>set ys. \<not> counted_inflight x"
        using path_ok_mispred [OF path True] pipe_baseD(5) [OF pipe_invD(1) [OF p]] f by (auto simp: trans_ok_def)
      then have "real_count (rb_list (fetch_queue p1)) + real_count (opt_list (sim_pipe p1 Fetch)) = 0"
        using f t by (auto simp: front_list_def p1 real_count_def filter_empty_conv)
      then have "in_flight (flush_front e p1) = in_flight p"
        using flush_front_base(6) [OF p1(1), of e] p1(6) by simp
      moreover have "front_list (flush_front e p1) = [t]"
        using t flush_front_base(2,3) [OF p1(1), of e] by (simp add: front_list_def p1)
      ultimately show ?thesis
        using eq True t p1 flush_front_base(1,2,4) [OF p1(1), of e] path_ok_mispred [OF path True]
        by (auto simp: path_ok_def)
    qed
  qed
qed

lemma forward_result_ok:
  assumes "pipe_base T p" "trans_ok t" "T < InfTime"
  shows "\<exists>p'. forward_result e (tr_inst t) p = Some p' \<and> pipe_base T p' \<and> same_view p p'"
  using update_reg_time_ok [OF assms(1) inst_regs(1) [OF assms(2)] assms(3)] assms(1)
  by (auto simp: forward_result_def)

lemma do_execute_ok:
  assumes p: "pipe_inv T p" and t: "sim_pipe p Decode = Some t" and x: "sim_pipe p Execute = None"
    and T: "T < InfTime" "T \<le> now e"
  shows "\<exists>p'. do_execute e p = Some p' \<and> pipe_inv T p' \<and> in_flight p' = in_flight p"
proof (cases "ti_ext_op (tr_inst t) = ExtNone")
  case False
  then show ?thesis
    using p t T(2) pipe_base_dec [OF pipe_invD(1) [OF p] t] by (simp add: do_execute_def)
next
  case True
  have tok: "trans_ok t" using decode_slot_ok [OF pipe_invD(1) [OF p] t] .
  have nw: "\<not> is_wrong_path t"
    using pipe_invD(2) [OF p] t by (auto simp: front_list_def dest: path_ok_head)
  obtain p1 ys where p1: "resolve_branch e t p = Some p1" "pipe_base T p1" "in_flight p1 = in_flight p"
      "sim_pipe p1 Decode = Some t" "sim_pipe p1 Execute = None" "front_list p1 = t # ys" "path_ok (fetch_st p1) ys"
    using resolve_branch_ok [OF p t, of e] x by auto
  obtain p3 where p3: "forward_result e (tr_inst t) p1 = Some p3" "pipe_base T p3" "same_view p1 p3"
    using forward_result_ok [OF p1(2) tok T(1)] by blast
  note v = same_viewD [OF p3(3)]
  have mv: "pipe_base T (move_slot Decode Execute p3)" "front_list p3 = t # front_list (move_slot Decode Execute p3)"
      "in_flight (move_slot Decode Execute p3) = in_flight p3"
    using leave_decode_base [OF p3(2), of t Execute] p1(4,5) nw by (simp_all add: v)
  then have i: "pipe_inv T (move_slot Decode Execute p3)"
    using p1(6,7) by (simp add: pipe_inv_def v)
  have "do_execute e p = schedule e Execute (now e + 1) (move_slot Decode Execute p3)"
    using t T(2) pipe_base_dec [OF pipe_invD(1) [OF p] t] True p1(1) p3(1) tok
    by (simp add: do_execute_def flush_false_btb_hit_noop)
  then show ?thesis
    using schedule_inv [OF i, of Execute] mv(3) p1(3) v
    by (simp add: schedule_ex same_viewD [OF schedule_view(1)])
qed

text \<open>Multiplication and division leave decode for their own slot.\<close>

lemma dispatch_mext:
  assumes p: "pipe_inv T p" and t: "sim_pipe p Decode = Some t"
    and ext: "ti_ext_op (tr_inst t) \<noteq> ExtNone"
    and d: "d \<in> {IntMulExt, IntDivExt}" "sim_pipe p d = None" and T: "T < InfTime"
    and v: "same_view p p0 \<or> p0 = p\<lparr>mul_ready_tick := m\<rparr> \<or> p0 = p\<lparr>div_ready_tick := m\<rparr>" "pipe_inv T p0"
  shows "\<exists>p'. do { p2 \<leftarrow> update_reg_time e (ti_dst_reg (tr_inst t)) (now e + k) p0;
                   p3 \<leftarrow> schedule e d (now e + k) p2;
                   p4 \<leftarrow> async_schedule e WriteBack (now e + k) p3;
                   Some (move_slot Decode d p4) } = Some p' \<and> pipe_inv T p' \<and> in_flight p' = in_flight p"
proof -
  have tok: "trans_ok t" using decode_slot_ok [OF pipe_invD(1) [OF p] t] .
  have s0: "sim_pipe p0 = sim_pipe p" "front_list p0 = front_list p" "fetch_st p0 = fetch_st p" "in_flight p0 = in_flight p"
    using v(1) by (auto simp: same_viewD in_flight_def back_list_def front_list_def)
  obtain p2 where p2: "update_reg_time e (ti_dst_reg (tr_inst t)) (now e + k) p0 = Some p2" "pipe_base T p2" "same_view p0 p2"
    using update_reg_time_ok [OF pipe_invD(1) [OF v(2)] inst_regs(1) [OF tok] T] by blast
  define p3 where "p3 = p2\<lparr>stage_update := (stage_update p2)(d := now e + k)\<rparr>"
  define p4 where "p4 = p3\<lparr>stage_update := (stage_update p3)(WriteBack := now e + k), calc_nxtupd := min (calc_nxtupd p3) (now e + k)\<rparr>"
  have b4: "pipe_base T p4"
  proof -
    have "pipe_base T p3" using p2(2) d(1) unfolding p3_def by (intro schedule_base) auto
    then show ?thesis unfolding p4_def by (simp add: schedule_base)
  qed
  have v4: "same_view p0 p4"
    unfolding p4_def p3_def
    by (rule same_view_trans [OF p2(3)], rule same_view_trans, rule schedule_view(1), rule schedule_view(3))
  note w = same_viewD [OF v4]
  have nw: "\<not> is_wrong_path t"
    using pipe_invD(2) [OF p] t by (auto simp: front_list_def dest: path_ok_head)
  have nm: "\<not> tr_br_mispred t"
    using tok ext by (auto simp: trans_ok_def inst_ok_def)
  have mv: "pipe_base T (move_slot Decode d p4)" "front_list p4 = t # front_list (move_slot Decode d p4)"
      "in_flight (move_slot Decode d p4) = in_flight p4"
    using leave_decode_base [OF b4, of t d] t d nw by (auto simp: w s0)
  have "path_ok (fetch_st p) (front_list (move_slot Decode d p4))"
    using pipe_invD(2) [OF p] mv(2) nm path_ok_tail by (simp add: w s0)
  then have fin: "pipe_inv T (move_slot Decode d p4)" "in_flight (move_slot Decode d p4) = in_flight p"
    using mv(1,3) by (simp_all add: pipe_inv_def w s0)
  have eq: "do { p2 \<leftarrow> update_reg_time e (ti_dst_reg (tr_inst t)) (now e + k) p0;
                 p3 \<leftarrow> schedule e d (now e + k) p2;
                 p4 \<leftarrow> async_schedule e WriteBack (now e + k) p3;
                 Some (move_slot Decode d p4) } = Some (move_slot Decode d p4)"
    by (simp add: p2(1) schedule_ex async_schedule_ex p3_def p4_def)
  show ?thesis unfolding eq using fin by blast
qed

lemma do_mul_ext_ok:
  assumes p: "pipe_inv T p" and t: "sim_pipe p Decode = Some t" and x: "sim_pipe p IntMulExt = None"
    and T: "T < InfTime" "T \<le> now e"
  shows "\<exists>p'. do_mul_ext e p = Some p' \<and> pipe_inv T p' \<and> in_flight p' = in_flight p"
proof (cases "ti_ext_op (tr_inst t) = IntMulH \<or> ti_ext_op (tr_inst t) = IntMulL")
  case True
  have tok: "trans_ok t" using decode_slot_ok [OF pipe_invD(1) [OF p] t] .
  have ext: "ti_ext_op (tr_inst t) \<noteq> ExtNone" using True by (auto simp: op_codes)
  have eq: "do_mul_ext e p = do { p2 \<leftarrow> update_reg_time e (ti_dst_reg (tr_inst t)) (now e + MulLat) (p\<lparr>mul_ready_tick := now e + MulLat\<rparr>);
                   p3 \<leftarrow> schedule e IntMulExt (now e + MulLat) p2;
                   p4 \<leftarrow> async_schedule e WriteBack (now e + MulLat) p3;
                   Some (move_slot Decode IntMulExt p4) }"
    using t T(2) True pipe_base_dec [OF pipe_invD(1) [OF p] t] tok
    by (auto simp: do_mul_ext_def flush_false_btb_hit_noop Let_def op_codes)
  show ?thesis
    unfolding eq by (rule dispatch_mext [OF p t ext _ x T(1)]) (use p in auto)
qed (use p t T(2) pipe_base_dec [OF pipe_invD(1) [OF p] t] in \<open>simp add: do_mul_ext_def\<close>)

lemma do_div_ext_ok:
  assumes p: "pipe_inv T p" and t: "sim_pipe p Decode = Some t" and x: "sim_pipe p IntDivExt = None"
    and T: "T < InfTime" "T \<le> now e"
  shows "\<exists>p'. do_div_ext e p = Some p' \<and> pipe_inv T p' \<and> in_flight p' = in_flight p"
proof (cases "ti_ext_op (tr_inst t) = IntDiv \<or> ti_ext_op (tr_inst t) = IntRem")
  case True
  have tok: "trans_ok t" using decode_slot_ok [OF pipe_invD(1) [OF p] t] .
  have ext: "ti_ext_op (tr_inst t) \<noteq> ExtNone" using True by (auto simp: op_codes)
  have eq: "do_div_ext e p = do { p2 \<leftarrow> update_reg_time e (ti_dst_reg (tr_inst t)) (now e + DivLat) (p\<lparr>div_ready_tick := now e + DivLat\<rparr>);
                   p3 \<leftarrow> schedule e IntDivExt (now e + DivLat) p2;
                   p4 \<leftarrow> async_schedule e WriteBack (now e + DivLat) p3;
                   Some (move_slot Decode IntDivExt p4) }"
    using t T(2) True pipe_base_dec [OF pipe_invD(1) [OF p] t] tok
    by (auto simp: do_div_ext_def flush_false_btb_hit_noop Let_def op_codes)
  show ?thesis
    unfolding eq by (rule dispatch_mext [OF p t ext _ x T(1)]) (use p in auto)
qed (use p t T(2) pipe_base_dec [OF pipe_invD(1) [OF p] t] in \<open>simp add: do_div_ext_def\<close>)

section \<open>Decode\<close>

lemma enter_decode_inv:
  assumes p: "pipe_inv T p" and t: "sim_pipe p Fetch = Some t" "sim_pipe p Decode = None"
    and u: "stage_update p Decode \<le> T'"
  shows "pipe_inv T' (move_slot Fetch Decode p) \<and> in_flight (move_slot Fetch Decode p) = in_flight p"
proof -
  let ?q = "move_slot Fetch Decode p"
  have f: "front_list ?q = front_list p" using t by (simp add: front_list_def)
  have b: "back_list ?q = back_list p" "lsu_waits ?q = lsu_waits p"
    by (simp_all add: back_list_def lsu_waits_def)
  have s: "input_buffer ?q = input_buffer p" "ongoing_insts ?q = ongoing_insts p" "bpu ?q = bpu p"
    by (simp_all add: move_slot_def)
  have n: "in_flight ?q = in_flight p" using f b s by (simp add: in_flight_def)
  show ?thesis
    using p t u f b s n unfolding pipe_inv_def pipe_base_def by simp
qed

lemma drop_wrong_inv:
  assumes p: "pipe_inv T p" and t: "sim_pipe p Fetch = Some t" "is_wrong_path t"
  shows "pipe_inv T (put_slot Fetch None p) \<and> in_flight (put_slot Fetch None p) = in_flight p"
proof -
  let ?q = "put_slot Fetch None p"
  have tok: "trans_ok t" using fetch_slot_ok [OF pipe_invD(1) [OF p] t(1)] .
  then have c: "\<not> counted_inflight t" "\<not> tr_br_mispred t" using t(2) by (auto simp: trans_ok_def)
  have f: "front_list p = opt_list (sim_pipe p Decode) @ t # rb_list (fetch_queue p)"
      "front_list ?q = opt_list (sim_pipe p Decode) @ rb_list (fetch_queue p)"
    using t by (simp_all add: front_list_def)
  have b: "back_list ?q = back_list p" "lsu_waits ?q = lsu_waits p"
    by (simp_all add: back_list_def lsu_waits_def)
  have s: "input_buffer ?q = input_buffer p" "ongoing_insts ?q = ongoing_insts p" "bpu ?q = bpu p"
    by (simp_all add: put_slot_def)
  have n: "in_flight ?q = in_flight p" using f b s c by (simp add: in_flight_def)
  have sub: "set (front_list ?q) \<subseteq> set (front_list p)" by (auto simp: f)
  have "path_ok (fetch_st p) (front_list ?q)"
    using pipe_invD(2) [OF p] t(2) c(2) split_path_drop_wrong
    unfolding f path_ok_def by (auto split: if_splits)
  then show ?thesis
    using p sub b s n unfolding pipe_inv_def pipe_base_def by auto
qed

lemma inv_stage_Decode:
  "pipe_inv T p \<Longrightarrow> sim_pipe p Decode = None \<Longrightarrow> now e \<le> t \<Longrightarrow>
   \<exists>p'. schedule e Decode t p = Some p' \<and> pipe_inv T p' \<and> in_flight p' = in_flight p"
  by (simp add: schedule_ex schedule_inv same_viewD [OF schedule_view(1)])

lemma stall_unless_flight [simp]: "in_flight (stall_unless e b c p) = in_flight p"
  by (simp add: stall_unless_def)

lemma do_decode_ok:
  assumes p: "pipe_inv T p" and t: "sim_pipe p Fetch = Some t" and d: "sim_pipe p Decode = None"
    and T: "T \<le> now e" and inf: "now e < InfTime"
  shows "\<exists>p'. do_decode e p = Some p' \<and> pipe_inv (now e + 1) p' \<and> in_flight p' = in_flight p"
proof -
  let ?i = "tr_inst t"
  note b = pipe_invD(1) [OF p]
  have p': "pipe_inv (now e + 1) p" using inv_later [OF p] T by simp
  have tok: "trans_ok t" using fetch_slot_ok [OF b t] .
  have i: "inst_ok ?i" "ti_dst_reg ?i < 32" using inst_regs [OF tok] by simp_all
  have regs: "regs_ok (reg_ready p)" using pipe_baseD(1) [OF b] .
  obtain r where r: "src_ready p ?i = Some r" using src_ready_ex [OF regs i(1)] by blast
  have stall: "\<exists>p'. schedule e Decode x (stall_unless e w c p) = Some p' \<and> pipe_inv (now e + 1) p' \<and> in_flight p' = in_flight p"
    if "now e \<le> x" for x w c
    using inv_stage_Decode [of "now e + 1" "stall_unless e w c p" e x] p' d that by simp
  show ?thesis
  proof (cases "is_wrong_path t")
    case True
    define q where "q = (if in_br_recovery (stall p) then set_stall e BrMispred p else p)"
    have q: "pipe_inv (now e + 1) q" "sim_pipe q = sim_pipe p" "in_flight q = in_flight p"
      using p' by (simp_all add: q_def)
    note dr = drop_wrong_inv [OF q(1), of t]
    have "\<exists>p'. schedule e Decode (now e + 1) (put_slot Fetch None q) = Some p' \<and> pipe_inv (now e + 1) p' \<and>
        in_flight p' = in_flight (put_slot Fetch None q)"
      using dr q t d True by (intro inv_stage_Decode) auto
    then show ?thesis
      using t True dr q by (simp add: do_decode_def drop_wrong_path_def q_def [symmetric])
  next
    case ok: False
    show ?thesis
    proof (cases "r \<le> now e")
      case False
      then show ?thesis
        using stall [of "mext_ready e p"] stall [of InfTime] stall [of r] t ok r inf
        by (auto simp: do_decode_def mext_ready_def Let_def)
    next
      case True
      then have rI: "r \<noteq> InfTime" "max (now e) r = now e" using inf by auto
      define q where "q = stall_unless e (lsu_waits p) NoInst p"
      define q1 where "q1 = q\<lparr>stage_update := (stage_update q)(Decode := now e + 1)\<rparr>"
      define q2 where "q2 = (if ti_dst_reg ?i = 0 then q1 else q1\<lparr>reg_ready := (reg_ready q1)[ti_dst_reg ?i := InfTime]\<rparr>)"
      have q1: "pipe_inv (now e + 1) q1" "sim_pipe q1 = sim_pipe p" "reg_ready q1 = reg_ready p" "in_flight q1 = in_flight p"
        using schedule_inv [of "now e + 1" q Decode] p' d by (simp_all add: q1_def q_def same_viewD [OF schedule_view(1)])
      have v2: "same_view q1 q2" "stage_update q2 Decode = now e + 1" by (simp_all add: q2_def q1_def)
      have "pipe_base (now e + 1) q2"
        by (rule same_view_base [OF v2(1) pipe_invD(1) [OF q1(1)]])
          (use regs q1 v2 in \<open>auto simp: q2_def regs_put\<close>)
      then have q2: "pipe_inv (now e + 1) q2" using same_view_inv [OF q1(1)] v2(1) by blast
      have "pass_decode e (lsu_waits p) r ?i p = Some (move_slot Fetch Decode q2)"
        using regs i(2) rI q1(3)
        by (simp add: pass_decode_def schedule_ex set_reg_time_ex q2_def q1_def q_def)
      moreover have "pipe_inv (now e + 1) (move_slot Fetch Decode q2) \<and> in_flight (move_slot Fetch Decode q2) = in_flight p"
        using enter_decode_inv [OF q2, of t "now e + 1"] t d v2 q1 by (simp add: same_viewD [OF v2(1)])
      ultimately show ?thesis
        using stall [of "mext_ready e p"] stall [of "if reg_ready p ! ti_dst_reg ?i \<le> now e then now e + 1 else reg_ready p ! ti_dst_reg ?i"]
          t ok r rI True i regs_at [OF regs i(2)]
        by (auto simp: do_decode_def mext_ready_def Let_def)
    qed
  qed
qed

end
