(* ===== verification/PipeAcct.thy ===== *)
theory PipeAcct
  imports PipeStages
begin

text \<open>
  Stall attribution: every cycle since the last reset is charged to exactly one of the
  five categories of CycBreakdown, whatever the stages do. The handlers touch the
  statistics and the stall record only through a few operations; the locale ledger proves
  once, for every predicate these operations keep, that all handlers but write-back keep
  it. It is used for the accounts and for the instruction count.
\<close>

definition breakdown :: "pipe_stats \<Rightarrow> nat" where
  "breakdown s = ps_nostall s + ps_noinst s + ps_lsu_stall s + ps_brmiss_stall s + ps_raw_stall s"

definition on_books :: "(pipe_stats \<Rightarrow> stall_attr \<Rightarrow> bool) \<Rightarrow> pipeline \<Rightarrow> bool" where
  "on_books good p \<longleftrightarrow> good (pstats p) (stall p)"

lemma breakdown_charge [simp]: "breakdown (charge c g s) = breakdown s + g"
  by (cases c) (simp_all add: breakdown_def charge_def)

section \<open>Operations that do not touch the accounts\<close>

definition books_kept :: "pipeline \<Rightarrow> pipeline \<Rightarrow> bool" where
  "books_kept p p' \<longleftrightarrow> pstats p' = pstats p \<and> stall p' = stall p"

lemma books_acct: "books_kept p p' \<Longrightarrow> on_books good p' = on_books good p"
  by (simp add: books_kept_def on_books_def)

lemma schedule_books: "schedule e s t p = Some p' \<Longrightarrow> books_kept p p'"
  by (auto simp: schedule_def books_kept_def)

lemma async_schedule_books: "async_schedule e s t p = Some p' \<Longrightarrow> books_kept p p'"
  by (auto simp: async_schedule_def schedule_def books_kept_def)

lemma update_reg_time_books: "update_reg_time e rd t p = Some p' \<Longrightarrow> books_kept p p'"
  by (auto simp: update_reg_time_def set_reg_time_def wake_decode_def schedule_def books_kept_def Let_def
      split: if_splits option.splits)

lemma set_waiting_books: "set_waiting b p = Some p' \<Longrightarrow> books_kept p p'"
  by (auto simp: set_waiting_def put_slot_def books_kept_def)

lemma set_reg_time_books: "set_reg_time rd t p = Some p' \<Longrightarrow> books_kept p p'"
  by (auto simp: set_reg_time_def books_kept_def split: if_splits)

lemma slot_books [simp]: "on_books good (move_slot a b p) = on_books good p" "on_books good (put_slot a t p) = on_books good p"
  "on_books good (request r p) = on_books good p" "on_books good (p\<lparr>bpu := u\<rparr>) = on_books good p"
  "on_books good (p\<lparr>fetch_queue := q\<rparr>) = on_books good p" "on_books good (p\<lparr>fetch_st := f\<rparr>) = on_books good p"
  "on_books good (p\<lparr>mul_ready_tick := m\<rparr>) = on_books good p" "on_books good (p\<lparr>div_ready_tick := m\<rparr>) = on_books good p"
  "on_books good (p\<lparr>ongoing_insts := i\<rparr>) = on_books good p" "on_books good (p\<lparr>input_buffer := ib\<rparr>) = on_books good p"
  "on_books good (note_resp orph p) = on_books good p" "on_books good (calc_sched e p) = on_books good p"
  "on_books good (leave_wrong_path p) = on_books good p" "on_books good (fetch_early p) = on_books good p"
  by (simp_all add: on_books_def move_slot_def put_slot_def request_def note_resp_def calc_sched_def Let_def
      leave_wrong_path_def fetch_early_def)

section \<open>Every handler keeps the books balanced\<close>

text \<open>A small calculus: the result, when there is one, satisfies P.\<close>

definition yields :: "(pipeline \<Rightarrow> bool) \<Rightarrow> pipeline option \<Rightarrow> bool" where
  "yields P x \<longleftrightarrow> (\<forall>p'. x = Some p' \<longrightarrow> P p')"

abbreviation keeps :: "(pipe_stats \<Rightarrow> stall_attr \<Rightarrow> bool) \<Rightarrow> pipeline option \<Rightarrow> bool" where
  "keeps good \<equiv> yields (on_books good)"

lemma keeps_Some: "P p \<Longrightarrow> yields P (Some p)"
  by (simp add: yields_def)

lemma keeps_None: "yields P None"
  by (simp add: yields_def)

lemma keeps_bind: "yields P x \<Longrightarrow> (\<And>p. P p \<Longrightarrow> yields P (f p)) \<Longrightarrow> yields P (x \<bind> f)"
  by (auto simp: yields_def)

lemma keeps_bind_value: "(\<And>a. yields P (f a)) \<Longrightarrow> yields P (x \<bind> f)"
  by (auto simp: yields_def)

lemma keeps_if: "(b \<Longrightarrow> yields P x) \<Longrightarrow> (\<not> b \<Longrightarrow> yields P y) \<Longrightarrow> yields P (if b then x else y)"
  by simp

lemma keeps_case: "yields P n \<Longrightarrow> (\<And>a. yields P (s a)) \<Longrightarrow> yields P (case x of None \<Rightarrow> n | Some a \<Rightarrow> s a)"
  by (cases x) simp_all

lemma keeps_pair: "(\<And>a b. yields P (f a b)) \<Longrightarrow> yields P (case x of (a, b) \<Rightarrow> f a b)"
  by (cases x) simp

lemma keeps_books: "(\<And>p'. x = Some p' \<Longrightarrow> books_kept p p') \<Longrightarrow> on_books good p \<Longrightarrow> keeps good x"
  by (auto simp: yields_def books_acct)

lemma keeps_op:
  "on_books good p \<Longrightarrow> keeps good (schedule e s t p)" "on_books good p \<Longrightarrow> keeps good (async_schedule e s t p)"
  "on_books good p \<Longrightarrow> keeps good (update_reg_time e rd t p)" "on_books good p \<Longrightarrow> keeps good (set_waiting b p)"
  "on_books good p \<Longrightarrow> keeps good (set_reg_time rd t p)"
  by (rule keeps_books, erule schedule_books async_schedule_books update_reg_time_books
      set_waiting_books set_reg_time_books, assumption)+

lemmas keeps_value = keeps_bind_value [where 'a = transaction] keeps_bind_value [where 'a = unit]
  keeps_bind_value [where 'a = "bool \<times> bool"] keeps_bind_value [where 'a = branch_unit]
  keeps_bind_value [where 'a = nat] keeps_bind_value [where 'a = "transaction ring"]
  keeps_bind_value [where 'a = "branch_unit \<times> branch_result"]

lemmas keeps_rules = keeps_bind keeps_value keeps_if keeps_pair keeps_op keeps_Some keeps_None

section \<open>Predicates the handlers keep\<close>

locale ledger =
  fixes good :: "pipe_stats \<Rightarrow> stall_attr \<Rightarrow> bool" and B :: tick_t
  assumes charge_good: "good s a \<Longrightarrow> st_last_tick a < u \<Longrightarrow> u \<le> B \<Longrightarrow>
      good (charge c (u - st_last_tick a) s) (a\<lparr>st_last_tick := u\<rparr>)"
    and stall_good: "good s (a\<lparr>st_cause := c\<rparr>) = good s a" "good s (a\<lparr>in_br_recovery := b\<rparr>) = good s a"
    and wp_good: "good (s\<lparr>wp_bpu_queries := n\<rparr>) a = good s a" "good (s\<lparr>wp_btb_hits := n\<rparr>) a = good s a"
      "good (s\<lparr>wp_redirects := n\<rparr>) a = good s a" "good (s\<lparr>early_redirects := n\<rparr>) a = good s a"
begin

lemma flush_acct: "on_books good p \<Longrightarrow> u \<le> B \<Longrightarrow> on_books good (flush_stall_cycles u p)"
  by (auto simp: on_books_def flush_stall_cycles_def Let_def charge_good)

lemma set_stall_acct: "on_books good p \<Longrightarrow> now e \<le> B \<Longrightarrow> on_books good (set_stall e c p)"
  using flush_acct [of p "now e"] by (auto simp: set_stall_def Let_def on_books_def stall_good)

lemma stall_unless_acct: "on_books good p \<Longrightarrow> now e \<le> B \<Longrightarrow> on_books good (stall_unless e w c p)"
  by (simp add: stall_unless_def set_stall_acct)

lemma flush_front_acct: "on_books good p \<Longrightarrow> now e \<le> B \<Longrightarrow> on_books good (flush_front e p)"
  using flush_acct [of _ "now e"] by (simp add: flush_front_def Let_def on_books_def stall_good)

lemmas acct_intros = set_stall_acct stall_unless_acct flush_front_acct

lemma wp_stats_acct [simp]:
  "on_books good (p\<lparr>pstats := (pstats p)\<lparr>wp_bpu_queries := n\<rparr>\<rparr>) = on_books good p"
  "on_books good (p\<lparr>pstats := (pstats p)\<lparr>early_redirects := n\<rparr>\<rparr>) = on_books good p"
  "on_books good (wp_advance r p) = on_books good p"
  by (simp_all add: on_books_def wp_advance_def Let_def wp_good)

lemma send_lsu_req_acct: "on_books good p \<Longrightarrow> keeps good (send_lsu_req e port a d sb w p)"
  unfolding send_lsu_req_def Let_def by (intro keeps_rules) simp_all

lemma do_memory_acct: "on_books good p \<Longrightarrow> now e \<le> B \<Longrightarrow> keeps good (do_memory e p)"
  unfolding do_memory_def Let_def by (intro keeps_rules send_lsu_req_acct) (simp_all add: acct_intros)

lemma flush_false_acct: "on_books good p \<Longrightarrow> now e \<le> B \<Longrightarrow> keeps good (flush_false_btb_hit e t p)"
  unfolding flush_false_btb_hit_def Let_def by (intro keeps_rules) (simp_all add: acct_intros)

lemma resolve_branch_acct: "on_books good p \<Longrightarrow> now e \<le> B \<Longrightarrow> keeps good (resolve_branch e t p)"
  unfolding resolve_branch_def Let_def by (intro keeps_rules) (simp_all add: acct_intros)

lemma forward_result_acct: "on_books good p \<Longrightarrow> keeps good (forward_result e i p)"
  unfolding forward_result_def by (intro keeps_rules)

lemma do_execute_acct: "on_books good p \<Longrightarrow> now e \<le> B \<Longrightarrow> keeps good (do_execute e p)"
  unfolding do_execute_def Let_def
  by (intro keeps_rules resolve_branch_acct flush_false_acct forward_result_acct) simp_all

lemma do_mext_acct: "on_books good p \<Longrightarrow> now e \<le> B \<Longrightarrow> keeps good (do_mul_ext e p)"
  "on_books good p \<Longrightarrow> now e \<le> B \<Longrightarrow> keeps good (do_div_ext e p)"
  unfolding do_mul_ext_def do_div_ext_def Let_def
  by (intro keeps_rules flush_false_acct, simp_all)+

lemma do_decode_acct: "on_books good p \<Longrightarrow> now e \<le> B \<Longrightarrow> keeps good (do_decode e p)"
  unfolding do_decode_def drop_wrong_path_def pass_decode_def Let_def
  by (intro keeps_rules) (simp_all add: acct_intros)

lemma do_fetch_1_acct: "on_books good p \<Longrightarrow> keeps good (do_fetch_1 e p)"
  unfolding do_fetch_1_def by (intro keeps_rules) simp_all

lemma enter_wrong_path_acct: "on_books good p \<Longrightarrow> now e \<le> B \<Longrightarrow> on_books good (enter_wrong_path e t p)"
  by (simp add: enter_wrong_path_def Let_def flush_acct)

lemma predict_candidate_acct:
  "predict_candidate t p = Some (p1, t1) \<Longrightarrow> on_books good p1 = on_books good p"
  by (auto simp: predict_candidate_def Let_def case_prod_unfold)

lemma early_stats_acct: "on_books good p \<Longrightarrow>
    on_books good (p\<lparr>fetch_st := f, pstats := (pstats p)\<lparr>early_redirects := n\<rparr>\<rparr>)"
  by (simp add: on_books_def wp_good)

lemma wp_query_acct [simp]:
  "on_books good (p\<lparr>bpu := u, fetch_queue := q, pstats := (pstats p)\<lparr>wp_bpu_queries := n\<rparr>\<rparr>) = on_books good p"
  by (simp add: on_books_def wp_good)

lemma fetch_real_acct: "on_books good p \<Longrightarrow> now e \<le> B \<Longrightarrow> keeps good (fetch_real e p)"
proof -
  assume p: "on_books good p" and B: "now e \<le> B"
  show ?thesis
  proof (cases "rb_full (fetch_queue p) \<or> input_buffer p = None")
    case True
    then show ?thesis using p by (auto simp: fetch_real_def keeps_Some)
  next
    case False
    then obtain t0 where t0: "input_buffer p = Some t0" by auto
    show ?thesis
    proof (cases "predict_candidate t0 (p\<lparr>input_buffer := None\<rparr>)")
      case None
      then show ?thesis using False t0 by (simp add: fetch_real_def keeps_None)
    next
      case (Some pt)
      then obtain p1 t where c: "predict_candidate t0 (p\<lparr>input_buffer := None\<rparr>) = Some (p1, t)" by (cases pt) auto
      have p1: "on_books good p1" using predict_candidate_acct [OF c] p by simp
      then have "on_books good (if tr_br_mispred t then enter_wrong_path e t p1 else p1)"
        using B by (simp add: enter_wrong_path_acct)
      then show ?thesis
        using False t0 c unfolding fetch_real_def Let_def
        by simp (intro conjI impI keeps_value keeps_Some; simp add: early_stats_acct)
    qed
  qed
qed

lemma fetch_wrong_acct: "on_books good p \<Longrightarrow> keeps good (fetch_wrong p)"
  unfolding fetch_wrong_def Let_def by (intro keeps_rules) simp_all

lemma do_fetch_0_acct: "on_books good p \<Longrightarrow> now e \<le> B \<Longrightarrow> keeps good (do_fetch_0 e p)"
  unfolding do_fetch_0_def
  by (intro keeps_rules fetch_real_acct fetch_wrong_acct) (simp_all add: acct_intros)

lemma stage_acct: "s \<noteq> WriteBack \<Longrightarrow> on_books good p \<Longrightarrow> now e \<le> B \<Longrightarrow> keeps good (run_stage e s p)"
  unfolding run_stage_def
  by (cases s) (simp_all add: do_memory_acct do_execute_acct do_mext_acct do_decode_acct do_fetch_1_acct keeps_Some)

lemma run_stages_acct: "WriteBack \<notin> set ss \<Longrightarrow> on_books good p \<Longrightarrow> now e \<le> B \<Longrightarrow> keeps good (run_stages e ss p)"
proof (induction ss arbitrary: p)
  case (Cons s ss)
  then show ?case by (auto intro!: keeps_bind stage_acct)
qed (simp add: keeps_Some)

text \<open>Callbacks and feeding work on the same tick, before or after the update.\<close>

lemma callback_acct:
  "on_books good p \<Longrightarrow> now e \<le> B \<Longrightarrow> keeps good (handle_lsu_resp e p)"
  "on_books good p \<Longrightarrow> keeps good (handle_ifu_resp e p)"
  "on_books good p \<Longrightarrow> keeps good (ack_mem_avail e k p)"
  "on_books good p \<Longrightarrow> now e \<le> B \<Longrightarrow> keeps good (feed_inst e i p)"
proof -
  assume p: "on_books good p"
  show "keeps good (handle_lsu_resp e p)" if "now e \<le> B"
    using p that unfolding handle_lsu_resp_def blocked_by_raw_def Let_def
    by (intro keeps_rules keeps_case) (simp_all add: acct_intros)
  show "keeps good (handle_ifu_resp e p)"
    using p unfolding handle_ifu_resp_def Let_def
    by (cases "resp_is_orphan (fetch_st p)") (auto intro!: keeps_rules)
  show "keeps good (ack_mem_avail e k p)"
    using p unfolding ack_mem_avail_def by (intro keeps_rules keeps_case)
  show "keeps good (feed_inst e i p)" if "now e \<le> B"
    using p that unfolding feed_inst_def by (intro keeps_rules do_fetch_0_acct) simp_all
qed

end

section \<open>The accounts\<close>

text \<open>B bounds the first cycle that is not yet charged.\<close>

definition acct :: "tick_t \<Rightarrow> pipe_stats \<Rightarrow> stall_attr \<Rightarrow> bool" where
  "acct B s a \<longleftrightarrow> st_reset_tick a + breakdown s = st_last_tick a \<and> st_last_tick a \<le> B"

abbreviation acct_ok :: "tick_t \<Rightarrow> pipeline \<Rightarrow> bool" where
  "acct_ok B \<equiv> on_books (acct B)"

interpretation acct: ledger "acct B" B for B
  by unfold_locales (auto simp: acct_def breakdown_def charge_def split: stall_cause.splits)

interpretation insts: ledger "\<lambda>s a. ps_insts s = n" B for n B
  by unfold_locales (auto simp: charge_def split: stall_cause.splits)

lemma acct_later: "acct_ok B p \<Longrightarrow> B \<le> B' \<Longrightarrow> acct_ok B' p"
  by (auto simp: on_books_def acct_def)

lemma commit_acct: "acct_ok (now e) p \<Longrightarrow> acct_ok (now e + 1) (commit_stall e t p)"
  by (auto simp: commit_stall_def Let_def on_books_def acct_def flush_stall_cycles_def breakdown_def
      charge_def split: stall_cause.splits)

lemma count_inst_acct [simp]: "acct_ok B (count_inst e p) = acct_ok B p"
  by (simp add: on_books_def acct_def breakdown_def count_inst_def)

lemma do_writeback_acct: "acct_ok (now e) p \<Longrightarrow> keeps (acct (now e + 1)) (do_writeback e p)"
  using commit_acct [of e "p\<lparr>ongoing_insts := ongoing_insts p - 1\<rparr>"] acct_later [of "now e" p "now e + 1"]
  unfolding do_writeback_def Let_def by (intro keeps_case keeps_rules) simp_all

text \<open>The update runs write-back first, then the other stages, then the fetch.\<close>

definition rest_of_update :: "penv \<Rightarrow> pipeline \<Rightarrow> pipeline option" where
  "rest_of_update e p = do {
     p1 \<leftarrow> run_stages e [Memory, IntDivExt, IntMulExt, Execute, Decode, Fetch] p;
     p2 \<leftarrow> do_fetch_0 e p1;
     Some (calc_sched e p2) }"

lemma pipe_update_impl_split:
  "pipe_update_impl e p = run_stage e WriteBack (p\<lparr>bpu := begin_tick (bpu p)\<rparr>) \<bind> rest_of_update e"
  unfolding pipe_update_impl_def rest_of_update_def by (simp add: all_stages_def)

context ledger
begin

lemma rest_of_update_acct: "on_books good p \<Longrightarrow> now e \<le> B \<Longrightarrow> keeps good (rest_of_update e p)"
  unfolding rest_of_update_def
  by (rule keeps_bind [OF run_stages_acct])
    (simp_all, intro keeps_bind do_fetch_0_acct keeps_Some, simp_all)

end

lemma pipe_update_impl_acct:
  assumes "acct_ok (now e) p"
  shows "keeps (acct (now e + 1)) (pipe_update_impl e p)"
proof -
  let ?p = "p\<lparr>bpu := begin_tick (bpu p)\<rparr>"
  have "keeps (acct (now e + 1)) (run_stage e WriteBack ?p)"
    using assms do_writeback_acct [of e ?p] acct_later [of "now e" p "now e + 1"]
    by (simp add: run_stage_def keeps_Some)
  then show ?thesis
    unfolding pipe_update_impl_split by (rule keeps_bind) (rule acct.rest_of_update_acct, simp_all)
qed

end
