(* ===== verification/PipeFetch.thy ===== *)
theory PipeFetch
  imports PipeProofs PipeAcct
begin

text \<open>
  The fetch side of the core keeps the invariant: do\_fetch\_1, the response of the
  instruction cache, do\_fetch\_0 with its three kinds of requests, and feed\_inst.
\<close>

section \<open>Replacing an entry of the fetch queue\<close>

definition same_key :: "transaction \<Rightarrow> transaction \<Rightarrow> bool" where
  "same_key a b \<longleftrightarrow> tr_inst a = tr_inst b \<and> tr_br_pred a = tr_br_pred b \<and> tr_br_mispred a = tr_br_mispred b \<and>
     is_wrong_path a = is_wrong_path b \<and> counted_inflight a = counted_inflight b"

lemma same_key_trans_ok: "same_key a b \<Longrightarrow> trans_ok a = trans_ok b"
  by (simp add: same_key_def trans_ok_def)

lemma same_key_refl [simp]: "same_key a a"
  by (simp add: same_key_def)

lemma same_key_upd [simp]: "same_key a (a\<lparr>wait_mem := b\<rparr>)" "same_key a (a\<lparr>bp_meta_hold := n\<rparr>)"
  by (simp_all add: same_key_def)

lemma same_key_list:
  assumes "list_all2 same_key xs ys"
  shows "real_count xs = real_count ys" "path_ok f xs = path_ok f ys"
    "(\<forall>t\<in>set xs. trans_ok t) = (\<forall>t\<in>set ys. trans_ok t)"
proof -
  have all: "(\<forall>t\<in>set xs. P t) = (\<forall>t\<in>set ys. P t)" if "\<And>a b. same_key a b \<Longrightarrow> P a = P b" for P
    using assms that by (induction rule: list_all2_induct) auto
  show "real_count xs = real_count ys"
    using assms by (induction rule: list_all2_induct) (auto simp: same_key_def)
  have "split_path xs = split_path ys"
    using assms
  proof (induction rule: list_all2_induct)
    case (Cons a xs b ys)
    have "(\<forall>t\<in>set xs. is_wrong_path t) = (\<forall>t\<in>set ys. is_wrong_path t)"
      using Cons(2) by (induction rule: list_all2_induct) (auto simp: same_key_def)
    then show ?case using Cons by (auto simp: same_key_def)
  qed simp
  then show "path_ok f xs = path_ok f ys"
    using all [of on_path] by (simp add: path_ok_def on_path_def same_key_def)
  show "(\<forall>t\<in>set xs. trans_ok t) = (\<forall>t\<in>set ys. trans_ok t)"
    by (rule all) (rule same_key_trans_ok)
qed

lemma list_all2_same_key_refl [simp]: "list_all2 same_key xs xs"
  by (simp add: list_all2_refl)

lemma list_all2_update: "i < length xs \<Longrightarrow> same_key (xs ! i) t \<Longrightarrow> list_all2 same_key xs (xs[i := t])"
  by (auto simp: list_all2_conv_all_nth nth_list_update)

text \<open>The path invariant only reads the two wrong-path flags.\<close>

lemma path_ok_flags: "wrong_path f = wrong_path g \<Longrightarrow> wp_flushed f = wp_flushed g \<Longrightarrow> path_ok f ts = path_ok g ts"
  by (simp add: path_ok_def)

lemma replace_entry_inv:
  assumes p: "pipe_inv T p" and i: "i < rb_cnt (fetch_queue p)" and k: "same_key (rb_list (fetch_queue p) ! i) t"
    and f: "wrong_path f = wrong_path (fetch_st p)" "wp_flushed f = wp_flushed (fetch_st p)"
    and r: "resp_ok (resp_is_orphan f) ((rb_list (fetch_queue p))[i := t])"
  shows "pipe_inv T (p\<lparr>fetch_st := f, fetch_queue := rb_put i t (fetch_queue p)\<rparr>)"
    and "in_flight (p\<lparr>fetch_st := f, fetch_queue := rb_put i t (fetch_queue p)\<rparr>) = in_flight p"
proof -
  let ?q = "p\<lparr>fetch_st := f, fetch_queue := rb_put i t (fetch_queue p)\<rparr>"
  have ring: "ring_ok (fetch_queue p)" using pipe_baseD(3) [OF pipe_invD(1) [OF p]] .
  note put = rb_put_spec [OF ring i, of t]
  have "list_all2 same_key (rb_list (fetch_queue p)) ((rb_list (fetch_queue p))[i := t])"
    using i k by (intro list_all2_update) auto
  then have l: "list_all2 same_key (front_list p) (front_list ?q)"
    by (simp add: front_list_def put list_all2_appendI)
  have b: "back_list ?q = back_list p" "lsu_waits ?q = lsu_waits p"
    by (simp_all add: back_list_def lsu_waits_def)
  show n: "in_flight ?q = in_flight p"
    using same_key_list(1) [OF l] b by (simp add: in_flight_def)
  show "pipe_inv T ?q"
    using p put n b r f same_key_list(2,3) [OF l] path_ok_flags [of f "fetch_st p"]
    unfolding pipe_inv_def pipe_base_def by simp
qed

section \<open>Waiting entries\<close>

lemma n_expected_simps [simp]: "n_expected [] = 0" "n_expected (x # os) = (if x then 0 else 1) + n_expected os"
  "n_expected (os @ os') = n_expected os + n_expected os'"
  by (simp_all add: n_expected_def)

lemma n_waiting_simps [simp]: "n_waiting [] = 0" "n_waiting (t # ts) = (if wait_mem t then 1 else 0) + n_waiting ts"
  "n_waiting (ts @ ts') = n_waiting ts + n_waiting ts'"
  by (simp_all add: n_waiting_def)

lemma waiting_suffix_snoc: "waiting_suffix ts \<Longrightarrow> wait_mem t \<Longrightarrow> waiting_suffix (ts @ [t])"
  by (induction ts) auto

lemma waiting_suffix_all: "\<forall>t\<in>set ts. wait_mem t \<Longrightarrow> waiting_suffix ts"
  by (induction ts) auto

lemma first_waiting:
  "0 < n_waiting ts \<Longrightarrow> \<exists>i. first_idx wait_mem ts = Some i \<and> i < length ts \<and> wait_mem (ts ! i) \<and>
     n_waiting ts = Suc (n_waiting (ts[i := (ts ! i)\<lparr>wait_mem := False\<rparr>])) \<and>
     (waiting_suffix ts \<longrightarrow> waiting_suffix (ts[i := (ts ! i)\<lparr>wait_mem := False\<rparr>]))"
proof (induction ts)
  case (Cons t ts)
  show ?case
  proof (cases "wait_mem t")
    case True
    then show ?thesis by (auto intro: waiting_suffix_all)
  next
    case False
    then show ?thesis using Cons by auto
  qed
qed simp

text \<open>A response always finds the entry it belongs to: the oldest that waits.\<close>

lemma handle_ifu_resp_ok:
  assumes p: "pipe_inv T p" and os: "resp_is_orphan (fetch_st p) \<noteq> []"
  shows "\<exists>p'. handle_ifu_resp e p = Some p' \<and> pipe_inv T p' \<and> in_flight p' = in_flight p"
proof -
  obtain orph rest where os_eq: "resp_is_orphan (fetch_st p) = orph # rest"
    using os by (cases "resp_is_orphan (fetch_st p)") auto
  let ?q = "fetch_queue p" and ?f = "(fetch_st p)\<lparr>resp_is_orphan := rest\<rparr>"
  have ring: "ring_ok ?q" using pipe_baseD(3) [OF pipe_invD(1) [OF p]] .
  have resp: "resp_ok (orph # rest) (rb_list ?q)"
    using pipe_baseD(7) [OF pipe_invD(1) [OF p]] os_eq by simp
  show ?thesis
  proof (cases orph)
    case True
    have "pipe_inv T (p\<lparr>fetch_st := ?f\<rparr>)" "in_flight (p\<lparr>fetch_st := ?f\<rparr>) = in_flight p"
      using p resp True path_ok_flags [of ?f "fetch_st p"]
      by (simp_all add: pipe_inv_def pipe_base_def front_list_def back_list_def in_flight_def lsu_waits_def resp_ok_def)
    then show ?thesis using True os_eq by (simp add: handle_ifu_resp_def)
  next
    case False
    then have "0 < n_waiting (rb_list ?q)" using resp by (simp add: resp_ok_def)
    then obtain i where i: "first_idx wait_mem (rb_list ?q) = Some i" "i < rb_cnt ?q"
        "n_waiting (rb_list ?q) = Suc (n_waiting ((rb_list ?q)[i := (rb_list ?q ! i)\<lparr>wait_mem := False\<rparr>]))"
        "waiting_suffix (rb_list ?q) \<longrightarrow> waiting_suffix ((rb_list ?q)[i := (rb_list ?q ! i)\<lparr>wait_mem := False\<rparr>])"
      using first_waiting by force
    define t where "t = rb_list ?q ! i"
    have find: "rb_find_if (\<lambda>t. case t of Some x \<Rightarrow> wait_mem x | None \<Rightarrow> False) ?q = Some i"
      using rb_find_if_spec [OF ring] i(1) by (simp add: comp_def)
    have at: "rb_at ?q i = Some t" using ring_at [OF ring i(2)] by (simp add: t_def)
    define p1 where "p1 = p\<lparr>fetch_st := ?f, fetch_queue := rb_put i (t\<lparr>wait_mem := False\<rparr>) ?q\<rparr>"
    have p1: "pipe_inv T p1" "in_flight p1 = in_flight p"
      unfolding p1_def t_def
      using resp i False by (intro replace_entry_inv [OF p i(2)]; simp add: resp_ok_def)+
    have "handle_ifu_resp e p = async_schedule e Fetch (now e + 1) p1"
      using os_eq False find at by (simp add: handle_ifu_resp_def p1_def)
    then show ?thesis
      using schedule_inv [OF p1(1), of Fetch] p1(2)
      by (simp add: async_schedule_ex same_viewD [OF schedule_view(3)])
  qed
qed

section \<open>From the queue to the fetch slot\<close>

lemma do_fetch_1_ok:
  assumes p: "pipe_inv T p" and f: "sim_pipe p Fetch = None" and inf: "now e \<le> InfTime"
  shows "\<exists>p'. do_fetch_1 e p = Some p' \<and> pipe_inv T p' \<and> in_flight p' = in_flight p"
proof (cases "rb_list (fetch_queue p)")
  case Nil
  then show ?thesis
    using p inf by (simp add: do_fetch_1_def rb_empty_list schedule_ex schedule_inv same_viewD [OF schedule_view(1)])
next
  case (Cons t ts)
  let ?q = "fetch_queue p"
  have ring: "ring_ok ?q" using pipe_baseD(3) [OF pipe_invD(1) [OF p]] .
  have front: "rb_front ?q = Some t" using ifq.front_ok [OF ring] Cons by simp
  have resp: "resp_ok (resp_is_orphan (fetch_st p)) (t # ts)"
    using pipe_baseD(7) [OF pipe_invD(1) [OF p]] Cons by simp
  have sched: "\<exists>p'. schedule e Fetch x r = Some p' \<and> pipe_inv T p' \<and> in_flight p' = in_flight r"
    if "pipe_inv T r" "now e \<le> x" for r x
    using that by (simp add: schedule_ex schedule_inv same_viewD [OF schedule_view(1)])
  consider "wait_mem t" | "\<not> wait_mem t" "0 < bp_meta_hold t" | "\<not> wait_mem t" "bp_meta_hold t = 0"
    by blast
  then show ?thesis
  proof cases
    case 1
    then show ?thesis
      using Cons front sched [OF p inf] by (simp add: do_fetch_1_def rb_empty_list)
  next
    case 2
    define t' where "t' = t\<lparr>bp_meta_hold := bp_meta_hold t - 1\<rparr>"
    define p1 where "p1 = p\<lparr>fetch_st := fetch_st p, fetch_queue := rb_put 0 t' ?q\<rparr>"
    have c: "0 < rb_cnt ?q" using Cons by (metis length_rb_list length_greater_0_conv list.distinct(1))
    have p1: "pipe_inv T p1" "in_flight p1 = in_flight p"
      unfolding p1_def t'_def
      using resp Cons 2 by (intro replace_entry_inv [OF p c]; simp add: resp_ok_def flip: nth_rb_list)+
    have "do_fetch_1 e p = schedule e Fetch (now e + 1) p1"
      using Cons front 2 by (simp add: do_fetch_1_def rb_empty_list p1_def t'_def)
    then show ?thesis using sched [OF p1(1), of "now e + 1"] p1(2) by simp
  next
    case 3
    obtain q' where q': "rb_pop_front ?q = Some q'" "ring_ok q'" "rb_list q' = ts" "rb_cap q' = rb_cap ?q"
      using ifq.pop_ok [OF ring] Cons by auto
    let ?r = "put_slot Fetch (Some t) (p\<lparr>fetch_queue := q'\<rparr>)"
    have fl: "front_list ?r = front_list p" using f Cons q' by (simp add: front_list_def)
    have b: "back_list ?r = back_list p" "lsu_waits ?r = lsu_waits p"
      by (simp_all add: back_list_def lsu_waits_def)
    have s: "input_buffer ?r = input_buffer p" "ongoing_insts ?r = ongoing_insts p" "bpu ?r = bpu p"
      by (simp_all add: put_slot_def)
    have n: "in_flight ?r = in_flight p" using fl b s by (simp add: in_flight_def)
    have "resp_ok (resp_is_orphan (fetch_st p)) ts"
      using resp 3 by (simp add: resp_ok_def)
    then have "pipe_inv T ?r"
      using p fl b s n q' 3 unfolding pipe_inv_def pipe_base_def by simp
    then show ?thesis
      using Cons front 3 f q'(1) n by (simp add: do_fetch_1_def rb_empty_list)
  qed
qed

section \<open>Issuing fetches\<close>

text \<open>A fetch changes nothing behind the fetch queue.\<close>

definition same_core :: "pipeline \<Rightarrow> pipeline \<Rightarrow> bool" where
  "same_core p p' \<longleftrightarrow> sim_pipe p' = sim_pipe p \<and> reg_ready p' = reg_ready p \<and> stage_update p' = stage_update p \<and>
     ongoing_insts p' = ongoing_insts p \<and> unit_ok (bpu p')"

lemma same_core_lists:
  "same_core p p' \<Longrightarrow> back_list p' = back_list p \<and> lsu_waits p' = lsu_waits p"
  by (simp add: same_core_def back_list_def lsu_waits_def)

lemma keep_queue_inv:
  assumes p: "pipe_inv T p" and c: "same_core p p'" and q: "fetch_queue p' = fetch_queue p" "input_buffer p' = input_buffer p"
    and f: "wrong_path (fetch_st p') = wrong_path (fetch_st p)" "wp_flushed (fetch_st p') = wp_flushed (fetch_st p)"
      "n_expected (resp_is_orphan (fetch_st p')) = n_expected (resp_is_orphan (fetch_st p))"
  shows "pipe_inv T p' \<and> in_flight p' = in_flight p"
proof -
  have fl: "front_list p' = front_list p" using c q by (simp add: same_core_def front_list_def)
  have n: "in_flight p' = in_flight p" using fl q same_core_lists [OF c] by (simp add: in_flight_def)
  show ?thesis
    using p c q f n fl same_core_lists [OF c] path_ok_flags [OF f(1,2)]
    by (simp add: pipe_inv_def pipe_base_def same_core_def resp_ok_def)
qed

lemma fetch_early_ok:
  assumes p: "pipe_inv T p"
  shows "pipe_inv T (fetch_early p) \<and> in_flight (fetch_early p) = in_flight p"
  by (rule keep_queue_inv [OF p])
    (use pipe_baseD(2) [OF pipe_invD(1) [OF p]] in
      \<open>simp_all add: fetch_early_def Let_def note_resp_def request_def same_core_def\<close>)

text \<open>A new entry at the back of the queue, with its place in the response FIFO.\<close>

lemma enqueue_inv:
  assumes p: "pipe_inv T p" and c: "same_core p p'" and q: "rb_push_back t (fetch_queue p) = Some (fetch_queue p')"
    and t: "trans_ok t" "wait_mem t"
    and os: "resp_is_orphan (fetch_st p') = resp_is_orphan (fetch_st p) @ [False]"
    and path: "path_ok (fetch_st p') (front_list p @ [t])"
    and ib: "counted_inflight t \<and> input_buffer p \<noteq> None \<and> input_buffer p' = None \<or>
             \<not> counted_inflight t \<and> input_buffer p' = input_buffer p"
  shows "pipe_inv T p' \<and> in_flight p' = in_flight p"
proof -
  note base = pipe_invD(1) [OF p]
  have ring: "ring_ok (fetch_queue p)" using pipe_baseD(3) [OF base] .
  note push = ifq.pushE [OF q ring]
  have fl: "front_list p' = front_list p @ [t]"
    using c by (simp add: front_list_def same_core_def push)
  note b = same_core_lists [OF c]
  have "real_count (opt_list (input_buffer p)) = real_count (opt_list (input_buffer p')) + real_count [t]"
    using ib base by (auto simp: pipe_base_def)
  then have n: "in_flight p' = in_flight p" by (simp add: in_flight_def fl b)
  have resp: "resp_ok (resp_is_orphan (fetch_st p')) (rb_list (fetch_queue p'))"
    using pipe_baseD(7) [OF base] t(2) by (simp add: resp_ok_def os push waiting_suffix_snoc)
  have "slot_all (\<lambda>t. inst_ok (tr_inst t) \<and> \<not> tr_br_mispred t \<and> \<not> is_wrong_path t \<and> counted_inflight t) (input_buffer p')"
    using ib base by (auto simp: pipe_base_def)
  then have "pipe_inv T p'"
    using base c fl b n resp t(1) path push(1,3) unfolding pipe_inv_def pipe_base_def same_core_def by auto
  then show ?thesis using n by simp
qed

lemma wp_advance_sel [simp]:
  "sim_pipe (wp_advance r p) = sim_pipe p" "fetch_queue (wp_advance r p) = fetch_queue p"
  "wrong_path (fetch_st (wp_advance r p)) = wrong_path (fetch_st p)"
  "wp_flushed (fetch_st (wp_advance r p)) = wp_flushed (fetch_st p)"
  "resp_is_orphan (fetch_st (wp_advance r p)) = resp_is_orphan (fetch_st p)"
  "resume_tick (fetch_st (wp_advance r p)) = resume_tick (fetch_st p)"
  "port_reqs (wp_advance r p) = port_reqs p"
  by (simp_all add: wp_advance_def Let_def)

lemma wp_advance_core [simp]: "ongoing_insts (wp_advance r p) = ongoing_insts p"
  "reg_ready (wp_advance r p) = reg_ready p" "stage_update (wp_advance r p) = stage_update p"
  "bpu (wp_advance r p) = bpu p" "input_buffer (wp_advance r p) = input_buffer p"
  by (simp_all add: wp_advance_def Let_def)

lemma fetch_wrong_ok:
  assumes p: "pipe_inv T p" and w: "wrong_path (fetch_st p)" "\<not> wp_flushed (fetch_st p)"
  shows "\<exists>p'. fetch_wrong p = Some p' \<and> pipe_inv T p' \<and> in_flight p' = in_flight p"
proof (cases "rb_full (fetch_queue p)")
  case True
  then show ?thesis using p by (simp add: fetch_wrong_def)
next
  case False
  let ?pc = "wrong_path_pc (fetch_st p)"
  note base = pipe_invD(1) [OF p]
  define t where "t = new_transaction (inst_zero\<lparr>ti_pc := ?pc\<rparr>) True True"
  have t: "trans_ok t" "wait_mem t" "is_wrong_path t" "\<not> counted_inflight t"
    by (simp_all add: t_def new_transaction_def trans_ok_def no_prediction_def) (simp add: inst_zero_def)
  obtain u r where u: "unit_predict ?pc (bpu p) = Some (u, r)" "unit_ok u"
    using unit_predict_ex [OF pipe_baseD(2) [OF base]] by blast
  obtain q where q: "rb_push_back t (fetch_queue p) = Some q"
    using rb_push_back_spec [OF pipe_baseD(3) [OF base] False] by blast
  obtain p' where p': "fetch_wrong p = Some p'"
    using False u(1) q by (simp add: fetch_wrong_def Let_def t_def)
  then have v: "same_core p p'" "fetch_queue p' = q" "input_buffer p' = input_buffer p"
      "wrong_path (fetch_st p')" "\<not> wp_flushed (fetch_st p')"
      "resp_is_orphan (fetch_st p') = resp_is_orphan (fetch_st p) @ [False]"
    using False u q w by (auto simp: fetch_wrong_def Let_def t_def [symmetric] note_resp_def request_def same_core_def)
  have "path_ok (fetch_st p') (front_list p @ [t])"
    using pipe_invD(2) [OF p] w v t(3) by (simp add: path_ok_def split_path_snoc)
  then show ?thesis
    using enqueue_inv [OF p v(1), of t] q t v p' by simp
qed

lemma predict_candidate_ok:
  assumes u: "unit_ok (bpu p)" and t: "inst_ok (tr_inst t)" "\<not> is_wrong_path t" "counted_inflight t"
  shows "\<exists>u' t'. predict_candidate t p = Some (p\<lparr>bpu := u'\<rparr>, t') \<and> unit_ok u' \<and> trans_ok t' \<and> wait_mem t' \<and>
    \<not> is_wrong_path t' \<and> counted_inflight t' \<and> tr_inst t' = tr_inst t"
proof -
  let ?i = "tr_inst t"
  obtain u1 r where u1: "predict_at_fetch (ti_pc ?i) (ti_is_branch ?i) (bpu p) = Some (u1, r)" "unit_ok u1" "bht_cnt r \<le> 3"
    using predict_at_fetch_ex [OF u] by blast
  obtain u2 acc where j: "judge (ti_is_branch ?i \<and> ti_br_taken ?i)
      (if ti_is_branch ?i \<and> ti_br_taken ?i then ti_mem_addr ?i else 0) r u1 = (u2, acc)"
    by (meson surj_pair)
  have u2: "unit_ok u2" using judge_ok u1(2) j by (metis fst_conv)
  have nb: "r = no_prediction \<and> acc" if "\<not> ti_is_branch ?i"
    using u1(1) j that judge_accurate [of False 0 no_prediction u1]
    by (auto simp: predict_at_fetch_def no_prediction_def)
  show ?thesis
    using u1 u2 j nb t by (auto simp: predict_candidate_def Let_def trans_ok_def)
qed

lemma fetch_real_ok:
  assumes p: "pipe_inv T p" and w: "\<not> wrong_path (fetch_st p)"
  shows "\<exists>p'. fetch_real e p = Some p' \<and> pipe_inv T p' \<and> in_flight p' = in_flight p"
proof (cases "rb_full (fetch_queue p) \<or> input_buffer p = None")
  case True
  then show ?thesis using p by (auto simp: fetch_real_def)
next
  case False
  then obtain t0 where t0: "input_buffer p = Some t0" and nf: "\<not> rb_full (fetch_queue p)" by auto
  note base = pipe_invD(1) [OF p]
  have t0_ok: "inst_ok (tr_inst t0)" "\<not> is_wrong_path t0" "counted_inflight t0"
    using base t0 by (simp_all add: pipe_base_def)
  obtain u t where c: "predict_candidate t0 (p\<lparr>input_buffer := None\<rparr>) = Some (p\<lparr>input_buffer := None, bpu := u\<rparr>, t)"
      and u: "unit_ok u" and t: "trans_ok t" "wait_mem t" "\<not> is_wrong_path t" "counted_inflight t" "tr_inst t = tr_inst t0"
    using predict_candidate_ok [of "p\<lparr>input_buffer := None\<rparr>" t0] t0_ok pipe_baseD(2) [OF base] by auto
  obtain q where q: "rb_push_back t (fetch_queue p) = Some q"
    using rb_push_back_spec [OF pipe_baseD(3) [OF base] nf] by blast
  let ?p1 = "p\<lparr>input_buffer := None, bpu := u\<rparr>"
  define p2 where "p2 = (if tr_br_mispred t then enter_wrong_path e t ?p1 else ?p1)"
  have p2: "same_core p p2" "fetch_queue p2 = fetch_queue p" "input_buffer p2 = None"
      "wrong_path (fetch_st p2) = tr_br_mispred t" "wp_flushed (fetch_st p2) = wp_flushed (fetch_st p)"
      "resp_is_orphan (fetch_st p2) = resp_is_orphan (fetch_st p)"
    using u w by (simp_all add: p2_def enter_wrong_path_def Let_def same_core_def)
  define p3 where "p3 = note_resp False (request (ImemRead (ti_pc (tr_inst t))) p2)"
  define p4 where "p4 = (if tage_overrode_bimodal (tr_br_pred t)
      then p3\<lparr>fetch_st := (fetch_st p3)\<lparr>resume_tick := max (resume_tick (fetch_st p3)) (now e + 2)\<rparr>\<rparr> else p3)"
  define p5 where "p5 = (if \<not> tr_br_mispred t \<and> will_redirect (tr_br_pred t)
      then p4\<lparr>fetch_st := (fetch_st p4)\<lparr>early_redir_remaining := 2, early_redir_seq_pc := ti_pc (tr_inst t) + 4\<rparr>,
              pstats := (pstats p4)\<lparr>early_redirects := early_redirects (pstats p4) + 1\<rparr>\<rparr> else p4)"
  have p5: "same_core p p5" "fetch_queue p5 = fetch_queue p" "input_buffer p5 = None"
      "wrong_path (fetch_st p5) = tr_br_mispred t" "wp_flushed (fetch_st p5) = wp_flushed (fetch_st p)"
      "resp_is_orphan (fetch_st p5) = resp_is_orphan (fetch_st p) @ [False]"
    using p2 by (simp_all add: p5_def p4_def p3_def note_resp_def request_def same_core_def)
  define p6 where "p6 = p5\<lparr>fetch_queue := q\<rparr>"
  have "fetch_real e p = Some p6"
    using t0 nf c q p5(2)
    unfolding fetch_real_def Let_def p2_def p3_def p4_def p5_def p6_def by simp
  moreover have "path_ok (fetch_st p6) (front_list p @ [t])"
    using pipe_invD(2) [OF p] w t(3) p5(4,5)
    by (auto simp: path_ok_def p6_def on_path_def intro: split_path_enter)
  then have "pipe_inv T p6 \<and> in_flight p6 = in_flight p"
    using p5 q t t0 by (intro enqueue_inv [OF p, of p6 t]) (simp_all add: p6_def same_core_def)
  ultimately show ?thesis by simp
qed

lemma leave_wrong_path_inv:
  assumes p: "pipe_inv T p" and w: "wrong_path (fetch_st p)" "wp_flushed (fetch_st p)"
  shows "pipe_inv T (leave_wrong_path p) \<and> in_flight (leave_wrong_path p) = in_flight p"
  using p w by (simp add: leave_wrong_path_def pipe_inv_def pipe_base_def front_list_def back_list_def
      in_flight_def lsu_waits_def path_ok_def)

lemma do_fetch_0_ok:
  assumes p: "pipe_inv T p"
  shows "\<exists>p'. do_fetch_0 e p = Some p' \<and> pipe_inv T p' \<and> in_flight p' = in_flight p"
proof -
  consider "now e < resume_tick (fetch_st p)" | "\<not> now e < resume_tick (fetch_st p)" "\<not> imem_ready e"
    | "\<not> now e < resume_tick (fetch_st p)" "imem_ready e" "0 < early_redir_remaining (fetch_st p)"
    | "\<not> now e < resume_tick (fetch_st p)" "imem_ready e" "\<not> 0 < early_redir_remaining (fetch_st p)"
      "wrong_path (fetch_st p)" "\<not> wp_flushed (fetch_st p)"
    | "\<not> now e < resume_tick (fetch_st p)" "imem_ready e" "\<not> 0 < early_redir_remaining (fetch_st p)"
      "wrong_path (fetch_st p)" "wp_flushed (fetch_st p)"
    | "\<not> now e < resume_tick (fetch_st p)" "imem_ready e" "\<not> 0 < early_redir_remaining (fetch_st p)"
      "\<not> wrong_path (fetch_st p)"
    by blast
  then show ?thesis
  proof cases
    case 3
    then show ?thesis using fetch_early_ok [OF p] by (simp add: do_fetch_0_def)
  next
    case 4
    then show ?thesis using fetch_wrong_ok [OF p] by (simp add: do_fetch_0_def)
  next
    case 5
    note l = leave_wrong_path_inv [OF p 5(4,5)]
    have "\<not> wrong_path (fetch_st (leave_wrong_path p))" by (simp add: leave_wrong_path_def)
    then show ?thesis using 5 fetch_real_ok [of T "leave_wrong_path p" e] l by (simp add: do_fetch_0_def)
  next
    case 6
    then show ?thesis using fetch_real_ok [OF p] by (simp add: do_fetch_0_def)
  qed (use p in \<open>simp_all add: do_fetch_0_def\<close>)
qed

lemma feed_inst_ok:
  assumes p: "pipe_inv T p" and ib: "input_buffer p = None" and i: "inst_ok i"
  shows "\<exists>p'. feed_inst e i p = Some p' \<and> pipe_inv T p' \<and> in_flight p' = Suc (in_flight p)"
proof -
  define p1 where "p1 = p\<lparr>ongoing_insts := ongoing_insts p + 1, input_buffer := Some (new_transaction i False False)\<rparr>"
  have n: "in_flight p1 = Suc (in_flight p)"
    using ib by (simp add: p1_def in_flight_def front_list_def back_list_def new_transaction_def)
  have "pipe_inv T p1"
    using p i n unfolding p1_def
    by (simp add: pipe_inv_def pipe_base_def front_list_def back_list_def lsu_waits_def new_transaction_def)
  then show ?thesis
    using do_fetch_0_ok [of T p1 e] ib n by (simp add: feed_inst_def p1_def)
qed

section \<open>The counter of instructions in flight\<close>

text \<open>The queue is bounded, so the counter never wraps.\<close>

lemma in_flight_bound: "pipe_base T p \<Longrightarrow> in_flight p < 2 ^ 64"
proof -
  assume p: "pipe_base T p"
  have o: "real_count (opt_list x) \<le> 1" for x by (cases x) simp_all
  have "rb_cnt (fetch_queue p) < 2 ^ 32" using p by (auto simp: pipe_base_def ring_ok_def)
  then have "real_count (rb_list (fetch_queue p)) < 2 ^ 32"
    using real_count_le [of "rb_list (fetch_queue p)"] by simp
  then show ?thesis
    using o [of "input_buffer p"] o [of "sim_pipe p Decode"] o [of "sim_pipe p Fetch"] o [of "sim_pipe p Execute"]
      o [of "sim_pipe p IntMulExt"] o [of "sim_pipe p IntDivExt"] o [of "sim_pipe p Memory"]
    by (simp add: in_flight_def front_list_def back_list_def)
qed

lemma in_flight_unat: "pipe_base T p \<Longrightarrow> in_flight p = unat (ongoing_insts p)"
proof -
  assume p: "pipe_base T p"
  then have "ongoing_insts p = of_nat (in_flight p)" by (rule pipe_baseD(8))
  then show ?thesis using in_flight_bound [OF p] by (simp add: unat_of_nat)
qed

lemma ongoing_flight: "pipe_base T p \<Longrightarrow> pipe_base T' p' \<Longrightarrow> ongoing_insts p' = ongoing_insts p \<Longrightarrow> in_flight p' = in_flight p"
  by (simp add: in_flight_unat)

lemma schedule_ongoing: "schedule e s t p = Some p' \<Longrightarrow> ongoing_insts p' = ongoing_insts p"
  "async_schedule e s t p = Some p' \<Longrightarrow> ongoing_insts p' = ongoing_insts p"
  by (auto simp: schedule_def async_schedule_def)

lemma set_waiting_ongoing: "set_waiting b p = Some p' \<Longrightarrow> ongoing_insts p' = ongoing_insts p"
  by (auto simp: set_waiting_def put_slot_def)

lemma update_reg_time_ongoing: "update_reg_time e rd t p = Some p' \<Longrightarrow> ongoing_insts p' = ongoing_insts p"
  by (auto simp: update_reg_time_def set_reg_time_def wake_decode_def Let_def dest!: schedule_ongoing
      split: if_splits option.splits)

lemma move_slot_ongoing [simp]: "ongoing_insts (move_slot a b p) = ongoing_insts p"
  "ongoing_insts (request r p) = ongoing_insts p"
  by (simp_all add: move_slot_def request_def)

lemmas frame_ongoing = schedule_ongoing set_waiting_ongoing update_reg_time_ongoing

lemma send_lsu_req_ongoing: "send_lsu_req e port a d sb w p = Some p' \<Longrightarrow> ongoing_insts p' = ongoing_insts p"
  by (auto simp: send_lsu_req_def Let_def dest!: frame_ongoing split: if_splits)

lemma do_memory_ongoing: "do_memory e p = Some p' \<Longrightarrow> ongoing_insts p' = ongoing_insts p"
  unfolding do_memory_def Let_def
  by (auto dest!: frame_ongoing send_lsu_req_ongoing split: if_splits)

lemma handle_lsu_resp_ongoing: "handle_lsu_resp e p = Some p' \<Longrightarrow> ongoing_insts p' = ongoing_insts p"
  unfolding handle_lsu_resp_def blocked_by_raw_def Let_def
  by (auto dest!: frame_ongoing split: if_splits option.splits)

section \<open>A whole update\<close>

text \<open>Trace instructions in flight and committed, together.\<close>

definition accounted :: "pipeline \<Rightarrow> nat" where
  "accounted p = in_flight p + ps_insts (pstats p)"

lemma run_writeback:
  "pipe_inv T p \<Longrightarrow> \<exists>p'. run_stage e WriteBack p = Some p' \<and> pipe_inv T p' \<and> accounted p' = accounted p"
  using do_writeback_ok [of T p e] by (auto simp: run_stage_def accounted_def)

lemma run_memory:
  assumes "pipe_inv T p" "T < InfTime" "now e \<le> InfTime"
  shows "\<exists>p'. run_stage e Memory p = Some p' \<and> pipe_inv T p' \<and> in_flight p' = in_flight p"
proof (cases "sim_pipe p Memory = None \<and> prev_stage_valid e p Memory \<and> stage_update p Memory \<le> now e")
  case True
  then obtain p' where p': "do_memory e p = Some p'" "pipe_inv T p'"
    using do_memory_ok [OF assms(1) _ _ assms(2,3)] by auto
  have "in_flight p' = in_flight p"
    by (rule ongoing_flight [OF pipe_invD(1) [OF assms(1)] pipe_invD(1) [OF p'(2)] do_memory_ongoing [OF p'(1)]])
  then show ?thesis using p' True by (simp add: run_stage_def)
next
  case False
  then show ?thesis using assms(1) by (auto simp: run_stage_def)
qed

lemma run_ex_stages:
  assumes "pipe_inv T p" "T < InfTime" "T \<le> now e" "s \<in> {IntDivExt, IntMulExt, Execute}"
  shows "\<exists>p'. run_stage e s p = Some p' \<and> pipe_inv T p' \<and> in_flight p' = in_flight p"
  using assms do_execute_ok [of T p _ e] do_mul_ext_ok [of T p _ e] do_div_ext_ok [of T p _ e]
  by (auto simp: run_stage_def)

lemma run_decode:
  assumes "pipe_inv T p" "T \<le> now e" "now e < InfTime"
  shows "\<exists>p'. run_stage e Decode p = Some p' \<and> pipe_inv (now e + 1) p' \<and> in_flight p' = in_flight p"
  using assms do_decode_ok [of T p _ e] inv_later [of T p "now e + 1"] by (auto simp: run_stage_def)

lemma run_fetch:
  "pipe_inv T p \<Longrightarrow> now e \<le> InfTime \<Longrightarrow> \<exists>p'. run_stage e Fetch p = Some p' \<and> pipe_inv T p' \<and> in_flight p' = in_flight p"
  using do_fetch_1_ok [of T p e] by (auto simp: run_stage_def)

lemma rest_of_update_ok:
  assumes p1: "pipe_inv T p1" and T: "T \<le> now e" and inf: "now e < InfTime"
  shows "\<exists>p'. rest_of_update e p1 = Some p' \<and> pipe_inv (now e + 1) p' \<and> in_flight p' = in_flight p1"
proof -
  have T1: "T < InfTime" using T inf by simp
  obtain p2 where p2: "run_stage e Memory p1 = Some p2" "pipe_inv T p2" "in_flight p2 = in_flight p1"
    using run_memory [OF p1 T1] inf by force
  obtain p3 where p3: "run_stage e IntDivExt p2 = Some p3" "pipe_inv T p3" "in_flight p3 = in_flight p2"
    using run_ex_stages [OF p2(2) T1 T] by blast
  obtain p4 where p4: "run_stage e IntMulExt p3 = Some p4" "pipe_inv T p4" "in_flight p4 = in_flight p3"
    using run_ex_stages [OF p3(2) T1 T] by blast
  obtain p5 where p5: "run_stage e Execute p4 = Some p5" "pipe_inv T p5" "in_flight p5 = in_flight p4"
    using run_ex_stages [OF p4(2) T1 T] by blast
  obtain p6 where p6: "run_stage e Decode p5 = Some p6" "pipe_inv (now e + 1) p6" "in_flight p6 = in_flight p5"
    using run_decode [OF p5(2) T inf] by blast
  obtain p7 where p7: "run_stage e Fetch p6 = Some p7" "pipe_inv (now e + 1) p7" "in_flight p7 = in_flight p6"
    using run_fetch [OF p6(2)] inf by force
  obtain p8 where p8: "do_fetch_0 e p7 = Some p8" "pipe_inv (now e + 1) p8" "in_flight p8 = in_flight p7"
    using do_fetch_0_ok [OF p7(2)] by blast
  have "in_flight (calc_sched e p8) = in_flight p8" by (rule same_viewD(9) [OF schedule_view(7)])
  then show ?thesis
    using p2 p3 p4 p5 p6 p7 p8 by (simp add: rest_of_update_def)
qed

lemma pipe_update_impl_inv:
  assumes p: "pipe_inv T p" and T: "T \<le> now e" and inf: "now e < InfTime"
  shows "\<exists>p'. pipe_update_impl e p = Some p' \<and> pipe_inv (now e + 1) p' \<and> accounted p' = accounted p"
proof -
  let ?p = "p\<lparr>bpu := begin_tick (bpu p)\<rparr>"
  have p0: "pipe_inv T ?p" "accounted ?p = accounted p"
    using p pipe_baseD(2) [OF pipe_invD(1) [OF p]]
    by (auto intro!: bpu_inv simp: accounted_def in_flight_def front_list_def back_list_def)
  obtain p1 where p1: "run_stage e WriteBack ?p = Some p1" "pipe_inv T p1" "accounted p1 = accounted p"
    using run_writeback [OF p0(1), of e] p0(2) by metis
  obtain p2 where p2: "rest_of_update e p1 = Some p2" "pipe_inv (now e + 1) p2" "in_flight p2 = in_flight p1"
    using rest_of_update_ok [OF p1(2) T inf] by blast
  have "on_books (\<lambda>s a. ps_insts s = ps_insts (pstats p1)) p1" by (simp add: on_books_def)
  then have "ps_insts (pstats p2) = ps_insts (pstats p1)"
    using insts.rest_of_update_acct [of _ p1 e "now e"] p2(1) by (auto simp: yields_def on_books_def)
  then show ?thesis
    using p1 p2 by (simp add: pipe_update_impl_split accounted_def)
qed

lemma ack_mem_avail_inv:
  assumes p: "pipe_inv T p" and i: "ack_id \<le> 2"
  shows "\<exists>p'. ack_mem_avail e ack_id p = Some p' \<and> pipe_inv T p' \<and> in_flight p' = in_flight p"
proof -
  have a: "\<exists>p'. async_schedule e s (now e) p = Some p' \<and> pipe_inv T p' \<and> in_flight p' = in_flight p"
    if "s \<noteq> Decode" for s
    using schedule_inv [OF p, of s] that by (simp add: async_schedule_ex same_viewD [OF schedule_view(3)])
  consider "ack_id = 0" | "ack_id = 1" | "ack_id = 2" using i by linarith
  then show ?thesis
    using a [of Fetch] a [of Memory] p by cases (auto simp: ack_mem_avail_def split: option.split)
qed

end
