(* ===== verification/PipeRun.thy ===== *)
theory PipeRun
  imports PipeFetch
begin

text \<open>
  The core in its environment as a state machine: clock ticks, at most one update per tick,
  responses and acknowledgements of the caches, feeding, draining and statistics resets, in
  any order the callers of src/main.cc may take them. Two ghost counters remember what was
  fed and what was committed before the last reset.
\<close>

record core_state =
  clk :: tick_t
  updated :: bool
  core :: pipeline
  fed :: nat
  committed_before :: nat

definition core_start :: "nat \<Rightarrow> branch_unit \<Rightarrow> tick_t \<Rightarrow> tick_t \<Rightarrow> core_state" where
  "core_start n u lat nx = \<lparr>clk = 0, updated = False, core = new_pipeline n u lat nx, fed = 0, committed_before = 0\<rparr>"

inductive core_step :: "core_state \<Rightarrow> core_state \<Rightarrow> bool" where
  tick: "clk s + 2 < InfTime \<Longrightarrow> core_step s (s\<lparr>clk := clk s + 1, updated := False\<rparr>)"
| update: "\<not> updated s \<Longrightarrow> now e = clk s \<Longrightarrow> pipe_do_update e (core s) = Some p \<Longrightarrow>
     core_step s (s\<lparr>updated := True, core := p\<rparr>)"
| ifu_resp: "now e = clk s \<Longrightarrow> resp_is_orphan (fetch_st (core s)) \<noteq> [] \<Longrightarrow> recv_mem_resp e 0 False (core s) = Some p \<Longrightarrow>
     core_step s (s\<lparr>core := p\<rparr>)"
| lsu_resp: "now e = clk s \<Longrightarrow> lsu_waits (core s) \<Longrightarrow> i = 1 \<or> i = 2 \<Longrightarrow> recv_mem_resp e i w (core s) = Some p \<Longrightarrow>
     core_step s (s\<lparr>core := p\<rparr>)"
| ack: "now e = clk s \<Longrightarrow> i \<le> 2 \<Longrightarrow> ack_mem_avail e i (core s) = Some p \<Longrightarrow> core_step s (s\<lparr>core := p\<rparr>)"
| feed: "now e = clk s \<Longrightarrow> inst_avail (core s) \<Longrightarrow> inst_ok t \<Longrightarrow> feed_inst e t (core s) = Some p \<Longrightarrow>
     core_step s (s\<lparr>core := p, fed := fed s + 1\<rparr>)"
| drain: "core_step s (s\<lparr>core := set_draining (core s)\<rparr>)"
| reset: "core_step s (s\<lparr>core := pipe_reset_stats (clk s) (core s),
     committed_before := committed_before s + ps_insts (pstats (core s))\<rparr>)"

inductive_cases core_stepE: "core_step s s'"

section \<open>The invariant\<close>

definition edge :: "core_state \<Rightarrow> tick_t" where
  "edge s = (if updated s then clk s + 1 else clk s)"

definition core_inv :: "core_state \<Rightarrow> bool" where
  "core_inv s \<longleftrightarrow> clk s + 1 < InfTime \<and> pipe_inv (edge s) (core s) \<and> acct_ok (edge s) (core s) \<and>
     fed s = accounted (core s) + committed_before s"

lemma core_invD:
  assumes "core_inv s"
  shows "clk s + 1 < InfTime" "pipe_inv (edge s) (core s)" "acct_ok (edge s) (core s)"
    "fed s = accounted (core s) + committed_before s" "clk s \<le> edge s" "edge s \<le> clk s + 1"
  using assms by (simp_all add: core_inv_def edge_def)

text \<open>The calls that touch neither the instruction count nor the clock.\<close>

definition quiet :: "core_state \<Rightarrow> pipeline \<Rightarrow> bool" where
  "quiet s p \<longleftrightarrow> pipe_inv (edge s) p \<and> in_flight p = in_flight (core s)"

lemma quiet_inv:
  assumes "core_inv s" "quiet s p" "keeps (acct (edge s)) (Some p)"
    "keeps (\<lambda>st a. ps_insts st = ps_insts (pstats (core s))) (Some p)"
  shows "core_inv (s\<lparr>core := p\<rparr>)"
  using assms by (auto simp: core_inv_def quiet_def edge_def yields_def on_books_def accounted_def)

lemma same_insts: "on_books (\<lambda>st a. ps_insts st = ps_insts (pstats p)) p"
  by (simp add: on_books_def)

lemma new_pipeline_acct: "acct_ok 0 (new_pipeline n u lat nx)"
  by (simp add: on_books_def acct_def new_pipeline_def breakdown_def pipe_stats_zero_def)

lemma core_start_inv: "0 < n \<Longrightarrow> n < 2 ^ 32 \<Longrightarrow> unit_ok u \<Longrightarrow> core_inv (core_start n u lat nx)"
  by (simp add: core_inv_def core_start_def edge_def new_pipeline_inv new_pipeline_acct accounted_def in_flight_def
      InfTime_def) (simp add: new_pipeline_def front_list_def back_list_def new_ring_list pipe_stats_zero_def)

section \<open>Every call returns and keeps the invariant\<close>

lemma core_update_ok:
  assumes s: "core_inv s" and u: "\<not> updated s" and e: "now e = clk s"
  shows "\<exists>p. pipe_do_update e (core s) = Some p \<and> core_inv (s\<lparr>updated := True, core := p\<rparr>)"
proof -
  note inv = core_invD [OF s]
  have edge: "edge s = clk s" using u by (simp add: edge_def)
  show ?thesis
  proof (cases "calc_nxtupd (core s) \<le> now e")
    case True
    obtain p where p: "pipe_update_impl e (core s) = Some p" "pipe_inv (now e + 1) p" "accounted p = accounted (core s)"
      using pipe_update_impl_inv [OF inv(2), of e] inv(1) edge e by auto
    have "acct_ok (now e + 1) p"
      using pipe_update_impl_acct [of e "core s"] inv(3) p(1) edge e by (simp add: yields_def)
    then show ?thesis
      using True p s e by (simp add: pipe_do_update_def core_inv_def edge_def)
  next
    case False
    then show ?thesis
      using s inv_later [OF inv(2), of "clk s + 1"] acct_later [OF inv(3), of "clk s + 1"] edge
      by (simp add: pipe_do_update_def core_inv_def edge_def)
  qed
qed

lemma core_ifu_ok:
  assumes s: "core_inv s" and r: "resp_is_orphan (fetch_st (core s)) \<noteq> []"
  shows "\<exists>p. recv_mem_resp e 0 False (core s) = Some p \<and> core_inv (s\<lparr>core := p\<rparr>)"
proof -
  obtain p where p: "handle_ifu_resp e (core s) = Some p" "quiet s p"
    using handle_ifu_resp_ok [OF core_invD(2) [OF s] r] by (auto simp: quiet_def)
  have "core_inv (s\<lparr>core := p\<rparr>)"
    using acct.callback_acct(2) [OF core_invD(3) [OF s], of e] insts.callback_acct(2) [OF same_insts [of "core s"], where e = e]
    by (intro quiet_inv [OF s p(2)]) (simp_all add: p(1))
  then show ?thesis using p(1) by (simp add: recv_mem_resp_def)
qed

lemma core_lsu_ok:
  assumes s: "core_inv s" and w: "lsu_waits (core s)" and i: "i = 1 \<or> i = 2" and e: "now e = clk s"
  shows "\<exists>p. recv_mem_resp e i wr (core s) = Some p \<and> core_inv (s\<lparr>core := p\<rparr>)"
proof -
  note inv = core_invD [OF s]
  obtain p where p: "handle_lsu_resp e (core s) = Some p" "pipe_inv (edge s) p"
    using handle_lsu_resp_ok [OF inv(2) w] inv(1,6) by force
  have q: "quiet s p"
    using p ongoing_flight [OF pipe_invD(1) [OF inv(2)] pipe_invD(1) [OF p(2)] handle_lsu_resp_ongoing [OF p(1)]]
    by (simp add: quiet_def)
  have "core_inv (s\<lparr>core := p\<rparr>)"
    using acct.callback_acct(1) [OF inv(3), of e] insts.callback_acct(1) [OF same_insts [of "core s"], where e = e and B = "edge s"] inv(5) e
    by (intro quiet_inv [OF s q]) (simp_all add: p(1))
  then show ?thesis using p(1) i by (auto simp: recv_mem_resp_def)
qed

lemma core_ack_ok:
  assumes s: "core_inv s" and i: "i \<le> 2"
  shows "\<exists>p. ack_mem_avail e i (core s) = Some p \<and> core_inv (s\<lparr>core := p\<rparr>)"
proof -
  obtain p where p: "ack_mem_avail e i (core s) = Some p" "quiet s p"
    using ack_mem_avail_inv [OF core_invD(2) [OF s] i] by (auto simp: quiet_def)
  have "core_inv (s\<lparr>core := p\<rparr>)"
    using acct.callback_acct(3) [OF core_invD(3) [OF s], of e i] insts.callback_acct(3) [OF same_insts [of "core s"], where e = e and k = i]
    by (intro quiet_inv [OF s p(2)]) (simp_all add: p(1))
  then show ?thesis using p(1) by simp
qed

lemma core_feed_ok:
  assumes s: "core_inv s" and a: "inst_avail (core s)" and t: "inst_ok t" and e: "now e = clk s"
  shows "\<exists>p. feed_inst e t (core s) = Some p \<and> core_inv (s\<lparr>core := p, fed := fed s + 1\<rparr>)"
proof -
  note inv = core_invD [OF s]
  obtain p where p: "feed_inst e t (core s) = Some p" "pipe_inv (edge s) p" "in_flight p = Suc (in_flight (core s))"
    using feed_inst_ok [OF inv(2) _ t, of e] a by (auto simp: inst_avail_def)
  have "keeps (acct (edge s)) (Some p)"
    using acct.callback_acct(4) [OF inv(3), of e t] inv(5) e by (simp add: p(1))
  moreover have "keeps (\<lambda>st a. ps_insts st = ps_insts (pstats (core s))) (Some p)"
    using insts.callback_acct(4) [OF same_insts [of "core s"], where e = e and B = "edge s" and i = t] inv(5) e by (simp add: p(1))
  ultimately have "core_inv (s\<lparr>core := p, fed := fed s + 1\<rparr>)"
    using s p by (auto simp: core_inv_def edge_def yields_def on_books_def accounted_def)
  then show ?thesis using p(1) by simp
qed

lemma set_draining_inv: "pipe_inv T (set_draining p) = pipe_inv T p" "accounted (set_draining p) = accounted p"
  "acct_ok B (set_draining p) = acct_ok B p"
  by (simp_all add: set_draining_def pipe_inv_def pipe_base_def front_list_def back_list_def in_flight_def
      lsu_waits_def accounted_def on_books_def)

lemma reset_inv: "pipe_inv T (pipe_reset_stats t p) = pipe_inv T p" "in_flight (pipe_reset_stats t p) = in_flight p"
  by (simp_all add: pipe_reset_stats_def pipe_inv_def pipe_base_def front_list_def back_list_def in_flight_def lsu_waits_def)

lemma core_step_inv: "core_step s s' \<Longrightarrow> core_inv s \<Longrightarrow> core_inv s'"
proof (induction rule: core_step.induct)
  case (tick s)
  have "pipe_inv (clk s + 1) (core s)" "acct_ok (clk s + 1) (core s)"
    using inv_later [OF core_invD(2) [OF tick(2)]] acct_later [OF core_invD(3) [OF tick(2)]] core_invD(6) [OF tick(2)]
    by simp_all
  then show ?case using tick by (simp add: core_inv_def edge_def)
next
  case (update s e p)
  then show ?case using core_update_ok [of s e] by simp
next
  case (ifu_resp e s p)
  then show ?case using core_ifu_ok [of s e] by simp
next
  case (lsu_resp e s i w p)
  then show ?case using core_lsu_ok [of s i e w] by simp
next
  case (ack e s i p)
  then show ?case using core_ack_ok [of s i e] by simp
next
  case (feed e s t p)
  then show ?case using core_feed_ok [of s t e] by simp
next
  case (drain s)
  then show ?case by (auto simp: core_inv_def edge_def set_draining_inv)
next
  case (reset s)
  have "ps_insts (pstats (pipe_reset_stats (clk s) (core s))) = 0" "acct_ok (clk s) (pipe_reset_stats (clk s) (core s))"
    by (simp_all add: pipe_reset_stats_def ps_reset_def on_books_def acct_def breakdown_def)
  then show ?case
    using reset acct_later [of "clk s"] by (auto simp: core_inv_def edge_def reset_inv accounted_def)
qed

definition core_reach :: "nat \<Rightarrow> branch_unit \<Rightarrow> tick_t \<Rightarrow> tick_t \<Rightarrow> core_state \<Rightarrow> bool" where
  "core_reach n u lat nx s \<longleftrightarrow> 0 < n \<and> n < 2 ^ 32 \<and> unit_ok u \<and> core_step\<^sup>*\<^sup>* (core_start n u lat nx) s"

lemma core_reach_inv: "core_reach n u lat nx s \<Longrightarrow> core_inv s"
proof -
  assume r: "core_reach n u lat nx s"
  then have "core_step\<^sup>*\<^sup>* (core_start n u lat nx) s" "core_inv (core_start n u lat nx)"
    by (simp_all add: core_reach_def core_start_inv)
  then show ?thesis by (induction rule: rtranclp_induct) (auto intro: core_step_inv)
qed

lemma core_reach_start: "0 < n \<Longrightarrow> n < 2 ^ 32 \<Longrightarrow> unit_ok u \<Longrightarrow> core_reach n u lat nx (core_start n u lat nx)"
  by (simp add: core_reach_def)

lemma core_reach_step: "core_reach n u lat nx s \<Longrightarrow> core_step s s' \<Longrightarrow> core_reach n u lat nx s'"
  by (auto simp: core_reach_def intro: rtranclp.rtrancl_into_rtrancl)

section \<open>Runs as sequences of calls\<close>

datatype core_event = Tick | Update penv | IfuResp penv | LsuResp penv nat bool | Ack penv nat
  | Feed penv trace_inst | Drain | ResetStats

definition guarded :: "bool \<Rightarrow> core_state \<Rightarrow> pipeline option \<Rightarrow> core_state option" where
  "guarded b s x = do { assert_that b; p \<leftarrow> x; Some (s\<lparr>core := p\<rparr>) }"

fun apply_event :: "core_event \<Rightarrow> core_state \<Rightarrow> core_state option" where
  "apply_event Tick s = (if clk s + 2 < InfTime then Some (s\<lparr>clk := clk s + 1, updated := False\<rparr>) else None)"
| "apply_event (Update e) s =
     guarded (\<not> updated s \<and> now e = clk s) (s\<lparr>updated := True\<rparr>) (pipe_do_update e (core s))"
| "apply_event (IfuResp e) s =
     guarded (now e = clk s \<and> resp_is_orphan (fetch_st (core s)) \<noteq> []) s (recv_mem_resp e 0 False (core s))"
| "apply_event (LsuResp e i w) s =
     guarded (now e = clk s \<and> lsu_waits (core s) \<and> (i = 1 \<or> i = 2)) s (recv_mem_resp e i w (core s))"
| "apply_event (Ack e i) s = guarded (now e = clk s \<and> i \<le> 2) s (ack_mem_avail e i (core s))"
| "apply_event (Feed e t) s =
     guarded (now e = clk s \<and> inst_avail (core s) \<and> inst_ok t) (s\<lparr>fed := fed s + 1\<rparr>) (feed_inst e t (core s))"
| "apply_event Drain s = Some (s\<lparr>core := set_draining (core s)\<rparr>)"
| "apply_event ResetStats s = Some (s\<lparr>core := pipe_reset_stats (clk s) (core s),
     committed_before := committed_before s + ps_insts (pstats (core s))\<rparr>)"

fun core_run :: "core_event list \<Rightarrow> core_state \<Rightarrow> core_state option" where
  "core_run [] s = Some s"
| "core_run (ev # evs) s = do { s1 \<leftarrow> apply_event ev s; core_run evs s1 }"

lemma guarded_Some: "guarded b s x = Some s' \<longleftrightarrow> b \<and> (\<exists>p. x = Some p \<and> s' = s\<lparr>core := p\<rparr>)"
  by (auto simp: guarded_def)

lemma apply_event_step: "apply_event ev s = Some s' \<Longrightarrow> core_step s s'"
proof (cases ev)
  case (Feed e t)
  assume "apply_event ev s = Some s'"
  then obtain p where "now e = clk s" "inst_avail (core s)" "inst_ok t" "feed_inst e t (core s) = Some p"
      "s' = s\<lparr>core := p, fed := fed s + 1\<rparr>"
    using Feed by (auto simp: guarded_Some)
  then show "core_step s s'" using core_step.feed by metis
next
  case (Update e)
  assume "apply_event ev s = Some s'"
  then obtain p where "\<not> updated s" "now e = clk s" "pipe_do_update e (core s) = Some p"
      "s' = s\<lparr>updated := True, core := p\<rparr>"
    using Update by (auto simp: guarded_Some)
  then show "core_step s s'" using core_step.update by metis
next
  case Tick
  assume "apply_event ev s = Some s'"
  then show "core_step s s'" using Tick core_step.tick [of s] by (auto split: if_splits)
qed (auto simp: guarded_Some intro: core_step.intros split: if_splits)

lemma core_run_reach: "core_reach n u lat nx s \<Longrightarrow> core_run evs s = Some s' \<Longrightarrow> core_reach n u lat nx s'"
proof (induction evs arbitrary: s)
  case (Cons ev evs)
  then obtain s1 where "apply_event ev s = Some s1" "core_run evs s1 = Some s'"
    by (cases "apply_event ev s") auto
  then show ?case using Cons core_reach_step [OF Cons.prems(1) apply_event_step] by blast
qed simp

end
