(* ===== verification/CorePorts.thy ===== *)
theory CorePorts
  imports PipeRun
begin

text \<open>
  What the core does at its ports: an update sends at most one request to the data side and
  then at most one to the instruction cache, each to a port that reported ready; the load-store
  unit waits from its request to the response, and the core expects one instruction response
  per fetch request.
\<close>

section \<open>Steps that leave the ports alone\<close>

definition front_idle :: "pipeline \<Rightarrow> bool" where
  "front_idle p \<longleftrightarrow> slot_all (\<lambda>t. \<not> wait_mem t) (sim_pipe p Fetch) \<and> slot_all (\<lambda>t. \<not> wait_mem t) (sim_pipe p Decode)"

definition n_resp :: "pipeline \<Rightarrow> nat" where
  "n_resp p = length (resp_is_orphan (fetch_st p))"

definition ports_kept :: "pipeline \<Rightarrow> pipeline \<Rightarrow> bool" where
  "ports_kept p p' \<longleftrightarrow> port_reqs p' = port_reqs p \<and> n_resp p' = n_resp p \<and> lsu_waits p' = lsu_waits p \<and>
     is_draining p' = is_draining p \<and> (front_idle p \<longrightarrow> front_idle p')"

lemma ports_kept_refl [simp]: "ports_kept p p"
  by (simp add: ports_kept_def)

lemma ports_kept_trans [trans]: "ports_kept p q \<Longrightarrow> ports_kept q r \<Longrightarrow> ports_kept p r"
  by (auto simp: ports_kept_def)

definition ports_same :: "pipeline \<Rightarrow> pipeline \<Rightarrow> bool" where
  "ports_same p p' \<longleftrightarrow> port_reqs p' = port_reqs p \<and> n_resp p' = n_resp p \<and> sim_pipe p' = sim_pipe p \<and>
     is_draining p' = is_draining p"

lemma ports_sameD: "ports_same p p' \<Longrightarrow> port_reqs p' = port_reqs p" "ports_same p p' \<Longrightarrow> n_resp p' = n_resp p"
    "ports_same p p' \<Longrightarrow> sim_pipe p' = sim_pipe p" "ports_same p p' \<Longrightarrow> is_draining p' = is_draining p"
  by (simp_all add: ports_same_def)

lemma ports_same_trans: "ports_same p q \<Longrightarrow> ports_same q r \<Longrightarrow> ports_same p r"
  by (simp add: ports_same_def)

lemma ports_same_kept: "ports_same p p' \<Longrightarrow> ports_kept p p'"
  by (simp add: ports_same_def ports_kept_def front_idle_def lsu_waits_def)

lemma ports_same_upd [simp]:
  "ports_same p p" "ports_same p (flush_stall_cycles u p)" "ports_same p (set_stall e c p)" "ports_same p (stall_unless e b c p)"
  "ports_same p (p\<lparr>stage_update := su\<rparr>)" "ports_same p (p\<lparr>calc_nxtupd := x\<rparr>)" "ports_same p (p\<lparr>reg_ready := r\<rparr>)"
  "ports_same p (p\<lparr>bpu := u'\<rparr>)" "ports_same p (p\<lparr>mul_ready_tick := m\<rparr>)" "ports_same p (p\<lparr>div_ready_tick := m\<rparr>)"
  "ports_same p (calc_sched e p)"
  by (simp_all add: ports_same_def n_resp_def stall_unless_def set_stall_def flush_stall_cycles_def calc_sched_def Let_def)

lemma schedule_ports: "schedule e s t p = Some p' \<Longrightarrow> ports_same p p'"
  by (auto simp: schedule_def)

lemma async_schedule_ports: "async_schedule e s t p = Some p' \<Longrightarrow> ports_same p p'"
  by (auto simp: async_schedule_def schedule_def ports_same_def n_resp_def)

lemma set_reg_time_ports: "set_reg_time rd t p = Some p' \<Longrightarrow> ports_same p p'"
  by (auto simp: set_reg_time_def split: if_splits)

lemma update_reg_time_ports: "update_reg_time e rd t p = Some p' \<Longrightarrow> ports_same p p'"
  by (auto simp: update_reg_time_def wake_decode_def Let_def dest!: set_reg_time_ports schedule_ports
      intro: ports_same_trans split: option.splits if_splits)

lemmas ports_frame = schedule_ports async_schedule_ports set_reg_time_ports update_reg_time_ports

section \<open>The stages\<close>

lemma put_slot_ports: "s \<noteq> Execute \<Longrightarrow> ports_kept p (put_slot s None p)"
  by (simp add: ports_kept_def put_slot_def n_resp_def lsu_waits_def front_idle_def)

lemma do_writeback_ports:
  assumes "do_writeback e p = Some p'"
  shows "ports_kept p p'"
proof (cases "wb_source e p")
  case None
  then show ?thesis using assms by (auto simp: do_writeback_def dest!: schedule_ports intro: ports_same_kept)
next
  case (Some src)
  then obtain t where t: "schedule e WriteBack (now e + 1)
      (put_slot src None (count_inst e (commit_stall e t (p\<lparr>ongoing_insts := ongoing_insts p - 1\<rparr>)))) = Some p'"
    using assms by (auto simp: do_writeback_def Let_def)
  let ?q = "count_inst e (commit_stall e t (p\<lparr>ongoing_insts := ongoing_insts p - 1\<rparr>))"
  have "ports_same p ?q"
    by (simp add: ports_same_def count_inst_def commit_stall_def n_resp_def flush_stall_cycles_def Let_def)
  moreover have "src \<noteq> Execute" using wb_source_some [OF Some] by auto
  ultimately show ?thesis
    using ports_kept_trans [OF ports_kept_trans [OF ports_same_kept put_slot_ports] ports_same_kept [OF schedule_ports [OF t]]]
    by blast
qed

lemma move_out_ports: "d \<noteq> Execute \<Longrightarrow> d \<noteq> Fetch \<Longrightarrow> d \<noteq> Decode \<Longrightarrow> ports_kept p (move_slot Decode d p)"
  by (simp add: ports_kept_def move_slot_def n_resp_def lsu_waits_def front_idle_def)

lemma flush_front_ports: "ports_kept p (flush_front e p)"
  by (simp add: ports_kept_def flush_front_def Let_def n_resp_def lsu_waits_def front_idle_def flush_stall_cycles_def)

lemma flush_unit_ports:
  "ports_kept p (flush_front e (p\<lparr>bpu := u\<rparr>)) \<and> sim_pipe (flush_front e (p\<lparr>bpu := u\<rparr>)) Execute = sim_pipe p Execute"
  using ports_kept_trans [OF ports_same_kept [OF ports_same_upd(8) [of p u]] flush_front_ports [of _ e]]
  by (simp add: flush_front_def Let_def)

lemma flush_false_ports: "flush_false_btb_hit e t p = Some p' \<Longrightarrow> ports_kept p p' \<and> sim_pipe p' Execute = sim_pipe p Execute"
proof -
  assume "flush_false_btb_hit e t p = Some p'"
  then show ?thesis
    using flush_unit_ports [of p e] by (auto simp: flush_false_btb_hit_def Let_def ports_same_kept split: if_splits)
qed

lemma resolve_branch_ports: "resolve_branch e t p = Some p' \<Longrightarrow> ports_kept p p' \<and> sim_pipe p' Execute = sim_pipe p Execute"
proof -
  assume "resolve_branch e t p = Some p'"
  then show ?thesis
    using flush_unit_ports [of p e] by (auto simp: resolve_branch_def Let_def ports_same_kept split: if_splits)
qed

lemma kept_same: "ports_kept p q \<Longrightarrow> ports_same q r \<Longrightarrow> ports_kept p r"
  using ports_kept_trans ports_same_kept by blast

lemma do_mul_ext_ports:
  assumes "do_mul_ext e p = Some p'"
  shows "ports_kept p p'"
proof (cases "p' = p")
  case False
  then obtain t p1 p2 p3 p4 where *: "flush_false_btb_hit e t p = Some p1"
      "update_reg_time e (ti_dst_reg (tr_inst t)) (now e + MulLat) (p1\<lparr>mul_ready_tick := now e + MulLat\<rparr>) = Some p2"
      "schedule e IntMulExt (now e + MulLat) p2 = Some p3" "async_schedule e WriteBack (now e + MulLat) p3 = Some p4"
      "p' = move_slot Decode IntMulExt p4"
    using assms by (auto simp: do_mul_ext_def Let_def split: if_splits)
  have "ports_kept p p4"
    using kept_same [OF conjunct1 [OF flush_false_ports [OF *(1)]]] ports_same_trans [OF ports_same_upd(9) ports_same_trans [OF update_reg_time_ports [OF *(2)] ports_same_trans [OF schedule_ports [OF *(3)] async_schedule_ports [OF *(4)]]]]
    by blast
  then show ?thesis using ports_kept_trans [OF _ move_out_ports] *(5) by simp
qed simp

lemma do_div_ext_ports:
  assumes "do_div_ext e p = Some p'"
  shows "ports_kept p p'"
proof (cases "p' = p")
  case False
  then obtain t p1 p2 p3 p4 where *: "flush_false_btb_hit e t p = Some p1"
      "update_reg_time e (ti_dst_reg (tr_inst t)) (now e + DivLat) (p1\<lparr>div_ready_tick := now e + DivLat\<rparr>) = Some p2"
      "schedule e IntDivExt (now e + DivLat) p2 = Some p3" "async_schedule e WriteBack (now e + DivLat) p3 = Some p4"
      "p' = move_slot Decode IntDivExt p4"
    using assms by (auto simp: do_div_ext_def Let_def split: if_splits)
  have "ports_kept p p4"
    using kept_same [OF conjunct1 [OF flush_false_ports [OF *(1)]]] ports_same_trans [OF ports_same_upd(10) ports_same_trans [OF update_reg_time_ports [OF *(2)] ports_same_trans [OF schedule_ports [OF *(3)] async_schedule_ports [OF *(4)]]]]
    by blast
  then show ?thesis using ports_kept_trans [OF _ move_out_ports] *(5) by simp
qed simp

lemma forward_result_ports: "forward_result e i p = Some p' \<Longrightarrow> ports_same p p'"
  by (auto simp: forward_result_def dest: update_reg_time_ports split: if_splits)

lemma do_execute_ports:
  assumes "do_execute e p = Some p'" "sim_pipe p Execute = None" "front_idle p"
  shows "ports_kept p p'"
proof (cases "p' = p")
  case False
  then obtain t p1 p2 p3 where *: "resolve_branch e t p = Some p1" "flush_false_btb_hit e t p1 = Some p2"
      "forward_result e (tr_inst t) p2 = Some p3" "schedule e Execute (now e + 1) (move_slot Decode Execute p3) = Some p'"
    using assms(1) by (auto simp: do_execute_def Let_def split: if_splits)
  have k: "ports_kept p p3" "sim_pipe p3 Execute = None"
    using kept_same [OF ports_kept_trans [OF conjunct1 [OF resolve_branch_ports [OF *(1)]] conjunct1 [OF flush_false_ports [OF *(2)]]] forward_result_ports [OF *(3)]]
      resolve_branch_ports [OF *(1)] flush_false_ports [OF *(2)] ports_sameD(3) [OF forward_result_ports [OF *(3)]] assms(2)
    by simp_all
  have "front_idle p3" using k(1) assms(3) by (simp add: ports_kept_def)
  then have "ports_kept p3 (move_slot Decode Execute p3)"
    using k(2) by (cases "sim_pipe p3 Decode") (auto simp: ports_kept_def move_slot_def n_resp_def lsu_waits_def front_idle_def)
  then show ?thesis using ports_kept_trans [OF k(1) kept_same [OF _ schedule_ports [OF *(4)]]] by blast
qed simp

lemma drop_wrong_ports: "drop_wrong_path e p = Some p' \<Longrightarrow> ports_kept p p'"
proof -
  define q where "q = (if in_br_recovery (stall p) then set_stall e BrMispred p else p)"
  assume "drop_wrong_path e p = Some p'"
  then have s: "schedule e Decode (now e + 1) (put_slot Fetch None q) = Some p'" by (simp add: drop_wrong_path_def q_def Let_def)
  have "ports_same p q" by (simp add: q_def)
  then show ?thesis
    using kept_same [OF ports_kept_trans [OF ports_same_kept put_slot_ports] schedule_ports [OF s]] by blast
qed

lemma pass_decode_ports:
  assumes "pass_decode e b r i p = Some p'"
  shows "ports_kept p p'"
proof -
  obtain p1 p2 where *: "schedule e Decode (max (now e) r + 1) (stall_unless e b NoInst p) = Some p1"
      "set_reg_time (ti_dst_reg i) InfTime p1 = Some p2" "p' = move_slot Fetch Decode p2"
    using assms by (auto simp: pass_decode_def Let_def)
  have "ports_same p p2"
    using ports_same_trans [OF ports_same_upd(4) ports_same_trans [OF schedule_ports [OF *(1)] set_reg_time_ports [OF *(2)]]] .
  moreover have "ports_kept p2 (move_slot Fetch Decode p2)"
    by (simp add: ports_kept_def move_slot_def n_resp_def lsu_waits_def front_idle_def)
  ultimately show ?thesis using ports_kept_trans ports_same_kept *(3) by blast
qed

lemma stalled_ports: "schedule e s t (stall_unless e b c p) = Some p' \<Longrightarrow> ports_kept p p'"
  using ports_same_kept ports_same_trans [OF ports_same_upd(4) schedule_ports] by blast

lemma do_decode_ports: "do_decode e p = Some p' \<Longrightarrow> ports_kept p p'"
  by (auto simp: do_decode_def Let_def split: if_splits dest: stalled_ports drop_wrong_ports pass_decode_ports)

lemma do_fetch_1_ports:
  assumes "do_fetch_1 e p = Some p'"
  shows "ports_kept p p'"
proof (cases "rb_empty (fetch_queue p)")
  case True
  then show ?thesis using assms by (auto simp: do_fetch_1_def dest!: schedule_ports intro: ports_same_kept)
next
  case False
  then obtain t where t: "rb_front (fetch_queue p) = Some t" using assms by (auto simp: do_fetch_1_def)
  consider "wait_mem t" | "\<not> wait_mem t" "0 < bp_meta_hold t" | "\<not> wait_mem t" "bp_meta_hold t = 0" by blast
  then show ?thesis
  proof cases
    case 1
    then show ?thesis using assms False t by (auto simp: do_fetch_1_def dest!: schedule_ports intro: ports_same_kept)
  next
    case 2
    then show ?thesis
      using assms False t by (auto simp: do_fetch_1_def schedule_def ports_kept_def n_resp_def lsu_waits_def front_idle_def)
  next
    case 3
    then show ?thesis
      using assms False t by (auto simp: do_fetch_1_def put_slot_def ports_kept_def n_resp_def lsu_waits_def front_idle_def)
  qed
qed

section \<open>The memory stage\<close>

fun req_ready :: "penv \<Rightarrow> port_req \<Rightarrow> bool" where
  "req_ready e (ImemRead a) = imem_ready e"
| "req_ready e (LsuRead port a) = (case port of DmemPort \<Rightarrow> fst (dmem_ready e) | NcPort \<Rightarrow> (\<exists>r w. nc_ready e = Some (r, w) \<and> r))"
| "req_ready e (LsuWrite port a d s) = (case port of DmemPort \<Rightarrow> snd (dmem_ready e) | NcPort \<Rightarrow> (\<exists>r w. nc_ready e = Some (r, w) \<and> w))"

fun is_lsu_req :: "port_req \<Rightarrow> bool" where
  "is_lsu_req (ImemRead a) = False"
| "is_lsu_req _ = True"

definition lsu_sent :: "penv \<Rightarrow> pipeline \<Rightarrow> port_req list \<Rightarrow> pipeline \<Rightarrow> bool" where
  "lsu_sent e p rs p' \<longleftrightarrow> is_draining p' = is_draining p \<and> port_reqs p' = port_reqs p @ rs \<and> n_resp p' = n_resp p \<and> (front_idle p \<longrightarrow> front_idle p') \<and>
     (rs = [] \<and> lsu_waits p' = lsu_waits p \<or>
      (\<exists>r. rs = [r] \<and> is_lsu_req r \<and> req_ready e r \<and> \<not> lsu_waits p \<and> lsu_waits p'))"

lemma lsu_sent_none: "ports_kept p p' \<Longrightarrow> lsu_sent e p [] p'"
  by (simp add: lsu_sent_def ports_kept_def)

lemma lsu_sent_kept: "lsu_sent e p rs q \<Longrightarrow> ports_kept q r \<Longrightarrow> lsu_sent e p rs r"
  by (auto simp: lsu_sent_def ports_kept_def)

lemma set_waiting_same:
  assumes "set_waiting b p = Some p'"
  shows "port_reqs p' = port_reqs p" "n_resp p' = n_resp p" "front_idle p' = front_idle p" "lsu_waits p' = b"
    "is_draining p' = is_draining p"
  using assms by (auto simp: set_waiting_def put_slot_def n_resp_def front_idle_def lsu_waits_def)

lemma send_lsu_ports:
  assumes "send_lsu_req e port a d sb w p = Some p'" "\<not> lsu_waits p"
  shows "\<exists>rs. lsu_sent e p rs p'"
proof -
  obtain rw ww p1 where *: "(case port of DmemPort \<Rightarrow> Some (dmem_ready e) | NcPort \<Rightarrow> nc_ready e) = Some (rw, ww)"
      "schedule e Memory InfTime p = Some p1"
      "(if if w then ww else rw then do { p2 \<leftarrow> set_waiting True p1; Some (request (if w then LsuWrite port (a AND NOT 3) d sb else LsuRead port (a AND NOT 3)) p2) }
        else Some p1) = Some p'"
    using assms(1) unfolding send_lsu_req_def Let_def
    by (cases "case port of DmemPort \<Rightarrow> Some (dmem_ready e) | NcPort \<Rightarrow> nc_ready e"; cases "schedule e Memory InfTime p") auto
  note k = schedule_ports [OF *(2)]
  show ?thesis
  proof (cases "if w then ww else rw")
    case False
    then show ?thesis using *(3) lsu_sent_none [OF ports_same_kept [OF k]] by auto
  next
    case True
    define r where "r = (if w then LsuWrite port (a AND NOT 3) d sb else LsuRead port (a AND NOT 3))"
    obtain p2 where p2: "set_waiting True p1 = Some p2" "p' = request r p2"
      using *(3) unfolding if_P [OF True] r_def by auto
    have "req_ready e r" "is_lsu_req r" using *(1) True by (auto simp: r_def split: lsu_port.splits)
    then have "lsu_sent e p [r] p'"
      using set_waiting_same [OF p2(1)] ports_same_kept [OF k] p2(2) assms(2)
      by (auto simp: lsu_sent_def ports_kept_def request_def n_resp_def front_idle_def lsu_waits_def)
    then show ?thesis by blast
  qed
qed

lemma leave_execute_ports: "sim_pipe p Execute = Some t \<Longrightarrow> \<not> wait_mem t \<Longrightarrow> ports_kept p (move_slot Execute Memory p)"
  by (auto simp: ports_kept_def move_slot_def n_resp_def front_idle_def lsu_waits_def)

lemma do_memory_ports:
  assumes d: "do_memory e p = Some p'" and t: "sim_pipe p Execute = Some t" and nc: "nc_ready e \<noteq> None"
  shows "\<exists>rs. lsu_sent e p rs p'"
proof (cases "wait_mem t")
  case True
  then have "schedule e Memory InfTime p = Some p'" using d t nc by (auto simp: do_memory_def Let_def)
  then show ?thesis using lsu_sent_none [OF ports_same_kept [OF schedule_ports]] by blast
next
  case False
  let ?q = "set_stall e LsuStall p"
  have w: "\<not> lsu_waits ?q" using t False by (simp add: lsu_waits_def)
  have start: "lsu_sent e p rs r" if "lsu_sent e ?q rs r" for rs r
    using that by (auto simp: lsu_sent_def front_idle_def lsu_waits_def ports_sameD [OF ports_same_upd(3)])
  consider (load) "ti_mem_op (tr_inst t) = MemLoad" | (store) "ti_mem_op (tr_inst t) = MemStore" "ti_mem_op (tr_inst t) \<noteq> MemLoad"
    | (other) "ti_mem_op (tr_inst t) \<noteq> MemLoad" "ti_mem_op (tr_inst t) \<noteq> MemStore" by blast
  then show ?thesis
  proof cases
    case load
    then obtain port where "send_lsu_req e port (ti_mem_addr (tr_inst t)) 0xbad 0xf False ?q = Some p'"
      using d t nc False by (auto simp: do_memory_def Let_def)
    then show ?thesis using send_lsu_ports [OF _ w] start by blast
  next
    case store
    then obtain port p1 where s: "send_lsu_req e port (ti_mem_addr (tr_inst t)) 0xbad 0xf True ?q = Some p1"
        "schedule e Memory InfTime p1 = Some p'"
      using d t nc False by (auto simp: do_memory_def Let_def)
    then show ?thesis
      using send_lsu_ports [OF s(1) w] start lsu_sent_kept [OF _ ports_same_kept [OF schedule_ports [OF s(2)]]] by blast
  next
    case other
    then obtain p1 where s: "schedule e Memory (now e + 1) p = Some p1" "p' = move_slot Execute Memory p1"
      using d t nc False by (auto simp: do_memory_def Let_def)
    have "sim_pipe p1 Execute = Some t" using ports_sameD(3) [OF schedule_ports [OF s(1)]] t by simp
    then have "ports_kept p p'"
      using ports_kept_trans [OF ports_same_kept [OF schedule_ports [OF s(1)]] leave_execute_ports] False s(2) by simp
    then show ?thesis using lsu_sent_none by blast
  qed
qed

section \<open>The fetch\<close>

definition ifu_sent :: "penv \<Rightarrow> pipeline \<Rightarrow> port_req list \<Rightarrow> pipeline \<Rightarrow> bool" where
  "ifu_sent e p rs p' \<longleftrightarrow> is_draining p' = is_draining p \<and> port_reqs p' = port_reqs p @ rs \<and> n_resp p' = n_resp p + length rs \<and> lsu_waits p' = lsu_waits p \<and>
     (rs = [] \<or> (\<exists>a. rs = [ImemRead a] \<and> imem_ready e))"

lemma ifu_sent_none: "ports_same p p' \<Longrightarrow> ifu_sent e p [] p'"
  by (simp add: ifu_sent_def ports_same_def lsu_waits_def)

lemma fetch_early_ports: "imem_ready e \<Longrightarrow> \<exists>rs. ifu_sent e p rs (fetch_early p)"
  by (intro exI [of _ "[ImemRead (early_redir_seq_pc (fetch_st p))]"])
    (simp add: fetch_early_def ifu_sent_def Let_def note_resp_def request_def n_resp_def lsu_waits_def)

lemma fetch_wrong_ports:
  assumes "fetch_wrong p = Some p'" "imem_ready e"
  shows "\<exists>rs. ifu_sent e p rs p'"
proof (cases "rb_full (fetch_queue p)")
  case True
  then show ?thesis using assms ifu_sent_none [of p p] by (auto simp: fetch_wrong_def)
next
  case False
  have "ifu_sent e p [ImemRead (wrong_path_pc (fetch_st p))] p'"
    using assms False by (auto simp: fetch_wrong_def ifu_sent_def Let_def note_resp_def request_def n_resp_def lsu_waits_def wp_advance_def)
  then show ?thesis by blast
qed

lemma predict_candidate_ports: "predict_candidate t p = Some (p', t') \<Longrightarrow> ports_same p p'"
  by (auto simp: predict_candidate_def Let_def case_prod_beta)

lemma fetch_real_ports:
  assumes "fetch_real e p = Some p'" "imem_ready e"
  shows "\<exists>rs. ifu_sent e p rs p'"
proof (cases "rb_full (fetch_queue p) \<or> input_buffer p = None")
  case True
  then show ?thesis using assms ifu_sent_none [of p p] by (auto simp: fetch_real_def split: if_splits option.splits)
next
  case False
  then obtain t0 where t0: "\<not> rb_full (fetch_queue p)" "input_buffer p = Some t0" by auto
  then obtain p1 t where p1: "predict_candidate t0 (p\<lparr>input_buffer := None\<rparr>) = Some (p1, t)"
    using assms(1) by (auto simp: fetch_real_def)
  define p2 where "p2 = (if tr_br_mispred t then enter_wrong_path e t p1 else p1)"
  have "ports_same (p\<lparr>input_buffer := None\<rparr>) p1" by (rule predict_candidate_ports [OF p1])
  then have s2: "ports_same p p2"
    by (auto simp: ports_same_def p2_def enter_wrong_path_def Let_def n_resp_def flush_stall_cycles_def)
  define p3 where "p3 = note_resp False (request (ImemRead (ti_pc (tr_inst t))) p2)"
  define p4 where "p4 = (if tage_overrode_bimodal (tr_br_pred t)
    then p3\<lparr>fetch_st := (fetch_st p3)\<lparr>resume_tick := max (resume_tick (fetch_st p3)) (now e + 2)\<rparr>\<rparr> else p3)"
  define p5 where "p5 = (if \<not> tr_br_mispred t \<and> will_redirect (tr_br_pred t)
    then p4\<lparr>fetch_st := (fetch_st p4)\<lparr>early_redir_remaining := 2, early_redir_seq_pc := ti_pc (tr_inst t) + 4\<rparr>,
            pstats := (pstats p4)\<lparr>early_redirects := early_redirects (pstats p4) + 1\<rparr>\<rparr> else p4)"
  obtain q where q: "p' = p5\<lparr>fetch_queue := q\<rparr>"
    using assms(1) t0 p1 unfolding fetch_real_def p5_def p4_def p3_def p2_def by (auto simp: Let_def)
  have "ports_same p3 p4" "ports_same p4 p5" by (simp_all add: p4_def p5_def ports_same_def n_resp_def)
  then have "ports_same p3 p'" by (simp add: q ports_same_def n_resp_def)
  then have "ifu_sent e p2 [ImemRead (ti_pc (tr_inst t))] p'"
    using assms(2) by (simp add: ports_same_def p3_def ifu_sent_def note_resp_def request_def n_resp_def lsu_waits_def)
  then have "ifu_sent e p [ImemRead (ti_pc (tr_inst t))] p'"
    using s2 by (simp add: ifu_sent_def ports_same_def lsu_waits_def)
  then show ?thesis by blast
qed

lemma do_fetch_0_ports:
  assumes "do_fetch_0 e p = Some p'"
  shows "\<exists>rs. ifu_sent e p rs p'"
proof (cases "now e < resume_tick (fetch_st p) \<or> \<not> imem_ready e")
  case True
  then have "ports_same p p'" using assms by (auto simp: do_fetch_0_def split: if_splits)
  then show ?thesis using ifu_sent_none by blast
next
  case False
  have lv: "ifu_sent e p rs q" if "ifu_sent e (leave_wrong_path p) rs q" for rs q
    using that by (simp add: ifu_sent_def leave_wrong_path_def n_resp_def lsu_waits_def)
  show ?thesis
    using assms False fetch_early_ports [of e p] fetch_wrong_ports [of p p' e] fetch_real_ports [of e p p']
      fetch_real_ports [of e "leave_wrong_path p" p'] lv
    by (auto simp: do_fetch_0_def split: if_splits)
qed

section \<open>A whole update\<close>

lemma run_stage_ports:
  assumes "run_stage e s p = Some p'" "front_idle p" "s \<noteq> Memory"
  shows "ports_kept p p'"
  using assms by (cases s) (auto simp: run_stage_def split: if_splits dest: do_writeback_ports do_mul_ext_ports do_div_ext_ports
      do_execute_ports do_decode_ports do_fetch_1_ports)

lemma run_stages_ports:
  "run_stages e ss p = Some p' \<Longrightarrow> front_idle p \<Longrightarrow> Memory \<notin> set ss \<Longrightarrow> ports_kept p p'"
proof (induction ss arbitrary: p)
  case (Cons s ss)
  then obtain p1 where "run_stage e s p = Some p1" "run_stages e ss p1 = Some p'" by auto
  then show ?case
    using Cons run_stage_ports [of e s p p1] ports_kept_trans [of p p1 p'] by (auto simp: ports_kept_def)
qed simp

definition sent :: "penv \<Rightarrow> pipeline \<Rightarrow> pipeline \<Rightarrow> bool" where
  "sent e p p' \<longleftrightarrow> is_draining p' = is_draining p \<and> (\<exists>ls is. port_reqs p' = port_reqs p @ ls @ is \<and> n_resp p' = n_resp p + length is \<and>
     (is = [] \<or> (\<exists>a. is = [ImemRead a] \<and> imem_ready e)) \<and>
     (ls = [] \<and> lsu_waits p' = lsu_waits p \<or>
      (\<exists>r. ls = [r] \<and> is_lsu_req r \<and> req_ready e r \<and> \<not> lsu_waits p \<and> lsu_waits p')))"

lemma pipe_update_ports:
  assumes u: "pipe_do_update e p = Some p'" and f: "front_idle p" and nc: "nc_ready e \<noteq> None"
  shows "sent e p p'"
proof (cases "calc_nxtupd p \<le> now e")
  case False
  then show ?thesis using u by (auto simp: pipe_do_update_def sent_def)
next
  case True
  let ?p = "p\<lparr>bpu := begin_tick (bpu p)\<rparr>"
  obtain p1 p2 p3 p4 where *: "run_stage e WriteBack ?p = Some p1" "run_stage e Memory p1 = Some p2"
      "run_stages e [IntDivExt, IntMulExt, Execute, Decode, Fetch] p2 = Some p3" "do_fetch_0 e p3 = Some p4" "p' = calc_sched e p4"
    using u True by (auto simp: pipe_do_update_def pipe_update_impl_def all_stages_def)
  have k1: "ports_kept p p1"
    using ports_kept_trans [OF ports_same_kept [OF ports_same_upd(8)] run_stage_ports [OF *(1)]] f by (simp add: front_idle_def)
  have f1: "front_idle p1" using k1 f by (simp add: ports_kept_def)
  obtain ls where ls: "lsu_sent e p1 ls p2"
  proof (cases "p2 = p1")
    case False
    then show ?thesis
      using that *(2) do_memory_ports [OF _ _ nc, of p1 p2] by (auto simp: run_stage_def split: if_splits)
  qed (use that lsu_sent_none [of p1 p1] in auto)
  have f2: "front_idle p2" using ls f1 by (simp add: lsu_sent_def)
  have k3: "ports_kept p2 p3" by (rule run_stages_ports [OF *(3) f2]) simp
  obtain ir where ir: "ifu_sent e p3 ir p4" using do_fetch_0_ports [OF *(4)] by blast
  have k5: "ports_same p4 p'" by (simp add: *(5))
  have s13: "lsu_sent e p ls p3"
    using lsu_sent_kept [OF ls k3] k1 by (auto simp: lsu_sent_def ports_kept_def)
  have "lsu_waits p' = lsu_waits p4" using k5 by (simp add: ports_same_def lsu_waits_def)
  then show ?thesis
    using s13 ir ports_sameD [OF k5] unfolding sent_def lsu_sent_def ifu_sent_def
    by (intro conjI exI [of _ ls] exI [of _ ir]) auto
qed

lemma feed_ports:
  assumes "feed_inst e i p = Some p'"
  shows "sent e p p'"
proof -
  let ?p = "p\<lparr>ongoing_insts := ongoing_insts p + 1, input_buffer := Some (new_transaction i False False)\<rparr>"
  have "do_fetch_0 e ?p = Some p'" using assms by (auto simp: feed_inst_def)
  then obtain rs where rs: "ifu_sent e ?p rs p'" using do_fetch_0_ports by blast
  have "n_resp ?p = n_resp p" "lsu_waits ?p = lsu_waits p" by (simp_all add: n_resp_def lsu_waits_def)
  then show ?thesis using rs unfolding sent_def ifu_sent_def by (intro conjI exI [of _ "[]"] exI [of _ rs]) simp_all
qed

section \<open>Callbacks\<close>

lemma ifu_resp_ports:
  assumes "handle_ifu_resp e p = Some p'"
  shows "port_reqs p' = port_reqs p \<and> n_resp p = Suc (n_resp p') \<and> lsu_waits p' = lsu_waits p \<and>
    is_draining p' = is_draining p"
  using assms
  by (auto simp: handle_ifu_resp_def Let_def n_resp_def lsu_waits_def async_schedule_def schedule_def split: list.splits if_splits)

lemma blocked_by_raw_ports: "blocked_by_raw e p = Some p' \<Longrightarrow> ports_same p p'"
  by (auto simp: blocked_by_raw_def split: option.splits)

lemma lsu_resp_ports:
  assumes "handle_lsu_resp e p = Some p'"
  shows "port_reqs p' = port_reqs p \<and> n_resp p' = n_resp p \<and> \<not> lsu_waits p' \<and>
    is_draining p' = is_draining p"
proof -
  obtain t p1 p2 p3 p4 where *: "sim_pipe p Execute = Some t" "set_waiting False p = Some p1"
      "(if ti_mem_op (tr_inst t) = MemLoad then update_reg_time e (ti_dst_reg (tr_inst t)) (now e + 2) p1 else Some p1) = Some p2"
      "blocked_by_raw e (set_stall e LsuStall p2) = Some p3" "async_schedule e Memory (now e + 1) p3 = Some p4"
      "p' = move_slot Execute Memory p4"
    using assms by (auto simp: handle_lsu_resp_def Let_def)
  have "ports_same p1 p2" using *(3) by (auto split: if_splits dest: update_reg_time_ports)
  then have "ports_same p1 p4"
    using ports_same_trans [OF ports_same_upd(3) ports_same_trans [OF blocked_by_raw_ports [OF *(4)] async_schedule_ports [OF *(5)]]]
    by (rule ports_same_trans)
  then show ?thesis
    using set_waiting_same [OF *(2)] *(6) by (simp add: ports_same_def move_slot_def n_resp_def lsu_waits_def)
qed

lemma ack_ports:
  assumes "ack_mem_avail e i p = Some p'"
  shows "ports_same p p'"
  using assms by (auto simp: ack_mem_avail_def split: if_splits option.splits dest: async_schedule_ports)

end
