(* ===== verification/ArbProofs.thy ===== *)
theory ArbProofs
  imports RamArbiter
begin

text \<open>
  The arbiter as a table of outstanding requests, one per host and direction: requests enter
  it, the completion of a channel takes one out and answers it, and a channel is busy exactly
  while its half of the table is not empty.
\<close>

section \<open>Devices\<close>

definition dev_ok :: "ram_device \<Rightarrow> bool" where
  "dev_ok d = (case dev_model d of ConstLatency lr lw \<Rightarrow> lr < 2 ^ 32 \<and> lw < 2 ^ 32 | SdramDev m \<Rightarrow> sdram_ok m)"

lemma dev_access_ex:
  assumes "dev_ok d" and "1 \<le> mt_bst_len req"
  shows "\<exists>d' lat. dev_access req now d = Some (d', lat) \<and> dev_ok d' \<and> lat < 2 ^ 32"
proof (cases "dev_model d")
  case (ConstLatency lr lw)
  then show ?thesis using assms by (auto simp: dev_access_def dev_ok_def)
next
  case (SdramDev m)
  then have ok: "sdram_ok m" using assms(1) by (simp add: dev_ok_def)
  obtain dt where "dev_tick_of (freq_ratio m) now = Some dt"
    using dev_tick_of_ex [of "freq_ratio m" now] ok by (auto simp: sdram_ok_def)
  then obtain m' lat where "sdram_access (mt_addr req) (int (mt_bst_len req)) (mt_mop req = Write) now (mt_id req) m = Some (m', lat)"
      "sdram_ok m'" "lat < 2 ^ 32"
    using sdram_access_ex [OF ok, of now dt "mt_addr req" "int (mt_bst_len req)" "mt_mop req = Write" "mt_id req"]
    by (auto simp: nat_less_iff)
  then show ?thesis using SdramDev assms by (auto simp: dev_access_def dev_ok_def)
qed

lemma device_of_map_less:
  "\<forall>e\<in>set es. am_device e < n \<Longrightarrow> dflt < n \<Longrightarrow> device_of_map es dflt a < n"
  by (induction es) auto

section \<open>The invariant\<close>

definition slot_ok :: "mop \<Rightarrow> nat \<Rightarrow> mem_trans option \<Rightarrow> bool" where
  "slot_ok mp i s = (case s of None \<Rightarrow> True | Some r \<Rightarrow> mt_id r = i \<and> mt_mop r = mp \<and> 1 \<le> mt_bst_len r)"

definition slots_ok :: "mop \<Rightarrow> nat \<Rightarrow> mem_trans option list \<Rightarrow> bool" where
  "slots_ok mp n xs \<longleftrightarrow> length xs = n \<and> (\<forall>i<n. slot_ok mp i (xs ! i))"

lemma nth_upd: "xs[i := x] ! j = (if i = j \<and> j < length xs then x else xs ! j)"
  by (cases "i = j"; cases "j < length xs") (simp_all add: list_update_beyond)

lemma slots_ok_upd: "slots_ok mp n xs \<Longrightarrow> slot_ok mp i s \<Longrightarrow> slots_ok mp n (xs[i := s])"
  by (auto simp: slots_ok_def nth_upd)

lemma slots_ok_new: "slots_ok mp n (replicate n None)"
  by (simp add: slots_ok_def slot_ok_def)

definition arb_shape :: "arbiter \<Rightarrow> bool" where
  "arb_shape m \<longleftrightarrow> num_hosts m < NO_ID \<and> slots_ok Read (num_hosts m) (reqs_rd m) \<and> slots_ok Write (num_hosts m) (reqs_wr m) \<and>
     length (host_rd m) = num_hosts m \<and> length (host_wr m) = num_hosts m \<and> length (host_dev m) = num_hosts m \<and>
     default_device m < length (devices m) \<and> (\<forall>e\<in>set (addr_map m). am_device e < length (devices m)) \<and>
     (\<forall>d\<in>set (devices m). dev_ok d)"

text \<open>A channel is idle when nothing is outstanding, and else serves one of the requests.\<close>

definition chan_ok :: "mem_trans option list \<Rightarrow> tick_t \<Rightarrow> nat \<Rightarrow> bool" where
  "chan_ok xs busy serving \<longleftrightarrow>
     (if busy = InfTime then serving = NO_ID \<and> (\<forall>x\<in>set xs. x = None)
      else serving < length xs \<and> xs ! serving \<noteq> None)"

text \<open>While a channel completes it is busy, but its request has left the table.\<close>

definition arb_inv :: "mop set \<Rightarrow> arbiter \<Rightarrow> bool" where
  "arb_inv R m \<longleftrightarrow> arb_shape m \<and>
     (if Read \<in> R then r_busy_until m \<noteq> InfTime else chan_ok (reqs_rd m) (r_busy_until m) (r_serving_id m)) \<and>
     (if Write \<in> R then w_busy_until m \<noteq> InfTime else chan_ok (reqs_wr m) (w_busy_until m) (w_serving_id m))"

abbreviation arb_ok :: "arbiter \<Rightarrow> bool" where
  "arb_ok \<equiv> arb_inv {}"

lemma new_arbiter_ok:
  assumes "new_arbiter nh devs amap dflt = Some m" "nh < NO_ID" "\<forall>d\<in>set devs. dev_ok d" "\<forall>e\<in>set amap. am_device e < length devs"
  shows "arb_ok m"
  using assms by (auto simp: new_arbiter_def arb_inv_def arb_shape_def chan_ok_def slots_ok_new)

section \<open>The table of outstanding requests\<close>

definition pending :: "arbiter \<Rightarrow> mop \<Rightarrow> nat \<Rightarrow> mem_trans option" where
  "pending m mp i =
     (if i < num_hosts m then map_option (\<lambda>r. r\<lparr>mt_lat := 0\<rparr>) ((case mp of Read \<Rightarrow> reqs_rd m | Write \<Rightarrow> reqs_wr m) ! i) else None)"

definition put_req :: "mop \<Rightarrow> nat \<Rightarrow> mem_trans option \<Rightarrow> (mop \<Rightarrow> nat \<Rightarrow> mem_trans option) \<Rightarrow> mop \<Rightarrow> nat \<Rightarrow> mem_trans option" where
  "put_req mp i x pd = pd(mp := (pd mp)(i := x))"

lemma pending_rd: "length (reqs_rd m) = num_hosts m \<Longrightarrow> i < num_hosts m \<Longrightarrow>
    pending (m\<lparr>reqs_rd := (reqs_rd m)[i := x]\<rparr>) = put_req Read i (map_option (\<lambda>r. r\<lparr>mt_lat := 0\<rparr>) x) (pending m)"
  by (intro ext) (auto simp: pending_def put_req_def nth_list_update split: mop.splits)

lemma pending_wr: "length (reqs_wr m) = num_hosts m \<Longrightarrow> i < num_hosts m \<Longrightarrow>
    pending (m\<lparr>reqs_wr := (reqs_wr m)[i := x]\<rparr>) = put_req Write i (map_option (\<lambda>r. r\<lparr>mt_lat := 0\<rparr>) x) (pending m)"
  by (intro ext) (auto simp: pending_def put_req_def nth_list_update split: mop.splits)

lemma pending_cong: "reqs_rd m' = reqs_rd m \<Longrightarrow> reqs_wr m' = reqs_wr m \<Longrightarrow> num_hosts m' = num_hosts m \<Longrightarrow> pending m' = pending m"
  by (intro ext) (simp add: pending_def split: mop.split)

text \<open>lat\_of touches the counters and the devices only.\<close>

definition same_chan :: "arbiter \<Rightarrow> arbiter \<Rightarrow> bool" where
  "same_chan m m' \<longleftrightarrow> num_hosts m' = num_hosts m \<and> reqs_rd m' = reqs_rd m \<and> reqs_wr m' = reqs_wr m \<and>
     r_busy_until m' = r_busy_until m \<and> w_busy_until m' = w_busy_until m \<and>
     r_serving_id m' = r_serving_id m \<and> w_serving_id m' = w_serving_id m"

lemma lat_of_ex:
  assumes m: "arb_shape m" and r: "mt_id req < num_hosts m" "1 \<le> mt_bst_len req"
  shows "\<exists>m' lat. lat_of now req m = Some (m', lat) \<and> arb_shape m' \<and> same_chan m m' \<and> lat < 2 ^ 32"
proof -
  define did where "did = device_of m (mt_addr req)"
  have did: "did < length (devices m)"
    using m by (auto simp: did_def device_of_def arb_shape_def intro: device_of_map_less)
  then obtain d lat where d: "dev_access req now (devices m ! did) = Some (d, lat)" "dev_ok d" "lat < 2 ^ 32"
    using dev_access_ex [of "devices m ! did" req now] m r(2) by (auto simp: arb_shape_def)
  have upd: "\<forall>x\<in>set ((devices m)[did := d]). dev_ok x"
    using m d(2) by (auto simp: arb_shape_def dest!: set_update_memD)
  show ?thesis
    using m r(1) did d(1,3) upd unfolding lat_of_def Let_def did_def
    by (cases "mt_mop req") (auto simp: arb_shape_def same_chan_def)
qed

section \<open>Receiving requests\<close>

definition acceptable :: "nat \<Rightarrow> (mop \<Rightarrow> nat \<Rightarrow> mem_trans option) \<Rightarrow> mem_trans \<Rightarrow> bool" where
  "acceptable n pd r \<longleftrightarrow> mt_id r < n \<and> 1 \<le> mt_bst_len r \<and> mt_lat r = 0 \<and> pd (mt_mop r) (mt_id r) = None"

lemma chan_ok_put: "chan_ok xs b s \<Longrightarrow> b \<noteq> InfTime \<Longrightarrow> chan_ok (xs[i := Some r]) b s"
  by (auto simp: chan_ok_def nth_upd)

lemma reset_lat: "mt_lat r = 0 \<Longrightarrow> r\<lparr>mt_lat := 0\<rparr> = r"
  by (cases r) simp

lemma arb_recv_ok:
  assumes m: "arb_inv R m" and r: "acceptable (num_hosts m) (pending m) req" and T: "now + 2 ^ 32 < InfTime"
  shows "\<exists>m'. arb_recv_req now req m = Some m' \<and> arb_inv R m' \<and> num_hosts m' = num_hosts m \<and>
    pending m' = put_req (mt_mop req) (mt_id req) (Some req) (pending m)"
proof -
  let ?i = "mt_id req"
  have sh: "arb_shape m" and i: "?i < num_hosts m" and b: "1 \<le> mt_bst_len req" and l: "req\<lparr>mt_lat := 0\<rparr> = req"
    using m r reset_lat [of req] by (auto simp: arb_inv_def acceptable_def)
  have len: "length (reqs_rd m) = num_hosts m" "length (reqs_wr m) = num_hosts m"
    using sh by (auto simp: arb_shape_def slots_ok_def)
  obtain m1 lat where m1: "lat_of now req m = Some (m1, lat)" "arb_shape m1" "same_chan m m1" "lat < 2 ^ 32"
    using lat_of_ex [OF sh i b] by blast
  have inf: "now + lat \<noteq> InfTime" using m1(4) T by simp
  have so: "slot_ok (mt_mop req) ?i (Some (req\<lparr>mt_lat := x\<rparr>))" "slot_ok (mt_mop req) ?i (Some req)" for x
    using b by (simp_all add: slot_ok_def)
  show ?thesis
  proof (cases "mt_mop req")
    case Read
    have e: "reqs_rd m ! ?i = None" using r i Read by (simp add: acceptable_def pending_def)
    show ?thesis
    proof (cases "r_busy_until m = InfTime")
      case True
      define m2 where "m2 = m1\<lparr>reqs_rd := (reqs_rd m1)[?i := Some (req\<lparr>mt_lat := lat\<rparr>)]\<rparr>"
      define m' where "m' = m2\<lparr>r_busy_until := now + lat, r_serving_id := ?i\<rparr>"
      have "pending m2 = put_req Read ?i (Some req) (pending m1)"
        unfolding m2_def using pending_rd [of m1 ?i] len i m1(3) l by (simp add: same_chan_def)
      then have pd: "pending m' = put_req Read ?i (Some req) (pending m)"
        using pending_cong [of m' m2] pending_cong [of m1 m] m1(3) by (simp add: m'_def same_chan_def)
      have "arb_shape m'"
        using m1(2) so(1) [of lat] Read by (simp add: m'_def m2_def arb_shape_def slots_ok_upd)
      then have inv: "arb_inv R m'" and n: "num_hosts m' = num_hosts m"
        using m m1(3) i len inf by (auto simp: arb_inv_def m'_def m2_def same_chan_def chan_ok_def)
      have "arb_recv_req now req m = Some m'"
        using True Read e i len m1(1) by (simp add: arb_recv_req_def at_def m'_def m2_def Let_def)
      then show ?thesis using inv n pd Read by simp
    next
      case False
      define m' where "m' = m\<lparr>reqs_rd := (reqs_rd m)[?i := Some req]\<rparr>"
      have "arb_inv R m'"
        using m so(2) Read False by (auto simp: m'_def arb_inv_def arb_shape_def slots_ok_upd chan_ok_put)
      then show ?thesis
        using False Read e i len pending_rd [OF len(1) i, of "Some req"] l by (simp add: arb_recv_req_def at_def m'_def Let_def)
    qed
  next
    case Write
    have e: "reqs_wr m ! ?i = None" using r i Write by (simp add: acceptable_def pending_def)
    show ?thesis
    proof (cases "w_busy_until m = InfTime")
      case True
      define m2 where "m2 = m1\<lparr>reqs_wr := (reqs_wr m1)[?i := Some (req\<lparr>mt_lat := lat\<rparr>)]\<rparr>"
      define m' where "m' = m2\<lparr>w_busy_until := now + lat, w_serving_id := ?i\<rparr>"
      have "pending m2 = put_req Write ?i (Some req) (pending m1)"
        unfolding m2_def using pending_wr [of m1 ?i] len i m1(3) l by (simp add: same_chan_def)
      then have pd: "pending m' = put_req Write ?i (Some req) (pending m)"
        using pending_cong [of m' m2] pending_cong [of m1 m] m1(3) by (simp add: m'_def same_chan_def)
      have "arb_shape m'"
        using m1(2) so(1) [of lat] Write by (simp add: m'_def m2_def arb_shape_def slots_ok_upd)
      then have inv: "arb_inv R m'" and n: "num_hosts m' = num_hosts m"
        using m m1(3) i len inf by (auto simp: arb_inv_def m'_def m2_def same_chan_def chan_ok_def)
      have "arb_recv_req now req m = Some m'"
        using True Write e i len m1(1) by (simp add: arb_recv_req_def at_def m'_def m2_def Let_def)
      then show ?thesis using inv n pd Write by simp
    next
      case False
      define m' where "m' = m\<lparr>reqs_wr := (reqs_wr m)[?i := Some req]\<rparr>"
      have "arb_inv R m'"
        using m so(2) Write False by (auto simp: m'_def arb_inv_def arb_shape_def slots_ok_upd chan_ok_put)
      then show ?thesis
        using False Write e i len pending_wr [OF len(2) i, of "Some req"] l by (simp add: arb_recv_req_def at_def m'_def Let_def)
    qed
  qed
qed

fun all_acceptable :: "nat \<Rightarrow> (mop \<Rightarrow> nat \<Rightarrow> mem_trans option) \<Rightarrow> mem_trans list \<Rightarrow> bool" where
  "all_acceptable n pd [] = True"
| "all_acceptable n pd (r # rs) \<longleftrightarrow> acceptable n pd r \<and> all_acceptable n (put_req (mt_mop r) (mt_id r) (Some r) pd) rs"

fun put_all :: "mem_trans list \<Rightarrow> (mop \<Rightarrow> nat \<Rightarrow> mem_trans option) \<Rightarrow> mop \<Rightarrow> nat \<Rightarrow> mem_trans option" where
  "put_all [] pd = pd"
| "put_all (r # rs) pd = put_all rs (put_req (mt_mop r) (mt_id r) (Some r) pd)"

lemma recv_all_ok:
  "arb_inv R m \<Longrightarrow> all_acceptable (num_hosts m) (pending m) rs \<Longrightarrow> now + 2 ^ 32 < InfTime \<Longrightarrow>
   \<exists>m'. recv_all now rs m = Some m' \<and> arb_inv R m' \<and> num_hosts m' = num_hosts m \<and> pending m' = put_all rs (pending m)"
proof (induction rs arbitrary: m)
  case (Cons r rs)
  then obtain m1 where m1: "arb_recv_req now r m = Some m1" "arb_inv R m1" "num_hosts m1 = num_hosts m"
      "pending m1 = put_req (mt_mop r) (mt_id r) (Some r) (pending m)"
    using arb_recv_ok [of R m r now] by auto
  then show ?case using Cons.IH [of m1] Cons.prems by auto
qed simp

section \<open>Completion of a channel\<close>

lemma last_pending_None: "last_pending xs = None \<longleftrightarrow> (\<forall>x\<in>set xs. x = None)"
  by (induction xs) (auto split: option.splits)

lemma last_pending_Some:
  "last_pending xs = Some i \<Longrightarrow> i < length xs \<and> xs ! i \<noteq> None \<and> (\<forall>j. i < j \<longrightarrow> j < length xs \<longrightarrow> xs ! j = None)"
proof (induction xs arbitrary: i)
  case (Cons x xs)
  show ?case
  proof (cases "last_pending xs")
    case None
    then have "i = 0" "x \<noteq> None" "\<forall>y\<in>set xs. y = None"
      using Cons.prems last_pending_None [of xs] by (auto split: if_splits)
    then show ?thesis by (auto simp: nth_Cons split: nat.splits)
  next
    case (Some k)
    then have "i = Suc k" using Cons.prems by simp
    then show ?thesis using Cons.IH [OF Some] by (auto simp: nth_Cons split: nat.splits)
  qed
qed simp

lemma pick_read_ok:
  assumes m: "arb_inv {Read} m" and T: "now + 2 ^ 32 + 1 < InfTime"
  shows "\<exists>m'. pick_read now m = Some m' \<and> arb_inv {} m' \<and> num_hosts m' = num_hosts m \<and> pending m' = pending m \<and>
    r_serving_id m' = (case last_pending (reqs_rd m) of None \<Rightarrow> NO_ID | Some i \<Rightarrow> i)"
proof -
  have sh: "arb_shape m" and wr: "chan_ok (reqs_wr m) (w_busy_until m) (w_serving_id m)"
    using m by (simp_all add: arb_inv_def)
  have len: "length (reqs_rd m) = num_hosts m" using sh by (simp add: arb_shape_def slots_ok_def)
  show ?thesis
  proof (cases "last_pending (reqs_rd m)")
    case None
    define m' where "m' = m\<lparr>r_busy_until := InfTime, r_serving_id := NO_ID\<rparr>"
    have "arb_inv {} m'"
      using sh wr last_pending_None [of "reqs_rd m"] None by (simp add: arb_inv_def m'_def arb_shape_def chan_ok_def)
    moreover have "pending m' = pending m" by (rule pending_cong) (simp_all add: m'_def)
    ultimately show ?thesis using None by (simp add: pick_read_def m'_def)
  next
    case (Some i)
    obtain req where i: "i < num_hosts m" "reqs_rd m ! i = Some req"
      using last_pending_Some [OF Some] len by auto
    have q: "mt_id req = i" "1 \<le> mt_bst_len req" "mt_mop req = Read"
      using sh i by (auto simp: arb_shape_def slots_ok_def slot_ok_def)
    define m1 where "m1 = m\<lparr>r_busy_until := InfTime, r_serving_id := i\<rparr>"
    have "arb_shape m1" using sh by (simp add: m1_def arb_shape_def)
    then obtain m2 lat where m2: "lat_of now req m1 = Some (m2, lat)" "arb_shape m2" "same_chan m1 m2" "lat < 2 ^ 32"
      using lat_of_ex [of m1 req now] i q by (auto simp: m1_def)
    define m' where "m' = m2\<lparr>reqs_rd := (reqs_rd m2)[i := Some (req\<lparr>mt_lat := lat\<rparr>)], r_busy_until := now + 1 + lat\<rparr>"
    have inf: "now + 1 + lat \<noteq> InfTime" using m2(4) T by simp
    have c: "reqs_rd m2 = reqs_rd m" "reqs_wr m2 = reqs_wr m" "num_hosts m2 = num_hosts m" "r_serving_id m2 = i"
        "w_busy_until m2 = w_busy_until m" "w_serving_id m2 = w_serving_id m"
      using m2(3) by (simp_all add: same_chan_def m1_def)
    have eq: "pick_read now m = Some m'"
      using Some i q(1) m2(1) by (simp add: pick_read_def m1_def m'_def)
    have "slot_ok Read i (Some (req\<lparr>mt_lat := lat\<rparr>))" using q by (simp add: slot_ok_def)
    then have "arb_shape m'" using m2(2) by (simp add: m'_def arb_shape_def slots_ok_upd)
    then have "arb_inv {} m'"
      using wr inf i len by (simp add: arb_inv_def m'_def c) (simp add: chan_ok_def)
    moreover have "pending m' = pending m"
    proof (intro ext)
      fix mp k
      show "pending m' mp k = pending m mp k"
        using i len by (cases mp) (auto simp: pending_def m'_def c nth_upd)
    qed
    ultimately show ?thesis using eq Some by (simp add: m'_def c)
  qed
qed

lemma pick_write_ok:
  assumes m: "arb_inv {Write} m" and T: "now + 2 ^ 32 + 1 < InfTime"
  shows "\<exists>m'. pick_write now m = Some m' \<and> arb_inv {} m' \<and> num_hosts m' = num_hosts m \<and> pending m' = pending m \<and>
    w_serving_id m' = (case last_pending (reqs_wr m) of None \<Rightarrow> NO_ID | Some i \<Rightarrow> i)"
proof -
  have sh: "arb_shape m" and rd: "chan_ok (reqs_rd m) (r_busy_until m) (r_serving_id m)"
    using m by (simp_all add: arb_inv_def)
  have len: "length (reqs_wr m) = num_hosts m" using sh by (simp add: arb_shape_def slots_ok_def)
  show ?thesis
  proof (cases "last_pending (reqs_wr m)")
    case None
    define m' where "m' = m\<lparr>w_busy_until := InfTime, w_serving_id := NO_ID\<rparr>"
    have "arb_inv {} m'"
      using sh rd last_pending_None [of "reqs_wr m"] None by (simp add: arb_inv_def m'_def arb_shape_def chan_ok_def)
    moreover have "pending m' = pending m" by (rule pending_cong) (simp_all add: m'_def)
    ultimately show ?thesis using None by (simp add: pick_write_def m'_def)
  next
    case (Some i)
    obtain req where i: "i < num_hosts m" "reqs_wr m ! i = Some req"
      using last_pending_Some [OF Some] len by auto
    have q: "mt_id req = i" "1 \<le> mt_bst_len req" "mt_mop req = Write"
      using sh i by (auto simp: arb_shape_def slots_ok_def slot_ok_def)
    define m1 where "m1 = m\<lparr>w_busy_until := InfTime, w_serving_id := i\<rparr>"
    have "arb_shape m1" using sh by (simp add: m1_def arb_shape_def)
    then obtain m2 lat where m2: "lat_of now req m1 = Some (m2, lat)" "arb_shape m2" "same_chan m1 m2" "lat < 2 ^ 32"
      using lat_of_ex [of m1 req now] i q by (auto simp: m1_def)
    define m' where "m' = m2\<lparr>reqs_wr := (reqs_wr m2)[i := Some (req\<lparr>mt_lat := lat\<rparr>)], w_busy_until := now + 1 + lat\<rparr>"
    have inf: "now + 1 + lat \<noteq> InfTime" using m2(4) T by simp
    have c: "reqs_rd m2 = reqs_rd m" "reqs_wr m2 = reqs_wr m" "num_hosts m2 = num_hosts m" "w_serving_id m2 = i"
        "r_busy_until m2 = r_busy_until m" "r_serving_id m2 = r_serving_id m"
      using m2(3) by (simp_all add: same_chan_def m1_def)
    have eq: "pick_write now m = Some m'"
      using Some i q(1) m2(1) by (simp add: pick_write_def m1_def m'_def)
    have "slot_ok Write i (Some (req\<lparr>mt_lat := lat\<rparr>))" using q by (simp add: slot_ok_def)
    then have "arb_shape m'" using m2(2) by (simp add: m'_def arb_shape_def slots_ok_upd)
    then have "arb_inv {} m'"
      using rd inf i len by (simp add: arb_inv_def m'_def c) (simp add: chan_ok_def)
    moreover have "pending m' = pending m"
    proof (intro ext)
      fix mp k
      show "pending m' mp k = pending m mp k"
        using i len by (cases mp) (auto simp: pending_def m'_def c nth_upd)
    qed
    ultimately show ?thesis using eq Some by (simp add: m'_def c)
  qed
qed

lemma slot_of_pending:
  assumes "arb_shape m" "chan_ok (case mp of Read \<Rightarrow> reqs_rd m | Write \<Rightarrow> reqs_wr m) b s" "b \<noteq> InfTime"
  shows "\<exists>q. s < num_hosts m \<and> s < length (case mp of Read \<Rightarrow> reqs_rd m | Write \<Rightarrow> reqs_wr m) \<and>
    (case mp of Read \<Rightarrow> reqs_rd m | Write \<Rightarrow> reqs_wr m) ! s = Some q \<and> pending m mp s = Some (q\<lparr>mt_lat := 0\<rparr>)"
  using assms by (cases mp) (auto simp: arb_shape_def slots_ok_def chan_ok_def pending_def)

section \<open>Hosts\<close>

text \<open>
  What the arbiter needs of its hosts: the owner of an outstanding request takes the answer,
  and the requests it sends in return find their slots free.
\<close>

locale mem_clients =
  fixes cb :: "'h host_cb" and inv :: "'h \<Rightarrow> (mop \<Rightarrow> nat \<Rightarrow> mem_trans option) \<Rightarrow> bool" and n :: nat
  assumes answer: "inv h pd \<Longrightarrow> i < n \<Longrightarrow> pd mp i = Some r \<Longrightarrow>
    \<exists>h' rs. cb i (r\<lparr>mt_dir := Resp, mt_lat := l\<rparr>) h = Some (h', rs) \<and>
      all_acceptable n (put_req mp i None pd) rs \<and> inv h' (put_all rs (put_req mp i None pd))"
begin

lemma complete_read_ok:
  assumes m: "arb_ok m" "num_hosts m = n" and h: "inv h (pending m)" and T: "now + 2 ^ 32 + 1 < InfTime"
  shows "\<exists>m' h'. complete_read cb now (m, h) = Some (m', h') \<and> arb_ok m' \<and> num_hosts m' = n \<and> inv h' (pending m')"
proof (cases "r_busy_until m \<le> now \<and> r_serving_id m \<noteq> NO_ID")
  case False
  then have "complete_read cb now (m, h) = Some (m, h)" by (simp only: complete_read_def Let_def prod.case if_False)
  then show ?thesis using m h by simp
next
  case True
  let ?s = "r_serving_id m" and ?m1 = "m\<lparr>reqs_rd := (reqs_rd m)[r_serving_id m := None]\<rparr>"
  have b: "r_busy_until m \<noteq> InfTime" using True T by auto
  have sh: "arb_shape m" "chan_ok (reqs_rd m) (r_busy_until m) ?s" using m(1) by (simp_all add: arb_inv_def)
  obtain q where q: "?s < num_hosts m" "?s < length (reqs_rd m)" "reqs_rd m ! ?s = Some q" "pending m Read ?s = Some (q\<lparr>mt_lat := 0\<rparr>)"
    using slot_of_pending [of m Read] sh b by auto
  have i1: "arb_inv {Read} ?m1"
    using m(1) b by (auto simp: arb_inv_def arb_shape_def slots_ok_upd slot_ok_def)
  have p1: "pending ?m1 = put_req Read ?s None (pending m)"
    using pending_rd [of m ?s None] q(1) sh(1) by (simp add: arb_shape_def slots_ok_def)
  obtain h' rs where cb: "cb ?s (q\<lparr>mt_dir := Resp\<rparr>) h = Some (h', rs)"
      "all_acceptable n (pending ?m1) rs" "inv h' (put_all rs (pending ?m1))"
    using answer [OF h _ q(4), of "mt_lat q"] q(1) m(2) p1 by auto
  obtain m2 where m2: "recv_all now rs ?m1 = Some m2" "arb_inv {Read} m2" "num_hosts m2 = n" "pending m2 = put_all rs (pending ?m1)"
    using recv_all_ok [OF i1, of rs now] cb(2) m(2) T by auto
  obtain m3 where m3: "pick_read now m2 = Some m3" "arb_ok m3" "num_hosts m3 = n" "pending m3 = pending m2"
    using pick_read_ok [OF m2(2) T] m2(3) by auto
  have "complete_read cb now (m, h) = Some (m3, h')"
    unfolding complete_read_def Let_def prod.case
    using True q(1,2,3) cb(1) m2(1) m3(1) by (simp add: at_def)
  then show ?thesis using m3 m2(4) cb(3) by simp
qed

lemma complete_write_ok:
  assumes m: "arb_ok m" "num_hosts m = n" and h: "inv h (pending m)" and T: "now + 2 ^ 32 + 1 < InfTime"
  shows "\<exists>m' h'. complete_write cb now (m, h) = Some (m', h') \<and> arb_ok m' \<and> num_hosts m' = n \<and> inv h' (pending m')"
proof (cases "w_busy_until m \<le> now \<and> w_serving_id m \<noteq> NO_ID")
  case False
  then have "complete_write cb now (m, h) = Some (m, h)" by (simp only: complete_write_def Let_def prod.case if_False)
  then show ?thesis using m h by simp
next
  case True
  let ?s = "w_serving_id m" and ?m1 = "m\<lparr>reqs_wr := (reqs_wr m)[w_serving_id m := None]\<rparr>"
  have b: "w_busy_until m \<noteq> InfTime" using True T by auto
  have sh: "arb_shape m" "chan_ok (reqs_wr m) (w_busy_until m) ?s" using m(1) by (simp_all add: arb_inv_def)
  obtain q where q: "?s < num_hosts m" "?s < length (reqs_wr m)" "reqs_wr m ! ?s = Some q" "pending m Write ?s = Some (q\<lparr>mt_lat := 0\<rparr>)"
    using slot_of_pending [of m Write] sh b by auto
  have i1: "arb_inv {Write} ?m1"
    using m(1) b by (auto simp: arb_inv_def arb_shape_def slots_ok_upd slot_ok_def)
  have p1: "pending ?m1 = put_req Write ?s None (pending m)"
    using pending_wr [of m ?s None] q(1) sh(1) by (simp add: arb_shape_def slots_ok_def)
  obtain h' rs where cb: "cb ?s (q\<lparr>mt_dir := Resp\<rparr>) h = Some (h', rs)"
      "all_acceptable n (pending ?m1) rs" "inv h' (put_all rs (pending ?m1))"
    using answer [OF h _ q(4), of "mt_lat q"] q(1) m(2) p1 by auto
  obtain m2 where m2: "recv_all now rs ?m1 = Some m2" "arb_inv {Write} m2" "num_hosts m2 = n" "pending m2 = put_all rs (pending ?m1)"
    using recv_all_ok [OF i1, of rs now] cb(2) m(2) T by auto
  obtain m3 where m3: "pick_write now m2 = Some m3" "arb_ok m3" "num_hosts m3 = n" "pending m3 = pending m2"
    using pick_write_ok [OF m2(2) T] m2(3) by auto
  have "complete_write cb now (m, h) = Some (m3, h')"
    unfolding complete_write_def Let_def prod.case
    using True q(1,2,3) cb(1) m2(1) m3(1) by (simp add: at_def)
  then show ?thesis using m3 m2(4) cb(3) by simp
qed

lemma arb_update_ok:
  assumes m: "arb_ok m" "num_hosts m = n" and h: "inv h (pending m)" and T: "now + 2 ^ 32 + 1 < InfTime"
  shows "\<exists>m' h'. arb_do_update cb now (m, h) = Some (m', h') \<and> arb_ok m' \<and> num_hosts m' = n \<and> inv h' (pending m')"
proof (cases "arb_next_update m \<le> now")
  case True
  obtain m1 h1 where r: "complete_read cb now (m, h) = Some (m1, h1)" "arb_ok m1" "num_hosts m1 = n" "inv h1 (pending m1)"
    using complete_read_ok [OF assms] by blast
  then show ?thesis using complete_write_ok [OF r(2,3,4) T] True by (simp add: arb_do_update_def arb_update_impl_def)
next
  case False
  then show ?thesis using m h by (simp add: arb_do_update_def)
qed

end

end
