(* ===== verification/SystemProofs.thy ===== *)
theory SystemProofs
  imports System CorePorts ArbProofs
begin

text \<open>
  The machine as a whole: every request on a port is known to the other side of the port. The
  core expects as many instruction responses as the instruction cache holds requests, the
  load-store unit waits exactly while one data request is out, and the slots of the arbiter
  hold exactly the requests its hosts wait for.
\<close>

section \<open>Events\<close>

fun core_event :: "penv \<Rightarrow> cache_event \<Rightarrow> pipeline \<Rightarrow> pipeline option" where
  "core_event e (CpuResp r) p = recv_mem_resp e (ct_id r) (ct_mop r = Write) p"
| "core_event e (CpuAck a) p = ack_mem_avail e (ack_id a) p"
| "core_event e (MemReq q) p = Some p"

fun core_events :: "penv \<Rightarrow> cache_event list \<Rightarrow> pipeline \<Rightarrow> pipeline option" where
  "core_events e [] p = Some p"
| "core_events e (ev # evs) p = do { p' \<leftarrow> core_event e ev p; core_events e evs p' }"

lemma main_env_upd [simp]: "main_env (m\<lparr>m_core := p\<rparr>) = main_env m" "main_env (m\<lparr>m_mem := a\<rparr>) = main_env m"
  by (simp_all add: main_env_def)

lemma main_env_now [simp]: "now (main_env m) = m_tick m"
  by (simp add: main_env_def)

text \<open>The core and the arbiter do not see each other, so the order between their events is immaterial.\<close>

lemma deliver_all_split:
  "deliver_all evs m = do {
     p \<leftarrow> core_events (main_env m) evs (m_core m);
     a \<leftarrow> recv_all (m_tick m) (mem_reqs evs) (m_mem m);
     Some (m\<lparr>m_core := p, m_mem := a\<rparr>) }"
proof (induction evs arbitrary: m)
  case (Cons ev evs)
  show ?case
  proof (cases ev)
    case (CpuResp r)
    then show ?thesis
      using Cons.IH by (cases "recv_mem_resp (main_env m) (ct_id r) (ct_mop r = Write) (m_core m)") simp_all
  next
    case (CpuAck a)
    then show ?thesis using Cons.IH by (cases "ack_mem_avail (main_env m) (ack_id a) (m_core m)") simp_all
  next
    case (MemReq q)
    then show ?thesis
      using Cons.IH by (cases "arb_recv_req (m_tick m) q (m_mem m)"; cases "core_events (main_env m) evs (m_core m)") simp_all
  qed
qed simp

lemma core_events_to_core: "core_events e (to_core evs) p = core_events e evs p"
proof (induction evs arbitrary: p)
  case (Cons ev evs)
  then show ?case
    by (cases ev; cases "core_event e ev p") (simp_all add: to_core_def)
qed (simp add: to_core_def)

lemma mem_reqs_to_core [simp]: "mem_reqs (to_core evs) = []"
proof (induction evs)
  case (Cons ev evs)
  then show ?case by (cases ev) (simp_all add: to_core_def)
qed (simp add: to_core_def)

section \<open>What the core does with them\<close>

fun event_from :: "nat \<Rightarrow> cache_event \<Rightarrow> bool" where
  "event_from i (CpuResp r) = (ct_id r = i)"
| "event_from i (CpuAck a) = (ack_id a = i)"
| "event_from i (MemReq q) = (mt_id q = i)"

fun no_store_resp :: "cache_event \<Rightarrow> bool" where
  "no_store_resp (CpuResp r) = (ct_mop r = Read)"
| "no_store_resp _ = True"

lemma ifu_event:
  assumes s: "core_inv s" and ev: "event_from 0 ev" "no_store_resp ev" and n: "n_resp (core s) = length (resp_out ev) + k"
  shows "\<exists>p. core_event e ev (core s) = Some p \<and> core_inv (s\<lparr>core := p\<rparr>) \<and> n_resp p = k \<and>
     lsu_waits p = lsu_waits (core s) \<and> port_reqs p = port_reqs (core s)"
proof (cases ev)
  case (CpuResp r)
  have "resp_is_orphan (fetch_st (core s)) \<noteq> []" using n CpuResp by (auto simp: n_resp_def)
  then obtain p where p: "recv_mem_resp e 0 False (core s) = Some p" "core_inv (s\<lparr>core := p\<rparr>)"
    using core_ifu_ok [OF s] by blast
  have "port_reqs p = port_reqs (core s)" "n_resp (core s) = Suc (n_resp p)" "lsu_waits p = lsu_waits (core s)"
    using ifu_resp_ports [of e "core s" p] p(1) by (simp_all add: recv_mem_resp_def)
  then show ?thesis using p n ev CpuResp by simp
next
  case (CpuAck a)
  obtain p where p: "ack_mem_avail e 0 (core s) = Some p" "core_inv (s\<lparr>core := p\<rparr>)"
    using core_ack_ok [OF s, of 0 e] by auto
  have "ports_same (core s) p" by (rule ack_ports [OF p(1)])
  then show ?thesis using p n ev CpuAck by (simp add: ports_same_def lsu_waits_def)
next
  case (MemReq q)
  then show ?thesis using s n by simp
qed

lemma responses_Cons: "responses (ev # evs) = resp_out ev @ responses evs"
  by (simp add: responses_def)

lemma ifu_events:
  "core_inv s \<Longrightarrow> list_all (event_from 0) evs \<Longrightarrow> list_all no_store_resp evs \<Longrightarrow> n_resp (core s) = length (responses evs) + k \<Longrightarrow>
   \<exists>p. core_events e evs (core s) = Some p \<and> core_inv (s\<lparr>core := p\<rparr>) \<and> n_resp p = k \<and>
     lsu_waits p = lsu_waits (core s) \<and> port_reqs p = port_reqs (core s)"
proof (induction evs arbitrary: s)
  case (Cons ev evs)
  obtain p where p: "core_event e ev (core s) = Some p" "core_inv (s\<lparr>core := p\<rparr>)" "n_resp p = length (responses evs) + k"
      "lsu_waits p = lsu_waits (core s)" "port_reqs p = port_reqs (core s)"
    using ifu_event [OF Cons.prems(1), of ev "length (responses evs) + k" e] Cons.prems(2,3,4) by (auto simp: responses_Cons)
  show ?case using Cons.IH [OF p(2)] Cons.prems(2,3) p by simp
qed simp

lemma lsu_event:
  assumes s: "core_inv s" "now e = clk s" and i: "i = 1 \<or> i = 2" and ev: "event_from i ev"
    and n: "of_bool (lsu_waits (core s)) = length (resp_out ev) + k"
  shows "\<exists>p. core_event e ev (core s) = Some p \<and> core_inv (s\<lparr>core := p\<rparr>) \<and> n_resp p = n_resp (core s) \<and>
     of_bool (lsu_waits p) = k \<and> port_reqs p = port_reqs (core s)"
proof (cases ev)
  case (CpuResp r)
  have w: "lsu_waits (core s)" "k = 0" using n CpuResp by (cases "lsu_waits (core s)"; simp)+
  obtain p where p: "recv_mem_resp e i (ct_mop r = Write) (core s) = Some p" "core_inv (s\<lparr>core := p\<rparr>)"
    using core_lsu_ok [OF s(1) w(1) i s(2)] by blast
  have "port_reqs p = port_reqs (core s)" "n_resp p = n_resp (core s)" "\<not> lsu_waits p"
    using lsu_resp_ports [of e "core s" p] p(1) i by (auto simp: recv_mem_resp_def)
  then show ?thesis using p w ev CpuResp by simp
next
  case (CpuAck a)
  obtain p where p: "ack_mem_avail e i (core s) = Some p" "core_inv (s\<lparr>core := p\<rparr>)"
    using core_ack_ok [OF s(1), of i e] i by auto
  have "ports_same (core s) p" by (rule ack_ports [OF p(1)])
  then show ?thesis using p n ev CpuAck by (simp add: ports_same_def lsu_waits_def)
next
  case (MemReq q)
  then show ?thesis using s n by simp
qed

lemma lsu_events:
  "core_inv s \<Longrightarrow> now e = clk s \<Longrightarrow> i = 1 \<or> i = 2 \<Longrightarrow> list_all (event_from i) evs \<Longrightarrow>
   of_bool (lsu_waits (core s)) = length (responses evs) + k \<Longrightarrow>
   \<exists>p. core_events e evs (core s) = Some p \<and> core_inv (s\<lparr>core := p\<rparr>) \<and> n_resp p = n_resp (core s) \<and>
     of_bool (lsu_waits p) = k \<and> port_reqs p = port_reqs (core s)"
proof (induction evs arbitrary: s)
  case (Cons ev evs)
  obtain p where p: "core_event e ev (core s) = Some p" "core_inv (s\<lparr>core := p\<rparr>)" "n_resp p = n_resp (core s)"
      "of_bool (lsu_waits p) = length (responses evs) + k" "port_reqs p = port_reqs (core s)"
    using lsu_event [OF Cons.prems(1-3), of ev "length (responses evs) + k"] Cons.prems(4,5) by (auto simp: responses_Cons)
  show ?case using Cons.IH [OF p(2)] Cons.prems(2,3,4) p by simp
qed simp

section \<open>The links of the hosts to the arbiter\<close>

type_synonym slots = "mop \<Rightarrow> nat \<Rightarrow> mem_trans option"

definition cache_link :: "nat \<Rightarrow> pipe_cache \<Rightarrow> slots \<Rightarrow> bool" where
  "cache_link i c pd \<longleftrightarrow> cache_id c = i \<and>
     (case pd Read i of None \<Rightarrow> \<not> r_waiting c
      | Some q \<Rightarrow> r_waiting c \<and> mt_mop q = Read \<and> (\<exists>bk. last (pipe c) = Some bk \<and> mt_addr q = pe_addr bk)) \<and>
     (case pd Write i of None \<Rightarrow> \<not> w_waiting c | Some q \<Rightarrow> w_waiting c \<and> mt_mop q = Write)"

definition plain_link :: "nat \<Rightarrow> no_cache \<Rightarrow> slots \<Rightarrow> bool" where
  "plain_link i c pd \<longleftrightarrow> cache_id c = i \<and>
     (case pd Read i of None \<Rightarrow> \<not> nc_r_busy c | Some q \<Rightarrow> nc_r_busy c \<and> mt_mop q = Read \<and> mt_data q = []) \<and>
     (case pd Write i of None \<Rightarrow> \<not> nc_w_busy c | Some q \<Rightarrow> nc_w_busy c \<and> mt_mop q = Write)"

lemma put_req_sel: "put_req mp i x pd mp' j = (if mp' = mp \<and> j = i then x else pd mp' j)"
  by (simp add: put_req_def)

lemma link_other [simp]:
  "j \<noteq> i \<Longrightarrow> cache_link j c (put_req mp i x pd) = cache_link j c pd"
  "j \<noteq> i \<Longrightarrow> plain_link j n (put_req mp i x pd) = plain_link j n pd"
  by (simp_all add: cache_link_def plain_link_def put_req_sel)

definition cache_host :: "bool \<Rightarrow> nat \<Rightarrow> pipe_cache \<Rightarrow> slots \<Rightarrow> bool" where
  "cache_host wb i c pd \<longleftrightarrow> pc_run_inv wb c \<and> mem_ok c \<and> cache_link i c pd"

lemma host_other [simp]: "j \<noteq> i \<Longrightarrow> cache_host wb j c (put_req mp i x pd) = cache_host wb j c pd"
  by (simp add: cache_host_def)

lemma run_inv_pcache: "pc_run_inv wb c \<Longrightarrow> pcache_inv c"
  by (simp add: pc_run_inv_def)

lemma cache_answer:
  assumes c: "cache_host wb i c pd" and q: "pd mp i = Some q"
  shows "\<exists>c'. pc_recv_mem_resp t (q\<lparr>mt_dir := Resp, mt_lat := l\<rparr>) c = Some c' \<and> cache_host wb i c' (put_req mp i None pd) \<and>
    requests c' = requests c"
proof -
  let ?q = "q\<lparr>mt_dir := Resp, mt_lat := l\<rparr>"
  have run: "pc_run_inv wb c" and ok: "mem_ok c" and lk: "cache_link i c pd" using c by (simp_all add: cache_host_def)
  note inv = run_inv_pcache [OF run]
  have en: "pc_enabled c (MemDone t ?q)" and mp: "mt_mop q = mp"
    using lk q by (cases mp; auto simp: cache_link_def)+
  obtain c' where c': "pc_recv_mem_resp t ?q c = Some c'" "pc_run_inv wb c'" "requests c' = requests c"
    using pc_step_ok [OF run en] by auto
  note m = recv_mem [OF c'(1) ok inv]
  have "cache_link i c' (put_req mp i None pd)"
  proof (cases mp)
    case Read
    then show ?thesis using m lk mp q by (auto simp: cache_link_def put_req_sel split: option.splits)
  next
    case Write
    then show ?thesis using m lk mp q by (auto simp: cache_link_def put_req_sel split: option.splits)
  qed
  then show ?thesis using c' m by (auto simp: cache_host_def)
qed

lemma cache_tick:
  assumes c: "cache_host wb i c pd" and n: "t < InfTime" and i: "i < 3"
  shows "\<exists>c' evs. pc_do_update t c = Some (c', evs) \<and> cache_host wb i c' (put_all (mem_reqs evs) pd) \<and>
    all_acceptable 3 pd (mem_reqs evs) \<and> (mem_reqs evs = [] \<or> (\<exists>q. mem_reqs evs = [q] \<and> mt_id q = i)) \<and>
    responses evs @ requests c' = requests c \<and>
    list_all (event_from i) evs \<and> (\<not> wb \<longrightarrow> list_all no_store_resp evs)"
proof -
  have run: "pc_run_inv wb c" and ok: "mem_ok c" and lk: "cache_link i c pd" using c by (simp_all add: cache_host_def)
  note inv = run_inv_pcache [OF run]
  obtain c' evs where u: "pc_do_update t c = Some (c', evs)" "pcache_inv c'" "responses evs @ requests c' = requests c"
      "write_back c' = write_back c" "\<forall>r. CpuResp r \<in> set evs \<longrightarrow> ct_id r = cache_id c"
    using pc_do_update_ok [OF inv n] by blast
  have run': "pc_run_inv wb c'"
    using pc_step_ok [OF run, of "PortTick t"] n u(1) by auto
  have m: "mem_ok c'" "mem_sent c evs c'" using pc_update_mem [OF inv ok n u(1)] by simp_all
  have id: "cache_id c = i" using lk by (simp add: cache_link_def)
  have rd: "ct_mop r = Read" if "\<not> wb" "CpuResp r \<in> set evs" for r
  proof -
    have "(ct_addr r, ct_mop r) \<in> set (responses evs)"
      using that(2) by (force simp: responses_def)
    then have "(ct_addr r, ct_mop r) \<in> set (requests c)" by (simp flip: u(3))
    then show ?thesis using run that(1) by (auto simp: pc_run_inv_def pipe_reads_def)
  qed
  have "cache_link i c' (put_all (mem_reqs evs) pd) \<and> all_acceptable 3 pd (mem_reqs evs) \<and>
      (mem_reqs evs = [] \<or> (\<exists>q. mem_reqs evs = [q] \<and> mt_id q = i))"
  proof (cases "r_waiting c")
    case True
    then show ?thesis using waiting_no_update [OF inv True n] u(1) lk by auto
  next
    case False
    then have pr: "pd Read i = None" using lk by (auto simp: cache_link_def split: option.splits)
    consider (none) "mem_reqs evs = []" "\<not> r_waiting c'" "w_waiting c' = w_waiting c"
      | (fill) q bk where "mem_reqs evs = [q]" "req_ok i q" "mt_mop q = Read" "r_waiting c'" "w_waiting c' = w_waiting c"
          "last (pipe c') = Some bk" "mt_addr q = pe_addr bk"
      | (evict) q where "mem_reqs evs = [q]" "req_ok i q" "mt_mop q = Write" "\<not> r_waiting c'" "\<not> w_waiting c" "w_waiting c'"
      using m(2) False id by (auto simp: mem_sent_def)
    then show ?thesis
    proof cases
      case none
      then show ?thesis using lk m(2) pr by (auto simp: cache_link_def mem_sent_def split: option.splits)
    next
      case fill
      then show ?thesis
        using lk m(2) pr i by (auto simp: cache_link_def mem_sent_def req_ok_def acceptable_def put_req_sel split: option.splits)
    next
      case evict
      then have "pd Write i = None" using lk by (auto simp: cache_link_def split: option.splits)
      then show ?thesis
        using evict lk m(2) pr i by (auto simp: cache_link_def mem_sent_def req_ok_def acceptable_def put_req_sel)
    qed
  qed
  then have lk': "cache_link i c' (put_all (mem_reqs evs) pd)" "all_acceptable 3 pd (mem_reqs evs)"
      "mem_reqs evs = [] \<or> (\<exists>q. mem_reqs evs = [q] \<and> mt_id q = i)" by simp_all
  have "event_from i ev" if "ev \<in> set evs" for ev
  proof (cases ev)
    case (MemReq q)
    then have "q \<in> set (mem_reqs evs)" using that by (induction evs rule: mem_reqs.induct) auto
    then show ?thesis using lk'(3) MemReq by auto
  qed (use that u(5) m(2) id in \<open>auto simp: mem_sent_def\<close>)
  then have "list_all (event_from i) evs" by (simp add: list_all_iff)
  moreover have "no_store_resp ev" if "\<not> wb" "ev \<in> set evs" for ev
    using rd that by (cases ev) auto
  then have "\<not> wb \<longrightarrow> list_all no_store_resp evs" by (simp add: list_all_iff)
  ultimately show ?thesis using u(1,3) m(1) lk' run' by (auto simp: cache_host_def)
qed

lemma cache_enter:
  assumes c: "cache_host wb i c pd" and r: "fst (pc_is_ready c)"
  shows "\<exists>c'. pc_read_req t a c = Some c' \<and> cache_host wb i c' pd \<and> requests c' = requests c @ [(a, Read)]"
proof -
  have run: "pc_run_inv wb c" and ok: "mem_ok c" and lk: "cache_link i c pd" using c by (simp_all add: cache_host_def)
  obtain c' where c': "pc_read_req t a c = Some c'" "pc_run_inv wb c'" "requests c' = requests c @ [(a, Read)]"
    using pc_step_ok [OF run, of "CpuRead t a"] r by auto
  have "mem_ok c' \<and> cache_id c' = cache_id c \<and> r_waiting c' = r_waiting c \<and> w_waiting c' = w_waiting c \<and>
      (r_waiting c \<longrightarrow> last (pipe c') = last (pipe c))"
    using enter_pipe_mem [OF _ run_inv_pcache [OF run] ok] c'(1) by (auto simp: pc_read_req_def)
  then show ?thesis using c' lk by (auto simp: cache_host_def cache_link_def split: option.splits)
qed

lemma cache_store:
  assumes c: "cache_host True i c pd" and r: "snd (pc_is_ready c)"
  shows "\<exists>c'. pc_write_req t a d s c = Some (c', []) \<and> cache_host True i c' pd \<and> requests c' = requests c @ [(a, Write)]"
proof -
  have run: "pc_run_inv True c" and ok: "mem_ok c" and lk: "cache_link i c pd" using c by (simp_all add: cache_host_def)
  have wb: "write_back c" using run by (simp add: pc_run_inv_def)
  obtain c' evs where c': "pc_write_req t a d s c = Some (c', evs)" "pc_run_inv True c'"
      "concat (map (pc_out True) evs) @ requests c' = requests c @ [(a, Write)]"
    using pc_step_ok [OF run, of "CpuWrite t a d s"] r by auto
  then have e: "evs = []" using wb by (auto simp: pc_write_req_def)
  then have "mem_ok c' \<and> cache_id c' = cache_id c \<and> r_waiting c' = r_waiting c \<and> w_waiting c' = w_waiting c \<and>
      (r_waiting c \<longrightarrow> last (pipe c') = last (pipe c))"
    using enter_pipe_mem [OF _ run_inv_pcache [OF run] ok] c'(1) wb by (auto simp: pc_write_req_def)
  then show ?thesis using c' lk e by (auto simp: cache_host_def cache_link_def split: option.splits)
qed

section \<open>The plain ports\<close>

definition plain_out :: "no_cache \<Rightarrow> nat" where
  "plain_out c = of_bool (nc_r_busy c) + of_bool (nc_w_busy c)"

lemma plain_answer:
  assumes c: "plain_link i c pd" and q: "pd mp i = Some q"
  shows "\<exists>c' evs. nc_recv_mem_resp (q\<lparr>mt_dir := Resp, mt_lat := l\<rparr>) c = Some (c', evs) \<and> plain_link i c' (put_req mp i None pd) \<and>
    mem_reqs evs = [] \<and> length (responses evs) = 1 \<and> plain_out c = Suc (plain_out c') \<and>
    list_all (event_from i) evs"
  using c q
  by (cases mp) (auto simp: nc_recv_mem_resp_def plain_link_def plain_out_def put_req_sel split: option.splits)

lemma plain_read:
  assumes c: "plain_link i c pd" and r: "fst (nc_is_ready c)" and i: "i < 3"
  shows "\<exists>c' q. nc_read_req a c = Some (c', [MemReq q]) \<and> acceptable 3 pd q \<and> mt_id q = i \<and>
    plain_link i c' (put_req (mt_mop q) (mt_id q) (Some q) pd) \<and> plain_out c' = Suc (plain_out c)"
  using c r i
  by (auto simp: nc_read_req_def nc_is_ready_def plain_link_def plain_out_def put_req_sel acceptable_def count_access_def
      split: option.splits)

lemma plain_write:
  assumes c: "plain_link i c pd" and r: "snd (nc_is_ready c)" and i: "i < 3"
  shows "\<exists>c' q. nc_write_req a d s c = Some (c', [MemReq q]) \<and> acceptable 3 pd q \<and> mt_id q = i \<and>
    plain_link i c' (put_req (mt_mop q) (mt_id q) (Some q) pd) \<and> plain_out c' = Suc (plain_out c)"
  using c r i
  by (auto simp: nc_write_req_def nc_is_ready_def plain_link_def plain_out_def put_req_sel acceptable_def count_access_def
      split: option.splits)

section \<open>The invariant of the machine\<close>

text \<open>u: the core has had its update in this tick; f and k count what was fed and what was committed before the last reset.\<close>

definition as_core :: "machine \<Rightarrow> bool \<Rightarrow> nat \<Rightarrow> nat \<Rightarrow> core_state" where
  "as_core m u f k = \<lparr>clk = m_tick m, updated = u, core = m_core m, fed = f, committed_before = k\<rparr>"

definition dport_host :: "dport \<Rightarrow> slots \<Rightarrow> bool" where
  "dport_host d pd = (case d of DCache c \<Rightarrow> cache_host True 1 c pd | DPlain c \<Rightarrow> plain_link 1 c pd)"

definition dport_out :: "dport \<Rightarrow> nat" where
  "dport_out d = (case d of DCache c \<Rightarrow> length (requests c) | DPlain c \<Rightarrow> plain_out c)"

lemma dport_simps [simp]:
  "dport_host (DCache c) pd = cache_host True 1 c pd" "dport_host (DPlain n) pd = plain_link 1 n pd"
  "dport_out (DCache c) = length (requests c)" "dport_out (DPlain n) = plain_out n"
  by (simp_all add: dport_host_def dport_out_def)

lemma dport_other [simp]: "i \<noteq> 1 \<Longrightarrow> dport_host d (put_req mp i x pd) = dport_host d pd"
  by (cases d) simp_all

definition hosts_ok :: "bool \<Rightarrow> nat \<Rightarrow> nat \<Rightarrow> machine \<Rightarrow> slots \<Rightarrow> bool" where
  "hosts_ok u f k m pd \<longleftrightarrow> core_inv (as_core m u f k) \<and> port_reqs (m_core m) = [] \<and>
     cache_host False 0 (m_icache m) pd \<and> dport_host (m_dcache m) pd \<and> plain_link 2 (m_bypass m) pd \<and>
     n_resp (m_core m) = length (requests (m_icache m)) \<and>
     of_bool (lsu_waits (m_core m)) = dport_out (m_dcache m) + plain_out (m_bypass m) \<and> m_tick m + 2 ^ 33 < InfTime"

definition machine_ok :: "bool \<Rightarrow> nat \<Rightarrow> nat \<Rightarrow> machine \<Rightarrow> bool" where
  "machine_ok u f k m \<longleftrightarrow> hosts_ok u f k m (pending (m_mem m)) \<and> arb_ok (m_mem m) \<and> num_hosts (m_mem m) = 3"

lemma hosts_okD:
  assumes "hosts_ok u f k m pd"
  shows "core_inv (as_core m u f k)" "port_reqs (m_core m) = []" "cache_host False 0 (m_icache m) pd"
    "dport_host (m_dcache m) pd" "plain_link 2 (m_bypass m) pd" "n_resp (m_core m) = length (requests (m_icache m))"
    "of_bool (lsu_waits (m_core m)) = dport_out (m_dcache m) + plain_out (m_bypass m)" "m_tick m + 2 ^ 33 < InfTime"
  using assms by (simp_all add: hosts_ok_def)

lemma machine_okD:
  assumes "machine_ok u f k m"
  shows "hosts_ok u f k m (pending (m_mem m))" "arb_ok (m_mem m)" "num_hosts (m_mem m) = 3"
  using assms by (simp_all add: machine_ok_def)

lemma as_core_sel [simp]: "core (as_core m u f k) = m_core m" "clk (as_core m u f k) = m_tick m" "updated (as_core m u f k) = u"
    "fed (as_core m u f k) = f" "committed_before (as_core m u f k) = k"
  "(as_core m u f k)\<lparr>core := p\<rparr> = as_core (m\<lparr>m_core := p\<rparr>) u f k"
  by (simp_all add: as_core_def)

lemma as_core_other [simp]: "as_core (m\<lparr>m_mem := a\<rparr>) u f k = as_core m u f k" "as_core (m\<lparr>m_icache := ic\<rparr>) u f k = as_core m u f k"
    "as_core (m\<lparr>m_dcache := dc\<rparr>) u f k = as_core m u f k" "as_core (m\<lparr>m_bypass := bp\<rparr>) u f k = as_core m u f k"
  by (simp_all add: as_core_def)

lemma hosts_ok_mem [simp]: "hosts_ok u f k (m\<lparr>m_mem := a\<rparr>) pd = hosts_ok u f k m pd"
  by (simp add: hosts_ok_def)

section \<open>Answers of the memory\<close>

lemma host_answer:
  assumes h: "hosts_ok u f k m pd" and i: "i < 3" and q: "pd mp i = Some q"
  shows "\<exists>m' rs. host_resp i (q\<lparr>mt_dir := Resp, mt_lat := l\<rparr>) m = Some (m', rs) \<and>
    all_acceptable 3 (put_req mp i None pd) rs \<and> hosts_ok u f k m' (put_all rs (put_req mp i None pd)) \<and> m_tick m' = m_tick m"
proof -
  note d = hosts_okD [OF h]
  let ?q = "q\<lparr>mt_dir := Resp, mt_lat := l\<rparr>"
  have plain: "\<exists>p. core_events (main_env m') evs (m_core m) = Some p \<and> core_inv (as_core (m\<lparr>m_core := p\<rparr>) u f k) \<and>
      n_resp p = n_resp (m_core m) \<and> of_bool (lsu_waits p) = n \<and> port_reqs p = []"
    if "j = 1 \<or> j = 2" "list_all (event_from j) evs" "length (responses evs) = 1" "m_tick m' = m_tick m"
      "of_bool (lsu_waits (m_core m)) = Suc n" for m' j evs n
    using lsu_events [OF d(1), of "main_env m'" j evs n] that d(2) by simp
  consider "i = 0" | c where "i = 1" "m_dcache m = DCache c" | c where "i = 1" "m_dcache m = DPlain c" | "i = 2"
    using i by (cases "m_dcache m") (auto simp: numeral_3_eq_3 less_Suc_eq)
  then show ?thesis
  proof cases
    case 1
    obtain c' where "pc_recv_mem_resp (m_tick m) ?q (m_icache m) = Some c'" "cache_host False 0 c' (put_req mp 0 None pd)"
        "requests c' = requests (m_icache m)"
      using cache_answer [OF d(3), of mp q] q 1 by blast
    then show ?thesis using d 1 by (simp add: host_resp_def hosts_ok_def)
  next
    case (2 c)
    obtain c' where "pc_recv_mem_resp (m_tick m) ?q c = Some c'" "cache_host True 1 c' (put_req mp 1 None pd)"
        "requests c' = requests c"
      using cache_answer [of True 1 c pd mp q] d(4) q 2 by auto
    then show ?thesis using d 2 by (simp add: host_resp_def hosts_ok_def)
  next
    case (3 c)
    then obtain c' evs where c': "nc_recv_mem_resp ?q c = Some (c', evs)" "plain_link 1 c' (put_req mp 1 None pd)" "mem_reqs evs = []"
        "length (responses evs) = 1" "plain_out c = Suc (plain_out c')" "list_all (event_from 1) evs"
      using plain_answer [of 1 c pd mp q l] d(4) q by auto
    let ?m = "m\<lparr>m_dcache := DPlain c'\<rparr>"
    obtain p where p: "core_events (main_env ?m) evs (m_core m) = Some p" "core_inv (as_core (m\<lparr>m_core := p\<rparr>) u f k)"
        "n_resp p = n_resp (m_core m)" "of_bool (lsu_waits p) = plain_out c' + plain_out (m_bypass m)" "port_reqs p = []"
      using plain [of 1 evs ?m "plain_out c' + plain_out (m_bypass m)"] c' 3 d(7) by auto
    have "host_resp i ?q m = Some (?m\<lparr>m_core := p\<rparr>, [])"
      using 3 c'(1,3) p(1) by (simp add: host_resp_def deliver_all_split core_events_to_core)
    moreover have "hosts_ok u f k (?m\<lparr>m_core := p\<rparr>) (put_req mp i None pd)"
      using d 3 c'(2) p by (simp add: hosts_ok_def as_core_def)
    ultimately show ?thesis by simp
  next
    case 4
    then obtain c' evs where c': "nc_recv_mem_resp ?q (m_bypass m) = Some (c', evs)" "plain_link 2 c' (put_req mp 2 None pd)" "mem_reqs evs = []"
        "length (responses evs) = 1" "plain_out (m_bypass m) = Suc (plain_out c')" "list_all (event_from 2) evs"
      using plain_answer [of 2 "m_bypass m" pd mp q l] d(5) q by auto
    let ?m = "m\<lparr>m_bypass := c'\<rparr>"
    obtain p where p: "core_events (main_env ?m) evs (m_core m) = Some p" "core_inv (as_core (m\<lparr>m_core := p\<rparr>) u f k)"
        "n_resp p = n_resp (m_core m)" "of_bool (lsu_waits p) = dport_out (m_dcache m) + plain_out c'" "port_reqs p = []"
      using plain [of 2 evs ?m "dport_out (m_dcache m) + plain_out c'"] c' 4 d(7) by auto
    have "host_resp i ?q m = Some (?m\<lparr>m_core := p\<rparr>, [])"
      using 4 c'(1,3) p(1) by (simp add: host_resp_def deliver_all_split core_events_to_core)
    moreover have "hosts_ok u f k (?m\<lparr>m_core := p\<rparr>) (put_req mp i None pd)"
      using d 4 c'(2) p by (simp add: hosts_ok_def as_core_def)
    ultimately show ?thesis by simp
  qed
qed

interpretation hosts: mem_clients host_resp "\<lambda>m pd. hosts_ok u f k m pd \<and> m_tick m = t" 3 for u f k t
proof
  fix m :: machine and pd :: slots and i mp q l
  assume "hosts_ok u f k m pd \<and> m_tick m = t" "i < 3" "pd mp i = Some q"
  then show "\<exists>m' rs. host_resp i (q\<lparr>mt_dir := Resp, mt_lat := l\<rparr>) m = Some (m', rs) \<and>
      all_acceptable 3 (put_req mp i None pd) rs \<and> hosts_ok u f k m' (put_all rs (put_req mp i None pd)) \<and> m_tick m' = t"
    using host_answer [of u f k m pd i mp q l] by auto
qed

lemma mem_update_ok:
  assumes "machine_ok u f k m"
  shows "\<exists>m'. mem_update m = Some m' \<and> machine_ok u f k m' \<and> m_tick m' = m_tick m"
proof -
  note d = machine_okD [OF assms]
  have T: "m_tick m + 2 ^ 32 + 1 < InfTime" using hosts_okD(8) [OF d(1)] by simp
  obtain a m1 where "arb_do_update host_resp (m_tick m) (m_mem m, m) = Some (a, m1)" "arb_ok a" "num_hosts a = 3"
      "hosts_ok u f k m1 (pending a)" "m_tick m1 = m_tick m"
    using hosts.arb_update_ok [OF d(2,3) conjI [OF d(1) refl] T] by blast
  then show ?thesis by (simp add: mem_update_def machine_ok_def)
qed

section \<open>The caches and the core\<close>

lemma deliver_ok:
  assumes p: "core_events (main_env m) evs (m_core m) = Some p" and a: "arb_ok (m_mem m)" "num_hosts (m_mem m) = 3"
    and r: "all_acceptable 3 (pending (m_mem m)) (mem_reqs evs)" and T: "m_tick m + 2 ^ 33 < InfTime"
  shows "\<exists>b. deliver_all evs m = Some (m\<lparr>m_core := p, m_mem := b\<rparr>) \<and> arb_ok b \<and> num_hosts b = 3 \<and>
    pending b = put_all (mem_reqs evs) (pending (m_mem m))"
proof -
  have "m_tick m + 2 ^ 32 < InfTime" using T by simp
  then obtain b where "recv_all (m_tick m) (mem_reqs evs) (m_mem m) = Some b" "arb_ok b" "num_hosts b = 3"
      "pending b = put_all (mem_reqs evs) (pending (m_mem m))"
    using recv_all_ok [OF a(1), of "mem_reqs evs" "m_tick m"] r a(2) by auto
  then show ?thesis using p by (intro exI [of _ b]) (simp add: deliver_all_split)
qed

lemma put_one_other:
  assumes "xs = [] \<or> (\<exists>q. xs = [q] \<and> mt_id q = i)" "j \<noteq> i"
  shows "cache_host wb j c (put_all xs pd) = cache_host wb j c pd" "plain_link j n (put_all xs pd) = plain_link j n pd"
  using assms by auto

lemma dport_put_other: "xs = [] \<or> (\<exists>q. xs = [q] \<and> mt_id q = i) \<Longrightarrow> i \<noteq> 1 \<Longrightarrow> dport_host d (put_all xs pd) = dport_host d pd"
  by auto

lemma nc_update_same [simp]: "nc_do_update t c = c"
  by (simp add: nc_do_update_def nc_update_impl_def)

lemma bypass_update_same [simp]: "bypass_update m = Some m"
  by (simp add: bypass_update_def)

lemma dcache_update_ok:
  assumes "machine_ok u f k m"
  shows "\<exists>m'. dcache_update m = Some m' \<and> machine_ok u f k m' \<and> m_tick m' = m_tick m"
proof (cases "m_dcache m")
  case (DPlain c)
  have eq: "m\<lparr>m_dcache := DPlain c\<rparr> = m" using DPlain by (cases m) simp
  have "dcache_update m = Some m" unfolding dcache_update_def DPlain dport.case nc_update_same eq ..
  then show ?thesis using assms by simp
next
  case (DCache c)
  note d = machine_okD [OF assms] and h = hosts_okD [OF machine_okD(1) [OF assms]]
  have c: "cache_host True 1 c (pending (m_mem m))" using h(4) DCache by simp
  have T: "m_tick m < InfTime" using h(8) by simp
  obtain c' evs where c': "pc_do_update (m_tick m) c = Some (c', evs)"
      "cache_host True 1 c' (put_all (mem_reqs evs) (pending (m_mem m)))" "all_acceptable 3 (pending (m_mem m)) (mem_reqs evs)"
      "mem_reqs evs = [] \<or> (\<exists>q. mem_reqs evs = [q] \<and> mt_id q = 1)" "responses evs @ requests c' = requests c"
      "list_all (event_from 1) evs"
    using cache_tick [OF c T] by auto
  let ?m = "m\<lparr>m_dcache := DCache c'\<rparr>"
  have n: "of_bool (lsu_waits (m_core m)) = length (responses evs) + (length (requests c') + plain_out (m_bypass m))"
    using h(7) DCache arg_cong [OF c'(5), of length] by simp
  obtain p where p: "core_events (main_env ?m) evs (m_core m) = Some p" "core_inv (as_core (m\<lparr>m_core := p\<rparr>) u f k)"
      "n_resp p = n_resp (m_core m)" "of_bool (lsu_waits p) = length (requests c') + plain_out (m_bypass m)" "port_reqs p = []"
    using lsu_events [OF h(1), of "main_env ?m" 1 evs] n c'(6) h(2) by auto
  obtain b where b: "deliver_all evs ?m = Some (?m\<lparr>m_core := p, m_mem := b\<rparr>)" "arb_ok b" "num_hosts b = 3"
      "pending b = put_all (mem_reqs evs) (pending (m_mem m))"
    using deliver_ok [of ?m evs p] p(1) d(2,3) c'(3) h(8) by auto
  have "hosts_ok u f k (?m\<lparr>m_core := p, m_mem := b\<rparr>) (pending b)"
    using h p c'(2) put_one_other [OF c'(4)] by (simp add: hosts_ok_def b(4) as_core_def)
  then show ?thesis using DCache c'(1) b by (simp add: dcache_update_def machine_ok_def)
qed

lemma icache_update_ok:
  assumes "machine_ok u f k m"
  shows "\<exists>m'. icache_update m = Some m' \<and> machine_ok u f k m' \<and> m_tick m' = m_tick m"
proof -
  note d = machine_okD [OF assms] and h = hosts_okD [OF machine_okD(1) [OF assms]]
  have T: "m_tick m < InfTime" using h(8) by simp
  obtain c' evs where c': "pc_do_update (m_tick m) (m_icache m) = Some (c', evs)"
      "cache_host False 0 c' (put_all (mem_reqs evs) (pending (m_mem m)))" "all_acceptable 3 (pending (m_mem m)) (mem_reqs evs)"
      "mem_reqs evs = [] \<or> (\<exists>q. mem_reqs evs = [q] \<and> mt_id q = 0)" "responses evs @ requests c' = requests (m_icache m)"
      "list_all (event_from 0) evs" "list_all no_store_resp evs"
    using cache_tick [OF h(3) T] by auto
  let ?m = "m\<lparr>m_icache := c'\<rparr>"
  have n: "n_resp (m_core m) = length (responses evs) + length (requests c')"
    using h(6) arg_cong [OF c'(5), of length] by simp
  obtain p where p: "core_events (main_env ?m) evs (m_core m) = Some p" "core_inv (as_core (m\<lparr>m_core := p\<rparr>) u f k)"
      "n_resp p = length (requests c')" "lsu_waits p = lsu_waits (m_core m)" "port_reqs p = []"
    using ifu_events [OF h(1), of evs "length (requests c')" "main_env ?m"] n c'(6,7) h(2) by auto
  obtain b where b: "deliver_all evs ?m = Some (?m\<lparr>m_core := p, m_mem := b\<rparr>)" "arb_ok b" "num_hosts b = 3"
      "pending b = put_all (mem_reqs evs) (pending (m_mem m))"
    using deliver_ok [of ?m evs p] p(1) d(2,3) c'(3) h(8) by auto
  have "hosts_ok u f k (?m\<lparr>m_core := p, m_mem := b\<rparr>) (pending b)"
    using h p c'(2) put_one_other [OF c'(4)] dport_put_other [OF c'(4)] by (simp add: hosts_ok_def b(4) as_core_def)
  then show ?thesis using c'(1) b by (simp add: icache_update_def machine_ok_def)
qed

text \<open>The data side of the machine, whatever the core holds.\<close>

definition data_ok :: "machine \<Rightarrow> bool" where
  "data_ok m \<longleftrightarrow> dport_host (m_dcache m) (pending (m_mem m)) \<and> plain_link 2 (m_bypass m) (pending (m_mem m)) \<and>
     cache_host False 0 (m_icache m) (pending (m_mem m)) \<and> arb_ok (m_mem m) \<and> num_hosts (m_mem m) = 3 \<and> m_tick m + 2 ^ 33 < InfTime"

definition data_out :: "machine \<Rightarrow> nat" where
  "data_out m = dport_out (m_dcache m) + plain_out (m_bypass m)"

lemma deliver_mem:
  assumes "arb_ok (m_mem m)" "num_hosts (m_mem m) = 3" "acceptable 3 (pending (m_mem m)) q" "m_tick m + 2 ^ 33 < InfTime"
  shows "\<exists>a. deliver_all [MemReq q] m = Some (m\<lparr>m_mem := a\<rparr>) \<and> arb_ok a \<and> num_hosts a = 3 \<and>
    pending a = put_req (mt_mop q) (mt_id q) (Some q) (pending (m_mem m))"
proof -
  have "m_tick m + 2 ^ 32 < InfTime" using assms(4) by simp
  then obtain a where a: "arb_recv_req (m_tick m) q (m_mem m) = Some a" "arb_ok a" "num_hosts a = 3"
      "pending a = put_req (mt_mop q) (mt_id q) (Some q) (pending (m_mem m))"
    using arb_recv_ok [OF assms(1), of q "m_tick m"] assms(2,3) by auto
  then show ?thesis by (intro exI [of _ a]) simp
qed

lemma send_plain:
  assumes m: "data_ok m" and c: "plain_link 1 c (pending (m_mem m))" "m_dcache m = DPlain c"
    and s: "acceptable 3 (pending (m_mem m)) q" "mt_id q = 1" "plain_link 1 c' (put_req (mt_mop q) (mt_id q) (Some q) (pending (m_mem m)))"
      "plain_out c' = Suc (plain_out c)"
  shows "\<exists>m'. deliver_all [MemReq q] (m\<lparr>m_dcache := DPlain c'\<rparr>) = Some m' \<and> data_ok m' \<and> m_core m' = m_core m \<and>
    m_icache m' = m_icache m \<and> m_tick m' = m_tick m \<and> data_out m' = Suc (data_out m)"
proof -
  let ?m = "m\<lparr>m_dcache := DPlain c'\<rparr>"
  obtain a where a: "deliver_all [MemReq q] ?m = Some (?m\<lparr>m_mem := a\<rparr>)" "arb_ok a" "num_hosts a = 3"
      "pending a = put_req (mt_mop q) (mt_id q) (Some q) (pending (m_mem m))"
    using deliver_mem [of ?m q] m s(1) by (auto simp: data_ok_def simp del: deliver_all.simps)
  show ?thesis
    using m c s a(2-4) by (intro exI [of _ "?m\<lparr>m_mem := a\<rparr>"]) (simp add: a(1) data_ok_def data_out_def del: deliver_all.simps)
qed

lemma send_bypass:
  assumes m: "data_ok m"
    and s: "acceptable 3 (pending (m_mem m)) q" "mt_id q = 2" "plain_link 2 c' (put_req (mt_mop q) (mt_id q) (Some q) (pending (m_mem m)))"
      "plain_out c' = Suc (plain_out (m_bypass m))"
  shows "\<exists>m'. deliver_all [MemReq q] (m\<lparr>m_bypass := c'\<rparr>) = Some m' \<and> data_ok m' \<and> m_core m' = m_core m \<and>
    m_icache m' = m_icache m \<and> m_tick m' = m_tick m \<and> data_out m' = Suc (data_out m)"
proof -
  let ?m = "m\<lparr>m_bypass := c'\<rparr>"
  obtain a where a: "deliver_all [MemReq q] ?m = Some (?m\<lparr>m_mem := a\<rparr>)" "arb_ok a" "num_hosts a = 3"
      "pending a = put_req (mt_mop q) (mt_id q) (Some q) (pending (m_mem m))"
    using deliver_mem [of ?m q] m s(1) by (auto simp: data_ok_def simp del: deliver_all.simps)
  show ?thesis
    using m s a(2-4) by (intro exI [of _ "?m\<lparr>m_mem := a\<rparr>"]) (simp add: a(1) data_ok_def data_out_def del: deliver_all.simps)
qed

lemma send_lsu_ok:
  assumes m: "data_ok m" and r: "is_lsu_req r" "req_ready (main_env m) r"
  shows "\<exists>m'. send_req r m = Some m' \<and> data_ok m' \<and> m_core m' = m_core m \<and> m_icache m' = m_icache m \<and> m_tick m' = m_tick m \<and>
    data_out m' = Suc (data_out m)"
proof -
  have i: "(1 :: nat) < 3" "(2 :: nat) < 3" by simp_all
  have bp: "plain_link 2 (m_bypass m) (pending (m_mem m))" using m by (simp add: data_ok_def)
  consider a where "r = LsuRead NcPort a" | a d s where "r = LsuWrite NcPort a d s"
    | a c where "r = LsuRead DmemPort a" "m_dcache m = DCache c" | a c where "r = LsuRead DmemPort a" "m_dcache m = DPlain c"
    | a d s c where "r = LsuWrite DmemPort a d s" "m_dcache m = DCache c"
    | a d s c where "r = LsuWrite DmemPort a d s" "m_dcache m = DPlain c"
  proof (cases r)
    case (LsuRead port a)
    then show ?thesis using that by (cases port; cases "m_dcache m") auto
  next
    case (LsuWrite port a d s)
    then show ?thesis using that by (cases port; cases "m_dcache m") auto
  qed (use r(1) in simp)
  then show ?thesis
  proof cases
    case (1 a)
    then have "fst (nc_is_ready (m_bypass m))" using r(2) by (auto simp: main_env_def)
    then obtain c' q where c': "nc_read_req a (m_bypass m) = Some (c', [MemReq q])" "acceptable 3 (pending (m_mem m)) q" "mt_id q = 2"
        "plain_link 2 c' (put_req (mt_mop q) (mt_id q) (Some q) (pending (m_mem m)))" "plain_out c' = Suc (plain_out (m_bypass m))"
      using plain_read [OF bp _ i(2)] by blast
    then show ?thesis using send_bypass [OF m c'(2-5)] 1 by simp
  next
    case (2 a d s)
    then have "snd (nc_is_ready (m_bypass m))" using r(2) by (auto simp: main_env_def)
    then obtain c' q where c': "nc_write_req a d s (m_bypass m) = Some (c', [MemReq q])" "acceptable 3 (pending (m_mem m)) q" "mt_id q = 2"
        "plain_link 2 c' (put_req (mt_mop q) (mt_id q) (Some q) (pending (m_mem m)))" "plain_out c' = Suc (plain_out (m_bypass m))"
      using plain_write [OF bp _ i(2)] by blast
    then show ?thesis using send_bypass [OF m c'(2-5)] 2 by simp
  next
    case (3 a c)
    then have "cache_host True 1 c (pending (m_mem m))" "fst (pc_is_ready c)"
      using m r(2) by (simp_all add: data_ok_def main_env_def dport_ready_def)
    from cache_enter [OF this, of "m_tick m" a] obtain c' where
      "pc_read_req (m_tick m) a c = Some c'" "cache_host True 1 c' (pending (m_mem m))" "requests c' = requests c @ [(a, Read)]" by blast
    then show ?thesis
      using 3 m by (intro exI [of _ "m\<lparr>m_dcache := DCache c'\<rparr>"]) (simp add: data_ok_def data_out_def)
  next
    case (4 a c)
    then have c: "plain_link 1 c (pending (m_mem m))" "fst (nc_is_ready c)"
      using m r(2) by (simp_all add: data_ok_def main_env_def dport_ready_def)
    obtain c' q where c': "nc_read_req a c = Some (c', [MemReq q])" "acceptable 3 (pending (m_mem m)) q" "mt_id q = 1"
        "plain_link 1 c' (put_req (mt_mop q) (mt_id q) (Some q) (pending (m_mem m)))" "plain_out c' = Suc (plain_out c)"
      using plain_read [OF c i(1)] by blast
    then show ?thesis using send_plain [OF m c(1) 4(2) c'(2-5)] 4 by simp
  next
    case (5 a d s c)
    then have "cache_host True 1 c (pending (m_mem m))" "snd (pc_is_ready c)"
      using m r(2) by (simp_all add: data_ok_def main_env_def dport_ready_def)
    from cache_store [OF this, of "m_tick m" a d s] obtain c' where
      "pc_write_req (m_tick m) a d s c = Some (c', [])" "cache_host True 1 c' (pending (m_mem m))" "requests c' = requests c @ [(a, Write)]" by blast
    then show ?thesis
      using 5 m by (intro exI [of _ "m\<lparr>m_dcache := DCache c'\<rparr>"]) (simp add: data_ok_def data_out_def)
  next
    case (6 a d s c)
    then have c: "plain_link 1 c (pending (m_mem m))" "snd (nc_is_ready c)"
      using m r(2) by (simp_all add: data_ok_def main_env_def dport_ready_def)
    obtain c' q where c': "nc_write_req a d s c = Some (c', [MemReq q])" "acceptable 3 (pending (m_mem m)) q" "mt_id q = 1"
        "plain_link 1 c' (put_req (mt_mop q) (mt_id q) (Some q) (pending (m_mem m)))" "plain_out c' = Suc (plain_out c)"
      using plain_write [OF c i(1)] by blast
    then show ?thesis using send_plain [OF m c(1) 6(2) c'(2-5)] 6 by simp
  qed
qed

lemma machine_ok_data: "machine_ok u f k m \<longleftrightarrow> core_inv (as_core m u f k) \<and> port_reqs (m_core m) = [] \<and> data_ok m \<and>
    n_resp (m_core m) = length (requests (m_icache m)) \<and> of_bool (lsu_waits (m_core m)) = data_out m"
  by (auto simp: machine_ok_def hosts_ok_def data_ok_def data_out_def)

lemma core_inv_ports: "core_inv (as_core (m\<lparr>m_core := p\<lparr>port_reqs := rs\<rparr>\<rparr>) u f k) = core_inv (as_core (m\<lparr>m_core := p\<rparr>) u f k)"
  by (simp add: core_inv_def edge_def as_core_def pipe_inv_def pipe_base_def front_list_def back_list_def in_flight_def
      lsu_waits_def accounted_def on_books_def)

lemma as_core_cong: "m_core m' = m_core m \<Longrightarrow> m_tick m' = m_tick m \<Longrightarrow> as_core m' u f k = as_core m u f k"
  by (simp add: as_core_def)

lemma send_all_append: "send_all (xs @ ys) m = send_all xs m \<bind> send_all ys"
proof (induction xs arbitrary: m)
  case (Cons x xs)
  then show ?case by (cases "send_req x m") simp_all
qed simp

lemma with_core_ok:
  assumes m: "machine_ok u f k m" and p: "core_inv (as_core (m\<lparr>m_core := p\<rparr>) u' f' k')" and s: "sent (main_env m) (m_core m) p"
  shows "\<exists>m'. with_core p m = Some m' \<and> machine_ok u' f' k' m' \<and> m_tick m' = m_tick m"
proof -
  let ?p = "p\<lparr>port_reqs := []\<rparr>" and ?m = "m\<lparr>m_core := p\<lparr>port_reqs := []\<rparr>\<rparr>"
  have d: "data_ok m" "port_reqs (m_core m) = []" "n_resp (m_core m) = length (requests (m_icache m))"
      "of_bool (lsu_waits (m_core m)) = data_out m"
    using m by (simp_all add: machine_ok_data)
  obtain ls ms where ls: "port_reqs p = ls @ ms" "n_resp p = n_resp (m_core m) + length ms"
      "ms = [] \<or> (\<exists>a. ms = [ImemRead a] \<and> imem_ready (main_env m))"
      "ls = [] \<and> lsu_waits p = lsu_waits (m_core m) \<or>
       (\<exists>r. ls = [r] \<and> is_lsu_req r \<and> req_ready (main_env m) r \<and> \<not> lsu_waits (m_core m) \<and> lsu_waits p)"
    using s d(2) unfolding sent_def by auto
  have dm: "data_ok ?m" "data_out ?m = data_out m" using d(1) by (simp_all add: data_ok_def data_out_def)
  have w: "lsu_waits ?p = lsu_waits p" "n_resp ?p = n_resp p" by (simp_all add: lsu_waits_def n_resp_def)
  obtain m1 where m1: "send_all ls ?m = Some m1" "data_ok m1" "m_core m1 = ?p" "m_icache m1 = m_icache m" "m_tick m1 = m_tick m"
      "data_out m1 = of_bool (lsu_waits p)"
  proof (cases "ls = []")
    case True
    then show ?thesis using that [of ?m] dm d(4) ls(4) by auto
  next
    case False
    then obtain r where r: "ls = [r]" "is_lsu_req r" "req_ready (main_env m) r" "\<not> lsu_waits (m_core m)" "lsu_waits p"
      using ls(4) by auto
    obtain m1 where "send_req r ?m = Some m1" "data_ok m1" "m_core m1 = ?p" "m_icache m1 = m_icache m" "m_tick m1 = m_tick m"
        "data_out m1 = Suc (data_out m)"
      using send_lsu_ok [OF dm(1) r(2)] r(3) dm(2) by auto
    then show ?thesis using that [of m1] r d(4) by simp
  qed
  obtain m2 where m2: "send_all ms m1 = Some m2" "data_ok m2" "m_core m2 = ?p" "m_tick m2 = m_tick m"
      "length (requests (m_icache m2)) = n_resp p" "data_out m2 = data_out m1"
  proof (cases "ms = []")
    case True
    then show ?thesis using that [of m1] m1 ls(2) d(3) by simp
  next
    case False
    then obtain a where a: "ms = [ImemRead a]" "fst (pc_is_ready (m_icache m))" using ls(3) by (auto simp: main_env_def)
    have "cache_host False 0 (m_icache m1) (pending (m_mem m1))" using m1(2) by (simp add: data_ok_def)
    from cache_enter [OF this, of "m_tick m1" a] a(2) m1(4) obtain c where
      c: "pc_read_req (m_tick m1) a (m_icache m1) = Some c" "cache_host False 0 c (pending (m_mem m1))"
        "requests c = requests (m_icache m) @ [(a, Read)]" by auto
    then show ?thesis
      using that [of "m1\<lparr>m_icache := c\<rparr>"] m1 a(1) ls(2) d(3) by (simp add: data_ok_def data_out_def)
  qed
  have "with_core p m = Some m2" using m1(1) m2(1) by (simp add: with_core_def ls(1) send_all_append)
  moreover have eq: "as_core m2 u' f' k' = as_core ?m u' f' k'" by (rule as_core_cong) (simp_all add: m2(3,4))
  have "core_inv (as_core m2 u' f' k')" unfolding eq core_inv_ports by (rule p)
  then have "machine_ok u' f' k' m2" using m2 m1(6) w by (simp add: machine_ok_data)
  ultimately show ?thesis using m2(4) by simp
qed

lemma front_idle_inv: "pipe_inv T p \<Longrightarrow> front_idle p"
  by (simp add: pipe_inv_def pipe_base_def front_idle_def)

lemma core_do_update_ok:
  assumes m: "machine_ok False f k m"
  shows "\<exists>m'. core_do_update m = Some m' \<and> machine_ok True f k m' \<and> m_tick m' = m_tick m"
proof -
  have inv: "core_inv (as_core m False f k)" using m by (simp add: machine_ok_data)
  obtain p where p: "pipe_do_update (main_env m) (m_core m) = Some p" "core_inv (as_core m False f k\<lparr>updated := True, core := p\<rparr>)"
    using core_update_ok [OF inv, of "main_env m"] by auto
  have "sent (main_env m) (m_core m) p"
    using pipe_update_ports [OF p(1) front_idle_inv] core_invD(2) [OF inv] by (auto simp: main_env_def)
  then show ?thesis
    using with_core_ok [OF m, of p True f k] p by (simp add: core_do_update_def as_core_def)
qed

lemma core_feed_machine:
  assumes m: "machine_ok u f k m" and a: "inst_avail (m_core m)" and t: "inst_ok i"
  shows "\<exists>m'. core_feed i m = Some m' \<and> machine_ok u (f + 1) k m' \<and> m_tick m' = m_tick m"
proof -
  have inv: "core_inv (as_core m u f k)" using m by (simp add: machine_ok_data)
  obtain p where p: "feed_inst (main_env m) i (m_core m) = Some p" "core_inv (as_core m u f k\<lparr>core := p, fed := f + 1\<rparr>)"
    using core_feed_ok [OF inv _ t, of "main_env m"] a by auto
  then show ?thesis
    using with_core_ok [OF m, of p u "f + 1" k] feed_ports [OF p(1)] by (simp add: core_feed_def as_core_def)
qed

lemma update_devices_ok:
  assumes m: "machine_ok False f k m"
  shows "\<exists>m'. update_devices m = Some m' \<and> machine_ok True f k m' \<and> m_tick m' = m_tick m"
proof -
  obtain m1 where m1: "mem_update m = Some m1" "machine_ok False f k m1" "m_tick m1 = m_tick m"
    using mem_update_ok [OF m] by blast
  obtain m2 where m2: "dcache_update m1 = Some m2" "machine_ok False f k m2" "m_tick m2 = m_tick m"
    using dcache_update_ok [OF m1(2)] m1(3) by auto
  obtain m3 where m3: "icache_update m2 = Some m3" "machine_ok False f k m3" "m_tick m3 = m_tick m"
    using icache_update_ok [OF m2(2)] m2(3) by auto
  show ?thesis using core_do_update_ok [OF m3(2)] m1 m2 m3 by (simp add: update_devices_def)
qed

section \<open>Clock, draining, statistics and flushes\<close>

lemma core_change:
  assumes m: "machine_ok u f k m" and s: "core_step (as_core m u f k) (as_core m' u' f' k')"
    and k: "port_reqs (m_core m') = []" "n_resp (m_core m') = n_resp (m_core m)" "lsu_waits (m_core m') = lsu_waits (m_core m)"
    and o: "m_icache m' = m_icache m" "m_dcache m' = m_dcache m" "m_bypass m' = m_bypass m" "m_mem m' = m_mem m"
      "m_tick m' + 2 ^ 33 < InfTime"
  shows "machine_ok u' f' k' m'"
  using core_step_inv [OF s] m k o by (simp add: machine_ok_data data_ok_def data_out_def)

lemma tick_ok:
  assumes m: "machine_ok u f k m" and T: "m_tick m + 1 + 2 ^ 33 < InfTime"
  shows "\<exists>m'. set_global_tick (m_tick m + 1) m = Some m' \<and> machine_ok False f k m' \<and> m_tick m' = m_tick m + 1"
proof -
  let ?m = "m\<lparr>m_tick := m_tick m + 1\<rparr>"
  have "core_step (as_core m u f k) (as_core ?m False f k)"
    using core_step.tick [of "as_core m u f k"] T by (simp add: as_core_def)
  then have "machine_ok False f k ?m"
    using m T by (intro core_change [OF m]) (auto simp: machine_ok_data)
  then show ?thesis by (simp add: set_global_tick_def)
qed

lemma drain_ok:
  assumes m: "machine_ok u f k m"
  shows "machine_ok u f k (drain_core m)" "m_tick (drain_core m) = m_tick m"
proof -
  have "core_step (as_core m u f k) (as_core (drain_core m) u f k)"
    using core_step.drain [of "as_core m u f k"] by (simp add: as_core_def drain_core_def)
  then show "machine_ok u f k (drain_core m)"
    using m by (intro core_change [OF m])
      (auto simp: machine_ok_data data_ok_def drain_core_def set_draining_def n_resp_def lsu_waits_def)
  show "m_tick (drain_core m) = m_tick m" by (simp add: drain_core_def)
qed

lemma stats_upd: "line_at (c\<lparr>stats := x\<rparr>) = line_at c" "blockAddrOf (c\<lparr>stats := x\<rparr>) = blockAddrOf c" "tagOf (c\<lparr>stats := x\<rparr>) = tagOf c"
    "setIndexOf (c\<lparr>stats := x\<rparr>) = setIndexOf c"
  by (simp_all add: fun_eq_iff line_at_def blockAddrOf_def tagOf_def setIndexOf_def)

text \<open>The counters of a cache take no part in its invariant.\<close>

lemma counters_host:
  assumes c: "cache_host wb i c pd" and c': "c' = (reset_cache_stats c)\<lparr>prefetcher := x\<rparr> \<or> c' = reset_cache_stats c"
  shows "cache_host wb i c' pd \<and> requests c' = requests c"
proof -
  have run: "pc_run_inv wb c" using c by (simp add: cache_host_def)
  have "cache_ok c'" "same_geom c c'" "same_ctl c c'" "pipe c' = pipe c" "line_at c' = line_at c"
    using pcache_invD(1) [OF run_inv_pcache [OF run]] c'
    by (auto simp: reset_cache_stats_def cache_ok_def geometry_ok_def tags_ok_def same_geom_def same_ctl_def fun_eq_iff
        line_at_def blockAddrOf_def tagOf_def setIndexOf_def)
  then have "pcache_inv c'" by (intro pcache_inv_keep [OF run_inv_pcache [OF run]]) simp_all
  moreover have "requests c' = requests c" "write_back c' = write_back c" "mem_ok c' = mem_ok c" "cache_link i c' pd = cache_link i c pd"
    using c' by (auto simp: requests_def reset_cache_stats_def mem_ok_def evict_ok_def cache_link_def cong: option.case_cong)
  ultimately show ?thesis using c run by (simp add: cache_host_def pc_run_inv_def pipe_reads_def)
qed

lemma plain_counters: "plain_link i (reset_cache_stats c) pd = plain_link i c pd" "plain_out (reset_cache_stats c) = plain_out c"
  by (simp_all add: plain_link_def plain_out_def reset_cache_stats_def cong: option.case_cong)

lemma dev_reset_ok: "dev_ok d \<Longrightarrow> dev_ok (dev_reset_stats d)"
  by (auto simp: dev_ok_def dev_reset_stats_def sdram_ok_def sdram_reset_stats_def split: device_model.splits)

lemma arb_reset_ok: "arb_ok a \<Longrightarrow> arb_ok (arb_reset_stats a) \<and> num_hosts (arb_reset_stats a) = num_hosts a \<and>
    pending (arb_reset_stats a) = pending a"
  by (auto simp: arb_inv_def arb_reset_stats_def arb_shape_def dev_reset_ok pending_def fun_eq_iff split: mop.splits)

lemma bp_reset_ok: "bp_ok p \<Longrightarrow> bp_ok (bp_reset p)"
  by (cases p) (simp_all add: bimodal_ok_def gshare_ok_def tournament_ok_def tage_ok_def tables_ok_def snap_ok_def)

lemma unit_reset_core:
  assumes "core_inv (as_core m u f k)"
  shows "core_inv (as_core (m\<lparr>m_core := (m_core m)\<lparr>bpu := unit_reset_stats (bpu (m_core m))\<rparr>\<rparr>) u f k)"
proof -
  let ?p = "(m_core m)\<lparr>bpu := unit_reset_stats (bpu (m_core m))\<rparr>"
  have "pipe_inv T ?p" if q: "pipe_inv T (m_core m)" for T
  proof -
    have "unit_ok (bpu (m_core m))" by (rule pipe_baseD(2) [OF pipe_invD(1) [OF q]])
    then have "unit_ok (unit_reset_stats (bpu (m_core m)))" by (simp add: unit_ok_def unit_reset_stats_def bp_reset_ok)
    then show ?thesis by (rule bpu_inv [OF q])
  qed
  moreover have "acct_ok B ?p = acct_ok B (m_core m)" "accounted ?p = accounted (m_core m)" for B
    by (simp_all add: on_books_def accounted_def in_flight_def front_list_def back_list_def)
  ultimately show ?thesis using assms by (cases u) (simp_all add: core_inv_def as_core_def edge_def)
qed

lemma reset_ok:
  assumes m: "machine_ok u f k m"
  shows "machine_ok u f (k + ps_insts (pstats (m_core m))) (reset_all_stats m)" "m_tick (reset_all_stats m) = m_tick m"
proof -
  let ?c = "m\<lparr>m_core := (m_core m)\<lparr>bpu := unit_reset_stats (bpu (m_core m))\<rparr>\<rparr>"
  let ?k = "k + ps_insts (pstats (m_core m))"
  have d: "core_inv (as_core m u f k)" "port_reqs (m_core m) = []" "data_ok m" "n_resp (m_core m) = length (requests (m_icache m))"
      "of_bool (lsu_waits (m_core m)) = data_out m"
    using m by (simp_all add: machine_ok_data)
  have "core_inv (as_core ?c u f k)" by (rule unit_reset_core [OF d(1)])
  moreover have "core_step (as_core ?c u f k) (as_core ?c u f k\<lparr>core := pipe_reset_stats (m_tick m) (m_core ?c), committed_before := ?k\<rparr>)"
    using core_step.reset [of "as_core ?c u f k"] by (simp add: as_core_def)
  ultimately have "core_inv (as_core ?c u f k\<lparr>core := pipe_reset_stats (m_tick m) (m_core ?c), committed_before := ?k\<rparr>)"
    by (rule core_step_inv [rotated])
  moreover have "as_core ?c u f k\<lparr>core := pipe_reset_stats (m_tick m) (m_core ?c), committed_before := ?k\<rparr>
      = as_core (reset_all_stats m) u f ?k"
    by (simp add: as_core_def reset_all_stats_def Let_def)
  ultimately have ci: "core_inv (as_core (reset_all_stats m) u f ?k)" by simp
  have a: "arb_ok (m_mem m)" "num_hosts (m_mem m) = 3" using d(3) by (simp_all add: data_ok_def)
  note ar = arb_reset_ok [OF a(1)]
  have ih: "cache_host False 0 (m_icache m) (pending (m_mem m))" using d(3) by (simp add: data_ok_def)
  define ic where "ic = m_icache (reset_all_stats m)"
  have ic: "cache_host False 0 ic (pending (m_mem m)) \<and> requests ic = requests (m_icache m)"
    by (rule counters_host [OF ih, of _ "map_option pf_reset_stats (prefetcher (reset_cache_stats (m_icache m)))"])
      (simp add: ic_def reset_all_stats_def Let_def)
  define dc where "dc = m_dcache (reset_all_stats m)"
  have dc: "dport_host dc (pending (m_mem m)) \<and> dport_out dc = dport_out (m_dcache m)"
  proof (cases "m_dcache m")
    case (DCache c)
    have "cache_host True 1 c (pending (m_mem m))" using d(3) DCache by (simp add: data_ok_def)
    then show ?thesis using counters_host [of True 1 c _ "reset_cache_stats c"] DCache
      by (simp add: dc_def reset_all_stats_def Let_def)
  next
    case (DPlain c)
    have "plain_link 1 c (pending (m_mem m))" using d(3) DPlain by (simp add: data_ok_def)
    then show ?thesis using DPlain plain_counters by (simp add: dc_def reset_all_stats_def Let_def)
  qed
  have rest: "m_bypass (reset_all_stats m) = reset_cache_stats (m_bypass m)" "m_mem (reset_all_stats m) = arb_reset_stats (m_mem m)"
      "m_tick (reset_all_stats m) = m_tick m" "port_reqs (m_core (reset_all_stats m)) = port_reqs (m_core m)"
      "n_resp (m_core (reset_all_stats m)) = n_resp (m_core m)" "lsu_waits (m_core (reset_all_stats m)) = lsu_waits (m_core m)"
    by (simp_all add: reset_all_stats_def Let_def pipe_reset_stats_def n_resp_def lsu_waits_def)
  have dk: "data_ok (reset_all_stats m)"
    using d(3) ar ic dc rest plain_counters(1) by (simp add: data_ok_def flip: ic_def dc_def)
  have do: "data_out (reset_all_stats m) = data_out m"
    using dc rest(1) plain_counters(2) by (simp add: data_out_def flip: dc_def)
  show "machine_ok u f ?k (reset_all_stats m)"
    using ci d dk do rest ic by (simp add: machine_ok_data flip: ic_def)
  show "m_tick (reset_all_stats m) = m_tick m" by (fact rest(3))
qed

lemma flush_host: "cache_host wb i c pd \<Longrightarrow> cache_host wb i (pc_flush_all c) pd \<and> requests (pc_flush_all c) = requests c"
proof -
  assume c: "cache_host wb i c pd"
  have "pc_run_inv wb (pc_flush_all c) \<and> requests (pc_flush_all c) = requests c"
    using pc_step_ok [of wb c FlushAll] c by (auto simp: cache_host_def)
  then show ?thesis
    using c by (auto simp: cache_host_def mem_ok_def evict_ok_def cache_link_def pc_flush_all_def cong: option.case_cong)
qed

lemma flush_ok:
  assumes m: "machine_ok u f k m"
  shows "machine_ok u f k (flush_caches m)" "m_tick (flush_caches m) = m_tick m"
proof -
  have d: "core_inv (as_core m u f k)" "port_reqs (m_core m) = []" "data_ok m" "n_resp (m_core m) = length (requests (m_icache m))"
      "of_bool (lsu_waits (m_core m)) = data_out m"
    using m by (simp_all add: machine_ok_data)
  define dc where "dc = m_dcache (flush_caches m)"
  have dc: "dport_host dc (pending (m_mem m)) \<and> dport_out dc = dport_out (m_dcache m)"
    using d(3) flush_host [of True 1]
    by (cases "m_dcache m") (auto simp: dc_def flush_caches_def data_ok_def nc_flush_all_def)
  have ic: "cache_host False 0 (m_icache (flush_caches m)) (pending (m_mem m)) \<and> requests (m_icache (flush_caches m)) = requests (m_icache m)"
    using d(3) flush_host [of False 0 "m_icache m" "pending (m_mem m)"] by (simp add: data_ok_def flush_caches_def)
  have r: "m_core (flush_caches m) = m_core m" "m_bypass (flush_caches m) = m_bypass m" "m_mem (flush_caches m) = m_mem m"
      "m_tick (flush_caches m) = m_tick m"
    by (simp_all add: flush_caches_def nc_flush_all_def)
  have "as_core (flush_caches m) u f k = as_core m u f k" by (rule as_core_cong) (simp_all add: r)
  then have "core_inv (as_core (flush_caches m) u f k)" using d(1) by (rule ssubst [where P = core_inv])
  then show "machine_ok u f k (flush_caches m)"
    using d(2-5) dc ic r by (simp add: machine_ok_data data_ok_def data_out_def flip: dc_def)
  show "m_tick (flush_caches m) = m_tick m" by (fact r(4))
qed

end
