(* ===== verification/Simulation.thy ===== *)
theory Simulation
  imports SystemProofs
begin

text \<open>
  The simulation from its construction to its end: the machine main builds satisfies the
  invariant, every turn of the loop keeps it, and the loop returns. The core starts to drain
  only when the trace has ended, a dump marker was seen or the instruction limit is reached.
\<close>

section \<open>Construction\<close>

text \<open>What main leaves unchecked: the SDRAM clock, the block size of the port width, the ways the PLRU tree has.\<close>

definition cache_config_ok :: "nat \<Rightarrow> nat \<Rightarrow> string \<Rightarrow> bool" where
  "cache_config_ok blk asc rp \<longleftrightarrow> 4 \<le> blk \<and> blk < 2 ^ 18 \<and> (rp = ''plru'' \<longrightarrow> asc = 1 \<or> asc = 2 \<or> asc = 4)"

definition config_ok :: "sim_config \<Rightarrow> bool" where
  "config_ok c \<longleftrightarrow> 100 \<le> freq_mhz c \<and> sram_lat c < 2 ^ 32 \<and>
     cache_config_ok (l1i_blksize c) (l1i_assoc c) (l1i_repl c) \<and>
     (l1d_size c = 0 \<or> cache_config_ok (l1d_blksize c) (l1d_assoc c) (l1d_repl c))"

lemma new_pipe_cache_host:
  assumes n: "new_pipe_cache depth size_bytes blk asc pf cid dff wb cw delay (Some rp) = Some c"
    and rp: "make_repl_policy name asc k = Some rp" and k: "sets_of size_bytes blk asc = Some k"
    and ok: "cache_config_ok blk asc name" and d: "0 < depth" and dl: "wb \<longrightarrow> delay = 0"
    and pd: "pd Read cid = None" "pd Write cid = None"
  shows "cache_host wb cid c pd" "requests c = []"
proof -
  have a: "0 < asc" "k = size_bytes div (blk * asc)" using k by (auto simp: sets_of_def)
  have r: "repl_inv asc (size_bytes div (blk * asc)) rp"
    using make_repl_policy_inv [OF rp] ok a by (auto simp: cache_config_ok_def)
  have b: "blk < 2 ^ 32" "4 \<le> blk" "blk < 2 ^ 18" using ok by (simp_all add: cache_config_ok_def)
  note inv = new_pipe_cache_inv [OF n d b(1,2) dl, unfolded option.case, OF r]
  obtain c0 where c0: "new_cache size_bytes blk asc pf cid (Some rp) (wb \<and> asc > 1) = Some c0" "lineBytes c = lineBytes c0"
      "cache_id c = cache_id c0" "\<not> pending_evict c" "\<not> r_waiting c" "\<not> w_waiting c"
    using n by (auto simp: new_pipe_cache_def cache.defs simp del: msg_defs)
  have "lineBytes c = blk" "cache_id c = cid" using new_cache_ok(3,6) [OF c0(1) b(1)] r c0(2,3) by simp_all
  then show "cache_host wb cid c pd"
    using inv(1) b(3) c0 pd by (simp add: cache_host_def mem_ok_def evict_ok_def cache_link_def)
  show "requests c = []" by (fact inv(2))
qed

lemma new_no_cache_host:
  assumes "new_no_cache cid = Some c" "pd Read cid = None" "pd Write cid = None"
  shows "plain_link cid c pd" "plain_out c = 0"
proof -
  obtain c0 rp where "make_repl_policy ''plru'' 1 2 = Some rp" "new_cache 8 4 1 None cid (Some rp) False = Some c0"
      "cache_id c = cache_id c0" "\<not> nc_r_busy c" "\<not> nc_w_busy c"
    using assms(1) by (auto simp: new_no_cache_def cache.defs)
  moreover from this have "cache_id c0 = cid"
    using new_cache_ok(6) [of 8 4 1 None cid "Some rp" False c0] make_repl_policy_inv [of "''plru''" 1 2 rp] by simp
  ultimately show "plain_link cid c pd" "plain_out c = 0" using assms(2,3) by (simp_all add: plain_link_def plain_out_def)
qed

lemma new_arbiter_pending: "new_arbiter n ds am d = Some a \<Longrightarrow> pending a mp i = None \<and> num_hosts a = n"
  by (auto simp: new_arbiter_def pending_def split: mop.splits)

lemma create_branch_unit_keeps:
  "create_branch_unit c0 = Some (c, u) \<Longrightarrow> config_ok c0 \<Longrightarrow> config_ok c"
  by (auto simp: create_branch_unit_def Let_def config_ok_def split: if_splits)

lemma build_machine_ok:
  assumes b: "build_machine nx c0 = Some m" and ok: "config_ok c0"
  shows "machine_ok False 0 0 m" "m_tick m = 0"
proof -
  obtain c u ic dc bp a where *: "create_branch_unit c0 = Some (c, u)" "build_icache c = Some ic" "build_dcache c = Some dc"
      "new_no_cache 2 = Some bp" "new_arbiter 3 (build_devices c) mem_map 3 = Some a"
      "m = \<lparr>m_tick = 0, m_core = new_pipeline ifq_size u (cfg_mmio_lat c) nx, m_icache = ic, m_dcache = dc, m_bypass = bp, m_mem = a\<rparr>"
    using b by (auto simp: build_machine_def)
  have ok: "config_ok c" by (rule create_branch_unit_keeps [OF *(1) ok])
  note pd = new_arbiter_pending [OF *(5)]
  have "arb_ok a"
    by (rule new_arbiter_ok [OF *(5)])
      (use ok in \<open>auto simp: NO_ID_def build_devices_def mem_map_def dev_ok_def new_device_def const_latency_def config_ok_def new_sdram_ok\<close>)
  moreover have "cache_host False 0 ic (pending a) \<and> requests ic = []"
    using *(2) ok pd by (auto simp: build_icache_def config_ok_def l1i_pipe_depth_def intro: new_pipe_cache_host)
  moreover have "dport_host dc (pending a) \<and> dport_out dc = 0"
    using *(3) ok pd by (auto simp: build_dcache_def config_ok_def l1d_pipe_depth_def split: if_splits
        dest: new_pipe_cache_host [where pd = "pending a"] new_no_cache_host [where pd = "pending a"])
  moreover have "plain_link 2 bp (pending a) \<and> plain_out bp = 0" using new_no_cache_host [OF *(4)] pd by simp
  moreover have "core_inv (as_core m False 0 0)"
    using core_start_inv [of ifq_size u "cfg_mmio_lat c" nx] create_branch_unit_ok [OF *(1)]
    by (simp add: as_core_def core_start_def *(6) ifq_size_def)
  moreover have "port_reqs (m_core m) = [] \<and> n_resp (m_core m) = 0 \<and> \<not> lsu_waits (m_core m)"
    by (simp add: *(6) new_pipeline_def n_resp_def lsu_waits_def fetch_state_zero_def)
  ultimately show "machine_ok False 0 0 m"
    using pd by (simp add: machine_ok_data data_ok_def data_out_def *(6) InfTime_def)
  show "m_tick m = 0" by (simp add: *(6))
qed

section \<open>Draining\<close>

definition drains :: "machine \<Rightarrow> bool" where
  "drains m = is_draining (m_core m)"

lemma recv_mem_resp_drains: "recv_mem_resp e i w p = Some p' \<Longrightarrow> is_draining p' = is_draining p"
  using ifu_resp_ports [of e p p'] lsu_resp_ports [of e p p'] by (auto simp: recv_mem_resp_def split: if_splits)

lemma deliver_drains: "deliver ev m = Some m' \<Longrightarrow> drains m' = drains m"
  by (cases ev) (auto simp: drains_def recv_mem_resp_drains ports_sameD(4) [OF ack_ports])

lemma deliver_all_drains: "deliver_all evs m = Some m' \<Longrightarrow> drains m' = drains m"
  by (induction evs arbitrary: m) (auto dest!: deliver_drains)

lemma host_resp_drains: "host_resp i t m = Some (m', rs) \<Longrightarrow> drains m' = drains m"
  by (auto simp: host_resp_def dest!: deliver_all_drains split: if_splits dport.splits) (simp_all add: drains_def)

lemma complete_drains:
  "complete_read host_resp t mh = Some mh' \<Longrightarrow> drains (snd mh') = drains (snd mh)"
  "complete_write host_resp t mh = Some mh' \<Longrightarrow> drains (snd mh') = drains (snd mh)"
  by (auto simp: complete_read_def complete_write_def Let_def host_resp_drains split: prod.splits if_splits)

lemma send_req_drains: "send_req r m = Some m' \<Longrightarrow> drains m' = drains m"
  by (cases "(r, m)" rule: send_req.cases) (auto dest!: deliver_all_drains split: dport.splits, simp_all add: drains_def)

lemma send_all_drains: "send_all rs m = Some m' \<Longrightarrow> drains m' = drains m"
  by (induction rs arbitrary: m) (auto dest!: send_req_drains)

lemma with_core_drains: "with_core p m = Some m' \<Longrightarrow> drains m' = is_draining p"
  by (auto simp: with_core_def dest!: send_all_drains) (simp_all add: drains_def)

lemma dcache_drains: "dcache_update m = Some m' \<Longrightarrow> drains m' = drains m"
  by (auto simp: dcache_update_def dest!: deliver_all_drains split: dport.splits) (simp_all add: drains_def)

lemma icache_drains: "icache_update m = Some m' \<Longrightarrow> drains m' = drains m"
  by (auto simp: icache_update_def dest!: deliver_all_drains) (simp_all add: drains_def)

lemma update_devices_drains:
  assumes u: "update_devices m = Some m'" and ok: "machine_ok False f k m"
  shows "drains m' = drains m"
proof -
  obtain m1 m2 m3 m4 where *: "mem_update m = Some m1" "bypass_update m1 = Some m2" "dcache_update m2 = Some m3"
      "icache_update m3 = Some m4" "core_do_update m4 = Some m'"
    using u by (auto simp: update_devices_def)
  have 1: "drains m1 = drains m"
  proof -
    obtain a mh where "arb_do_update host_resp (m_tick m) (m_mem m, m) = Some (a, mh)" "m1 = mh\<lparr>m_mem := a\<rparr>"
      using *(1) by (auto simp: mem_update_def)
    moreover from this have "drains mh = drains m"
      using complete_drains by (fastforce simp: arb_do_update_def arb_update_impl_def split: if_splits)
    ultimately show ?thesis by (simp add: drains_def)
  qed
  have 2: "drains m2 = drains m1" using *(2) by (auto simp: bypass_update_def drains_def)
  obtain p where p: "pipe_do_update (main_env m4) (m_core m4) = Some p" "drains m' = is_draining p"
    using *(5) with_core_drains by (auto simp: core_do_update_def)
  have "front_idle (m_core m4)"
  proof -
    have a: "machine_ok False f k m1" using mem_update_ok [OF ok] *(1) by auto
    have b: "machine_ok False f k m3" using dcache_update_ok [OF a] *(2,3) by auto
    have "machine_ok False f k m4" using icache_update_ok [OF b] *(4) by auto
    then have "core_inv (as_core m4 False f k)" by (simp add: machine_ok_data)
    from core_invD(2) [OF this] show ?thesis by (auto intro: front_idle_inv)
  qed
  then have "is_draining p = is_draining (m_core m4)"
    using pipe_update_ports [OF p(1)] by (simp add: main_env_def sent_def)
  then show ?thesis using p(2) 1 2 dcache_drains [OF *(3)] icache_drains [OF *(4)] by (simp add: drains_def)
qed

lemma core_feed_drains: "core_feed i m = Some m' \<Longrightarrow> drains m' = drains m"
  using feed_ports by (fastforce simp: core_feed_def sent_def drains_def dest!: with_core_drains)

text \<open>The answers of the caches leave the number of instructions in flight alone.\<close>

lemma handle_ifu_resp_ongoing: "handle_ifu_resp e p = Some p' \<Longrightarrow> ongoing_insts p' = ongoing_insts p"
  by (auto simp: handle_ifu_resp_def Let_def dest!: schedule_ongoing split: if_splits list.splits)

lemma recv_mem_resp_ongoing: "recv_mem_resp e i w p = Some p' \<Longrightarrow> ongoing_insts p' = ongoing_insts p"
  by (auto simp: recv_mem_resp_def handle_ifu_resp_ongoing handle_lsu_resp_ongoing split: if_splits)

lemma deliver_all_ongoing: "deliver_all evs m = Some m' \<Longrightarrow> ongoing_insts (m_core m') = ongoing_insts (m_core m)"
proof (induction evs arbitrary: m)
  case (Cons ev evs)
  have "ongoing_insts (m_core m2) = ongoing_insts (m_core m)" if "deliver ev m = Some m2" for m2
    using that by (cases ev) (auto dest: recv_mem_resp_ongoing simp: ack_mem_avail_def async_schedule_def schedule_def split: if_splits option.splits)
  then show ?case using Cons by fastforce
qed simp

lemma cache_update_ongoing:
  "icache_update m = Some m' \<Longrightarrow> ongoing_insts (m_core m') = ongoing_insts (m_core m)"
  "dcache_update m = Some m' \<Longrightarrow> ongoing_insts (m_core m') = ongoing_insts (m_core m)"
  by (auto simp: icache_update_def dcache_update_def dest!: deliver_all_ongoing split: dport.splits)

section \<open>Feeding\<close>

lemma feed_core:
  assumes f: "core_feed i m = Some m'" and ok: "machine_ok u f k m" and i: "inst_ok i" and a: "inst_avail (m_core m)"
  shows "in_flight (m_core m') = Suc (in_flight (m_core m))"
proof -
  obtain p where p: "feed_inst (main_env m) i (m_core m) = Some p" "with_core p m = Some m'"
    using f by (auto simp: core_feed_def)
  let ?p = "(m_core m)\<lparr>ongoing_insts := ongoing_insts (m_core m) + 1, input_buffer := Some (new_transaction i False False)\<rparr>"
  have "do_fetch_0 (main_env m) ?p = Some p" using p(1) by (auto simp: feed_inst_def)
  then obtain rs where rs: "ifu_sent (main_env m) ?p rs p" using do_fetch_0_ports by blast
  have q: "port_reqs (m_core m) = []" "core_inv (as_core m u f k)" using ok by (simp_all add: machine_ok_data)
  have ib: "input_buffer (m_core m) = None" using a by (simp add: inst_avail_def)
  have "pipe_inv (edge (as_core m u f k)) (m_core m)" using core_invD(2) [OF q(2)] by simp
  from feed_inst_ok [OF this ib i, of "main_env m"] p(1)
  have "in_flight p = Suc (in_flight (m_core m))" by simp
  moreover have "m_core m' = p\<lparr>port_reqs := []\<rparr>" using p(2) rs q(1) by (auto simp: with_core_def ifu_sent_def)
  ultimately show ?thesis by (simp add: in_flight_def front_list_def back_list_def)
qed

section \<open>The simulation loop\<close>

text \<open>Why the core may drain: the trace has ended, or main was told to stop.\<close>

definition at_end :: "sim_config \<Rightarrow> simulation \<Rightarrow> bool" where
  "at_end cfg s \<longleftrightarrow> stop_after_dump s \<or> next_inst (sim_input s) = None \<or> max_insts cfg \<le> inst_cnt s"

definition no_reset :: "trace_inst \<Rightarrow> bool" where
  "no_reset i \<longleftrightarrow> ti_sys_op i \<noteq> SysResetStats"

text \<open>n: no instruction resets the statistics, so the counters span the whole run.\<close>

definition sim_ok :: "bool \<Rightarrow> sim_config \<Rightarrow> bool \<Rightarrow> simulation \<Rightarrow> bool" where
  "sim_ok n cfg u s \<longleftrightarrow>
     (\<exists>k. machine_ok u (inst_cnt s) k (mach s) \<and> (n \<longrightarrow> k = 0)) \<and>
     (n \<longrightarrow> no_reset (sim_inst s) \<and> list_all no_reset (read_trace (sim_input s))) \<and>
     list_all inst_ok (read_trace (sim_input s)) \<and> san_total (sanitizer_all s) = inst_cnt s \<and>
     (has_next s \<or> next_inst (sim_input s) = None) \<and> (drains (mach s) \<longrightarrow> at_end cfg s)"

definition all_seen :: "simulation \<Rightarrow> nat" where
  "all_seen s = inst_cnt s + length (read_trace (sim_input s))"

lemma sim_okD:
  assumes "sim_ok n cfg u s"
  obtains k where "machine_ok u (inst_cnt s) k (mach s)" "n \<Longrightarrow> k = 0"
  using assms by (auto simp: sim_ok_def)

lemma read_trace_next: "next_inst bs = Some (i, rest) \<Longrightarrow> read_trace bs = i # read_trace rest"
  by (subst read_trace.simps) simp

lemma finished_flight:
  assumes "machine_ok u f k m"
  shows "is_finished (m_core m) \<longleftrightarrow> in_flight (m_core m) = 0" "f = in_flight (m_core m) + ps_insts (pstats (m_core m)) + k"
proof -
  have c: "core_inv (as_core m u f k)" using assms by (simp add: machine_ok_data)
  note inv = core_invD [OF c]
  have "in_flight (m_core m) = unat (ongoing_insts (m_core m))"
    using in_flight_unat [OF pipe_invD(1) [OF inv(2)]] by simp
  then show "is_finished (m_core m) \<longleftrightarrow> in_flight (m_core m) = 0" by (simp add: is_finished_def unat_eq_0)
  show "f = in_flight (m_core m) + ps_insts (pstats (m_core m)) + k" using inv(4) by (simp add: accounted_def)
qed

lemma finished_input:
  assumes "machine_ok u f k m" and "is_finished (m_core m)"
  shows "input_buffer (m_core m) = None"
proof -
  have "core_inv (as_core m u f k)" using assms(1) by (simp add: machine_ok_data)
  from pipe_invD(1) [OF core_invD(2) [OF this]]
  have "slot_all counted_inflight (input_buffer (m_core m))" by (cases "input_buffer (m_core m)") (simp_all add: pipe_base_def)
  then show ?thesis using finished_flight(1) [OF assms(1)] assms(2)
    by (cases "input_buffer (m_core m)") (simp_all add: in_flight_def front_list_def)
qed

lemma drain_sim:
  assumes s: "sim_ok n cfg u s" and e: "at_end cfg s"
  shows "sim_ok n cfg u (s\<lparr>mach := drain_core (mach s)\<rparr>)"
proof -
  obtain k where k: "machine_ok u (inst_cnt s) k (mach s)" "n \<Longrightarrow> k = 0" using sim_okD [OF s] by blast
  have "at_end cfg (s\<lparr>mach := drain_core (mach s)\<rparr>)" using e by (simp add: at_end_def)
  moreover have "\<exists>k. machine_ok u (inst_cnt s) k (drain_core (mach s)) \<and> (n \<longrightarrow> k = 0)" using drain_ok(1) [OF k(1)] k(2) by blast
  ultimately show ?thesis using s by (simp add: sim_ok_def)
qed

lemma feed_phase_ok:
  assumes s: "sim_ok n cfg True s"
  shows "\<exists>s'. feed_phase cfg s = Some s' \<and> sim_ok n cfg True s' \<and> m_tick (mach s') = m_tick (mach s) \<and>
    all_seen s' = all_seen s \<and> (is_finished (m_core (mach s')) \<longrightarrow> at_end cfg s')"
proof -
  obtain k where k: "machine_ok True (inst_cnt s) k (mach s)" "n \<Longrightarrow> k = 0" using sim_okD [OF s] by blast
  consider (busy) "\<not> inst_avail (m_core (mach s))"
    | (feed) "inst_avail (m_core (mach s))" "\<not> stop_after_dump s \<and> has_next s \<and> inst_cnt s < max_insts cfg"
    | (stop) "inst_avail (m_core (mach s))" "\<not> (\<not> stop_after_dump s \<and> has_next s \<and> inst_cnt s < max_insts cfg)" by blast
  then show ?thesis
  proof cases
    case busy
    have "at_end cfg s" if "is_finished (m_core (mach s))"
      using that finished_input [OF k(1)] busy s by (simp add: inst_avail_def sim_ok_def drains_def)
    then show ?thesis using busy s by (auto simp: feed_phase_def)
  next
    case stop
    have "at_end cfg s" using stop s by (auto simp: at_end_def sim_ok_def)
    then show ?thesis
      using stop drain_sim [OF s] drain_ok(2) [OF k(1)] by (auto simp: feed_phase_def all_seen_def at_end_def)
  next
    case feed
    show ?thesis
    proof (cases "next_inst (sim_input s)")
      case None
      then have e: "at_end cfg s" by (simp add: at_end_def)
      have "sim_ok n cfg True (s\<lparr>has_next := False, mach := drain_core (mach s)\<rparr>)"
        using drain_sim [OF s e] None by (auto simp: sim_ok_def at_end_def)
      then show ?thesis
        using feed None drain_ok(2) [OF k(1)] by (auto simp: feed_phase_def all_seen_def at_end_def)
    next
      case (Some x)
      obtain i rest where x: "x = (i, rest)" by (cases x)
      note tr = read_trace_next [OF Some [unfolded x]]
      have i: "inst_ok i" using s tr by (simp add: sim_ok_def)
      obtain m' where m': "core_feed i (mach s) = Some m'" "machine_ok True (inst_cnt s + 1) k m'" "m_tick m' = m_tick (mach s)"
        using core_feed_machine [OF k(1) feed(1) i] by auto
      have "\<not> drains m'" using core_feed_drains [OF m'(1)] feed(1) by (simp add: inst_avail_def drains_def)
      moreover have "\<not> is_finished (m_core m')"
        using finished_flight(1) [OF m'(2)] feed_core [OF m'(1) k(1) i feed(1)] by simp
      ultimately show ?thesis
        using feed(1,2) Some x s tr m' k by (auto simp: feed_phase_def record_inst_def sim_ok_def all_seen_def)
    qed
  qed
qed

lemma tick_sim:
  assumes s: "sim_ok n cfg True s" and T: "m_tick (mach s) + 1 + 2 ^ 33 < InfTime"
  shows "\<exists>m. set_global_tick (m_tick (mach s) + 1) (mach s) = Some m \<and> sim_ok n cfg False (s\<lparr>mach := m\<rparr>) \<and>
    m_tick m = m_tick (mach s) + 1 \<and> m_core m = m_core (mach s)"
proof -
  obtain k where k: "machine_ok True (inst_cnt s) k (mach s)" "n \<Longrightarrow> k = 0" using sim_okD [OF s] by blast
  obtain m where "set_global_tick (m_tick (mach s) + 1) (mach s) = Some m" "machine_ok False (inst_cnt s) k m" "m_tick m = m_tick (mach s) + 1"
    using tick_ok [OF k(1) T] by blast
  moreover from this have "m_core m = m_core (mach s)" by (auto simp: set_global_tick_def)
  ultimately show ?thesis using s k by (auto simp: sim_ok_def drains_def at_end_def)
qed

lemma reset_core_frame: "is_draining (m_core (reset_all_stats m)) = is_draining (m_core m)"
    "ongoing_insts (m_core (reset_all_stats m)) = ongoing_insts (m_core m)"
  by (simp_all add: reset_all_stats_def Let_def pipe_reset_stats_def)

lemma flush_core [simp]: "m_core (flush_caches m) = m_core m"
  by (simp add: flush_caches_def)

lemma sys_phase_ok:
  assumes s: "sim_ok n cfg False s" and f: "is_finished (m_core (mach s)) \<longrightarrow> at_end cfg s"
  shows "\<exists>s'. sys_phase s = Some s' \<and> sim_ok n cfg False s' \<and> m_tick (mach s') = m_tick (mach s) \<and>
    all_seen s' = all_seen s \<and> (is_finished (m_core (mach s')) \<longrightarrow> at_end cfg s')"
proof -
  obtain k where k: "machine_ok False (inst_cnt s) k (mach s)" "n \<Longrightarrow> k = 0" using sim_okD [OF s] by blast
  have one: "no_reset ((sim_inst s)\<lparr>ti_sys_op := 0\<rparr>)" by (simp add: no_reset_def op_codes)
  consider (reset) "ti_sys_op (sim_inst s) = SysResetStats" | (fence) "ti_sys_op (sim_inst s) = SysFenceI"
    | (dump) "ti_sys_op (sim_inst s) = SysDumpStats"
    | (other) "ti_sys_op (sim_inst s) \<noteq> SysResetStats" "ti_sys_op (sim_inst s) \<noteq> SysFenceI" "ti_sys_op (sim_inst s) \<noteq> SysDumpStats" by blast
  then show ?thesis
  proof cases
    case reset
    then have "\<not> n" using s by (auto simp: sim_ok_def no_reset_def)
    then show ?thesis
      using reset reset_ok [OF k(1)] s f
      by (auto simp: sys_phase_def Let_def sim_ok_def all_seen_def at_end_def drains_def reset_core_frame is_finished_def)
  next
    case fence
    note fl = flush_ok [OF k(1)]
    obtain m1 where m1: "icache_update (flush_caches (mach s)) = Some m1" "machine_ok False (inst_cnt s) k m1" "m_tick m1 = m_tick (mach s)"
      using icache_update_ok [OF fl(1)] fl(2) by auto
    obtain m2 where m2: "dcache_update m1 = Some m2" "machine_ok False (inst_cnt s) k m2" "m_tick m2 = m_tick (mach s)"
      using dcache_update_ok [OF m1(2)] m1(3) by auto
    have d: "drains m2 = drains (mach s)" using dcache_drains [OF m2(1)] icache_drains [OF m1(1)] by (simp add: drains_def)
    have "is_finished (m_core m2) = is_finished (m_core (mach s))"
      using cache_update_ongoing(1) [OF m1(1)] cache_update_ongoing(2) [OF m2(1)] by (simp add: is_finished_def)
    moreover define s' where "s' = s\<lparr>sim_inst := (sim_inst s)\<lparr>ti_sys_op := 0\<rparr>, mach := m2\<rparr>"
    moreover have "sys_phase s = Some s'" using fence m1(1) m2(1) by (simp add: sys_phase_def Let_def op_codes s'_def)
    moreover have "sim_ok n cfg False s'"
      using s d one m2(2) k(2) unfolding sim_ok_def s'_def at_end_def by auto
    ultimately show ?thesis using f m2(3) by (simp add: all_seen_def at_end_def)
  next
    case dump
    then show ?thesis using s f by (auto simp: sys_phase_def Let_def op_codes sim_ok_def all_seen_def at_end_def one)
  next
    case other
    then show ?thesis using s f by (auto simp: sys_phase_def Let_def)
  qed
qed

lemma sim_iter_ok:
  assumes s: "sim_ok n cfg False s" and T: "m_tick (mach s) + 1 + 2 ^ 33 < InfTime"
  shows "\<exists>s'. sim_iter cfg s = Some s' \<and> sim_ok n cfg False s' \<and> m_tick (mach s') = m_tick (mach s) + 1 \<and>
    all_seen s' = all_seen s \<and> (is_finished (m_core (mach s')) \<longrightarrow> at_end cfg s')"
proof -
  obtain k where k: "machine_ok False (inst_cnt s) k (mach s)" "n \<Longrightarrow> k = 0" using sim_okD [OF s] by blast
  obtain m1 where m1: "update_devices (mach s) = Some m1" "machine_ok True (inst_cnt s) k m1" "m_tick m1 = m_tick (mach s)"
    using update_devices_ok [OF k(1)] by blast
  have d1: "drains m1 = drains (mach s)" by (rule update_devices_drains [OF m1(1) k(1)])
  have s1: "sim_ok n cfg True (s\<lparr>mach := m1\<rparr>)" using s m1(2) k(2) d1 by (auto simp: sim_ok_def at_end_def)
  obtain s2 where s2: "feed_phase cfg (s\<lparr>mach := m1\<rparr>) = Some s2" "sim_ok n cfg True s2" "m_tick (mach s2) = m_tick (mach s)"
      "all_seen s2 = all_seen s" "is_finished (m_core (mach s2)) \<longrightarrow> at_end cfg s2"
    using feed_phase_ok [OF s1] m1(3) by (auto simp: all_seen_def)
  obtain m3 where m3: "set_global_tick (m_tick (mach s2) + 1) (mach s2) = Some m3" "sim_ok n cfg False (s2\<lparr>mach := m3\<rparr>)"
      "m_tick m3 = m_tick (mach s) + 1" "m_core m3 = m_core (mach s2)"
    using tick_sim [OF s2(2)] T s2(3) by auto
  have f3: "is_finished (m_core (mach (s2\<lparr>mach := m3\<rparr>))) \<longrightarrow> at_end cfg (s2\<lparr>mach := m3\<rparr>)"
    using s2(5) m3(4) by (simp add: at_end_def)
  obtain s4 where "sys_phase (s2\<lparr>mach := m3\<rparr>) = Some s4" "sim_ok n cfg False s4" "m_tick (mach s4) = m_tick m3"
      "all_seen s4 = all_seen s2" "is_finished (m_core (mach s4)) \<longrightarrow> at_end cfg s4"
    using sys_phase_ok [OF m3(2) f3] by (auto simp: all_seen_def)
  then show ?thesis using m1(1) s2 m3 by (simp add: sim_iter_def)
qed

text \<open>The clock bounds the number of turns, so the loop returns.\<close>

lemma sim_loop_ok:
  "sim_ok n cfg False s \<Longrightarrow> m_tick (mach s) + 1 + 2 ^ 33 < InfTime \<Longrightarrow> max_ticks cfg + 1 + 2 ^ 33 < InfTime \<Longrightarrow>
   \<exists>s'. sim_loop cfg s = Some s' \<and> sim_ok n cfg False s' \<and> all_seen s' = all_seen s \<and>
     m_tick (mach s) < m_tick (mach s') \<and> m_tick (mach s') \<le> max (max_ticks cfg) (m_tick (mach s) + 1) \<and>
     (is_finished (m_core (mach s')) \<and> at_end cfg s' \<or> \<not> is_finished (m_core (mach s')) \<and> max_ticks cfg \<le> m_tick (mach s'))"
proof (induction "max_ticks cfg - m_tick (mach s)" arbitrary: s rule: less_induct)
  case less
  obtain s1 where s1: "sim_iter cfg s = Some s1" "sim_ok n cfg False s1" "m_tick (mach s1) = m_tick (mach s) + 1"
      "all_seen s1 = all_seen s" "is_finished (m_core (mach s1)) \<longrightarrow> at_end cfg s1"
    using sim_iter_ok [OF less.prems(1,2)] by blast
  show ?case
  proof (cases "\<not> is_finished (m_core (mach s1)) \<and> m_tick (mach s1) < max_ticks cfg")
    case True
    have dec: "max_ticks cfg - m_tick (mach s1) < max_ticks cfg - m_tick (mach s)" using True s1(3) by arith
    have T: "m_tick (mach s1) + 1 + 2 ^ 33 < InfTime" using True less.prems(3) by simp
    obtain s2 where s2: "sim_loop cfg s1 = Some s2" "sim_ok n cfg False s2" "all_seen s2 = all_seen s1"
        "m_tick (mach s1) < m_tick (mach s2)" "m_tick (mach s2) \<le> max (max_ticks cfg) (m_tick (mach s1) + 1)"
        "is_finished (m_core (mach s2)) \<and> at_end cfg s2 \<or> \<not> is_finished (m_core (mach s2)) \<and> max_ticks cfg \<le> m_tick (mach s2)"
      using less.hyps [OF dec s1(2) T less.prems(3)] by blast
    have "m_tick (mach s2) \<le> max (max_ticks cfg) (m_tick (mach s) + 1)" using s2(5) True by simp
    moreover have "m_tick (mach s) < m_tick (mach s2)" using s2(4) s1(3) by simp
    moreover have "sim_loop cfg s = Some s2" using True s1(1) s2(1) by (subst sim_loop.simps) simp
    ultimately show ?thesis using s2(2,3,6) s1(4) by metis
  next
    case False
    have "sim_loop cfg s = Some s1" using False s1(1) by (subst sim_loop.simps) auto
    then show ?thesis using False s1(2-5) by auto
  qed
qed

lemma start_ok:
  assumes b: "build_machine nx c = Some m" and ok: "config_ok c" and t: "list_all inst_ok (read_trace bs)"
    and n: "n \<longrightarrow> no_reset i \<and> list_all no_reset (read_trace bs)"
  shows "sim_ok n cfg False (start_simulation m bs i)" "m_tick (mach (start_simulation m bs i)) = 0"
    "all_seen (start_simulation m bs i) = length (read_trace bs)"
proof -
  note m = build_machine_ok [OF b ok]
  have "\<not> drains m" using b by (auto simp: build_machine_def drains_def new_pipeline_def)
  then show "sim_ok n cfg False (start_simulation m bs i)"
    using m(1) t n by (auto simp: sim_ok_def start_simulation_def san_zero_def)
  show "m_tick (mach (start_simulation m bs i)) = 0" using m(2) by (simp add: start_simulation_def)
  show "all_seen (start_simulation m bs i) = length (read_trace bs)" by (simp add: all_seen_def start_simulation_def)
qed

end
