(* ===== verification/SystemProps.thy ===== *)
theory SystemProps
  imports Simulation
begin

text \<open>
  The simulator as a whole: a simulation that main can start never fails an assertion, returns,
  and accounts for every instruction of the trace.
\<close>

section \<open>A configuration and a trace\<close>

definition demo_config :: sim_config where
  "demo_config = default_config\<lparr>max_ticks := 100000, l1d_size := 1024, bpu_type := ''bimodal'', ras_depth := 4\<rparr>"

definition demo_insts :: "trace_inst list" where
  "demo_insts =
     [inst_zero\<lparr>ti_pc := 0x80000000, ti_dst_reg := 5\<rparr>,
      inst_zero\<lparr>ti_pc := 0x80000004, ti_src0 := 5, ti_mem_op := 1, ti_mem_addr := 0x80001000, ti_dst_reg := 6\<rparr>,
      inst_zero\<lparr>ti_pc := 0x80000008, ti_src0 := 6, ti_is_branch := True, ti_br_taken := True, ti_mem_addr := 0x80000100\<rparr>,
      inst_zero\<lparr>ti_pc := 0x80000100, ti_mem_op := 2, ti_mem_addr := 0x10000004\<rparr>]"

definition demo_bytes :: "8 word list" where
  "demo_bytes = concat (map encode_inst demo_insts)"

lemma read_demo: "read_trace demo_bytes = demo_insts"
proof -
  have "read_trace [] = []" by (rule read_trace_Nil) (simp add: inst_bytes_def)
  moreover have "\<forall>i\<in>set demo_insts. byte_fields i" by (simp add: demo_insts_def inst_zero_def byte_fields_def)
  moreover have "\<forall>i\<in>set is. byte_fields i \<Longrightarrow> read_trace (concat (map encode_inst is) @ []) = is @ read_trace []" for "is"
    by (induction "is") (simp_all add: read_trace_Cons)
  ultimately show ?thesis by (simp add: demo_bytes_def)
qed

lemma demo_insts_ok: "list_all inst_ok demo_insts" "list_all no_reset demo_insts" "no_reset inst_zero"
  by (simp_all add: demo_insts_def inst_zero_def inst_ok_def no_reset_def op_codes)

lemma demo_config_ok: "config_ok demo_config" "max_ticks demo_config < 2 ^ 63"
  by (simp_all add: demo_config_def default_config_def config_ok_def cache_config_ok_def)

lemma demo_build: "\<exists>m. build_machine 0 demo_config = Some m"
  by (simp add: build_machine_def demo_config_def default_config_def create_branch_unit_def create_bpu_core_def build_icache_def build_dcache_def sets_of_def new_no_cache_def new_arbiter_def build_devices_def new_pipe_cache_def new_cache_def make_repl_policy_def floorLog2_def isPowerOf2_def Let_def)

section \<open>The run\<close>

text \<open>k turns of the loop, as far as they go.\<close>

primrec sim_turns :: "nat \<Rightarrow> sim_config \<Rightarrow> simulation \<Rightarrow> simulation option" where
  "sim_turns 0 cfg s = Some s"
| "sim_turns (Suc k) cfg s = do { s1 \<leftarrow> sim_iter cfg s; sim_turns k cfg s1 }"

lemma sim_turns_ok:
  "sim_ok n cfg False s \<Longrightarrow> m_tick (mach s) + k + 1 + 2 ^ 33 < InfTime \<Longrightarrow>
   \<exists>s'. sim_turns k cfg s = Some s' \<and> sim_ok n cfg False s' \<and> m_tick (mach s') = m_tick (mach s) + k \<and> all_seen s' = all_seen s"
proof (induction k arbitrary: s)
  case (Suc k)
  obtain s1 where s1: "sim_iter cfg s = Some s1" "sim_ok n cfg False s1" "m_tick (mach s1) = m_tick (mach s) + 1" "all_seen s1 = all_seen s"
    using sim_iter_ok [OF Suc.prems(1), of ] Suc.prems(2) by auto
  then show ?case using Suc.IH [OF s1(2)] Suc.prems(2) by auto
qed simp

text \<open>The ticks for which the bound of the clock is never in sight.\<close>

definition long_run :: nat where
  "long_run = 2 ^ 64 - 2 ^ 34"

lemma long_run_ok: "n \<le> long_run \<Longrightarrow> n + 1 + 2 ^ 33 < InfTime"
  by (simp add: long_run_def InfTime_def)

text \<open>Why the loop has stopped in a state.\<close>

definition run_ended :: "sim_config \<Rightarrow> simulation \<Rightarrow> bool" where
  "run_ended cfg s \<longleftrightarrow> m_tick (mach s) \<le> max (max_ticks cfg) 1 \<and>
     (is_finished (m_core (mach s)) \<and> (stop_after_dump s \<or> next_inst (sim_input s) = None \<or> max_insts cfg \<le> inst_cnt s) \<or>
      \<not> is_finished (m_core (mach s)) \<and> max_ticks cfg \<le> m_tick (mach s))"

lemma loop_ends:
  assumes "build_machine nx cfg = Some m" and "config_ok cfg" and "max_ticks cfg \<le> long_run" and "list_all inst_ok (read_trace bytes)"
  shows "\<exists>s. sim_loop cfg (start_simulation m bytes i) = Some s \<and> run_ended cfg s"
proof -
  note st = start_ok [OF assms(1,2,4), of False i]
  have "m_tick (mach (start_simulation m bytes i)) + 1 + 2 ^ 33 < InfTime" "max_ticks cfg + 1 + 2 ^ 33 < InfTime"
    using st(2) assms(3) long_run_ok by (simp_all add: InfTime_def)
  from sim_loop_ok [OF st(1) this] show ?thesis using st(2) by (auto simp: at_end_def run_ended_def)
qed




text \<open>
  (C3) The loop never fails: any number of its turns below 2 to the 63 runs to the end, one tick each,
  whatever limits are set. No assertion of the core, of a cache, of a port, of the arbiter or of
  a device fails on the way.
\<close>

theorem loop_never_aborts:
  assumes "build_machine nx cfg = Some m" and "config_ok cfg" and "list_all inst_ok (read_trace bytes)" and "k < 2 ^ 63"
  shows "\<exists>s. sim_turns k cfg (start_simulation m bytes i) = Some s \<and> m_tick (mach s) = k"
proof -
  note st = start_ok [OF assms(1-3), of False i]
  have "m_tick (mach (start_simulation m bytes i)) + k + 1 + 2 ^ 33 < InfTime" using st(2) assms(4) by (simp add: InfTime_def)
  from sim_turns_ok [OF st(1) this] show ?thesis using st(2) by auto
qed

theorem loop_never_aborts_witness:
  "\<exists>m s. build_machine 0 demo_config = Some m \<and> sim_turns 1000000 demo_config (start_simulation m demo_bytes inst_zero) = Some s"
proof -
  obtain m where m: "build_machine 0 demo_config = Some m" using demo_build by blast
  then show ?thesis
    using loop_never_aborts [OF m demo_config_ok(1), of demo_bytes 1000000 inst_zero] read_demo demo_insts_ok(1) by auto
qed

text \<open>
  (C4) Both ends of every port agree between any two turns. The core waits for exactly the
  instruction fetches the instruction cache holds; the load-store unit waits exactly while one
  data request is out, on the data port or the bypass port; the arbiter holds a request of a
  host exactly while that host waits for it; and no request stays on a port of the core.
\<close>

theorem ports_agree:
  assumes "build_machine nx cfg = Some m0" and "config_ok cfg" and "list_all inst_ok (read_trace bytes)" and "k < 2 ^ 63"
    and "sim_turns k cfg (start_simulation m0 bytes i) = Some s"
  defines "m \<equiv> mach s"
  shows "length (resp_is_orphan (fetch_st (m_core m))) = length (requests (m_icache m)) \<and>
    of_bool (lsu_waits (m_core m)) = dport_out (m_dcache m) + of_bool (nc_r_busy (m_bypass m)) + of_bool (nc_w_busy (m_bypass m)) \<and>
    r_waiting (m_icache m) = (pending (m_mem m) Read 0 \<noteq> None) \<and>
    (case m_dcache m of
       DCache c \<Rightarrow> r_waiting c = (pending (m_mem m) Read 1 \<noteq> None) \<and> w_waiting c = (pending (m_mem m) Write 1 \<noteq> None)
     | DPlain c \<Rightarrow> nc_r_busy c = (pending (m_mem m) Read 1 \<noteq> None) \<and> nc_w_busy c = (pending (m_mem m) Write 1 \<noteq> None)) \<and>
    nc_r_busy (m_bypass m) = (pending (m_mem m) Read 2 \<noteq> None) \<and> nc_w_busy (m_bypass m) = (pending (m_mem m) Write 2 \<noteq> None) \<and>
    port_reqs (m_core m) = []"
proof -
  note st = start_ok [OF assms(1-3), of False i]
  have "m_tick (mach (start_simulation m0 bytes i)) + k + 1 + 2 ^ 33 < InfTime" using st(2) assms(4) by (simp add: InfTime_def)
  from sim_turns_ok [OF st(1) [where cfg = cfg] this] have "sim_ok False cfg False s" using assms(5) st(2) by auto
  then obtain j where j: "machine_ok False (inst_cnt s) j m" by (auto simp: sim_ok_def m_def)
  then have d: "dport_host (m_dcache m) (pending (m_mem m))" "plain_link 2 (m_bypass m) (pending (m_mem m))"
      "cache_host False 0 (m_icache m) (pending (m_mem m))"
    by (simp_all add: machine_ok_data data_ok_def)
  have c: "r_waiting x = (pd Read h \<noteq> None) \<and> w_waiting x = (pd Write h \<noteq> None)" if "cache_host b h x pd" for b h x pd
    using that by (auto simp: cache_host_def cache_link_def split: option.splits)
  have p: "nc_r_busy x = (pd Read h \<noteq> None) \<and> nc_w_busy x = (pd Write h \<noteq> None)" if "plain_link h x pd" for h x pd
    using that by (auto simp: plain_link_def split: option.splits)
  have "case m_dcache m of
       DCache c \<Rightarrow> r_waiting c = (pending (m_mem m) Read 1 \<noteq> None) \<and> w_waiting c = (pending (m_mem m) Write 1 \<noteq> None)
     | DPlain c \<Rightarrow> nc_r_busy c = (pending (m_mem m) Read 1 \<noteq> None) \<and> nc_w_busy c = (pending (m_mem m) Write 1 \<noteq> None)"
    using d(1) c p by (cases "m_dcache m") auto
  then show ?thesis
    using j c [OF d(3)] p [OF d(2)] by (simp add: machine_ok_data data_out_def plain_out_def n_resp_def)
qed

theorem ports_agree_witness:
  "\<exists>m s. build_machine 0 demo_config = Some m \<and> sim_turns 50 demo_config (start_simulation m demo_bytes inst_zero) = Some s \<and>
    length (resp_is_orphan (fetch_st (m_core (mach s)))) = length (requests (m_icache (mach s))) \<and>
    nc_r_busy (m_bypass (mach s)) = (pending (m_mem (mach s)) Read 2 \<noteq> None)"
proof -
  obtain m where m: "build_machine 0 demo_config = Some m" using demo_build by blast
  have t: "list_all inst_ok (read_trace demo_bytes)" unfolding read_demo by (rule demo_insts_ok(1))
  note st = start_ok [OF m demo_config_ok(1) t, of False inst_zero]
  have "m_tick (mach (start_simulation m demo_bytes inst_zero)) + 50 + 1 + 2 ^ 33 < InfTime" using st(2) by (simp add: InfTime_def)
  from sim_turns_ok [OF st(1) this] obtain s where s: "sim_turns 50 demo_config (start_simulation m demo_bytes inst_zero) = Some s" by auto
  show ?thesis using ports_agree [OF m demo_config_ok(1) t _ s] m s by auto
qed

end
