(* ===== verification/Observe.thy ===== *)
theory Observe
  imports SystemProps
begin

text \<open>
  What a turn of the simulation keeps: a predicate on the core and on the ports that every call
  on them keeps holds between any two turns. The contract of such predicates is the locale
  observer; the bound that goes with the predicate on the core is the first tick it has not
  accounted for.
\<close>

definition seen :: "(tick_t \<Rightarrow> pipeline \<Rightarrow> bool) \<Rightarrow> (pipe_cache \<Rightarrow> bool) \<Rightarrow> (no_cache \<Rightarrow> bool) \<Rightarrow> tick_t \<Rightarrow> machine \<Rightarrow> bool" where
  "seen co pc nc B m \<longleftrightarrow> co B (m_core m) \<and> pc (m_icache m) \<and>
     (case m_dcache m of DCache c \<Rightarrow> pc c | DPlain c \<Rightarrow> nc c) \<and> nc (m_bypass m) \<and> m_tick m \<le> B"

locale port_observer =
  fixes co :: "tick_t \<Rightarrow> pipeline \<Rightarrow> bool" and pc :: "pipe_cache \<Rightarrow> bool" and nc :: "no_cache \<Rightarrow> bool"
  assumes co_later: "co B p \<Longrightarrow> B \<le> B' \<Longrightarrow> co B' p"
    and co_resp: "co B p \<Longrightarrow> now e \<le> B \<Longrightarrow> recv_mem_resp e k w p = Some p' \<Longrightarrow> co B p'"
    and co_ack: "co B p \<Longrightarrow> ack_mem_avail e k p = Some p' \<Longrightarrow> co B p'"
    and co_update: "co (now e) p \<Longrightarrow> pipe_do_update e p = Some p' \<Longrightarrow> co (now e + 1) p'"
    and co_sent: "co B (p\<lparr>port_reqs := rs\<rparr>) = co B p"
    and co_drain: "co B (set_draining p) = co B p"
    and co_reset: "co B p \<Longrightarrow> t \<le> B \<Longrightarrow> co B (pipe_reset_stats t (p\<lparr>bpu := unit_reset_stats (bpu p)\<rparr>))"
    and pc_read: "pc c \<Longrightarrow> pc_read_req t a c = Some c' \<Longrightarrow> pc c'"
    and pc_write: "pc c \<Longrightarrow> pc_write_req t a d s c = Some (c', evs) \<Longrightarrow> pc c'"
    and pc_update: "pc c \<Longrightarrow> pc_do_update t c = Some (c', evs) \<Longrightarrow> pc c'"
    and pc_resp: "pc c \<Longrightarrow> pc_recv_mem_resp t q c = Some c' \<Longrightarrow> pc c'"
    and pc_flush: "pc c \<Longrightarrow> pc (pc_flush_all c)"
    and pc_reset: "pc c \<Longrightarrow> pc (reset_cache_stats c)" "pc c \<Longrightarrow> pc (c\<lparr>prefetcher := pf\<rparr>)"
    and nc_read: "nc x \<Longrightarrow> nc_read_req a x = Some (x', evs) \<Longrightarrow> nc x'"
    and nc_write: "nc x \<Longrightarrow> nc_write_req a d s x = Some (x', evs) \<Longrightarrow> nc x'"
    and nc_resp: "nc x \<Longrightarrow> nc_recv_mem_resp q x = Some (x', evs) \<Longrightarrow> nc x'"
    and nc_update: "nc x \<Longrightarrow> nc (nc_do_update t x)"
    and nc_flush: "nc x \<Longrightarrow> nc (nc_flush_all x)"
    and nc_reset: "nc x \<Longrightarrow> nc (reset_cache_stats x)"
begin

abbreviation ok :: "tick_t \<Rightarrow> machine \<Rightarrow> bool" where
  "ok \<equiv> seen co pc nc"

lemma deliver_seen: "deliver ev m = Some m' \<Longrightarrow> ok B m \<Longrightarrow> ok B m' \<and> m_tick m' = m_tick m"
  by (cases ev) (auto simp: seen_def dest: co_ack co_resp [where e = "main_env m", unfolded main_env_now])

lemma deliver_all_seen: "deliver_all evs m = Some m' \<Longrightarrow> ok B m \<Longrightarrow> ok B m' \<and> m_tick m' = m_tick m"
proof (induction evs arbitrary: m)
  case (Cons ev evs)
  then show ?case using deliver_seen by fastforce
qed simp

lemma host_resp_seen: "host_resp i q m = Some (m', rs) \<Longrightarrow> ok B m \<Longrightarrow> ok B m' \<and> m_tick m' = m_tick m"
  unfolding host_resp_def
  by (auto simp: seen_def split: if_splits dport.splits dest: pc_resp nc_resp dest!: deliver_all_seen [where B = B])

lemma complete_seen:
  assumes "ok B (snd mh)"
  shows "complete_read host_resp t mh = Some mh' \<Longrightarrow> ok B (snd mh') \<and> m_tick (snd mh') = m_tick (snd mh)"
    "complete_write host_resp t mh = Some mh' \<Longrightarrow> ok B (snd mh') \<and> m_tick (snd mh') = m_tick (snd mh)"
  using assms
  by (auto simp: complete_read_def complete_write_def case_prod_unfold split: if_splits dest: host_resp_seen [where B = B])

lemma mem_update_seen: "mem_update m = Some m' \<Longrightarrow> ok B m \<Longrightarrow> ok B m' \<and> m_tick m' = m_tick m"
proof -
  assume u: "mem_update m = Some m'" and m: "ok B m"
  obtain a m1 where a: "arb_do_update host_resp (m_tick m) (m_mem m, m) = Some (a, m1)" "m' = m1\<lparr>m_mem := a\<rparr>"
    using u by (auto simp: mem_update_def)
  have "ok B m1 \<and> m_tick m1 = m_tick m"
  proof (cases "arb_next_update (m_mem m) \<le> m_tick m")
    case True
    then obtain am where r: "complete_read host_resp (m_tick m) (m_mem m, m) = Some am"
        "complete_write host_resp (m_tick m) am = Some (a, m1)"
      using a(1) by (auto simp: arb_do_update_def arb_update_impl_def)
    show ?thesis using complete_seen(1) [OF _ r(1), of B] complete_seen(2) [OF _ r(2), of B] m by simp
  next
    case False
    then show ?thesis using a(1) m by (simp add: arb_do_update_def)
  qed
  then show ?thesis using a(2) by (simp add: seen_def)
qed

lemma cache_updates_seen:
  "bypass_update m = Some m' \<Longrightarrow> ok B m \<Longrightarrow> ok B m' \<and> m_tick m' = m_tick m"
  "dcache_update m = Some m' \<Longrightarrow> ok B m \<Longrightarrow> ok B m' \<and> m_tick m' = m_tick m"
  "icache_update m = Some m' \<Longrightarrow> ok B m \<Longrightarrow> ok B m' \<and> m_tick m' = m_tick m"
  by (auto simp: bypass_update_def dcache_update_def icache_update_def seen_def nc_update split: dport.splits
      dest: pc_update dest!: deliver_all_seen [where B = B])

lemma send_req_seen: "send_req r m = Some m' \<Longrightarrow> ok B m \<Longrightarrow> ok B m' \<and> m_tick m' = m_tick m"
  by (cases "(r, m)" rule: send_req.cases)
    (auto simp: seen_def split: dport.splits dest: pc_read pc_write nc_read nc_write dest!: deliver_all_seen [where B = B])

lemma send_all_seen: "send_all rs m = Some m' \<Longrightarrow> ok B m \<Longrightarrow> ok B m' \<and> m_tick m' = m_tick m"
proof (induction rs arbitrary: m)
  case (Cons r rs)
  then show ?case using send_req_seen by fastforce
qed simp

lemma with_core_seen:
  assumes "with_core p m = Some m'" and "ok B m" and "co B' p" and "B \<le> B'"
  shows "ok B' m' \<and> m_tick m' = m_tick m"
proof -
  have "ok B' (m\<lparr>m_core := p\<lparr>port_reqs := []\<rparr>\<rparr>)" using assms(2-4) by (simp add: seen_def co_sent split: dport.splits)
  then show ?thesis using send_all_seen [of "port_reqs p" _ m' B'] assms(1) by (auto simp: with_core_def)
qed

lemma core_update_seen:
  assumes "core_do_update m = Some m'" and m: "ok (m_tick m) m"
  shows "ok (m_tick m + 1) m' \<and> m_tick m' = m_tick m"
proof -
  obtain p where p: "pipe_do_update (main_env m) (m_core m) = Some p" "with_core p m = Some m'" using assms(1) by (auto simp: core_do_update_def)
  have "co (m_tick m + 1) p" using co_update [OF _ p(1)] m by (simp add: seen_def main_env_def)
  then show ?thesis using with_core_seen [OF p(2) m] by simp
qed

lemma update_devices_seen:
  assumes "update_devices m = Some m'" and "ok (m_tick m) m"
  shows "ok (m_tick m + 1) m' \<and> m_tick m' = m_tick m"
proof -
  obtain m1 m2 m3 m4 where u: "mem_update m = Some m1" "bypass_update m1 = Some m2" "dcache_update m2 = Some m3"
      "icache_update m3 = Some m4" "core_do_update m4 = Some m'"
    using assms(1) by (auto simp: update_devices_def)
  note 1 = mem_update_seen [OF u(1) assms(2)]
  note 2 = cache_updates_seen(1) [OF u(2) conjunct1 [OF 1]]
  note 3 = cache_updates_seen(2) [OF u(3) conjunct1 [OF 2]]
  note 4 = cache_updates_seen(3) [OF u(4) conjunct1 [OF 3]]
  show ?thesis using core_update_seen [OF u(5)] 1 2 3 4 by simp
qed

lemma drain_seen: "ok B m \<Longrightarrow> ok B (drain_core m) \<and> m_tick (drain_core m) = m_tick m"
  by (simp add: drain_core_def seen_def co_drain)

lemma flush_caches_seen: "ok B m \<Longrightarrow> ok B (flush_caches m) \<and> m_tick (flush_caches m) = m_tick m"
  by (auto simp: flush_caches_def seen_def pc_flush nc_flush split: dport.splits)

lemma reset_all_seen: "ok B m \<Longrightarrow> ok B (reset_all_stats m) \<and> m_tick (reset_all_stats m) = m_tick m"
  by (auto simp: reset_all_stats_def seen_def Let_def co_reset pc_reset nc_reset split: dport.splits)

lemma fence_seen:
  assumes "ok B m" and "icache_update (flush_caches m) = Some m1" and "dcache_update m1 = Some m2" and "bypass_update m2 = Some m3"
  shows "ok B m3 \<and> m_tick m3 = m_tick m"
proof -
  note f = flush_caches_seen [OF assms(1)]
  note 1 = cache_updates_seen(3) [OF assms(2) conjunct1 [OF f]]
  note 2 = cache_updates_seen(2) [OF assms(3) conjunct1 [OF 1]]
  show ?thesis using cache_updates_seen(1) [OF assms(4) conjunct1 [OF 2]] f 1 2 by simp
qed

lemma sys_phase_seen:
  assumes "sys_phase s = Some s'" and "ok B (mach s)"
  shows "ok B (mach s') \<and> m_tick (mach s') = m_tick (mach s)"
proof -
  consider "mach s' = reset_all_stats (mach s)"
    | m1 m2 where "icache_update (flush_caches (mach s)) = Some m1" "dcache_update m1 = Some m2" "bypass_update m2 = Some (mach s')"
    | "mach s' = mach s"
    using assms(1) by (auto simp: sys_phase_def Let_def split: if_splits)
  then show ?thesis
  proof cases
    case 1
    then show ?thesis using reset_all_seen [OF assms(2)] by simp
  next
    case 2
    from fence_seen [OF assms(2) 2] show ?thesis .
  next
    case 3
    then show ?thesis using assms(2) by simp
  qed
qed

end

text \<open>An observer that also keeps its predicate when an instruction is fed, whichever it is.\<close>

locale observer = port_observer co pc nc
  for co :: "tick_t \<Rightarrow> pipeline \<Rightarrow> bool" and pc :: "pipe_cache \<Rightarrow> bool" and nc :: "no_cache \<Rightarrow> bool" +
  assumes co_feed: "co B p \<Longrightarrow> now e \<le> B \<Longrightarrow> feed_inst e i p = Some p' \<Longrightarrow> co B p'"
begin

lemma core_feed_seen:
  assumes "core_feed i m = Some m'" and m: "ok B m"
  shows "ok B m' \<and> m_tick m' = m_tick m"
proof -
  obtain p where p: "feed_inst (main_env m) i (m_core m) = Some p" "with_core p m = Some m'" using assms(1) by (auto simp: core_feed_def)
  have "co B p" using co_feed [OF _ _ p(1)] m by (simp add: seen_def main_env_def)
  then show ?thesis using with_core_seen [OF p(2) m] by simp
qed

lemma feed_phase_seen:
  assumes "feed_phase cfg s = Some s'" and "ok B (mach s)"
  shows "ok B (mach s') \<and> m_tick (mach s') = m_tick (mach s)"
proof -
  have fed: "ok B m \<and> m_tick m = m_tick (mach s)" if "core_feed i (mach s) = Some m" for i m
    using core_feed_seen [OF that assms(2)] .
  show ?thesis using assms by (auto simp: feed_phase_def drain_seen fed split: if_splits option.splits)
qed

lemma sim_iter_seen:
  assumes "sim_iter cfg s = Some s'" and "ok (m_tick (mach s)) (mach s)"
  shows "ok (m_tick (mach s')) (mach s')"
proof -
  obtain m1 s1 m2 where u: "update_devices (mach s) = Some m1" "feed_phase cfg (s\<lparr>mach := m1\<rparr>) = Some s1"
      "set_global_tick (m_tick (mach s1) + 1) (mach s1) = Some m2" "sys_phase (s1\<lparr>mach := m2\<rparr>) = Some s'"
    using assms(1) by (auto simp: sim_iter_def)
  note 1 = update_devices_seen [OF u(1) assms(2)]
  have 2: "ok (m_tick (mach s) + 1) (mach s1) \<and> m_tick (mach s1) = m_tick (mach s)"
    using feed_phase_seen [OF u(2), of "m_tick (mach s) + 1"] 1 by simp
  have 3: "ok (m_tick (mach s) + 1) m2" "m_tick m2 = m_tick (mach s) + 1"
    using u(3) 2 by (auto simp: set_global_tick_def seen_def split: dport.splits)
  show ?thesis using sys_phase_seen [OF u(4)] 3 by simp
qed

lemma sim_turns_seen:
  "sim_turns k cfg s = Some s' \<Longrightarrow> ok (m_tick (mach s)) (mach s) \<Longrightarrow> ok (m_tick (mach s')) (mach s')"
proof (induction k arbitrary: s)
  case (Suc k)
  then obtain s1 where s1: "sim_iter cfg s = Some s1" "sim_turns k cfg s1 = Some s'" by auto
  show ?case using Suc.IH [OF s1(2) sim_iter_seen [OF s1(1) Suc.prems(2)]] .
qed simp

end

section \<open>The loop as a number of turns\<close>

lemma sim_loop_turns:
  assumes "sim_loop cfg s = Some s'"
  shows "\<exists>k. 0 < k \<and> sim_turns k cfg s = Some s'"
proof (rule sim_loop.raw_induct [where P = "\<lambda>cfg s s'. \<exists>k. 0 < k \<and> sim_turns k cfg s = Some s'", OF _ assms])
  fix loop :: "sim_config \<Rightarrow> simulation \<Rightarrow> simulation option" and cfg s s'
  assume 1: "\<And>cfg s s'. loop cfg s = Some s' \<Longrightarrow> \<exists>k. 0 < k \<and> sim_turns k cfg s = Some s'"
    "sim_iter cfg s \<bind> (\<lambda>s1. if \<not> is_finished (m_core (mach s1)) \<and> m_tick (mach s1) < max_ticks cfg then loop cfg s1 else Some s1) = Some s'"
  then obtain s1 where s1: "sim_iter cfg s = Some s1"
      "(if \<not> is_finished (m_core (mach s1)) \<and> m_tick (mach s1) < max_ticks cfg then loop cfg s1 else Some s1) = Some s'"
    by auto
  show "\<exists>k. 0 < k \<and> sim_turns k cfg s = Some s'"
  proof (cases "\<not> is_finished (m_core (mach s1)) \<and> m_tick (mach s1) < max_ticks cfg")
    case True
    then obtain k where "sim_turns k cfg s1 = Some s'" using 1(1) [of cfg s1 s'] s1(2) by auto
    then show ?thesis using s1(1) by (intro exI [of _ "Suc k"]) simp
  next
    case False
    then have "s' = s1" using s1(2) by (auto split: if_splits)
    then show ?thesis using s1(1) by (intro exI [of _ "Suc 0"]) simp
  qed
qed

end
