(* ===== verification/TraceFlow.thy ===== *)
theory TraceFlow
  imports Observe "HOL-Library.Sublist" "HOL-Library.Multiset"
begin

text \<open>
  Which instructions the core holds: the records of the real path in the input buffer, the
  front end and the units behind it. No call but feed\_inst brings one in, so what the core
  holds is always drawn from the trace, and the front end holds it in program order.
\<close>

section \<open>The instructions in the core\<close>

definition real_insts :: "transaction list \<Rightarrow> trace_inst list" where
  "real_insts ts = map tr_inst (filter (\<lambda>t. \<not> is_wrong_path t) ts)"

definition front_insts :: "pipeline \<Rightarrow> trace_inst list" where
  "front_insts p = real_insts (front_list p) @ real_insts (opt_list (input_buffer p))"

definition core_insts :: "pipeline \<Rightarrow> trace_inst multiset" where
  "core_insts p = mset (real_insts (back_list p)) + mset (front_insts p)"

lemma real_insts_simps [simp]:
  "real_insts [] = []" "real_insts (t # ts) = (if is_wrong_path t then [] else [tr_inst t]) @ real_insts ts"
  "real_insts (xs @ ys) = real_insts xs @ real_insts ys"
  by (simp_all add: real_insts_def)

text \<open>A step that brings no instruction into the core.\<close>

definition sheds :: "pipeline \<Rightarrow> pipeline \<Rightarrow> bool" where
  "sheds p p' \<longleftrightarrow> (ring_ok (fetch_queue p) \<longrightarrow>
     ring_ok (fetch_queue p') \<and> subseq (front_insts p') (front_insts p) \<and> core_insts p' \<subseteq># core_insts p)"

lemma sheds_refl [simp]: "sheds p p"
  by (simp add: sheds_def)

lemma sheds_trans: "sheds p q \<Longrightarrow> sheds q r \<Longrightarrow> sheds p r"
  unfolding sheds_def by (meson subseq_order.order_trans subset_mset.order_trans)

definition same_insts :: "pipeline \<Rightarrow> pipeline \<Rightarrow> bool" where
  "same_insts p q \<longleftrightarrow> fetch_queue q = fetch_queue p \<and> sim_pipe q = sim_pipe p \<and> input_buffer q = input_buffer p"

lemma same_sheds: "same_insts p q \<Longrightarrow> sheds p q"
  by (simp add: same_insts_def sheds_def front_insts_def core_insts_def front_list_def back_list_def)

lemma same_insts_trans: "same_insts p q \<Longrightarrow> same_insts q r \<Longrightarrow> same_insts p r"
  by (simp add: same_insts_def)

lemma view_insts: "same_view p q \<Longrightarrow> same_insts p q"
  by (simp add: same_view_def same_insts_def)

definition shed_by :: "pipeline \<Rightarrow> pipeline option \<Rightarrow> bool" where
  "shed_by p f \<longleftrightarrow> (\<forall>p'. f = Some p' \<longrightarrow> sheds p p')"

lemma shed_by_simps [simp]: "shed_by p None" "shed_by p (Some q) = sheds p q"
  by (simp_all add: shed_by_def)

lemma shed_bind: "shed_by p f \<Longrightarrow> (\<And>p1. f = Some p1 \<Longrightarrow> shed_by p1 (g p1)) \<Longrightarrow> shed_by p (f \<bind> g)"
  by (cases f) (auto simp: shed_by_def intro: sheds_trans)

lemma shed_after: "sheds p q \<Longrightarrow> shed_by q f \<Longrightarrow> shed_by p f"
  by (auto simp: shed_by_def intro: sheds_trans)

lemma shed_read: "(\<And>x. f = Some x \<Longrightarrow> shed_by p (g x)) \<Longrightarrow> shed_by p (f \<bind> g)"
  by (cases f) simp_all

lemma assert_that_shed: "(b \<Longrightarrow> shed_by p g) \<Longrightarrow> shed_by p (assert_that b \<bind> (\<lambda>_. g))"
  by (cases b) (simp_all add: assert_that_def)

section \<open>Operations that leave them in place\<close>

lemma stall_same: "same_insts p (flush_stall_cycles u p)" "same_insts p (set_stall e c p)" "same_insts p (stall_unless e b c p)"
  by (simp_all add: view_insts)

lemma schedule_same: "schedule e s t p = Some p' \<Longrightarrow> same_insts p p'"
  "async_schedule e s t p = Some p' \<Longrightarrow> same_insts p p'"
  by (auto simp: async_schedule_def schedule_def same_insts_def)

lemma regs_same: "set_reg_time rd t p = Some p' \<Longrightarrow> same_insts p p'" "wake_decode e p = Some p' \<Longrightarrow> same_insts p p'"
  "update_reg_time e rd t p = Some p' \<Longrightarrow> same_insts p p'"
proof -
  show 1: "set_reg_time rd t p = Some p' \<Longrightarrow> same_insts p p'" for p p'
    by (auto simp: set_reg_time_def same_insts_def split: if_splits)
  show 2: "wake_decode e p = Some p' \<Longrightarrow> same_insts p p'" for p p'
    by (auto simp: wake_decode_def Let_def same_insts_def schedule_def split: if_splits option.splits)
  show "update_reg_time e rd t p = Some p' \<Longrightarrow> same_insts p p'"
    by (auto simp: update_reg_time_def dest!: 1 2 intro: same_insts_trans)
qed

lemma same_insts_upd [simp]:
  "same_insts p (p\<lparr>bpu := u\<rparr>)" "same_insts p (p\<lparr>pstats := s\<rparr>)" "same_insts p (p\<lparr>mul_ready_tick := t\<rparr>)"
  "same_insts p (p\<lparr>div_ready_tick := t\<rparr>)" "same_insts p (p\<lparr>ongoing_insts := n\<rparr>)" "same_insts p (p\<lparr>fetch_st := f\<rparr>)"
  "same_insts p (p\<lparr>stall := sa\<rparr>)" "same_insts p (p\<lparr>port_reqs := rs\<rparr>)" "same_insts p (request r p)" "same_insts p (note_resp b p)"
  "same_insts p (calc_sched e p)" "same_insts p (set_draining p)" "same_insts p (leave_wrong_path p)" "same_insts p (wp_advance pr p)"
  by (simp_all add: same_insts_def request_def note_resp_def calc_sched_def Let_def set_draining_def leave_wrong_path_def wp_advance_def)

lemma shed_schedule [simp]: "shed_by p (schedule e s t p)" "shed_by p (async_schedule e s t p)"
  using schedule_same same_sheds by (auto simp: shed_by_def)

lemma shed_regs [simp]: "shed_by p (update_reg_time e rd t p)" "shed_by p (set_reg_time rd t p)"
  using regs_same same_sheds by (auto simp: shed_by_def)

lemma shed_update [simp]: "same_insts p q \<Longrightarrow> shed_by q f \<Longrightarrow> shed_by p f"
  by (blast intro: shed_after same_sheds)

section \<open>Slots\<close>

lemma subseq_without [simp]: "subseq (xs @ zs) (xs @ ys @ zs)" "subseq zs (ys @ zs)"
  "subseq (xs @ zs) (xs @ ys @ ws @ zs)"
  by (simp_all add: subseq_append' list_emb_append2)

lemmas insts_defs = sheds_def front_insts_def core_insts_def front_list_def back_list_def

lemma slot_sheds: "sheds p (put_slot s None p)"
  by (cases s) (auto simp: insts_defs put_slot_def)

lemma move_sheds:
  "sheds p (move_slot Decode Execute p)" "sheds p (move_slot Decode IntMulExt p)" "sheds p (move_slot Decode IntDivExt p)"
  "sheds p (move_slot Fetch Decode p)" "sheds p (move_slot Execute Memory p)"
  by (auto simp: insts_defs move_slot_def ac_simps)

text \<open>Changing the marks of the instruction in a slot.\<close>

lemma put_same:
  assumes "sim_pipe p Execute = Some t"
  shows "sheds p (put_slot Execute (Some (t\<lparr>wait_mem := b\<rparr>)) p)"
  using assms by (auto simp: insts_defs put_slot_def)

lemma set_waiting_shed [simp]: "shed_by p (set_waiting b p)"
  by (auto simp: shed_by_def set_waiting_def intro: put_same)

section \<open>The flush\<close>

lemma flush_front_sheds: "sheds p (flush_front e p)"
proof -
  have "sheds p (p\<lparr>ongoing_insts := n, fetch_queue := rb_clear (fetch_queue p), sim_pipe := (sim_pipe p)(Fetch := None), fetch_st := f\<rparr>)" for n f
    using rb_clear_spec [of "fetch_queue p"] by (auto simp: insts_defs)
  then show ?thesis
    unfolding flush_front_def Let_def by (rule sheds_trans) (rule same_sheds, simp add: same_insts_def)
qed

lemma flush_false_btb_hit_shed [simp]: "shed_by p (flush_false_btb_hit e t p)"
proof -
  have "sheds p (flush_front e (p\<lparr>bpu := u\<rparr>))" "sheds p (p\<lparr>bpu := u\<rparr>)" for u
    using sheds_trans [OF same_sheds flush_front_sheds, of p "p\<lparr>bpu := u\<rparr>" e] by (simp_all add: same_sheds)
  then show ?thesis by (auto simp: flush_false_btb_hit_def Let_def shed_by_def split: if_splits)
qed

lemma resolve_branch_shed [simp]: "shed_by p (resolve_branch e t p)"
proof -
  have "sheds p (flush_front e (p\<lparr>bpu := u\<rparr>))" "sheds p (p\<lparr>bpu := u\<rparr>)" for u
    using sheds_trans [OF same_sheds flush_front_sheds, of p "p\<lparr>bpu := u\<rparr>" e] by (simp_all add: same_sheds)
  then show ?thesis by (auto simp: resolve_branch_def Let_def shed_by_def split: if_splits)
qed

section \<open>Fetch\<close>

lemma push_sheds:
  assumes "rb_push_back t (fetch_queue p) = Some q" and "real_insts [t] = []"
  shows "sheds p (p\<lparr>fetch_queue := q\<rparr>)"
proof -
  have "\<not> rb_full (fetch_queue p)" using assms(1) by (auto simp: rb_push_back_def)
  then show ?thesis using assms rb_push_back_spec [of "fetch_queue p" t] by (auto simp: insts_defs)
qed

lemma fetch_wrong_shed: "shed_by p (fetch_wrong p)"
proof -
  have "sheds p (wp_advance pr (note_resp False (request r (p\<lparr>bpu := u, fetch_queue := q, pstats := s\<rparr>))))"
    if "rb_push_back (new_transaction i True True) (fetch_queue p) = Some q" for pr r u q s i
  proof -
    have "sheds p (p\<lparr>fetch_queue := q\<rparr>)" by (rule push_sheds [OF that]) (simp add: new_transaction_def)
    then show ?thesis
      by (rule sheds_trans) (rule same_sheds, simp add: same_insts_def wp_advance_def note_resp_def request_def Let_def)
  qed
  then show ?thesis by (auto simp: fetch_wrong_def Let_def shed_by_def split: if_splits)
qed

lemma predict_candidate_same:
  assumes "predict_candidate t0 p = Some (p1, t)"
  shows "same_insts p p1 \<and> tr_inst t = tr_inst t0 \<and> is_wrong_path t = is_wrong_path t0"
  using assms by (auto simp: predict_candidate_def Let_def case_prod_unfold same_insts_def)

text \<open>The instruction in the input buffer moves to the end of the queue.\<close>

lemma fetch_real_shed: "shed_by p (fetch_real e p)"
proof (cases "rb_full (fetch_queue p) \<or> input_buffer p = None")
  case True
  then show ?thesis by (auto simp: fetch_real_def split: option.splits)
next
  case False
  then obtain t0 where t0: "\<not> rb_full (fetch_queue p)" "input_buffer p = Some t0" by auto
  show ?thesis
    unfolding shed_by_def
  proof (intro allI impI)
    fix p' assume f: "fetch_real e p = Some p'"
    obtain p1 t where p1: "predict_candidate t0 (p\<lparr>input_buffer := None\<rparr>) = Some (p1, t)"
      using f t0 by (auto simp: fetch_real_def)
    note c = predict_candidate_same [OF p1]
    have t: "real_insts [t] = real_insts [t0]" using c by simp
    define p2 where "p2 = (if tr_br_mispred t then enter_wrong_path e t p1 else p1)"
    define p3 where "p3 = note_resp False (request (ImemRead (ti_pc (tr_inst t))) p2)"
    define p4 where "p4 = (if tage_overrode_bimodal (tr_br_pred t)
      then p3\<lparr>fetch_st := (fetch_st p3)\<lparr>resume_tick := max (resume_tick (fetch_st p3)) (now e + 2)\<rparr>\<rparr> else p3)"
    define p5 where "p5 = (if \<not> tr_br_mispred t \<and> will_redirect (tr_br_pred t)
      then p4\<lparr>fetch_st := (fetch_st p4)\<lparr>early_redir_remaining := 2, early_redir_seq_pc := ti_pc (tr_inst t) + 4\<rparr>,
              pstats := (pstats p4)\<lparr>early_redirects := early_redirects (pstats p4) + 1\<rparr>\<rparr> else p4)"
    obtain q where q: "rb_push_back t (fetch_queue p5) = Some q" "p' = p5\<lparr>fetch_queue := q\<rparr>"
      using f t0 p1 unfolding fetch_real_def p5_def p4_def p3_def p2_def by (auto simp: Let_def)
    have "same_insts p1 p2" by (simp add: p2_def same_insts_def enter_wrong_path_def Let_def)
    then have "same_insts p1 p5" by (simp add: same_insts_def p3_def p4_def p5_def note_resp_def request_def)
    then have q5: "fetch_queue p5 = fetch_queue p" "sim_pipe p5 = sim_pipe p" "input_buffer p5 = None"
      using c by (simp_all add: same_insts_def)
    have "ring_ok (fetch_queue p) \<Longrightarrow> ring_ok q \<and> rb_list q = rb_list (fetch_queue p) @ [t]"
      using rb_push_back_spec [OF _ t0(1), of t] q(1) q5(1) by auto
    then show "sheds p p'" using q(2) q5 t0(2) t by (simp add: insts_defs del: real_insts_simps(2))
  qed
qed

lemma do_fetch_0_shed: "shed_by p (do_fetch_0 e p)"
proof -
  have "sheds p (set_stall e BrMispred p)" "sheds p (fetch_early p)"
    by (rule same_sheds, simp add: stall_same)
      (rule same_sheds, simp add: fetch_early_def Let_def same_insts_def note_resp_def request_def)
  moreover have "shed_by p (fetch_real e (leave_wrong_path p))"
    by (rule shed_after [OF _ fetch_real_shed]) (rule same_sheds, simp)
  ultimately show ?thesis by (simp add: do_fetch_0_def fetch_wrong_shed fetch_real_shed)
qed

text \<open>Changing the marks of an entry of the queue.\<close>

lemma queue_put_sheds:
  assumes "rb_at (fetch_queue p) i = Some t" "i < rb_cnt (fetch_queue p)" "tr_inst t' = tr_inst t" "is_wrong_path t' = is_wrong_path t"
  shows "sheds p (p\<lparr>fetch_queue := rb_put i t' (fetch_queue p)\<rparr>)"
proof -
  have "i < length xs \<Longrightarrow> xs ! i = t \<Longrightarrow> real_insts (xs[i := t']) = real_insts xs" for xs i
    using assms(3,4) by (induction xs arbitrary: i) (auto split: nat.splits)
  moreover have "rb_list (fetch_queue p) ! i = t" using assms(1,2) by simp
  ultimately show ?thesis using rb_put_spec [of "fetch_queue p" i t'] assms(2) by (auto simp: insts_defs)
qed

lemma do_fetch_1_shed: "shed_by p (do_fetch_1 e p)"
proof (cases "rb_front (fetch_queue p)")
  case (Some t)
  have ne: "rb_cnt (fetch_queue p) \<noteq> 0" using Some by (auto simp: rb_front_def rb_empty_def)
  have t: "ring_ok (fetch_queue p) \<Longrightarrow> rb_at (fetch_queue p) 0 = Some t"
    using Some ne by (auto simp: rb_front_def rb_at_def rb_slot_0)
  have hold: "sheds p (p\<lparr>fetch_queue := rb_put 0 (t\<lparr>bp_meta_hold := n\<rparr>) (fetch_queue p)\<rparr>)" for n
    using queue_put_sheds [of p 0 t "t\<lparr>bp_meta_hold := n\<rparr>"] t ne by (auto simp: sheds_def)
  have pop: "sheds p (put_slot Fetch (Some t) (p\<lparr>fetch_queue := q\<rparr>))" if "rb_pop_front (fetch_queue p) = Some q" "sim_pipe p Fetch = None" for q
  proof -
    have "ring_ok q \<and> rb_list (fetch_queue p) = t # rb_list q" if "ring_ok (fetch_queue p)"
      using rb_pop_front_spec [OF that] rb_front_spec [OF that] ne Some \<open>rb_pop_front (fetch_queue p) = Some q\<close>
      by (cases "rb_list (fetch_queue p)") (auto simp flip: length_0_conv)
    then show ?thesis using that(2) by (auto simp: insts_defs put_slot_def)
  qed
  have "shed_by p (schedule e Fetch u (p\<lparr>fetch_queue := rb_put 0 (t\<lparr>bp_meta_hold := n\<rparr>) (fetch_queue p)\<rparr>))" for u n
    by (rule shed_after [OF hold shed_schedule(1)])
  then show ?thesis using Some ne pop by (auto simp: do_fetch_1_def rb_empty_def intro!: shed_read assert_that_shed) 
next
  case None
  then show ?thesis by (simp add: do_fetch_1_def)
qed

lemma handle_ifu_resp_shed: "shed_by p (handle_ifu_resp e p)"
  unfolding shed_by_def
proof (intro allI impI)
  fix p' assume h: "handle_ifu_resp e p = Some p'"
  then obtain orphan rest where o': "resp_is_orphan (fetch_st p) = orphan # rest" by (auto simp: handle_ifu_resp_def split: list.splits)
  define p1 where "p1 = p\<lparr>fetch_st := (fetch_st p)\<lparr>resp_is_orphan := rest\<rparr>\<rparr>"
  have s1: "sheds p p1" by (rule same_sheds) (simp add: p1_def)
  show "sheds p p'"
  proof (cases orphan)
    case True
    then show ?thesis using h o' s1 by (simp add: handle_ifu_resp_def p1_def)
  next
    case False
    obtain i t where i: "rb_find_if (\<lambda>t. case t of Some x \<Rightarrow> wait_mem x | None \<Rightarrow> False) (fetch_queue p1) = Some i"
        "rb_at (fetch_queue p1) i = Some t"
        "async_schedule e Fetch (now e + 1) (p1\<lparr>fetch_queue := rb_put i (t\<lparr>wait_mem := False\<rparr>) (fetch_queue p1)\<rparr>) = Some p'"
      using h o' False by (auto simp: handle_ifu_resp_def Let_def p1_def)
    have "i < rb_cnt (fetch_queue p1)" using i(1) by (auto simp: rb_find_if_def find_Some_iff)
    then have "sheds p1 (p1\<lparr>fetch_queue := rb_put i (t\<lparr>wait_mem := False\<rparr>) (fetch_queue p1)\<rparr>)"
      using queue_put_sheds [OF i(2), of "t\<lparr>wait_mem := False\<rparr>"] by simp
    from sheds_trans [OF s1 sheds_trans [OF this same_sheds [OF schedule_same(2) [OF i(3)]]]] show ?thesis .
  qed
qed

section \<open>The other stages\<close>

lemma pass_decode_shed: "shed_by p (pass_decode e a r i p)"
  unfolding pass_decode_def Let_def
  by (rule shed_after [OF same_sheds [OF stall_same(3)]], rule shed_bind [OF shed_schedule(1)], rule shed_bind [OF shed_regs(2)]) (simp add: move_sheds)

lemma stalled_shed: "shed_by p (schedule e s t (stall_unless e a c p))"
  by (rule shed_after [OF same_sheds [OF stall_same(3)] shed_schedule(1)])

lemma do_decode_shed: "shed_by p (do_decode e p)"
proof (cases "sim_pipe p Fetch")
  case (Some t)
  have "shed_by p (drop_wrong_path e p)"
    unfolding drop_wrong_path_def Let_def
    by (rule shed_after [OF _ shed_schedule(1)], rule sheds_trans [OF _ slot_sheds]) (simp add: same_sheds stall_same)
  then show ?thesis
    using Some by (auto simp: do_decode_def Let_def stalled_shed pass_decode_shed intro!: shed_read)
qed (simp add: do_decode_def)

text \<open>The units take the instruction out of the decode slot.\<close>

lemma do_execute_shed: "shed_by p (do_execute e p)"
  unfolding do_execute_def Let_def
  by (intro assert_that_shed shed_read) (auto intro!: shed_bind [OF resolve_branch_shed] shed_bind [OF flush_false_btb_hit_shed]
      shed_bind [OF shed_regs(1)] shed_after [OF move_sheds(1) shed_schedule(1)] simp: forward_result_def)

lemma do_mul_ext_shed: "shed_by p (do_mul_ext e p)"
proof -
  have "shed_by p1 (update_reg_time e d u (p1\<lparr>mul_ready_tick := v\<rparr>))" for p1 d u v
    by (rule shed_after [OF same_sheds shed_regs(1)]) simp
  then show ?thesis
    unfolding do_mul_ext_def Let_def
    by (intro assert_that_shed shed_read) (auto intro!: shed_bind [OF flush_false_btb_hit_shed] shed_bind [OF shed_schedule(1)]
      shed_bind [OF shed_schedule(2)] shed_bind [of _ "update_reg_time e d u (p1\<lparr>mul_ready_tick := v\<rparr>)" for p1 d u v] move_sheds)
qed

lemma do_div_ext_shed: "shed_by p (do_div_ext e p)"
proof -
  have "shed_by p1 (update_reg_time e d u (p1\<lparr>div_ready_tick := v\<rparr>))" for p1 d u v
    by (rule shed_after [OF same_sheds shed_regs(1)]) simp
  then show ?thesis
    unfolding do_div_ext_def Let_def
    by (intro assert_that_shed shed_read) (auto intro!: shed_bind [OF flush_false_btb_hit_shed] shed_bind [OF shed_schedule(1)]
      shed_bind [OF shed_schedule(2)] shed_bind [of _ "update_reg_time e d u (p1\<lparr>div_ready_tick := v\<rparr>)" for p1 d u v] move_sheds)
qed

lemma send_lsu_req_shed: "shed_by p (send_lsu_req e port a d s w p)"
  unfolding send_lsu_req_def Let_def
  by (intro shed_read) (auto intro!: shed_bind [OF shed_schedule(1)] shed_bind [OF set_waiting_shed] simp: same_sheds split: prod.splits)

lemma stalled_send_shed: "shed_by p (send_lsu_req e port a d s w (set_stall e c p))"
  by (rule shed_after [OF same_sheds [OF stall_same(2)] send_lsu_req_shed])

lemma do_memory_shed: "shed_by p (do_memory e p)"
proof -
  have w: "shed_by p (set_waiting b (set_stall e c p))" for b c
    by (rule shed_after [OF same_sheds [OF stall_same(2)] set_waiting_shed])
  have r: "shed_by p1 (if b then update_reg_time e d u p1 else Some p1)" for p1 b d u by simp
  show ?thesis
    unfolding do_memory_def Let_def
    by (intro shed_read) (auto intro!: shed_bind [OF stalled_send_shed] shed_bind [OF w] shed_bind [OF set_waiting_shed] shed_bind [OF r] shed_bind [OF shed_regs(1)]
      shed_bind [OF shed_schedule(1)] move_sheds stalled_send_shed)
qed

lemma handle_lsu_resp_shed: "shed_by p (handle_lsu_resp e p)"
proof -
  have b: "shed_by p (blocked_by_raw e (set_stall e c p))" for p c
    by (auto simp: blocked_by_raw_def same_sheds stall_same intro!: shed_read same_sheds intro: same_insts_trans [OF stall_same(2) stall_same(2)] split: option.splits)
  have r: "shed_by p1 (if b then update_reg_time e d u p1 else Some p1)" for p1 b d u by simp
  show ?thesis
    unfolding handle_lsu_resp_def Let_def
    by (intro shed_read assert_that_shed shed_bind [OF set_waiting_shed] shed_bind [OF r] shed_bind [OF b] shed_bind [OF shed_schedule(2)])
      (simp add: move_sheds)
qed

lemma do_writeback_shed: "shed_by p (do_writeback e p)"
proof -
  have "same_insts p (count_inst e (commit_stall e t (p\<lparr>ongoing_insts := n\<rparr>)))" for t n
    by (simp add: same_insts_def count_inst_def commit_stall_def Let_def)
  then have "sheds p (put_slot src None (count_inst e (commit_stall e t (p\<lparr>ongoing_insts := n\<rparr>))))" for src t n
    by (rule sheds_trans [OF same_sheds slot_sheds])
  then show ?thesis
    by (auto simp: do_writeback_def Let_def split: option.splits intro!: shed_read shed_after [OF _ shed_schedule(1)])
qed

lemma run_stage_shed: "shed_by p (run_stage e s p)"
  by (cases s) (simp_all add: run_stage_def do_fetch_1_shed do_decode_shed do_execute_shed do_mul_ext_shed do_div_ext_shed do_memory_shed do_writeback_shed)

lemma run_stages_shed: "shed_by p (run_stages e ss p)"
proof (induction ss arbitrary: p)
  case (Cons s ss)
  then show ?case by (simp add: shed_bind [OF run_stage_shed])
qed simp

lemma pipe_do_update_shed: "shed_by p (pipe_do_update e p)"
proof -
  have "shed_by p (run_stages e ss (p\<lparr>bpu := u\<rparr>))" for ss u
    by (rule shed_after [OF same_sheds run_stages_shed]) simp
  then have "shed_by p (pipe_update_impl e p)"
    unfolding pipe_update_impl_def
    by (rule shed_bind) (auto intro!: shed_bind [OF do_fetch_0_shed] same_sheds)
  then show ?thesis by (simp add: pipe_do_update_def)
qed

lemma recv_mem_resp_shed: "shed_by p (recv_mem_resp e i w p)"
  by (auto simp: recv_mem_resp_def handle_lsu_resp_shed intro!: assert_that_shed handle_ifu_resp_shed)

lemma ack_mem_avail_shed: "shed_by p (ack_mem_avail e i p)"
  by (auto simp: ack_mem_avail_def split: option.splits)

lemma reset_sheds: "same_insts p (pipe_reset_stats t (p\<lparr>bpu := u\<rparr>))"
  by (simp add: same_insts_def pipe_reset_stats_def)

text \<open>Feeding brings in one instruction, behind all others.\<close>

lemma feed_inst_insts:
  assumes "feed_inst e i p = Some p'" and "ring_ok (fetch_queue p)"
  shows "ring_ok (fetch_queue p') \<and> subseq (front_insts p') (front_insts p @ [i]) \<and> core_insts p' \<subseteq># add_mset i (core_insts p)"
proof -
  let ?p = "p\<lparr>ongoing_insts := ongoing_insts p + 1, input_buffer := Some (new_transaction i False False)\<rparr>"
  have f: "do_fetch_0 e ?p = Some p'" "input_buffer p = None" using assms(1) by (auto simp: feed_inst_def)
  have "front_insts ?p = front_insts p @ [i]" "core_insts ?p = add_mset i (core_insts p)"
    using f(2) by (simp_all add: front_insts_def core_insts_def front_list_def back_list_def new_transaction_def)
  moreover have "sheds ?p p'" using do_fetch_0_shed [of ?p e] f(1) by (simp add: shed_by_def)
  ultimately show ?thesis using assms(2) by (simp add: sheds_def)
qed

section \<open>The instructions of the trace\<close>

definition drawn_from :: "trace_inst list \<Rightarrow> pipeline \<Rightarrow> bool" where
  "drawn_from tr p \<longleftrightarrow> ring_ok (fetch_queue p) \<and> subseq (front_insts p) tr \<and> core_insts p \<subseteq># mset tr"

lemma drawn_shed: "drawn_from tr p \<Longrightarrow> sheds p p' \<Longrightarrow> drawn_from tr p'"
  unfolding sheds_def drawn_from_def by (meson subseq_order.order_trans subset_mset.order_trans)

lemma drawn_shed_by: "drawn_from tr p \<Longrightarrow> shed_by p f \<Longrightarrow> f = Some p' \<Longrightarrow> drawn_from tr p'"
  by (auto simp: shed_by_def intro: drawn_shed)

lemma drawn_same: "same_insts p q \<Longrightarrow> drawn_from tr q = drawn_from tr p"
  by (simp add: drawn_from_def same_insts_def front_insts_def core_insts_def front_list_def back_list_def)

interpretation drawn: port_observer "\<lambda>_. drawn_from tr" "\<lambda>_. True" "\<lambda>_. True"
proof unfold_locales
  fix p p' :: pipeline and e k w rs t
  show "drawn_from tr p \<Longrightarrow> recv_mem_resp e k w p = Some p' \<Longrightarrow> drawn_from tr p'" by (rule drawn_shed_by [OF _ recv_mem_resp_shed])
  show "drawn_from tr p \<Longrightarrow> ack_mem_avail e k p = Some p' \<Longrightarrow> drawn_from tr p'" by (rule drawn_shed_by [OF _ ack_mem_avail_shed])
  show "drawn_from tr p \<Longrightarrow> pipe_do_update e p = Some p' \<Longrightarrow> drawn_from tr p'" by (rule drawn_shed_by [OF _ pipe_do_update_shed])
  show "drawn_from tr (p\<lparr>port_reqs := rs\<rparr>) = drawn_from tr p" "drawn_from tr (set_draining p) = drawn_from tr p"
    by (rule drawn_same, simp)+
  show "drawn_from tr p \<Longrightarrow> drawn_from tr (pipe_reset_stats t (p\<lparr>bpu := unit_reset_stats (bpu p)\<rparr>))"
    by (simp only: drawn_same [OF reset_sheds])
qed simp_all

lemma drawn_feed:
  assumes "core_feed i m = Some m'" and "drawn_from tr (m_core m)"
  shows "drawn_from (tr @ [i]) (m_core m') \<and> m_tick m' = m_tick m"
proof -
  obtain p where p: "feed_inst (main_env m) i (m_core m) = Some p" "with_core p m = Some m'" using assms(1) by (auto simp: core_feed_def)
  have d: "ring_ok (fetch_queue (m_core m))" "subseq (front_insts (m_core m)) tr" "core_insts (m_core m) \<subseteq># mset tr"
    using assms(2) by (simp_all add: drawn_from_def)
  note f = feed_inst_insts [OF p(1) d(1)]
  have "subseq (front_insts (m_core m) @ [i]) (tr @ [i])" using d(2) by (simp add: list_emb_append_mono)
  moreover have "add_mset i (core_insts (m_core m)) \<subseteq># mset (tr @ [i])" using d(3) by simp
  ultimately have "drawn_from (tr @ [i]) p" using f unfolding drawn_from_def by (meson subseq_order.order_trans subset_mset.order_trans)
  then have "seen (\<lambda>_. drawn_from (tr @ [i])) (\<lambda>_. True) (\<lambda>_. True) (m_tick m) (m\<lparr>m_core := p\<lparr>port_reqs := []\<rparr>\<rparr>)"
    by (simp add: seen_def drawn_same [of p "p\<lparr>port_reqs := []\<rparr>"] split: dport.splits)
  from drawn.send_all_seen [OF p(2) [unfolded with_core_def] this] show ?thesis by (simp add: seen_def)
qed

text \<open>What main has taken from the trace, and what it has done with it.\<close>

definition fed_ok :: "trace_inst list \<Rightarrow> simulation \<Rightarrow> bool" where
  "fed_ok tr s \<longleftrightarrow> inst_cnt s \<le> length tr \<and> read_trace (sim_input s) = drop (inst_cnt s) tr \<and>
     sanitizer_all s = fold record_inst (take (inst_cnt s) tr) san_zero \<and> drawn_from (take (inst_cnt s) tr) (m_core (mach s))"

abbreviation drawn_machine :: "trace_inst list \<Rightarrow> nat \<Rightarrow> machine \<Rightarrow> bool" where
  "drawn_machine tr n m \<equiv> seen (\<lambda>_. drawn_from (take n tr)) (\<lambda>_. True) (\<lambda>_. True) (m_tick m) m"

lemma drawn_machine: "drawn_machine tr n m = drawn_from (take n tr) (m_core m)"
  by (simp add: seen_def split: dport.splits)

lemma feed_phase_fed:
  assumes "feed_phase cfg s = Some s'" and "fed_ok tr s"
  shows "fed_ok tr s' \<and> m_tick (mach s') = m_tick (mach s)"
proof -
  have drain: "drawn_from x (m_core (drain_core m)) = drawn_from x (m_core m)" "m_tick (drain_core m) = m_tick m" for x m
    by (simp_all add: drain_core_def drawn_same [of "m_core m"])
  consider (fed) i rest m where "next_inst (sim_input s) = Some (i, rest)" "core_feed i (mach s) = Some m"
      "s' = s\<lparr>mach := m, sim_input := rest, sim_inst := i, inst_cnt := inst_cnt s + 1,
              sanitizer := record_inst i (sanitizer s), sanitizer_all := record_inst i (sanitizer_all s)\<rparr>"
    | (rest) "s' = s \<or> s' = s\<lparr>has_next := False, mach := drain_core (mach s)\<rparr> \<or> s' = s\<lparr>mach := drain_core (mach s)\<rparr>"
  proof (cases "inst_avail (m_core (mach s)) \<and> \<not> stop_after_dump s \<and> has_next s \<and> inst_cnt s < max_insts cfg")
    case True
    then show ?thesis
      using that assms(1) by (cases "next_inst (sim_input s)") (auto simp only: feed_phase_def option.case prod.case split: if_splits, auto simp: feed_phase_def)
  next
    case False
    then show ?thesis using rest assms(1) by (auto simp: feed_phase_def split: if_splits)
  qed
  then show ?thesis
  proof cases
    case fed
    have "drop (inst_cnt s) tr = i # read_trace rest" using read_trace_next [OF fed(1)] assms(2) by (simp add: fed_ok_def)
    then have n: "inst_cnt s < length tr" "tr ! inst_cnt s = i" "read_trace rest = drop (Suc (inst_cnt s)) tr"
      by (auto simp: drop_Suc tl_drop nth_via_drop) (metis drop_eq_Nil leI list.simps(3), metis list.sel(3) tl_drop)
    have t: "take (Suc (inst_cnt s)) tr = take (inst_cnt s) tr @ [i]" using n by (simp add: take_Suc_conv_app_nth)
    show ?thesis using drawn_feed [OF fed(2), of "take (inst_cnt s) tr"] assms(2) n t by (simp add: fed_ok_def fed(3))
  next
    case rest
    then show ?thesis using assms(2) drain by (auto simp: fed_ok_def)
  qed
qed

lemma sys_phase_frame:
  "sys_phase s = Some s' \<Longrightarrow> inst_cnt s' = inst_cnt s \<and> sim_input s' = sim_input s \<and> sanitizer_all s' = sanitizer_all s"
  by (auto simp: sys_phase_def Let_def split: if_splits)

lemma sim_iter_fed:
  assumes "sim_iter cfg s = Some s'" and f: "fed_ok tr s"
  shows "fed_ok tr s'"
proof -
  obtain m1 s1 m2 where u: "update_devices (mach s) = Some m1" "feed_phase cfg (s\<lparr>mach := m1\<rparr>) = Some s1"
      "set_global_tick (m_tick (mach s1) + 1) (mach s1) = Some m2" "sys_phase (s1\<lparr>mach := m2\<rparr>) = Some s'"
    using assms(1) by (auto simp: sim_iter_def)
  have "drawn_machine tr (inst_cnt s) (mach s)" using f by (simp add: drawn_machine fed_ok_def)
  from drawn.update_devices_seen [OF u(1) this] have "fed_ok tr (s\<lparr>mach := m1\<rparr>)" using f by (simp add: fed_ok_def seen_def)
  from feed_phase_fed [OF u(2) this] have s1: "fed_ok tr s1" by simp
  have "m_core m2 = m_core (mach s1)" using u(3) by (auto simp: set_global_tick_def)
  then have "drawn_machine tr (inst_cnt s1) m2" using s1 by (simp add: drawn_machine fed_ok_def)
  then have "drawn_from (take (inst_cnt s1) tr) (m_core (mach s'))"
    using drawn.sys_phase_seen [OF u(4), of "take (inst_cnt s1) tr" "m_tick m2"] by (simp add: seen_def)
  then show ?thesis using sys_phase_frame [OF u(4)] s1 by (simp add: fed_ok_def)
qed

lemma sim_turns_fed: "sim_turns k cfg s = Some s' \<Longrightarrow> fed_ok tr s \<Longrightarrow> fed_ok tr s'"
proof (induction k arbitrary: s)
  case (Suc k)
  then show ?case using sim_iter_fed by (cases "sim_iter cfg s") auto
qed simp

lemma start_fed: "build_machine nx cfg = Some m \<Longrightarrow> fed_ok (read_trace bytes) (start_simulation m bytes i)"
  by (auto simp: build_machine_def fed_ok_def start_simulation_def drawn_from_def new_pipeline_def new_ring_ok new_ring_list ifq_size_def
      front_insts_def core_insts_def front_list_def back_list_def)

text \<open>The instructions in the core are the ones its counter counts.\<close>

lemma core_insts_flight:
  assumes "pipe_base T p"
  shows "size (core_insts p) = in_flight p"
proof -
  have "length (real_insts ts) = real_count ts" if "\<forall>t\<in>set ts. counted_inflight t = (\<not> is_wrong_path t)" for ts
    using that by (induction ts) auto
  moreover have "\<forall>t\<in>set (front_list p). counted_inflight t = (\<not> is_wrong_path t)" "\<forall>t\<in>set (back_list p). counted_inflight t = (\<not> is_wrong_path t)"
      "\<forall>t\<in>set (opt_list (input_buffer p)). counted_inflight t = (\<not> is_wrong_path t)"
    using assms by (auto simp: pipe_base_def trans_ok_def slot_all_def opt_list_def split: option.splits)
  ultimately show ?thesis by (simp add: core_insts_def front_insts_def in_flight_def)
qed

section \<open>The trace and the run\<close>

text \<open>
  (C2) Nothing is lost, invented or reordered between the trace and the core. Between any two
  turns the records fed are the first ones of the trace and the input holds the rest; the
  sanitizer has seen exactly the ones fed; the front end holds records of the trace in program
  order, and no unit holds one that was not fed or holds it twice. If no instruction resets the
  statistics, every record fed is in the core or counted as committed, and the core reports that
  it has finished exactly when it holds none. The state in which the loop stops is one of these.
\<close>

theorem run_accounts_for_trace:
  assumes "build_machine nx cfg = Some m" and "config_ok cfg" and "list_all inst_ok (read_trace bytes)"
    and "k \<le> 2 ^ 64 - 2 ^ 34" and "sim_turns k cfg (start_simulation m bytes i) = Some s"
  defines "trace \<equiv> read_trace bytes" and "n \<equiv> inst_cnt s" and "p \<equiv> m_core (mach s)"
  shows "n \<le> length trace \<and> read_trace (sim_input s) = drop n trace \<and>
    sanitizer_all s = fold record_inst (take n trace) san_zero \<and>
    subseq (front_insts p) (take n trace) \<and> core_insts p \<subseteq># mset (take n trace) \<and>
    (no_reset i \<and> list_all no_reset trace \<longrightarrow> n = size (core_insts p) + ps_insts (pstats p)) \<and>
    is_finished p = (core_insts p = {#})"
proof -
  let ?n = "no_reset i \<and> list_all no_reset (read_trace bytes)"
  have f: "fed_ok trace s" unfolding trace_def by (rule sim_turns_fed [OF assms(5) start_fed [OF assms(1)]])
  note st = start_ok [OF assms(1-3), of ?n i]
  have "m_tick (mach (start_simulation m bytes i)) + k + 1 + 2 ^ 33 < InfTime" using st(2) assms(4) by (simp add: InfTime_def)
  from sim_turns_ok [OF st(1) [where cfg = cfg] this] have "sim_ok ?n cfg False s" using assms(5) by auto
  then obtain j where j: "machine_ok False (inst_cnt s) j (mach s)" "?n \<longrightarrow> j = 0" by (auto simp: sim_ok_def)
  have "pipe_inv (edge (as_core (mach s) False (inst_cnt s) j)) p"
    using core_invD(2) [of "as_core (mach s) False (inst_cnt s) j"] j(1) by (simp add: machine_ok_data p_def)
  then have sz: "size (core_insts p) = in_flight p" by (rule core_insts_flight [OF pipe_invD(1)])
  note fl = finished_flight [OF j(1), folded p_def]
  have "is_finished p = (core_insts p = {#})" using fl(1) sz by (metis size_empty size_eq_0_iff_empty)
  then show ?thesis using f fl(2) sz j(2) by (auto simp: fed_ok_def drawn_from_def n_def p_def trace_def)
qed

theorem run_accounts_for_trace_witness:
  "\<exists>m s. build_machine 0 demo_config = Some m \<and> sim_turns 1000 demo_config (start_simulation m demo_bytes inst_zero) = Some s \<and>
    subseq (front_insts (m_core (mach s))) (take (inst_cnt s) demo_insts) \<and>
    inst_cnt s = size (core_insts (m_core (mach s))) + ps_insts (pstats (m_core (mach s)))"
proof -
  obtain m where m: "build_machine 0 demo_config = Some m" using demo_build by blast
  have t: "list_all inst_ok (read_trace demo_bytes)" unfolding read_demo by (rule demo_insts_ok(1))
  note st = start_ok [OF m demo_config_ok(1) t, of False inst_zero]
  have "m_tick (mach (start_simulation m demo_bytes inst_zero)) + 1000 + 1 + 2 ^ 33 < InfTime" using st(2) by (simp add: InfTime_def)
  from sim_turns_ok [OF st(1) this] obtain s where s: "sim_turns 1000 demo_config (start_simulation m demo_bytes inst_zero) = Some s" by auto
  show ?thesis
    using run_accounts_for_trace [OF m demo_config_ok(1) t _ s] m s demo_insts_ok(2,3) unfolding read_demo by auto
qed

end
