(* ===== verification/Counters.thy ===== *)
theory Counters
  imports Observe PipeAcct
begin

text \<open>
  The counters the report is made of are consistent between any two turns: a cache counts every
  access as a hit or as a miss, a mispredicted branch has one cause and was counted as a branch,
  and the core retires at most one instruction per charged cycle.
\<close>

section \<open>Caches\<close>

definition cs_ok :: "cache_stats \<Rightarrow> bool" where
  "cs_ok s \<longleftrightarrow> cs_accesses s = cs_hits s + cs_misses s"

lemma bind_SomeE: "x \<bind> f = Some y \<Longrightarrow> (\<And>a. x = Some a \<Longrightarrow> f a = Some y \<Longrightarrow> P) \<Longrightarrow> P"
  by auto

lemma count_access_cs [simp]: "cs_ok (stats (count_access h c)) = cs_ok (stats c)"
  by (simp add: count_access_def cs_ok_def)

lemma reset_cs [simp]: "cs_ok (cs_reset_stats s)"
  by (simp add: cs_reset_stats_def cs_ok_def)

lemma put_line_stats [simp]: "stats (put_line c p l) = stats c"
  by (simp add: put_line_def)

lemma note_stats [simp]: "stats (note_lag si c) = stats c" "stats (note_useful p c) = stats c"
  by (simp_all add: note_lag_def note_useful_def split: option.splits)

lemma access_hit_stats: "access_hit t si i c = Some (c', p) \<Longrightarrow> stats c' = stats (count_access True c)"
  unfolding access_hit_def Let_def by (elim bind_SomeE) (auto simp del: count_access_sel)

lemma access_miss_stats: "access_miss si c = Some (c', p) \<Longrightarrow> stats c' = stats (count_access False c)"
  unfolding access_miss_def Let_def by (elim bind_SomeE) (auto simp del: count_access_sel)

lemma access_cs: "access t a c = Some (c', p) \<Longrightarrow> cs_ok (stats c') = cs_ok (stats c)"
proof -
  assume "access t a c = Some (c', p)"
  then have "\<exists>h. stats c' = stats (count_access h c)"
    unfolding access_def Let_def
    by (elim bind_SomeE) (cases "first_idx (holds_tag (tagOf c a)) (setsArr c ! setIndexOf c a)";
        simp; blast dest: access_hit_stats access_miss_stats)
  then show ?thesis by auto
qed

lemma save_evict_stats: "save_evict_info a c = Some c' \<Longrightarrow> stats c' = stats c"
proof (cases "write_back c")
  case True
  assume "save_evict_info a c = Some c'"
  then show ?thesis
    using True unfolding save_evict_info_def Let_def
    by (auto simp del: bind_eq_Some_conv elim!: bind_SomeE split: if_splits)
qed (auto simp: save_evict_info_def)

lemma handle_prefetch_stats: "handle_prefetch t a h c = Some (c', b) \<Longrightarrow> stats c' = stats c"
  by (auto simp: handle_prefetch_def Let_def split: option.splits prod.splits if_splits)

lemma respond_stats: "respond t m c = (c', evs) \<Longrightarrow> stats c' = stats c"
  by (auto simp: respond_def split: if_splits)

lemma handle_hit_stats: "handle_hit t bk p c = Some (c', evs) \<Longrightarrow> stats c' = stats c"
  by (auto simp: handle_hit_def Let_def split: if_splits dest!: respond_stats)

lemma lookup_back_cs: "lookup_back t bk c = Some (c', p) \<Longrightarrow> cs_ok (stats c') = cs_ok (stats c)"
  by (auto simp: lookup_back_def set_back_def split: option.splits dest!: access_cs save_evict_stats)

lemma serve_target_cs:
  assumes "serve_target t c = Some (b, c', evs)"
  shows "cs_ok (stats c') = cs_ok (stats c)"
proof (cases "last (pipe c)")
  case None
  then show ?thesis using assms by (auto simp: serve_target_def)
next
  case (Some bk)
  then obtain c1 p where l: "lookup_back t bk c = Some (c1, p)" using assms by (auto simp: serve_target_def)
  have "stats c' = stats c1"
    using assms Some l
    by (auto simp: serve_target_def Let_def serve_miss_def set_back_def split: if_splits
        dest!: handle_hit_stats handle_prefetch_stats)
  then show ?thesis using lookup_back_cs [OF l] by simp
qed

lemma shift_pipe_cs: "shift_pipe t c = Some (c', evs) \<Longrightarrow> cs_ok (stats c') = cs_ok (stats c)"
  by (auto simp: shift_pipe_def Let_def set_back_def split: option.splits if_splits dest!: access_cs save_evict_stats)

lemma pc_do_update_cs:
  assumes "pc_do_update t c = Some (c', evs)"
  shows "cs_ok (stats c') = cs_ok (stats c)"
proof (cases "pc_next_update c \<le> t")
  case True
  obtain c0 e0 where d: "deliver_sched t c = (c0, e0)" by fastforce
  have c0: "stats c0 = stats c" using d by (auto simp: deliver_sched_def split: if_splits)
  obtain b c1 e1 where s: "serve_target t c0 = Some (b, c1, e1)"
    using assms True d by (auto simp: pc_do_update_def pc_update_impl_def)
  show ?thesis
    using assms True d s serve_target_cs [OF s] c0
    by (auto simp: pc_do_update_def pc_update_impl_def handle_flush_def split: if_splits dest!: shift_pipe_cs)
next
  case False
  then show ?thesis using assms by (simp add: pc_do_update_def)
qed

lemma enter_pipe_stats: "enter_pipe t r c = Some c' \<Longrightarrow> stats c' = stats c"
  by (auto simp: enter_pipe_def)

lemma write_through_cs:
  assumes "write_through t a d s c = Some (c', evs)"
  shows "cs_ok (stats c') = cs_ok (stats c)"
proof -
  obtain b c1 where b: "probe c a = Some b" "stats c' = stats c1" "\<not> b \<Longrightarrow> c1 = c"
      "b \<Longrightarrow> (\<exists>c0 p. access t a c = Some (c0, p) \<and> stats c1 = stats c0)"
    using assms unfolding write_through_def
    by (elim bind_SomeE) (auto split: if_splits)
  show ?thesis
  proof (cases b)
    case True
    then obtain c0 p where "access t a c = Some (c0, p)" "stats c1 = stats c0" using b(4) by blast
    then show ?thesis using access_cs [of t a c c0 p] b(2) by simp
  qed (use b in simp)
qed

lemma handle_fill_stats: "handle_fill t p a ret c = Some c' \<Longrightarrow> stats c' = stats c"
  unfolding handle_fill_def Let_def by (elim bind_SomeE) auto

lemma pc_requests_cs:
  "pc_read_req t a c = Some c' \<Longrightarrow> cs_ok (stats c') = cs_ok (stats c)"
  "pc_write_req t a d s c = Some (c', evs) \<Longrightarrow> cs_ok (stats c') = cs_ok (stats c)"
  "pc_recv_mem_resp t q c = Some c' \<Longrightarrow> cs_ok (stats c') = cs_ok (stats c)"
  by (auto simp: pc_read_req_def pc_write_req_def pc_recv_mem_resp_def Let_def
      split: if_splits dest!: enter_pipe_stats write_through_cs handle_fill_stats)

lemma nc_calls_cs:
  "nc_read_req a c = Some (c', evs) \<Longrightarrow> cs_ok (stats c') = cs_ok (stats c)"
  "nc_write_req a d s c = Some (c', evs) \<Longrightarrow> cs_ok (stats c') = cs_ok (stats c)"
  "nc_recv_mem_resp q c = Some (c', evs) \<Longrightarrow> cs_ok (stats c') = cs_ok (stats c)"
  "cs_ok (stats (nc_do_update t c)) = cs_ok (stats c)"
  "cs_ok (stats (nc_flush_all c)) = cs_ok (stats c)"
  by (auto simp: nc_read_req_def nc_write_req_def nc_recv_mem_resp_def nc_do_update_def nc_update_impl_def nc_flush_all_def
      split: if_splits)

section \<open>The branch unit\<close>

definition bp_counts :: "bp_stats \<Rightarrow> bool" where
  "bp_counts s \<longleftrightarrow> bs_misses s \<le> bs_br_accesses s \<and> bs_br_accesses s \<le> bs_accesses s \<and>
     bs_misses s = bs_no_target s + bs_bad_pred s + bs_bad_target s"

text \<open>TAGE has judged its own directions as often as those of its base predictor.\<close>

definition tage_sums :: "tage_stats \<Rightarrow> bool" where
  "tage_sums s \<longleftrightarrow> ts_tage_correct s + ts_tage_mispred s = ts_bimodal_correct s + ts_bimodal_mispred s"

definition tage_counts :: "bpred \<Rightarrow> bool" where
  "tage_counts p \<longleftrightarrow> (case p of TagePred t \<Rightarrow> tage_sums (tage_stats t) | _ \<Rightarrow> True)"

definition unit_counts :: "branch_unit \<Rightarrow> bool" where
  "unit_counts u \<longleftrightarrow> bp_counts (bu_stats u) \<and> tage_counts (bu_bpu u)"

definition on_unit :: "pipeline \<Rightarrow> bool" where
  "on_unit p \<longleftrightarrow> unit_counts (bpu p)"

lemma tage_sums_upd [simp]:
  "tage_sums (s\<lparr>ts_alloc_tried := n\<rparr>) = tage_sums s" "tage_sums (s\<lparr>ts_alloc_failures := n\<rparr>) = tage_sums s"
  "tage_sums (s\<lparr>ts_allocations := n\<rparr>) = tage_sums s" "tage_sums (s\<lparr>ts_snap_ring_overflow := n\<rparr>) = tage_sums s"
  "tage_sums (s\<lparr>ts_update_snap_invalid := n\<rparr>) = tage_sums s"
  by (simp_all add: tage_sums_def)

lemma train_sums [simp]:
  "tage_stats (train_base pc tk t) = tage_stats t" "tage_stats (train_provider s tk t) = tage_stats t"
  "tage_stats (train_useful s tk t) = tage_stats t" "tage_stats (age_useful t) = tage_stats t"
  "tage_stats (dec_useful s i t) = tage_stats t" "tage_stats (put_entry i j e t) = tage_stats t"
  by (simp_all add: train_base_def train_provider_def train_useful_def age_useful_def dec_useful_def put_entry_def Let_def split: option.split)

lemma fold_dec_sums [simp]: "tage_stats (fold (dec_useful s) is t) = tage_stats t"
  by (induction "is" arbitrary: t) simp_all

lemma allocate_sums [simp]: "tage_sums (tage_stats (allocate s tk t)) = tage_sums (tage_stats t)"
  by (simp add: allocate_def Let_def split: option.split)

lemma tage_update_sums: "tage_sums (tage_stats (tage_update pc tk k t)) = tage_sums (tage_stats t)"
  by (simp add: tage_update_def Let_def)

lemma tage_predict_sums: "tage_predict pc tgt t = Some (t', r) \<Longrightarrow> tage_stats t' = tage_stats t"
  by (auto simp: tage_predict_def Let_def)

lemma resolve_sums: "tage_sums (resolve_stats a o1 s st) = tage_sums st"
  by (auto simp: resolve_stats_def tage_sums_def Let_def split: option.split)

lemma bp_sums:
  "bp_predict pc tgt p = Some (p', r) \<Longrightarrow> tage_counts p' = tage_counts p"
  "bp_update pc tk hit c g p = Some p' \<Longrightarrow> tage_counts p' = tage_counts p"
  "tage_counts (bp_on_mispred tk g p) = tage_counts p"
  "tage_counts (bp_on_resolved tk pr p) = tage_counts p"
  "tage_counts (bp_reset p) = tage_counts p"
proof -
  show "bp_predict pc tgt p = Some (p', r) \<Longrightarrow> tage_counts p' = tage_counts p"
    by (cases p) (auto simp: tage_counts_def tage_predict_sums apfst_def map_prod_def case_prod_beta)
  show "bp_update pc tk hit c g p = Some p' \<Longrightarrow> tage_counts p' = tage_counts p"
    by (cases p) (auto simp: tage_counts_def tage_update_sums)
  show "tage_counts (bp_on_mispred tk g p) = tage_counts p" by (cases p) (auto simp: tage_counts_def tage_on_mispred_def)
  show "tage_counts (bp_on_resolved tk pr p) = tage_counts p"
    by (cases p) (auto simp: tage_counts_def tage_on_resolved_def resolve_sums Let_def)
  show "tage_counts (bp_reset p) = tage_counts p" by (cases p) (simp_all add: tage_counts_def)
qed

lemma unit_predict_stats:
  "unit_predict pc u = Some (u', r) \<Longrightarrow>
   bu_stats u' = (bu_stats u)\<lparr>bs_accesses := bs_accesses (bu_stats u) + 1\<rparr> \<and> tage_counts (bu_bpu u') = tage_counts (bu_bpu u)"
  by (auto simp: unit_predict_def Let_def case_prod_unfold bp_sums(1))

lemma unit_write_stats:
  "unit_update pc tk tg cl rt hit pr mp u = Some u' \<Longrightarrow> unit_counts u' = unit_counts u"
  "clear_btb_entry pc u = Some u' \<Longrightarrow> unit_counts u' = unit_counts u"
  by (auto simp: unit_counts_def unit_update_def update_target_def clear_btb_entry_def note_btb_write_def bp_sums(3,4) Let_def
      split: if_splits dest!: bp_sums(2))

lemma begin_tick_stats [simp]: "unit_counts (begin_tick u) = unit_counts u"
  by (simp add: begin_tick_def unit_counts_def)

lemma predict_candidate_unit:
  assumes "predict_candidate t p = Some (p', t')" and "on_unit p"
  shows "on_unit p'"
proof -
  let ?i = "tr_inst t"
  let ?taken = "ti_is_branch ?i \<and> ti_br_taken ?i"
  obtain u pr where u: "predict_at_fetch (ti_pc ?i) (ti_is_branch ?i) (bpu p) = Some (u, pr)"
      "bpu p' = fst (judge ?taken (if ?taken then ti_mem_addr ?i else 0) pr u)"
    using assms(1) by (auto simp: predict_candidate_def Let_def case_prod_unfold)
  show ?thesis
  proof (cases "ti_is_branch ?i")
    case True
    then have "bu_stats u = (bu_stats (bpu p))\<lparr>bs_br_accesses := bs_br_accesses (bu_stats (bpu p)) + 1, bs_accesses := bs_accesses (bu_stats (bpu p)) + 1\<rparr> \<and>
        tage_counts (bu_bpu u) = tage_counts (bu_bpu (bpu p))"
      using u(1) by (auto simp: predict_at_fetch_def dest!: unit_predict_stats)
    then show ?thesis using assms(2) u(2) by (auto simp: on_unit_def unit_counts_def judge_def bp_counts_def Let_def)
  next
    case False
    then have "u = bpu p" "pr = no_prediction" using u(1) by (auto simp: predict_at_fetch_def)
    then show ?thesis using assms(2) u(2) False by (simp add: on_unit_def unit_counts_def judge_def no_prediction_def)
  qed
qed

text \<open>Operations that leave the branch unit alone.\<close>

lemma unit_alone [simp]:
  "bpu (flush_stall_cycles t p) = bpu p" "bpu (stall_unless e w c p) = bpu p"
  "bpu (flush_front e p) = bpu p" "bpu (move_slot a b p) = bpu p" "bpu (put_slot a x p) = bpu p" "bpu (request r p) = bpu p"
  "bpu (note_resp o1 p) = bpu p" "bpu (calc_sched e p) = bpu p" "bpu (leave_wrong_path p) = bpu p" "bpu (fetch_early p) = bpu p"
  "bpu (wp_advance pr p) = bpu p" "bpu (commit_stall e t0 p) = bpu p" "bpu (count_inst e p) = bpu p" "bpu (enter_wrong_path e t0 p) = bpu p"
  by (simp_all add: flush_stall_cycles_def set_stall_def stall_unless_def flush_front_def move_slot_def put_slot_def request_def
      note_resp_def calc_sched_def leave_wrong_path_def fetch_early_def wp_advance_def commit_stall_def count_inst_def
      enter_wrong_path_def Let_def)

lemma unit_same: "(\<And>p'. x = Some p' \<Longrightarrow> bpu p' = bpu p) \<Longrightarrow> on_unit p \<Longrightarrow> yields on_unit x"
  by (auto simp: yields_def on_unit_def)

lemma bpu_alone:
  "schedule e s t p = Some p' \<Longrightarrow> bpu p' = bpu p" "async_schedule e s t p = Some p' \<Longrightarrow> bpu p' = bpu p"
  "set_waiting b p = Some p' \<Longrightarrow> bpu p' = bpu p" "set_reg_time rd t p = Some p' \<Longrightarrow> bpu p' = bpu p"
  "wake_decode e p = Some p' \<Longrightarrow> bpu p' = bpu p"
  by (auto simp: schedule_def async_schedule_def set_waiting_def set_reg_time_def wake_decode_def Let_def split: if_splits option.splits)

lemma update_reg_time_bpu: "update_reg_time e rd t p = Some p' \<Longrightarrow> bpu p' = bpu p"
  unfolding update_reg_time_def by (elim bind_SomeE) (simp add: bpu_alone(4) bpu_alone(5))

lemma unit_ops:
  "on_unit p \<Longrightarrow> yields on_unit (schedule e s t p)" "on_unit p \<Longrightarrow> yields on_unit (async_schedule e s t p)"
  "on_unit p \<Longrightarrow> yields on_unit (update_reg_time e rd t p)" "on_unit p \<Longrightarrow> yields on_unit (set_waiting b p)"
  "on_unit p \<Longrightarrow> yields on_unit (set_reg_time rd t p)"
  by (erule unit_same [rotated], erule bpu_alone update_reg_time_bpu)+

lemma on_unit_bpu [simp]: "on_unit (p\<lparr>bpu := u\<rparr>) = unit_counts u"
  by (simp add: on_unit_def)

lemmas unit_rules = keeps_bind keeps_value keeps_if keeps_pair unit_ops keeps_Some keeps_None keeps_case

lemma on_unit_eq: "bpu p' = bpu p \<Longrightarrow> on_unit p' = on_unit p"
  by (simp add: on_unit_def)

lemma flush_false_unit: "on_unit p \<Longrightarrow> yields on_unit (flush_false_btb_hit e t p)"
  by (auto simp: yields_def flush_false_btb_hit_def on_unit_def Let_def split: if_splits dest!: unit_write_stats)

lemma resolve_branch_unit: "on_unit p \<Longrightarrow> yields on_unit (resolve_branch e t p)"
  by (auto simp: yields_def resolve_branch_def on_unit_def Let_def split: if_splits dest!: unit_write_stats)

lemma forward_result_unit: "on_unit p \<Longrightarrow> yields on_unit (forward_result e i p)"
  unfolding forward_result_def by (intro unit_rules)

lemma send_lsu_unit: "on_unit p \<Longrightarrow> yields on_unit (send_lsu_req e port a d sb w p)"
  unfolding send_lsu_req_def Let_def by (intro unit_rules) (simp_all add: on_unit_def)

lemma stage_unit:
  assumes "on_unit p"
  shows "yields on_unit (do_fetch_1 e p)" "yields on_unit (do_decode e p)" "yields on_unit (do_execute e p)"
    "yields on_unit (do_mul_ext e p)" "yields on_unit (do_div_ext e p)" "yields on_unit (do_memory e p)"
    "yields on_unit (do_writeback e p)"
  using assms unfolding do_fetch_1_def do_decode_def drop_wrong_path_def pass_decode_def do_execute_def do_mul_ext_def
    do_div_ext_def do_memory_def do_writeback_def Let_def
  by (intro unit_rules flush_false_unit resolve_branch_unit forward_result_unit send_lsu_unit; simp add: on_unit_def)+

lemma run_stages_unit: "on_unit p \<Longrightarrow> yields on_unit (run_stages e ss p)"
proof (induction ss arbitrary: p)
  case (Cons s ss)
  have "yields on_unit (run_stage e s p)"
    using stage_unit [OF Cons.prems] Cons.prems by (cases s) (simp_all add: run_stage_def keeps_Some)
  then show ?case using Cons.IH by (auto intro!: keeps_bind)
qed (simp add: keeps_Some)

lemma fetch_real_unit:
  assumes p: "on_unit p"
  shows "yields on_unit (fetch_real e p)"
proof (cases "rb_full (fetch_queue p) \<or> input_buffer p = None \<or>
    predict_candidate (the (input_buffer p)) (p\<lparr>input_buffer := None\<rparr>) = None")
  case True
  then show ?thesis using p by (cases "input_buffer p") (auto simp: fetch_real_def keeps_Some keeps_None)
next
  case False
  then obtain t0 p1 t where c: "\<not> rb_full (fetch_queue p)" "input_buffer p = Some t0"
      "predict_candidate t0 (p\<lparr>input_buffer := None\<rparr>) = Some (p1, t)" by auto
  have "on_unit p1" using predict_candidate_unit [OF c(3)] p by (simp add: on_unit_def)
  then show ?thesis
    using c unfolding fetch_real_def Let_def by simp (intro conjI impI keeps_value keeps_Some; simp add: on_unit_def)
qed

lemma fetch_wrong_unit: "on_unit p \<Longrightarrow> yields on_unit (fetch_wrong p)"
  by (auto simp: yields_def fetch_wrong_def on_unit_def unit_counts_def bp_counts_def Let_def split: if_splits dest!: unit_predict_stats)

lemma do_fetch_0_unit: "on_unit p \<Longrightarrow> yields on_unit (do_fetch_0 e p)"
  unfolding do_fetch_0_def
  by (intro keeps_if keeps_Some fetch_wrong_unit fetch_real_unit) (simp_all add: on_unit_def)

lemma core_calls_unit:
  assumes "on_unit p"
  shows "yields on_unit (recv_mem_resp e k w p)" "yields on_unit (ack_mem_avail e k p)" "yields on_unit (feed_inst e i p)"
    "yields on_unit (pipe_do_update e p)"
proof -
  have "yields on_unit (handle_lsu_resp e p)"
    using assms unfolding handle_lsu_resp_def blocked_by_raw_def Let_def by (intro unit_rules) (simp_all add: on_unit_def)
  moreover have "yields on_unit (handle_ifu_resp e p)"
    using assms by (auto simp: handle_ifu_resp_def yields_def on_unit_def async_schedule_def schedule_def Let_def split: list.splits if_splits)
  ultimately show "yields on_unit (recv_mem_resp e k w p)"
    unfolding recv_mem_resp_def by (intro keeps_if keeps_value keeps_None)
  show "yields on_unit (ack_mem_avail e k p)"
    using assms unfolding ack_mem_avail_def by (intro unit_rules)
  show "yields on_unit (feed_inst e i p)"
    using assms unfolding feed_inst_def by (intro unit_rules do_fetch_0_unit) (simp add: on_unit_def)
  have "yields on_unit (pipe_update_impl e p)"
    unfolding pipe_update_impl_def
    by (intro keeps_bind [OF run_stages_unit] keeps_bind [OF do_fetch_0_unit] keeps_Some)
      (use assms in \<open>simp_all add: on_unit_def\<close>)
  then show "yields on_unit (pipe_do_update e p)" using assms by (simp add: pipe_do_update_def keeps_Some)
qed

section \<open>The core\<close>

text \<open>Every retired instruction was charged one cycle without a stall.\<close>

definition retired :: "pipe_stats \<Rightarrow> stall_attr \<Rightarrow> bool" where
  "retired s a \<longleftrightarrow> ps_insts s \<le> ps_nostall s \<and> ps_insts s \<le> ps_cycles s + 1"

interpretation retired: ledger retired B for B
  by unfold_locales (auto simp: retired_def charge_def split: stall_cause.splits)

definition core_counts :: "tick_t \<Rightarrow> pipeline \<Rightarrow> bool" where
  "core_counts B p \<longleftrightarrow> acct_ok B p \<and> on_books retired p \<and> on_unit p"

lemma writeback_retired:
  assumes "acct_ok (now e) p" and "on_books retired p"
  shows "keeps retired (do_writeback e p)"
proof (cases "wb_source e p")
  case None
  then show ?thesis using assms(2) by (simp add: do_writeback_def keeps_op)
next
  case (Some src)
  have "on_books retired (count_inst e (commit_stall e t (p\<lparr>ongoing_insts := n\<rparr>)))" for t n
  proof -
    let ?q = "commit_stall e t (p\<lparr>ongoing_insts := n\<rparr>)"
    have "st_reset_tick (stall ?q) + breakdown (pstats ?q) = now e + 1" "ps_insts (pstats ?q) + 1 \<le> ps_nostall (pstats ?q)"
      using assms commit_acct [of e "p\<lparr>ongoing_insts := n\<rparr>" t]
      by (auto simp: commit_stall_def Let_def on_books_def acct_def retired_def flush_stall_cycles_def charge_def split: stall_cause.splits)
    then show ?thesis by (auto simp: on_books_def retired_def count_inst_def breakdown_def)
  qed
  then show ?thesis using Some by (auto simp: do_writeback_def Let_def intro!: keeps_value keeps_op)
qed

lemma core_counts_update:
  assumes "core_counts (now e) p" and "pipe_do_update e p = Some p'"
  shows "core_counts (now e + 1) p'"
proof (cases "calc_nxtupd p \<le> now e")
  case True
  let ?p = "p\<lparr>bpu := begin_tick (bpu p)\<rparr>"
  have p: "acct_ok (now e) p" "on_books retired p" "on_unit p" using assms(1) by (simp_all add: core_counts_def)
  have u: "pipe_update_impl e p = Some p'" using assms(2) True by (simp add: pipe_do_update_def)
  have "keeps retired (run_stage e WriteBack ?p)"
    using writeback_retired [of e ?p] p by (simp add: run_stage_def keeps_Some)
  then have "keeps retired (pipe_update_impl e p)"
    unfolding pipe_update_impl_split
    by (rule keeps_bind) (rule retired.rest_of_update_acct [where B = "now e"], simp_all)
  then show ?thesis
    using u pipe_update_impl_acct [OF p(1)] core_calls_unit(4) [OF p(3), of e] assms(2)
    by (simp add: core_counts_def yields_def)
next
  case False
  then show ?thesis using assms acct_later [of "now e" p "now e + 1"] by (simp add: pipe_do_update_def core_counts_def)
qed

lemma recv_books:
  assumes "core_counts B p" and "now e \<le> B"
  shows "yields (core_counts B) (recv_mem_resp e k w p)" "yields (core_counts B) (feed_inst e i p)"
proof -
  have p: "acct_ok B p" "on_books retired p" "on_unit p" using assms(1) by (simp_all add: core_counts_def)
  note a = acct.callback_acct [OF p(1), where e = e] and r = retired.callback_acct [OF p(2), where e = e]
  have "yields (acct_ok B) (recv_mem_resp e k w p)" "keeps retired (recv_mem_resp e k w p)"
    using a(1,2) r(1) [of B] r(2) assms(2) by (auto simp: recv_mem_resp_def yields_def)
  then show "yields (core_counts B) (recv_mem_resp e k w p)"
    using core_calls_unit(1) [OF p(3), of e k w] by (simp add: yields_def core_counts_def)
  show "yields (core_counts B) (feed_inst e i p)"
    using a(4) r(4) [of B] assms(2) core_calls_unit(3) [OF p(3), of e i] by (simp add: yields_def core_counts_def)
qed

lemma ack_books: "core_counts B p \<Longrightarrow> yields (core_counts B) (ack_mem_avail e k p)"
  using acct.callback_acct(3) [of B p e k] retired.callback_acct(3) [of p e k] core_calls_unit(2) [of p e k]
  by (simp add: yields_def core_counts_def)

lemma reset_counts:
  "t \<le> B \<Longrightarrow> on_unit p \<Longrightarrow> core_counts B (pipe_reset_stats t (p\<lparr>bpu := unit_reset_stats (bpu p)\<rparr>))"
  by (simp add: core_counts_def on_books_def acct_def retired_def breakdown_def pipe_reset_stats_def ps_reset_def on_unit_def unit_counts_def bp_sums(5)
      unit_reset_stats_def bp_reset_stats_def bp_stats_zero_def bp_counts_def)

interpretation counters: observer core_counts "\<lambda>c. cs_ok (stats c)" "\<lambda>c. cs_ok (stats c)"
proof unfold_locales
  fix p p' :: pipeline and B B' :: tick_t and e k w i rs t
  show "core_counts B p \<Longrightarrow> B \<le> B' \<Longrightarrow> core_counts B' p" by (auto simp: core_counts_def intro: acct_later)
  show "core_counts B p \<Longrightarrow> now e \<le> B \<Longrightarrow> recv_mem_resp e k w p = Some p' \<Longrightarrow> core_counts B p'"
    using recv_books(1) by (simp add: yields_def)
  show "core_counts B p \<Longrightarrow> ack_mem_avail e k p = Some p' \<Longrightarrow> core_counts B p'"
    using ack_books by (simp add: yields_def)
  show "core_counts B p \<Longrightarrow> now e \<le> B \<Longrightarrow> feed_inst e i p = Some p' \<Longrightarrow> core_counts B p'"
    using recv_books(2) by (simp add: yields_def)
  show "core_counts (now e) p \<Longrightarrow> pipe_do_update e p = Some p' \<Longrightarrow> core_counts (now e + 1) p'"
    by (rule core_counts_update)
  show "core_counts B (p\<lparr>port_reqs := rs\<rparr>) = core_counts B p" "core_counts B (set_draining p) = core_counts B p"
    by (simp_all add: core_counts_def on_books_def on_unit_def set_draining_def)
  show "core_counts B p \<Longrightarrow> t \<le> B \<Longrightarrow> core_counts B (pipe_reset_stats t (p\<lparr>bpu := unit_reset_stats (bpu p)\<rparr>))"
    by (rule reset_counts) (simp_all add: core_counts_def)
qed (auto simp: pc_do_update_cs pc_requests_cs nc_calls_cs pc_flush_all_def reset_cache_stats_def reset_cs)

end
