(* ===== verification/BranchHist.thy ===== *)
theory BranchHist
  imports TraceFlow Counters "HOL-Library.Code_Target_Nat"
begin

text \<open>
  The history register of the gshare predictor inside the core: what every call of the core's
  environment does to it, and to the mispredicted branch that waits in the front end.
\<close>

section \<open>What the register depends on\<close>

text \<open>A mispredicted branch, wherever it waits, by what its repair will read.\<close>

definition bkey :: "transaction \<Rightarrow> trace_inst \<times> branch_result" where
  "bkey t = (tr_inst t, tr_br_pred t)"

definition mispreds :: "pipeline \<Rightarrow> (trace_inst \<times> branch_result) list" where
  "mispreds p = map bkey (filter tr_br_mispred (front_list p))"

text \<open>
  A step that leaves the waiting branches and the input buffer alone, and the history register
  too while no mispredicted branch waits.
\<close>

definition same_hist :: "bool \<Rightarrow> branch_unit \<Rightarrow> branch_unit \<Rightarrow> bool" where
  "same_hist settled u u' \<longleftrightarrow> (\<forall>g. bu_bpu u = GShare g \<longrightarrow>
     (\<exists>g'. bu_bpu u' = GShare g' \<and> gs_history_len g' = gs_history_len g \<and> (settled \<longrightarrow> gs_ghr g' = gs_ghr g)))"

definition kept :: "pipeline \<Rightarrow> pipeline \<Rightarrow> bool" where
  "kept p p' \<longleftrightarrow> mispreds p' = mispreds p \<and> input_buffer p' = input_buffer p \<and>
     same_hist (mispreds p = []) (bpu p) (bpu p')"

lemma same_hist_refl [simp]: "same_hist b u u"
  by (simp add: same_hist_def)

lemma same_hist_eq: "bu_bpu u' = bu_bpu u \<Longrightarrow> same_hist b u u'"
  by (simp add: same_hist_def)

lemma kept_refl [simp]: "kept p p"
  by (simp add: kept_def)

lemma kept_trans: "kept p q \<Longrightarrow> kept q r \<Longrightarrow> kept p r"
  unfolding kept_def same_hist_def by fastforce

section \<open>Operations that do not touch the front end\<close>

definition same_front :: "pipeline \<Rightarrow> pipeline \<Rightarrow> bool" where
  "same_front p q \<longleftrightarrow> same_insts p q \<and> bpu q = bpu p"

lemma same_front_refl [simp]: "same_front p p"
  by (simp add: same_front_def same_insts_def)

lemma same_front_trans: "same_front p q \<Longrightarrow> same_front q r \<Longrightarrow> same_front p r"
  by (simp add: same_front_def same_insts_def)

lemma same_frontD:
  assumes "same_front p q"
  shows "sim_pipe q = sim_pipe p" "fetch_queue q = fetch_queue p" "input_buffer q = input_buffer p" "bpu q = bpu p"
    "front_list q = front_list p" "mispreds q = mispreds p"
  using assms by (simp_all add: same_front_def same_insts_def front_list_def mispreds_def)

lemma same_front_kept: "same_front p q \<Longrightarrow> kept p q"
  by (simp add: kept_def same_frontD)

lemma view_front: "same_view p q \<Longrightarrow> same_front p q"
  by (simp add: same_front_def view_insts same_viewD)

lemma stall_front [simp]: "same_front p (set_stall e c p)" "same_front p (stall_unless e b c p)"
  "same_front p (flush_stall_cycles u p)" "same_front p (request r p)" "same_front p (calc_sched e p)"
  by (simp_all add: view_front)

lemma op_front:
  "schedule e s t p = Some p' \<Longrightarrow> same_front p p'" "async_schedule e s t p = Some p' \<Longrightarrow> same_front p p'"
  "set_reg_time rd t p = Some p' \<Longrightarrow> same_front p p'" "update_reg_time e rd t p = Some p' \<Longrightarrow> same_front p p'"
  using schedule_same regs_same bpu_alone update_reg_time_bpu by (auto simp: same_front_def)

lemma forward_front: "forward_result e i p = Some p' \<Longrightarrow> same_front p p'"
  by (auto simp: forward_result_def dest: op_front split: if_splits)

lemma load_front: "(if b then update_reg_time e rd t p else Some p) = Some p' \<Longrightarrow> same_front p p'"
  by (auto dest: op_front split: if_splits)

lemma blocked_front: "blocked_by_raw e p = Some p' \<Longrightarrow> same_front p p'"
  by (auto simp: blocked_by_raw_def split: option.splits)

section \<open>The stages behind decode\<close>

text \<open>A change of the slots behind decode.\<close>

definition back_change :: "pipeline \<Rightarrow> pipeline \<Rightarrow> bool" where
  "back_change p q \<longleftrightarrow> sim_pipe q Decode = sim_pipe p Decode \<and> sim_pipe q Fetch = sim_pipe p Fetch \<and>
     fetch_queue q = fetch_queue p \<and> input_buffer q = input_buffer p \<and> bpu q = bpu p"

lemma back_change_kept: "back_change p q \<Longrightarrow> kept p q"
  by (simp add: back_change_def kept_def mispreds_def front_list_def)

lemma back_change_trans: "back_change p q \<Longrightarrow> back_change q r \<Longrightarrow> back_change p r"
  by (simp add: back_change_def)

lemma front_back: "same_front p q \<Longrightarrow> back_change p q"
  by (simp add: back_change_def same_frontD)

lemma slot_back: "s \<noteq> Decode \<Longrightarrow> s \<noteq> Fetch \<Longrightarrow> back_change p (put_slot s x p)"
  "back_change p (move_slot Execute Memory p)"
  by (simp_all add: back_change_def put_slot_def move_slot_def)

lemma set_waiting_back: "set_waiting b p = Some p' \<Longrightarrow> back_change p p'"
  by (auto simp: set_waiting_def intro: slot_back)

text \<open>Chains of such steps.\<close>

definition back_by :: "pipeline \<Rightarrow> pipeline option \<Rightarrow> bool" where
  "back_by p f \<longleftrightarrow> (\<forall>p'. f = Some p' \<longrightarrow> back_change p p')"

lemma back_by_simps [simp]: "back_by p None" "back_by p (Some q) = back_change p q"
  by (simp_all add: back_by_def)

lemma back_bind: "back_by p f \<Longrightarrow> (\<And>p1. f = Some p1 \<Longrightarrow> back_by p1 (g p1)) \<Longrightarrow> back_by p (f \<bind> g)"
  by (cases f) (auto simp: back_by_def intro: back_change_trans)

lemma back_after: "back_change p q \<Longrightarrow> back_by q f \<Longrightarrow> back_by p f"
  by (auto simp: back_by_def intro: back_change_trans)

lemma back_read: "(\<And>x. f = Some x \<Longrightarrow> back_by p (g x)) \<Longrightarrow> back_by p (f \<bind> g)"
  by (cases f) simp_all

lemma back_ops [simp]: "back_by p (schedule e s t p)" "back_by p (async_schedule e s t p)" "back_by p (update_reg_time e rd t p)"
  "back_by p (set_waiting b p)" "back_by p (blocked_by_raw e p)"
  using op_front blocked_front set_waiting_back by (auto simp: back_by_def intro: front_back)

lemma back_refl [simp]: "back_change p p" "back_change p (set_stall e c p)" "back_change p (request r p)"
  by (simp_all add: front_back)

lemma back_cond [simp]: "back_by p (if b then update_reg_time e rd t p else Some p)"
  by simp

lemma assert_back: "(b \<Longrightarrow> back_by p g) \<Longrightarrow> back_by p (assert_that b \<bind> (\<lambda>_. g))"
  by (cases b) (simp_all add: assert_that_def)

lemma send_lsu_back: "back_by p (send_lsu_req e port a d s w p)"
  unfolding send_lsu_req_def Let_def
  by (intro back_read) (auto intro!: back_bind [OF back_ops(1)] back_bind [OF back_ops(4)] split: prod.splits)

lemma do_memory_back: "back_by p (do_memory e p)"
proof -
  have s: "back_by p (send_lsu_req e port a d s w (set_stall e c p))" for port a d s w c
    by (rule back_after [OF back_refl(2) send_lsu_back])
  have w: "back_by p (set_waiting b (set_stall e c p))" for b c
    by (rule back_after [OF back_refl(2) back_ops(4)])
  show ?thesis
    unfolding do_memory_def Let_def
    by (intro back_read) (auto intro!: back_bind [OF s] back_bind [OF w] back_bind [OF back_ops(4)] back_bind [OF back_cond]
      back_bind [OF back_ops(3)] back_bind [OF back_ops(1)] slot_back s)
qed

lemma handle_lsu_back: "back_by p (handle_lsu_resp e p)"
proof -
  have b: "back_by p (blocked_by_raw e (set_stall e c p))" for p c
    by (rule back_after [OF back_refl(2) back_ops(5)])
  show ?thesis
    unfolding handle_lsu_resp_def Let_def
    by (intro back_read assert_back back_bind [OF back_ops(4)] back_bind [OF back_cond] back_bind [OF b] back_bind [OF back_ops(2)])
      (simp add: slot_back)
qed

lemma do_writeback_back: "back_by p (do_writeback e p)"
proof (cases "wb_source e p")
  case (Some src)
  have "back_change p (count_inst e (commit_stall e t (p\<lparr>ongoing_insts := n\<rparr>)))" for t n
    by (simp add: back_change_def count_inst_def commit_stall_def Let_def)
  moreover have "back_change q (put_slot src None q)" for q
    using wb_source_some [OF Some] by (intro slot_back) auto
  ultimately have "back_change p (put_slot src None (count_inst e (commit_stall e t (p\<lparr>ongoing_insts := n\<rparr>))))" for t n
    by (meson back_change_trans)
  then show ?thesis
    using Some by (auto simp: do_writeback_def Let_def intro!: back_read back_after [OF _ back_ops(1)])
qed (simp add: do_writeback_def)

lemma ack_back: "back_by p (ack_mem_avail e i p)"
  by (auto simp: ack_mem_avail_def split: option.split)

section \<open>Decode and the queue\<close>

lemma leave_decode_kept:
  assumes "same_front p q" and "sim_pipe p Decode = Some t" and "\<not> tr_br_mispred t"
    and "d = Execute \<or> d = IntMulExt \<or> d = IntDivExt"
  shows "kept p (move_slot Decode d q)"
proof -
  have "input_buffer (move_slot Decode d q) = input_buffer p" "bpu (move_slot Decode d q) = bpu p"
    using same_frontD [OF assms(1)] by (simp_all add: move_slot_def)
  moreover have "mispreds (move_slot Decode d q) = mispreds p"
    using same_frontD [OF assms(1)] assms(2-4) by (auto simp: mispreds_def front_list_def)
  ultimately show ?thesis by (simp add: kept_def)
qed

lemma ext_not_mispred: "trans_ok t \<Longrightarrow> ti_ext_op (tr_inst t) \<noteq> ExtNone \<Longrightarrow> \<not> tr_br_mispred t"
  by (auto simp: trans_ok_def inst_ok_def)

text \<open>Multiplications and divisions are no branches.\<close>

lemma ext_kept:
  assumes "pipe_inv T p" and "do_mul_ext e p = Some p' \<or> do_div_ext e p = Some p'"
  shows "kept p p'"
proof -
  obtain t where t: "sim_pipe p Decode = Some t"
    using assms(2) by (auto simp: do_mul_ext_def do_div_ext_def)
  have tok: "trans_ok t" using decode_slot_ok [OF pipe_invD(1) [OF assms(1)] t] .
  note noop = flush_false_btb_hit_noop [OF tok, of e p]
  show ?thesis
  proof (cases "p' = p")
    case False
    then have ext: "ti_ext_op (tr_inst t) \<noteq> ExtNone"
      using assms(2) t by (auto simp: do_mul_ext_def do_div_ext_def Let_def op_codes split: if_splits)
    have chain: "same_front p p3" if "same_front p q" "update_reg_time e rd u q = Some p1" "schedule e s1 u p1 = Some p2"
        "async_schedule e s2 u p2 = Some p3" for q rd u p1 p2 p3 s1 s2
      using that op_front by (meson same_front_trans)
    have "\<exists>q. same_front p q \<and> (p' = move_slot Decode IntMulExt q \<or> p' = move_slot Decode IntDivExt q)"
      using assms(2)
    proof
      assume "do_mul_ext e p = Some p'"
      then obtain p1 p2 p3 where "update_reg_time e (ti_dst_reg (tr_inst t)) (now e + MulLat) (p\<lparr>mul_ready_tick := now e + MulLat\<rparr>) = Some p1"
          "schedule e IntMulExt (now e + MulLat) p1 = Some p2" "async_schedule e WriteBack (now e + MulLat) p2 = Some p3"
          "p' = move_slot Decode IntMulExt p3"
        using False t noop by (auto simp: do_mul_ext_def Let_def split: if_splits)
      moreover have "same_front p (p\<lparr>mul_ready_tick := now e + MulLat\<rparr>)" by (simp add: same_front_def)
      ultimately show ?thesis using chain by blast
    next
      assume "do_div_ext e p = Some p'"
      then obtain p1 p2 p3 where "update_reg_time e (ti_dst_reg (tr_inst t)) (now e + DivLat) (p\<lparr>div_ready_tick := now e + DivLat\<rparr>) = Some p1"
          "schedule e IntDivExt (now e + DivLat) p1 = Some p2" "async_schedule e WriteBack (now e + DivLat) p2 = Some p3"
          "p' = move_slot Decode IntDivExt p3"
        using False t noop by (auto simp: do_div_ext_def Let_def split: if_splits)
      moreover have "same_front p (p\<lparr>div_ready_tick := now e + DivLat\<rparr>)" by (simp add: same_front_def)
      ultimately show ?thesis using chain by blast
    qed
    then show ?thesis
      using leave_decode_kept [OF _ t ext_not_mispred [OF tok ext]] by blast
  qed simp
qed

lemma do_decode_kept:
  assumes "pipe_inv T p" and "sim_pipe p Decode = None" and "do_decode e p = Some p'"
  shows "kept p p'"
proof -
  obtain t where t: "sim_pipe p Fetch = Some t" using assms(3) by (auto simp: do_decode_def)
  have tok: "trans_ok t" using fetch_slot_ok [OF pipe_invD(1) [OF assms(1)] t] .
  have stalled: "kept p p1" if "schedule e s w (stall_unless e b c p) = Some p1" for s w b c p1
    using op_front(1) [OF that] stall_front(2) same_front_trans same_front_kept by blast
  have drop: "kept p p1" if "is_wrong_path t" "drop_wrong_path e p = Some p1" for p1
  proof -
    have nm: "\<not> tr_br_mispred t" using tok that(1) by (auto simp: trans_ok_def)
    define q where "q = (if in_br_recovery (stall p) then set_stall e BrMispred p else p)"
    have q: "same_front p q" by (simp add: q_def)
    have "kept p (put_slot Fetch None q)"
      using same_frontD [OF q] t nm by (simp add: kept_def mispreds_def front_list_def put_slot_def)
    moreover have "same_front (put_slot Fetch None q) p1"
      using that(2) op_front(1) by (auto simp: drop_wrong_path_def q_def)
    ultimately show ?thesis using kept_trans same_front_kept by blast
  qed
  have pass: "kept p p1" if pd: "pass_decode e b r i p = Some p1" for b r i p1
  proof -
    obtain p2 p3 where p3: "schedule e Decode (max (now e) r + 1) (stall_unless e b NoInst p) = Some p2"
        "set_reg_time (ti_dst_reg i) InfTime p2 = Some p3" "p1 = move_slot Fetch Decode p3"
      using pd by (auto simp: pass_decode_def Let_def)
    have "same_front p p3"
      using op_front(1) [OF p3(1)] op_front(3) [OF p3(2)] stall_front(2) same_front_trans by blast
    then show ?thesis
      using p3(3) assms(2) t same_frontD [of p p3] by (simp add: kept_def mispreds_def front_list_def move_slot_def)
  qed
  show ?thesis
    using assms(3) t drop pass stalled by (auto simp: do_decode_def Let_def split: if_splits)
qed

text \<open>Marks of a queue entry that no repair reads.\<close>

lemma queue_put_kept:
  assumes "ring_ok (fetch_queue p)" and "i < rb_cnt (fetch_queue p)" and "rb_list (fetch_queue p) ! i = t"
    and "same_key t t'"
  shows "kept p (p\<lparr>fetch_st := f, fetch_queue := rb_put i t' (fetch_queue p)\<rparr>)"
proof -
  have "map bkey (filter tr_br_mispred (xs[i := t'])) = map bkey (filter tr_br_mispred xs)" if "i < length xs" "xs ! i = t" for xs
    using that assms(4) by (induction xs arbitrary: i) (auto simp: same_key_def bkey_def split: nat.splits)
  then show ?thesis
    using rb_put_spec [OF assms(1,2), of t'] assms(2,3) by (simp add: kept_def mispreds_def front_list_def del: nth_rb_list)
qed

lemma do_fetch_1_kept:
  assumes "pipe_inv T p" and f: "sim_pipe p Fetch = None" and "do_fetch_1 e p = Some p'"
  shows "kept p p'"
proof (cases "rb_list (fetch_queue p)")
  case Nil
  then show ?thesis
    using assms(3) op_front(1) same_front_kept by (auto simp: do_fetch_1_def rb_empty_list)
next
  case (Cons t ts)
  let ?q = "fetch_queue p"
  have ring: "ring_ok ?q" using pipe_baseD(3) [OF pipe_invD(1) [OF assms(1)]] .
  have c: "0 < rb_cnt ?q" using Cons by (metis length_rb_list length_greater_0_conv list.distinct(1))
  have front: "rb_front ?q = Some t" using ifq.front_ok [OF ring] Cons by simp
  obtain q' where q': "rb_pop_front ?q = Some q'" "rb_list q' = ts"
    using ifq.pop_ok [OF ring] Cons by auto
  have hold: "kept p (p\<lparr>fetch_queue := rb_put 0 (t\<lparr>bp_meta_hold := n\<rparr>) ?q\<rparr>)" for n
    using queue_put_kept [OF ring c, of t "t\<lparr>bp_meta_hold := n\<rparr>" "fetch_st p"] Cons by (simp del: nth_rb_list)
  have pop: "kept p (put_slot Fetch (Some t) (p\<lparr>fetch_queue := q'\<rparr>))"
    using f q'(2) Cons by (simp add: kept_def mispreds_def front_list_def put_slot_def)
  consider "wait_mem t" | "\<not> wait_mem t" "0 < bp_meta_hold t" | "\<not> wait_mem t" "bp_meta_hold t = 0" by blast
  then show ?thesis
  proof cases
    case 1
    then show ?thesis
      using assms(3) Cons front op_front(1) same_front_kept by (auto simp: do_fetch_1_def rb_empty_list)
  next
    case 2
    then have "schedule e Fetch (now e + 1) (p\<lparr>fetch_queue := rb_put 0 (t\<lparr>bp_meta_hold := bp_meta_hold t - 1\<rparr>) ?q\<rparr>) = Some p'"
      using assms(3) Cons front by (simp add: do_fetch_1_def rb_empty_list)
    then show ?thesis using kept_trans [OF hold same_front_kept [OF op_front(1)]] by blast
  next
    case 3
    then show ?thesis
      using assms(3) Cons front q'(1) f pop by (simp add: do_fetch_1_def rb_empty_list)
  qed
qed

lemma handle_ifu_kept:
  assumes "pipe_inv T p" and "handle_ifu_resp e p = Some p'"
  shows "kept p p'"
proof -
  have ring: "ring_ok (fetch_queue p)" using pipe_baseD(3) [OF pipe_invD(1) [OF assms(1)]] .
  obtain orphan rest where o': "resp_is_orphan (fetch_st p) = orphan # rest"
    using assms(2) by (auto simp: handle_ifu_resp_def split: list.splits)
  let ?f = "(fetch_st p)\<lparr>resp_is_orphan := rest\<rparr>"
  show ?thesis
  proof (cases orphan)
    case True
    then show ?thesis using assms(2) o' by (auto simp: handle_ifu_resp_def kept_def mispreds_def front_list_def)
  next
    case False
    obtain i t where i: "rb_find_if (\<lambda>t. case t of Some x \<Rightarrow> wait_mem x | None \<Rightarrow> False) (fetch_queue p) = Some i"
        "rb_at (fetch_queue p) i = Some t"
        "async_schedule e Fetch (now e + 1) (p\<lparr>fetch_st := ?f, fetch_queue := rb_put i (t\<lparr>wait_mem := False\<rparr>) (fetch_queue p)\<rparr>) = Some p'"
      using assms(2) o' False by (auto simp: handle_ifu_resp_def Let_def)
    have l: "i < rb_cnt (fetch_queue p)" using i(1) by (auto simp: rb_find_if_def find_Some_iff)
    have "rb_list (fetch_queue p) ! i = t" using ring_at [OF ring l] i(2) by simp
    then have "kept p (p\<lparr>fetch_st := ?f, fetch_queue := rb_put i (t\<lparr>wait_mem := False\<rparr>) (fetch_queue p)\<rparr>)"
      using queue_put_kept [OF ring l, of t "t\<lparr>wait_mem := False\<rparr>" ?f] by simp
    then show ?thesis using kept_trans [OF _ same_front_kept [OF op_front(2) [OF i(3)]]] by blast
  qed
qed

section \<open>What the branch unit does to the register\<close>

text \<open>Training leaves the register alone; a repair sets it from the snapshot.\<close>

lemma target_bpu: "update_target pc tgt r u = Some u' \<Longrightarrow> bu_bpu u' = bu_bpu u"
  by (auto simp: update_target_def note_btb_write_def Let_def)

lemma unit_update_bpu:
  assumes "unit_update pc taken tgt call ret hit r mis u = Some u'" and "bu_bpu u = GShare g"
  shows "\<exists>g1. (g1 = g \<or> gshare_update pc taken hit (bht_cnt r) (ghr_snap r) g = Some g1) \<and>
    bu_bpu u' = GShare (if mis then gshare_on_mispred taken (ghr_snap r) g1 else g1)"
proof -
  obtain p2 where p2: "(if hit \<or> taken then bp_update pc taken hit (bht_cnt r) (ghr_snap r) (GShare g) else Some (GShare g)) = Some p2"
      "bu_bpu u' = (if mis then bp_on_mispred taken (ghr_snap r) p2 else p2)"
    using assms unfolding unit_update_def Let_def
    by (auto split: if_splits dest!: target_bpu)
  then obtain g1 where "p2 = GShare g1" "g1 = g \<or> gshare_update pc taken hit (bht_cnt r) (ghr_snap r) g = Some g1"
    by (auto split: if_splits)
  then show ?thesis using p2(2) by (intro exI [of _ g1]) simp
qed

lemma unit_update_hist:
  assumes "unit_update pc taken tgt call ret hit r mis u = Some u'" and "bu_bpu u = GShare g"
  shows "\<exists>g'. bu_bpu u' = GShare g' \<and> gs_history_len g' = gs_history_len g \<and>
    gs_ghr g' = (if mis then shift_ghr (gs_history_len g) (ghr_snap r) taken else gs_ghr g)"
  using unit_update_bpu [OF assms] gshare.mispred_ghr [of taken "ghr_snap r" g]
    gshare.train_repair_ghr [of pc taken hit "bht_cnt r" "ghr_snap r" g _ "ghr_snap r"]
    gshare.upd_ghr [of pc taken hit "bht_cnt r" "ghr_snap r" g] by auto

text \<open>A prediction snapshots the register and shifts in the direction of the counter.\<close>

lemma unit_predict_hist:
  assumes "unit_predict pc u = Some (u', r)" and "bu_bpu u = GShare g"
  shows "\<exists>g'. bu_bpu u' = GShare g' \<and> gs_history_len g' = gs_history_len g \<and> ghr_snap r = gs_ghr g \<and>
    gs_ghr g' = shift_ghr (gs_history_len g) (gs_ghr g) (2 \<le> bht_cnt r) \<and>
    will_redirect r = (pred_taken r \<and> pred_target r \<noteq> 0) \<and> (2 \<le> bht_cnt r \<longrightarrow> pred_taken r)"
  using assms unfolding unit_predict_def Let_def gshare_predict_def
  by (auto simp: pred_result_def Let_def gshare_predict_def split: option.splits)

lemma judge_bpu: "judge a b r u = (u', acc) \<Longrightarrow> bu_bpu u' = bu_bpu u"
  by (auto simp: judge_def Let_def split: if_splits)

section \<open>The history of a run\<close>

text \<open>
  The direction the register keeps of a branch: the actual one when the fetch was wrong and
  had to be repaired, otherwise the one that was predicted.
\<close>

definition hist_bit :: "transaction \<Rightarrow> bool" where
  "hist_bit t = (if tr_br_mispred t then ti_br_taken (tr_inst t) else 2 \<le> bht_cnt (tr_br_pred t))"

definition history :: "nat \<Rightarrow> 32 word \<Rightarrow> transaction list \<Rightarrow> 32 word" where
  "history len g ts = foldl (shift_ghr len) g (map hist_bit ts)"

lemma history_snoc: "history len g (ts @ [t]) = shift_ghr len (history len g ts) (hist_bit t)"
  by (simp add: history_def)

text \<open>While a mispredicted branch waits, its snapshot holds the history before it.\<close>

definition hist_inv :: "nat \<Rightarrow> 32 word \<Rightarrow> transaction list \<Rightarrow> pipeline \<Rightarrow> bool" where
  "hist_inv len g0 ts p \<longleftrightarrow> (\<exists>g. bu_bpu (bpu p) = GShare g \<and> gs_history_len g = len \<and>
     (mispreds p = [] \<longrightarrow> gs_ghr g = history len g0 ts)) \<and>
     (\<forall>k ks. mispreds p = k # ks \<longrightarrow>
       (\<exists>ts' m. ts = ts' @ [m] \<and> tr_br_mispred m \<and> bkey m = k \<and> ghr_snap (snd k) = history len g0 ts'))"

lemma kept_hist: "kept p p' \<Longrightarrow> hist_inv len g0 ts p \<Longrightarrow> hist_inv len g0 ts p'"
  unfolding hist_inv_def kept_def same_hist_def by force

section \<open>Execute\<close>

lemma do_execute_hist:
  assumes p: "pipe_inv T p" and h: "hist_inv len g0 ts p" and x: "do_execute e p = Some p'"
  shows "hist_inv len g0 ts p' \<and> input_buffer p' = input_buffer p"
proof -
  obtain t where t: "sim_pipe p Decode = Some t" using x by (auto simp: do_execute_def)
  have tok: "trans_ok t" using decode_slot_ok [OF pipe_invD(1) [OF p] t] .
  show ?thesis
  proof (cases "ti_ext_op (tr_inst t) = ExtNone")
    case False
    then show ?thesis using x t h by (simp add: do_execute_def)
  next
    case True
    obtain p1 p3 where p1: "resolve_branch e t p = Some p1" "forward_result e (tr_inst t) p1 = Some p3"
        "schedule e Execute (now e + 1) (move_slot Decode Execute p3) = Some p'"
      using x t True flush_false_btb_hit_noop [OF tok] by (auto simp: do_execute_def Let_def)
    have f3: "same_front p1 p3" by (rule forward_front [OF p1(2)])
    have fin: "same_front (move_slot Decode Execute p3) p'" by (rule op_front(1) [OF p1(3)])
    obtain g where g: "bu_bpu (bpu p) = GShare g" "gs_history_len g = len" "mispreds p = [] \<longrightarrow> gs_ghr g = history len g0 ts"
      using h by (auto simp: hist_inv_def)
    show ?thesis
    proof (cases "tr_br_mispred t")
      case False
      have k1: "kept p p1 \<and> sim_pipe p1 Decode = Some t"
      proof (cases "ti_is_branch (tr_inst t)")
        case True
        then obtain u where u: "p1 = p\<lparr>bpu := u\<rparr>" "same_hist (mispreds p = []) (bpu p) u"
          using p1(1) False g(1) by (auto simp: resolve_branch_def Let_def same_hist_def dest!: unit_update_hist)
        then show ?thesis using t by (simp add: kept_def mispreds_def front_list_def)
      qed (use p1(1) t in \<open>simp add: resolve_branch_def Let_def\<close>)
      then have "kept p1 (move_slot Decode Execute p3)"
        using leave_decode_kept [OF f3 _ False] by blast
      then have "kept p p'"
        using k1 kept_trans same_front_kept [OF fin] by blast
      then show ?thesis using kept_hist [OF _ h] by (simp add: kept_def)
    next
      case mis: True
      then have br: "ti_is_branch (tr_inst t)" using tok by (auto simp: trans_ok_def)
      obtain u where u: "p1 = flush_front e (p\<lparr>bpu := u\<rparr>)" and
        "unit_update (ti_pc (tr_inst t)) (ti_br_taken (tr_inst t)) (if ti_br_taken (tr_inst t) then ti_mem_addr (tr_inst t) else 0)
           (ti_dst_reg (tr_inst t) = 1) (ti_src0 (tr_inst t) = 1 \<and> ti_dst_reg (tr_inst t) = 0)
           (pred_target (tr_br_pred t) \<noteq> 0) (tr_br_pred t) True (bpu p) = Some u"
        using p1(1) br mis by (auto simp: resolve_branch_def Let_def)
      then obtain g' where g': "bu_bpu u = GShare g'" "gs_history_len g' = len"
          "gs_ghr g' = shift_ghr len (ghr_snap (tr_br_pred t)) (ti_br_taken (tr_inst t))"
        using unit_update_hist [OF _ g(1)] g(2) by fastforce
      obtain rest where "mispreds p = bkey t # rest" using t mis by (simp add: mispreds_def front_list_def)
      then obtain ts' m where m: "ts = ts' @ [m]" "tr_br_mispred m" "bkey m = bkey t" "ghr_snap (tr_br_pred t) = history len g0 ts'"
        using h by (auto simp: hist_inv_def bkey_def)
      have hb: "hist_bit m = ti_br_taken (tr_inst t)" using m(2,3) by (simp add: hist_bit_def bkey_def)
      note v = same_frontD [OF f3] and v' = same_frontD [OF fin]
      obtain T' where "pipe_base T' p1" using resolve_branch_ok [OF p t, of e] p1(1) by auto
      then have "unit_ok u" using pipe_baseD(2) u by force
      then have b1: "pipe_base T (p\<lparr>bpu := u\<rparr>)" by (rule bpu_base [OF pipe_invD(1) [OF p]])
      have "rb_list (fetch_queue p1) = []" "sim_pipe p1 = (sim_pipe p)(Fetch := None)" "input_buffer p1 = input_buffer p"
        using flush_front_base [OF b1, of e] u by simp_all
      then have "front_list p' = []" "input_buffer p' = input_buffer p" "bpu p' = bpu p1"
        using v v' by (simp_all add: front_list_def move_slot_def)
      then show ?thesis
        using g' m(1,4) hb u by (simp add: hist_inv_def mispreds_def history_snoc)
    qed
  qed
qed

lemma execute_input: "do_execute e p = Some p' \<Longrightarrow> input_buffer p' = input_buffer p"
  by (auto simp: do_execute_def Let_def resolve_branch_def flush_front_def flush_false_btb_hit_def move_slot_def
      dest!: op_front(1) forward_front same_frontD(3) split: if_splits)

section \<open>Fetch\<close>

lemma split_path_mispred: "split_path ts \<Longrightarrow> filter tr_br_mispred ts \<noteq> []"
  by (induction ts) (auto split: if_splits)

lemma pending_mispred: "pipe_inv T p \<Longrightarrow> wrong_path (fetch_st p) \<Longrightarrow> \<not> wp_flushed (fetch_st p) \<Longrightarrow> mispreds p \<noteq> []"
  using split_path_mispred by (auto simp: pipe_inv_def path_ok_def mispreds_def)

lemma settled_mispred: "pipe_inv T p \<Longrightarrow> \<not> wrong_path (fetch_st p) \<Longrightarrow> mispreds p = []"
  by (auto simp: pipe_inv_def path_ok_def mispreds_def on_path_def filter_empty_conv)

lemma wp_advance_front [simp]: "front_list (wp_advance r p) = front_list p" "front_list (note_resp b p) = front_list p"
  "input_buffer (note_resp b p) = input_buffer p" "input_buffer (request q p) = input_buffer p"
  by (simp_all add: front_list_def wp_advance_def note_resp_def request_def Let_def)

text \<open>The predictions of the wrong path shift the register, but a repair is waiting.\<close>

lemma fetch_wrong_kept:
  assumes p: "pipe_inv T p" and w: "wrong_path (fetch_st p)" "\<not> wp_flushed (fetch_st p)" and f: "fetch_wrong p = Some p'"
  shows "kept p p'"
proof (cases "rb_full (fetch_queue p)")
  case False
  define t where "t = new_transaction (inst_zero\<lparr>ti_pc := wrong_path_pc (fetch_st p)\<rparr>) True True"
  obtain u r q where u: "unit_predict (wrong_path_pc (fetch_st p)) (bpu p) = Some (u, r)"
      and q: "rb_push_back t (fetch_queue p) = Some q"
      and p': "p' = wp_advance r (note_resp False (request (ImemRead (wrong_path_pc (fetch_st p)))
        (p\<lparr>bpu := u, fetch_queue := q, pstats := (pstats p)\<lparr>wp_bpu_queries := wp_bpu_queries (pstats p) + 1\<rparr>\<rparr>)))"
    using f False by (auto simp: fetch_wrong_def Let_def t_def)
  have "rb_list q = rb_list (fetch_queue p) @ [t]"
    using ifq.pushE [OF q pipe_baseD(3) [OF pipe_invD(1) [OF p]]] by simp
  then have "front_list p' = front_list p @ [t]" "input_buffer p' = input_buffer p" "bpu p' = u"
    by (simp_all add: p') (simp_all add: front_list_def note_resp_def request_def)
  moreover have "same_hist False (bpu p) u"
    using unit_predict_hist [OF u] by (auto simp: same_hist_def)
  moreover have "\<not> tr_br_mispred t" by (simp add: t_def new_transaction_def)
  ultimately show ?thesis
    using pending_mispred [OF p w] by (simp add: kept_def mispreds_def)
qed (use f in \<open>simp add: fetch_wrong_def\<close>)

text \<open>
  What is known of a fetched branch: whether it was judged wrong, and when an accepted one
  leaves the wrong direction in the register.
\<close>

definition judged :: "transaction \<Rightarrow> bool" where
  "judged t \<longleftrightarrow> (let r = tr_br_pred t; i = tr_inst t in
     (tr_br_mispred t \<longleftrightarrow> \<not> (if ti_br_taken i then pred_taken r \<and> pred_target r \<noteq> 0 \<and> pred_target r = ti_mem_addr i
                              else \<not> (pred_taken r \<and> pred_target r \<noteq> 0))) \<and>
     (2 \<le> bht_cnt r \<longrightarrow> pred_taken r))"

lemma predict_candidate_hist:
  assumes c: "predict_candidate t0 p = Some (p1, t)" and h: "hist_inv len g0 ts p" and s: "mispreds p = []"
  shows "same_insts p p1 \<and> tr_inst t = tr_inst t0 \<and> (\<exists>g. bu_bpu (bpu p1) = GShare g \<and> gs_history_len g = len \<and>
    (if ti_is_branch (tr_inst t)
     then judged t \<and> ghr_snap (tr_br_pred t) = history len g0 ts \<and> (\<not> tr_br_mispred t \<longrightarrow> gs_ghr g = history len g0 (ts @ [t]))
     else \<not> tr_br_mispred t \<and> gs_ghr g = history len g0 ts))"
proof -
  let ?i = "tr_inst t0"
  obtain g where g: "bu_bpu (bpu p) = GShare g" "gs_history_len g = len" "gs_ghr g = history len g0 ts"
    using h s by (auto simp: hist_inv_def)
  obtain u1 r u2 acc where u1: "predict_at_fetch (ti_pc ?i) (ti_is_branch ?i) (bpu p) = Some (u1, r)"
      and j: "judge (ti_is_branch ?i \<and> ti_br_taken ?i) (if ti_is_branch ?i \<and> ti_br_taken ?i then ti_mem_addr ?i else 0) r u1 = (u2, acc)"
      and t: "tr_inst t = ?i" "tr_br_pred t = r" "tr_br_mispred t = (\<not> acc)" and p1: "bpu p1 = u2"
    using c by (auto simp: predict_candidate_def Let_def case_prod_unfold prod_eq_iff)
  have acc: "acc \<longleftrightarrow> (if ti_is_branch ?i \<and> ti_br_taken ?i then will_redirect r \<and> pred_target r = ti_mem_addr ?i else \<not> will_redirect r)"
    using judge_accurate [of "ti_is_branch ?i \<and> ti_br_taken ?i" "if ti_is_branch ?i \<and> ti_br_taken ?i then ti_mem_addr ?i else 0" r u1] j
    by auto
  have u2: "bu_bpu u2 = bu_bpu u1" by (rule judge_bpu [OF j])
  show ?thesis
  proof (cases "ti_is_branch ?i")
    case False
    then have "u1 = bpu p" "r = no_prediction" using u1 by (simp_all add: predict_at_fetch_def)
    then show ?thesis
      using predict_candidate_same [OF c] g t u2 p1 False acc by (auto simp: no_prediction_def)
  next
    case True
    define u where "u = (bpu p)\<lparr>bu_stats := (bu_stats (bpu p))\<lparr>bs_br_accesses := bs_br_accesses (bu_stats (bpu p)) + 1\<rparr>\<rparr>"
    have "unit_predict (ti_pc ?i) u = Some (u1, r)" "bu_bpu u = GShare g"
      using u1 True g by (simp_all add: predict_at_fetch_def u_def)
    from unit_predict_hist [OF this] obtain g' where g': "bu_bpu u1 = GShare g'" "gs_history_len g' = len"
        "ghr_snap r = history len g0 ts" "gs_ghr g' = shift_ghr len (history len g0 ts) (2 \<le> bht_cnt r)"
        "will_redirect r = (pred_taken r \<and> pred_target r \<noteq> 0)" "2 \<le> bht_cnt r \<longrightarrow> pred_taken r"
      using g by auto
    have "judged t" using g'(5,6) acc t True by (auto simp: judged_def Let_def)
    moreover have "gs_ghr g' = history len g0 (ts @ [t])" if "\<not> tr_br_mispred t"
      using g'(4) that t(2) by (simp add: history_snoc hist_bit_def)
    ultimately show ?thesis
      using predict_candidate_same [OF c] g' t u2 p1 True by auto
  qed
qed

text \<open>What a fetch brings in: nothing, or the instruction of the input buffer.\<close>

definition took :: "nat \<Rightarrow> 32 word \<Rightarrow> transaction list \<Rightarrow> transaction option \<Rightarrow> pipeline \<Rightarrow> bool" where
  "took len g0 ts x p' \<longleftrightarrow>
     hist_inv len g0 ts p' \<and> input_buffer p' = x \<or>
     (\<exists>t0. x = Some t0 \<and> input_buffer p' = None \<and>
        (let t = last (front_list p')
         in tr_inst t = tr_inst t0 \<and>
            (if ti_is_branch (tr_inst t) then judged t \<and> hist_inv len g0 (ts @ [t]) p' else hist_inv len g0 ts p')))"

lemma same_front_hist: "same_front p q \<Longrightarrow> hist_inv len g0 ts q = hist_inv len g0 ts p"
  by (simp add: hist_inv_def same_frontD)

lemma same_front_took: "same_front p q \<Longrightarrow> took len g0 ts x q = took len g0 ts x p"
  unfolding took_def by (simp only: same_front_hist same_frontD)

lemma fetch_real_took:
  assumes p: "pipe_inv T p" and h: "hist_inv len g0 ts p" and w: "\<not> wrong_path (fetch_st p)" and f: "fetch_real e p = Some p'"
  shows "took len g0 ts (input_buffer p) p'"
proof (cases "rb_full (fetch_queue p) \<or> input_buffer p = None")
  case True
  then have "p' = p" using f by (auto simp: fetch_real_def split: option.splits if_splits)
  then show ?thesis using h by (simp add: took_def)
next
  case False
  then obtain t0 where t0: "\<not> rb_full (fetch_queue p)" "input_buffer p = Some t0" by auto
  have s: "mispreds p = []" by (rule settled_mispred [OF p w])
  obtain p1 t where p1: "predict_candidate t0 (p\<lparr>input_buffer := None\<rparr>) = Some (p1, t)"
    using f t0 by (auto simp: fetch_real_def)
  have h0: "hist_inv len g0 ts (p\<lparr>input_buffer := None\<rparr>)" "mispreds (p\<lparr>input_buffer := None\<rparr>) = []"
    using h s by (simp_all add: hist_inv_def mispreds_def front_list_def)
  from predict_candidate_hist [OF p1 h0] obtain g where c: "same_insts (p\<lparr>input_buffer := None\<rparr>) p1" "tr_inst t = tr_inst t0"
      "bu_bpu (bpu p1) = GShare g" "gs_history_len g = len"
      "if ti_is_branch (tr_inst t)
       then judged t \<and> ghr_snap (tr_br_pred t) = history len g0 ts \<and> (\<not> tr_br_mispred t \<longrightarrow> gs_ghr g = history len g0 (ts @ [t]))
       else \<not> tr_br_mispred t \<and> gs_ghr g = history len g0 ts" by blast
  define p2 where "p2 = (if tr_br_mispred t then enter_wrong_path e t p1 else p1)"
  define p3 where "p3 = note_resp False (request (ImemRead (ti_pc (tr_inst t))) p2)"
  define p4 where "p4 = (if tage_overrode_bimodal (tr_br_pred t)
    then p3\<lparr>fetch_st := (fetch_st p3)\<lparr>resume_tick := max (resume_tick (fetch_st p3)) (now e + 2)\<rparr>\<rparr> else p3)"
  define p5 where "p5 = (if \<not> tr_br_mispred t \<and> will_redirect (tr_br_pred t)
    then p4\<lparr>fetch_st := (fetch_st p4)\<lparr>early_redir_remaining := 2, early_redir_seq_pc := ti_pc (tr_inst t) + 4\<rparr>,
            pstats := (pstats p4)\<lparr>early_redirects := early_redirects (pstats p4) + 1\<rparr>\<rparr> else p4)"
  obtain q where q: "rb_push_back t (fetch_queue p5) = Some q" "p' = p5\<lparr>fetch_queue := q\<rparr>"
    using f t0 p1 unfolding fetch_real_def p5_def p4_def p3_def p2_def by (auto simp: Let_def)
  have "same_front p1 p2" by (simp add: p2_def same_front_def same_insts_def enter_wrong_path_def Let_def)
  then have "same_front p1 p5" by (simp add: same_front_def same_insts_def p3_def p4_def p5_def note_resp_def request_def)
  note v = same_frontD [OF this]
  have q5: "fetch_queue p5 = fetch_queue p" "sim_pipe p5 = sim_pipe p" "input_buffer p5 = None"
    using c(1) v by (simp_all add: same_insts_def)
  have "rb_list q = rb_list (fetch_queue p) @ [t]"
    using ifq.pushE [of t "fetch_queue p" q] pipe_baseD(3) [OF pipe_invD(1) [OF p]] q(1) q5(1) by simp
  then have fl: "front_list p' = front_list p @ [t]" using q(2) q5 by (simp add: front_list_def)
  then have m: "mispreds p' = (if tr_br_mispred t then [bkey t] else [])" using s by (simp add: mispreds_def)
  have b: "input_buffer p' = None" "bpu p' = bpu p1" using q(2) q5 v by simp_all
  have "if ti_is_branch (tr_inst t) then judged t \<and> hist_inv len g0 (ts @ [t]) p' else hist_inv len g0 ts p'"
    using c(3-5) m b by (auto simp: hist_inv_def bkey_def)
  then show ?thesis using t0(2) b(1) fl c(2) by (simp add: took_def)
qed

lemma do_fetch_0_took:
  assumes p: "pipe_inv T p" and h: "hist_inv len g0 ts p" and f: "do_fetch_0 e p = Some p'"
  shows "took len g0 ts (input_buffer p) p'"
proof -
  have k: "took len g0 ts (input_buffer p) q" if "kept p q" for q
    using kept_hist [OF that h] that by (simp add: took_def kept_def)
  have early: "kept p (fetch_early p)"
    by (simp add: fetch_early_def Let_def note_resp_def request_def kept_def mispreds_def front_list_def)
  have leave: "took len g0 ts (input_buffer p) p'" if w: "wrong_path (fetch_st p)" "wp_flushed (fetch_st p)"
      and r: "fetch_real e (leave_wrong_path p) = Some p'"
  proof -
    have "hist_inv len g0 ts (leave_wrong_path p)" "front_list (leave_wrong_path p) = front_list p"
        "input_buffer (leave_wrong_path p) = input_buffer p"
      using h by (simp_all add: leave_wrong_path_def hist_inv_def mispreds_def front_list_def)
    then show ?thesis
      using fetch_real_took [OF conjunct1 [OF leave_wrong_path_inv [OF p w]] _ _ r, of len g0 ts]
      by (simp add: took_def leave_wrong_path_def)
  qed
  show ?thesis
    using f k early leave fetch_wrong_kept [OF p] fetch_real_took [OF p h] same_front_kept [OF stall_front(1)]
    by (auto simp: do_fetch_0_def split: if_splits)
qed

section \<open>Updates\<close>

text \<open>A handler that keeps the history.\<close>

definition quiet_hist :: "nat \<Rightarrow> 32 word \<Rightarrow> transaction list \<Rightarrow> pipeline \<Rightarrow> pipeline \<Rightarrow> bool" where
  "quiet_hist len g0 ts p p' \<longleftrightarrow> (hist_inv len g0 ts p \<longrightarrow> hist_inv len g0 ts p') \<and> input_buffer p' = input_buffer p"

lemma kept_quiet: "kept p p' \<Longrightarrow> quiet_hist len g0 ts p p'"
  using kept_hist by (auto simp: quiet_hist_def kept_def)

lemma back_quiet: "back_by p f \<Longrightarrow> f = Some p' \<Longrightarrow> quiet_hist len g0 ts p p'"
  by (rule kept_quiet, rule back_change_kept) (simp add: back_by_def)

lemma quiet_trans: "quiet_hist len g0 ts p q \<Longrightarrow> quiet_hist len g0 ts q r \<Longrightarrow> quiet_hist len g0 ts p r"
  by (simp add: quiet_hist_def)

lemma run_stage_quiet:
  assumes p: "pipe_inv T p" and r: "run_stage e s p = Some p'"
  shows "quiet_hist len g0 ts p p'"
proof (cases "sim_pipe p s = None \<and> prev_stage_valid e p s \<and> stage_update p s \<le> now e")
  case True
  then have h: "stage_handler e s p = Some p'" using r by (simp add: run_stage_def)
  show ?thesis
  proof (cases s)
    case Execute
    then show ?thesis
      using h do_execute_hist [OF p, of len g0 ts e p'] kept_quiet
      by (cases "hist_inv len g0 ts p") (auto simp: quiet_hist_def dest: execute_input)
  qed (use h True p kept_quiet [OF do_fetch_1_kept [OF p]] kept_quiet [OF do_decode_kept [OF p]] kept_quiet [OF ext_kept [OF p disjI1]] kept_quiet [OF ext_kept [OF p disjI2]]
      back_quiet [OF do_memory_back] back_quiet [OF do_writeback_back] in \<open>auto\<close>)
next
  case False
  then show ?thesis using r kept_quiet [OF kept_refl] by (auto simp: run_stage_def split: if_splits)
qed

lemma rest_of_update_took:
  assumes p1: "pipe_inv T p1" and h: "hist_inv len g0 ts p1" and T: "T \<le> now e" and inf: "now e < InfTime"
    and r: "rest_of_update e p1 = Some p'"
  shows "took len g0 ts (input_buffer p1) p'"
proof -
  have T1: "T < InfTime" using T inf by simp
  obtain p2 where p2: "run_stage e Memory p1 = Some p2" "pipe_inv T p2" using run_memory [OF p1 T1] inf by force
  obtain p3 where p3: "run_stage e IntDivExt p2 = Some p3" "pipe_inv T p3" using run_ex_stages [OF p2(2) T1 T] by blast
  obtain p4 where p4: "run_stage e IntMulExt p3 = Some p4" "pipe_inv T p4" using run_ex_stages [OF p3(2) T1 T] by blast
  obtain p5 where p5: "run_stage e Execute p4 = Some p5" "pipe_inv T p5" using run_ex_stages [OF p4(2) T1 T] by blast
  obtain p6 where p6: "run_stage e Decode p5 = Some p6" "pipe_inv (now e + 1) p6" using run_decode [OF p5(2) T inf] by blast
  obtain p7 where p7: "run_stage e Fetch p6 = Some p7" "pipe_inv (now e + 1) p7" using run_fetch [OF p6(2)] inf by force
  have q: "quiet_hist len g0 ts p1 p7"
    by (rule quiet_trans [OF run_stage_quiet [OF p1 p2(1)]], rule quiet_trans [OF run_stage_quiet [OF p2(2) p3(1)]],
        rule quiet_trans [OF run_stage_quiet [OF p3(2) p4(1)]], rule quiet_trans [OF run_stage_quiet [OF p4(2) p5(1)]],
        rule quiet_trans [OF run_stage_quiet [OF p5(2) p6(1)]], rule run_stage_quiet [OF p6(2) p7(1)])
  obtain p8 where p8: "do_fetch_0 e p7 = Some p8" "p' = calc_sched e p8"
    using r p2(1) p3(1) p4(1) p5(1) p6(1) p7(1) by (auto simp: rest_of_update_def)
  have "took len g0 ts (input_buffer p7) p8"
    by (rule do_fetch_0_took [OF p7(2) _ p8(1)]) (use q h in \<open>simp add: quiet_hist_def\<close>)
  then show ?thesis using q p8(2) by (simp add: quiet_hist_def same_front_took [OF stall_front(5)])
qed

lemma pipe_do_update_took:
  assumes p: "pipe_inv T p" and h: "hist_inv len g0 ts p" and T: "T \<le> now e" and inf: "now e < InfTime"
    and u: "pipe_do_update e p = Some p'"
  shows "took len g0 ts (input_buffer p) p'"
proof (cases "calc_nxtupd p \<le> now e")
  case True
  let ?p = "p\<lparr>bpu := begin_tick (bpu p)\<rparr>"
  have p0: "pipe_inv T ?p" using p pipe_baseD(2) [OF pipe_invD(1) [OF p]] by (auto intro!: bpu_inv)
  have h0: "hist_inv len g0 ts ?p" using h by (simp add: hist_inv_def mispreds_def begin_tick_def)
  obtain p1 where p1: "run_stage e WriteBack ?p = Some p1" "pipe_inv T p1" using run_writeback [OF p0] by blast
  have q: "quiet_hist len g0 ts ?p p1" by (rule run_stage_quiet [OF p0 p1(1)])
  have "rest_of_update e p1 = Some p'" using u True p1(1) by (simp add: pipe_do_update_def pipe_update_impl_split)
  from rest_of_update_took [OF p1(2) _ T inf this] q h0 show ?thesis by (simp add: quiet_hist_def)
qed (use u h in \<open>simp add: pipe_do_update_def took_def\<close>)

section \<open>Runs\<close>

text \<open>The records the events of a run feed.\<close>

fun fed_by :: "core_event \<Rightarrow> trace_inst list" where
  "fed_by (Feed e i) = [i]"
| "fed_by _ = []"

text \<open>
  The transaction a call brings into the fetch queue: it is the youngest there when the call
  left the input buffer empty that was occupied before or filled by the call.
\<close>

definition fetched_by :: "core_event \<Rightarrow> core_state \<Rightarrow> core_state \<Rightarrow> transaction list" where
  "fetched_by ev s s' =
     (if (input_buffer (core s) \<noteq> None \<or> fed_by ev \<noteq> []) \<and> input_buffer (core s') = None
      then [last (front_list (core s'))] else [])"

fun fetched :: "core_event list \<Rightarrow> core_state \<Rightarrow> transaction list" where
  "fetched [] s = []"
| "fetched (ev # evs) s =
     (case apply_event ev s of None \<Rightarrow> [] | Some s' \<Rightarrow> fetched_by ev s s' @ fetched evs s')"

definition branches :: "transaction list \<Rightarrow> transaction list" where
  "branches ts = filter (\<lambda>t. ti_is_branch (tr_inst t)) ts"

lemma branches_simps [simp]: "branches [] = []" "branches (t # ts) = (if ti_is_branch (tr_inst t) then [t] else []) @ branches ts"
  "branches (xs @ ys) = branches xs @ branches ys"
  by (simp_all add: branches_def)

text \<open>One call: the instruction that waits or is fed either waits still or was fetched.\<close>

lemma took_event:
  assumes "took len g0 ts x (core s')" and "x = None \<longleftrightarrow> input_buffer (core s) = None \<and> fed_by ev = []"
  shows "hist_inv len g0 (ts @ branches (fetched_by ev s s')) (core s') \<and> (\<forall>t\<in>set (branches (fetched_by ev s s')). judged t) \<and>
    map tr_inst (fetched_by ev s s') @ map tr_inst (opt_list (input_buffer (core s'))) = map tr_inst (opt_list x)"
  using assms by (auto simp: took_def fetched_by_def Let_def)

lemma apply_event_hist:
  assumes s: "core_inv s" and h: "hist_inv len g0 ts (core s)" and a: "apply_event ev s = Some s'"
  shows "hist_inv len g0 (ts @ branches (fetched_by ev s s')) (core s') \<and> (\<forall>t\<in>set (branches (fetched_by ev s s')). judged t) \<and>
    map tr_inst (fetched_by ev s s') @ map tr_inst (opt_list (input_buffer (core s')))
      = map tr_inst (opt_list (input_buffer (core s))) @ fed_by ev"
proof -
  note inv = core_invD [OF s]
  have quiet: ?thesis if "fed_by ev = []" "quiet_hist len g0 ts (core s) (core s')"
    using took_event [of len g0 ts "input_buffer (core s)" s' s ev] that h by (simp add: took_def quiet_hist_def)
  show ?thesis
  proof (cases ev)
    case (Update e)
    then have u: "pipe_do_update e (core s) = Some (core s')" "now e = clk s" "\<not> updated s"
      using a by (auto simp: guarded_Some)
    have "took len g0 ts (input_buffer (core s)) (core s')"
      by (rule pipe_do_update_took [OF inv(2) h _ _ u(1)]) (use inv u in \<open>simp_all add: edge_def\<close>)
    then show ?thesis using took_event [of len g0 ts "input_buffer (core s)" s' s ev] Update by simp
  next
    case (Feed e i)
    let ?x = "Some (new_transaction i False False)"
    let ?p = "(core s)\<lparr>ongoing_insts := ongoing_insts (core s) + 1, input_buffer := ?x\<rparr>"
    have f: "do_fetch_0 e ?p = Some (core s')" "input_buffer (core s) = None" "inst_ok i"
      using a Feed by (auto simp: guarded_Some feed_inst_def inst_avail_def)
    have n: "in_flight ?p = Suc (in_flight (core s))"
      using f(2) by (simp add: in_flight_def front_list_def back_list_def new_transaction_def)
    have "pipe_inv (edge s) ?p"
      using inv(2) f(3) n by (simp add: pipe_inv_def pipe_base_def front_list_def back_list_def lsu_waits_def new_transaction_def)
    moreover have "hist_inv len g0 ts ?p" using h by (simp add: hist_inv_def mispreds_def front_list_def)
    ultimately have "took len g0 ts ?x (core s')" using do_fetch_0_took [OF _ _ f(1)] by simp
    then show ?thesis using took_event [of len g0 ts ?x s' s ev] Feed f(2) by (simp add: new_transaction_def)
  next
    case (IfuResp e)
    then have "handle_ifu_resp e (core s) = Some (core s')"
      using a by (auto simp: guarded_Some recv_mem_resp_def)
    then show ?thesis using quiet kept_quiet [OF handle_ifu_kept [OF inv(2)]] IfuResp by simp
  next
    case (LsuResp e i w)
    then have "handle_lsu_resp e (core s) = Some (core s')"
      using a by (auto simp: guarded_Some recv_mem_resp_def)
    then show ?thesis using quiet back_quiet [OF handle_lsu_back] LsuResp by simp
  next
    case (Ack e i)
    then have "ack_mem_avail e i (core s) = Some (core s')" using a by (auto simp: guarded_Some)
    then show ?thesis using quiet back_quiet [OF ack_back] Ack by simp
  next
    case Tick
    then show ?thesis using quiet kept_quiet [OF kept_refl] a by (auto split: if_splits)
  next
    case Drain
    then have "kept (core s) (core s')" using a by (auto simp: kept_def mispreds_def front_list_def set_draining_def)
    then show ?thesis using quiet kept_quiet Drain by simp
  next
    case ResetStats
    then have "kept (core s) (core s')" using a by (auto simp: kept_def mispreds_def front_list_def pipe_reset_stats_def)
    then show ?thesis using quiet kept_quiet ResetStats by simp
  qed
qed

lemma core_run_hist:
  assumes "core_inv s" and "hist_inv len g0 ts (core s)" and "core_run evs s = Some s'"
  shows "hist_inv len g0 (ts @ branches (fetched evs s)) (core s') \<and> (\<forall>t\<in>set (branches (fetched evs s)). judged t) \<and>
    map tr_inst (fetched evs s) @ map tr_inst (opt_list (input_buffer (core s')))
      = map tr_inst (opt_list (input_buffer (core s))) @ concat (map fed_by evs)"
  using assms
proof (induction evs arbitrary: s ts)
  case (Cons ev evs)
  obtain s1 where s1: "apply_event ev s = Some s1" "core_run evs s1 = Some s'"
    using Cons.prems(3) by (cases "apply_event ev s") auto
  note a = apply_event_hist [OF Cons.prems(1,2) s1(1)]
  have "core_inv s1" by (rule core_step_inv [OF apply_event_step [OF s1(1)] Cons.prems(1)])
  note r = Cons.IH [OF this _ s1(2), of "ts @ branches (fetched_by ev s s1)"]
  have "map tr_inst (fetched (ev # evs) s) @ map tr_inst (opt_list (input_buffer (core s')))
      = (map tr_inst (fetched_by ev s s1) @ map tr_inst (opt_list (input_buffer (core s1)))) @ concat (map fed_by evs)"
    using r a s1(1) by simp
  then show ?case using r a s1(1) by auto
qed simp

section \<open>The register of a run\<close>

lemma judged_bit: "judged t \<Longrightarrow> hist_bit t \<noteq> ti_br_taken (tr_inst t) \<Longrightarrow>
    \<not> tr_br_mispred t \<and> pred_taken (tr_br_pred t) \<and>
    (if ti_br_taken (tr_inst t) then bht_cnt (tr_br_pred t) < 2 \<and> pred_target (tr_br_pred t) = ti_mem_addr (tr_inst t)
     else 2 \<le> bht_cnt (tr_br_pred t) \<and> pred_target (tr_br_pred t) = 0)"
proof -
  assume j: "judged t" and d: "hist_bit t \<noteq> ti_br_taken (tr_inst t)"
  have m: "\<not> tr_br_mispred t" using d by (auto simp: hist_bit_def)
  then have b: "(2 \<le> bht_cnt (tr_br_pred t)) \<noteq> ti_br_taken (tr_inst t)" using d by (simp add: hist_bit_def)
  show ?thesis
  proof (cases "ti_br_taken (tr_inst t)")
    case True
    then show ?thesis using j m b unfolding judged_def Let_def by simp
  next
    case False
    then show ?thesis using j m b unfolding judged_def Let_def by simp
  qed
qed

lemma mispreds_Nil: "mispreds p = [] \<longleftrightarrow> \<not> (\<exists>t\<in>set (front_list p). tr_br_mispred t)"
  by (auto simp: mispreds_def filter_empty_conv)

lemma waiting_branch:
  assumes "hist_inv len g0 ts p" and "mispreds p \<noteq> []"
  shows "ts \<noteq> [] \<and> tr_br_mispred (last ts) \<and> ghr_snap (tr_br_pred (last ts)) = history len g0 (butlast ts)"
proof -
  obtain k ks where k: "mispreds p = k # ks" using assms(2) by (cases "mispreds p") auto
  then obtain ts' m where "ts = ts' @ [m]" "tr_br_mispred m" "bkey m = k" "ghr_snap (snd k) = history len g0 ts'"
    using assms(1) by (auto simp: hist_inv_def)
  then show ?thesis by (auto simp: bkey_def)
qed

lemma start_hist:
  assumes "bu_bpu u = GShare g0"
  shows "hist_inv (gs_history_len g0) (gs_ghr g0) [] (core (core_start n u lat nx))"
    and "input_buffer (core (core_start n u lat nx)) = None"
  using assms by (simp_all add: hist_inv_def core_start_def new_pipeline_def mispreds_def front_list_def new_ring_list history_def)

text \<open>
  (C28) The history register of gshare in every run of the core, over all calls its
  environment may make. The branches fetched are those of the records fed, in their order. When
  no mispredicted branch waits in the front end the register is exactly the history of the
  branches fetched, the newest in bit 0: of each branch whose fetch was judged wrong the actual
  direction, of every other one the predicted direction. While one waits, it is the newest
  branch and the snapshot its repair will use is the history of those before it. The bit kept
  of a branch differs from its actual direction only where the fetch went right by accident: a
  branch not taken that was predicted taken without a target, or a taken one whose counter said
  not taken and that the return stack sent to the right target.
\<close>

theorem gshare_history_exact:
  assumes "0 < n" and "n < 2 ^ 32" and "unit_ok u" and "bu_bpu u = GShare g0"
    and "core_run evs (core_start n u lat nx) = Some s"
  shows "\<exists>g. bu_bpu (bpu (core s)) = GShare g \<and>
    (let ts = fetched evs (core_start n u lat nx);
         bs = branches ts;
         hist = history (gs_history_len g0) (gs_ghr g0)
     in map tr_inst ts @ map tr_inst (opt_list (input_buffer (core s))) = concat (map fed_by evs) \<and>
        (if \<exists>t\<in>set (front_list (core s)). tr_br_mispred t
         then bs \<noteq> [] \<and> tr_br_mispred (last bs) \<and> ghr_snap (tr_br_pred (last bs)) = hist (butlast bs)
         else gs_ghr g = hist bs) \<and>
        (\<forall>t\<in>set bs. hist_bit t \<noteq> ti_br_taken (tr_inst t) \<longrightarrow>
           \<not> tr_br_mispred t \<and> pred_taken (tr_br_pred t) \<and>
           (if ti_br_taken (tr_inst t) then bht_cnt (tr_br_pred t) < 2 \<and> pred_target (tr_br_pred t) = ti_mem_addr (tr_inst t)
            else 2 \<le> bht_cnt (tr_br_pred t) \<and> pred_target (tr_br_pred t) = 0)))"
proof -
  define ts where "ts = fetched evs (core_start n u lat nx)"
  have r: "hist_inv (gs_history_len g0) (gs_ghr g0) (branches ts) (core s)" "\<forall>t\<in>set (branches ts). judged t"
      "map tr_inst ts @ map tr_inst (opt_list (input_buffer (core s))) = concat (map fed_by evs)"
    using core_run_hist [OF core_start_inv [OF assms(1-3)] start_hist(1) [OF assms(4)] assms(5)] start_hist(2) [OF assms(4)]
    by (simp_all add: ts_def)
  obtain g where g: "bu_bpu (bpu (core s)) = GShare g"
      "mispreds (core s) = [] \<longrightarrow> gs_ghr g = history (gs_history_len g0) (gs_ghr g0) (branches ts)"
    using r(1) by (auto simp: hist_inv_def)
  have wait: "branches ts \<noteq> [] \<and> tr_br_mispred (last (branches ts)) \<and>
      ghr_snap (tr_br_pred (last (branches ts))) = history (gs_history_len g0) (gs_ghr g0) (butlast (branches ts))"
    if "mispreds (core s) \<noteq> []"
    by (rule waiting_branch [OF r(1) that])
  have "\<forall>t\<in>set (branches ts). hist_bit t \<noteq> ti_br_taken (tr_inst t) \<longrightarrow>
      \<not> tr_br_mispred t \<and> pred_taken (tr_br_pred t) \<and>
      (if ti_br_taken (tr_inst t) then bht_cnt (tr_br_pred t) < 2 \<and> pred_target (tr_br_pred t) = ti_mem_addr (tr_inst t)
       else 2 \<le> bht_cnt (tr_br_pred t) \<and> pred_target (tr_br_pred t) = 0)"
    using r(2) judged_bit by blast
  moreover have "if \<exists>t\<in>set (front_list (core s)). tr_br_mispred t
      then branches ts \<noteq> [] \<and> tr_br_mispred (last (branches ts)) \<and>
        ghr_snap (tr_br_pred (last (branches ts))) = history (gs_history_len g0) (gs_ghr g0) (butlast (branches ts))
      else gs_ghr g = history (gs_history_len g0) (gs_ghr g0) (branches ts)"
    using wait g(2) mispreds_Nil [of "core s"] by (simp only: split: if_split) blast
  ultimately show ?thesis
    unfolding Let_def ts_def [symmetric] using g(1) r(3) by blast
qed

text \<open>
  A taken branch is mispredicted and resolved; the branch behind it finds its counter trained
  and no target, is not taken and hence accepted: the register ends as binary 11, where the
  directions were 10.
\<close>

definition hist_env :: "tick_t \<Rightarrow> penv" where
  "hist_env t = \<lparr>now = t, imem_ready = True, dmem_ready = (True, True), nc_ready = Some (True, True)\<rparr>"

definition hist_branch :: "addr_t \<Rightarrow> bool \<Rightarrow> trace_inst" where
  "hist_branch pc taken = inst_zero\<lparr>ti_pc := pc, ti_is_branch := True, ti_br_taken := taken, ti_mem_addr := pc + 0x40\<rparr>"

definition hist_calls :: "core_event list" where
  "hist_calls = [Feed (hist_env 0) (hist_branch 0x40 True), IfuResp (hist_env 0), Tick, Update (hist_env 1), Tick, Update (hist_env 2),
     Tick, Update (hist_env 3), Tick, Update (hist_env 4), Feed (hist_env 4) (hist_branch 0x44 False)]"

definition hist_unit :: branch_unit where
  "hist_unit = new_branch_unit (GShare (new_gshare 4 4 1)) (Compressed (new_compressed_btb 4 16 True 0)) 2"

lemma hist_unit_ok: "unit_ok hist_unit" "bu_bpu hist_unit = GShare (new_gshare 4 4 1)"
  unfolding hist_unit_def
  by (rule new_branch_unit_ok) (simp_all add: new_predictors_ok new_compressed_btb_ok new_branch_unit_def)

lemma hist_calls_run:
  "map_option (\<lambda>s. (case bu_bpu (bpu (core s)) of GShare g \<Rightarrow> gs_ghr g | _ \<Rightarrow> 0, list_ex tr_br_mispred (front_list (core s))))
     (core_run hist_calls (core_start 8 hist_unit 3 0)) = Some (3, False)"
  by code_simp

theorem gshare_history_exact_witness:
  "\<exists>s g. core_run hist_calls (core_start 8 hist_unit 3 0) = Some s \<and> bu_bpu (bpu (core s)) = GShare g \<and>
    gs_ghr g = history 4 0 (branches (fetched hist_calls (core_start 8 hist_unit 3 0))) \<and> gs_ghr g = 3 \<and>
    foldl (shift_ghr 4) 0 (map ti_br_taken (concat (map fed_by hist_calls))) = 2"
proof -
  obtain s where s: "core_run hist_calls (core_start 8 hist_unit 3 0) = Some s"
      "(case bu_bpu (bpu (core s)) of GShare g \<Rightarrow> gs_ghr g | _ \<Rightarrow> 0) = 3" "\<not> list_ex tr_br_mispred (front_list (core s))"
    using hist_calls_run by auto
  have settled: "\<not> (\<exists>t\<in>set (front_list (core s)). tr_br_mispred t)"
    using s(3) by (simp add: list_ex_iff)
  obtain g where g: "bu_bpu (bpu (core s)) = GShare g"
      "gs_ghr g = history (gs_history_len (new_gshare 4 4 1)) (gs_ghr (new_gshare 4 4 1)) (branches (fetched hist_calls (core_start 8 hist_unit 3 0)))"
    using gshare_history_exact [OF _ _ hist_unit_ok s(1)] settled by (auto simp: Let_def)
  have "foldl (shift_ghr 4) 0 (map ti_br_taken (concat (map fed_by hist_calls))) = 2"
    by (simp add: hist_calls_def hist_branch_def shift_ghr_def inst_zero_def mask_eq_decr_exp)
  then show ?thesis using s(1,2) g by (intro exI [of _ s] exI [of _ g]) (simp add: new_gshare_def)
qed

end
