(* ===== verification/PipeProps.thy ===== *)
theory PipeProps
  imports PipeRun BranchProps
begin

text \<open>
  What the core promises: no call that its environment may make aborts, the counter of
  instructions in flight is exact, wrong-path work never passes decode, responses find the
  entry they belong to, and every cycle is charged once.
\<close>

definition demo_core :: core_state where
  "demo_core = core_start 8 demo_unit 3 0"

definition demo_env :: penv where
  "demo_env = \<lparr>now = 0, imem_ready = True, dmem_ready = (True, True), nc_ready = Some (True, True)\<rparr>"

lemma demo_core_reach: "core_reach 8 demo_unit 3 0 demo_core"
  unfolding demo_core_def by (rule core_reach_start) (simp_all add: demo_unit_ok)

lemma demo_core_clk [simp]: "clk demo_core = 0" "now demo_env = 0" "updated demo_core = False"
  by (simp_all add: demo_core_def core_start_def demo_env_def)

lemma demo_pipe_inv: "pipe_inv 0 (new_pipeline 8 demo_unit 3 0)"
  by (rule new_pipeline_inv) (simp_all add: demo_unit_ok)

lemma demo_feedable: "inst_avail (core demo_core)" "inst_ok inst_zero"
  by (simp_all add: inst_avail_def demo_core_def core_start_def new_pipeline_def inst_ok_def inst_zero_def op_codes)

section \<open>The core as a state machine\<close>

text \<open>
  (C8) In every reachable state of the core every call its environment may make returns: the
  update of a tick, a response of the instruction cache while one is outstanding, a response
  of the data port while the load-store unit waits, an acknowledgement of any port, and the
  feeding of an instruction while the input buffer is free. No assertion fails and no null
  slot is read.
\<close>

theorem core_never_aborts:
  assumes "core_reach n u lat nx s" and "now e = clk s"
  shows "(\<not> updated s \<longrightarrow> pipe_do_update e (core s) \<noteq> None) \<and>
    (resp_is_orphan (fetch_st (core s)) \<noteq> [] \<longrightarrow> recv_mem_resp e 0 False (core s) \<noteq> None) \<and>
    (lsu_waits (core s) \<longrightarrow> recv_mem_resp e 1 w (core s) \<noteq> None \<and> recv_mem_resp e 2 w (core s) \<noteq> None) \<and>
    (i \<le> 2 \<longrightarrow> ack_mem_avail e i (core s) \<noteq> None) \<and>
    (inst_avail (core s) \<and> inst_ok t \<longrightarrow> feed_inst e t (core s) \<noteq> None)"
proof -
  note inv = core_reach_inv [OF assms(1)]
  show ?thesis
    using core_update_ok [OF inv _ assms(2)] core_ifu_ok [OF inv, of e] core_lsu_ok [OF inv _ _ assms(2), of 1 w]
      core_lsu_ok [OF inv _ _ assms(2), of 2 w] core_ack_ok [OF inv, of i e] core_feed_ok [OF inv _ _ assms(2), of t]
    by force
qed

theorem core_never_aborts_witness:
  "pipe_do_update demo_env (core demo_core) \<noteq> None \<and> ack_mem_avail demo_env 0 (core demo_core) \<noteq> None \<and>
    feed_inst demo_env inst_zero (core demo_core) \<noteq> None"
  using core_never_aborts [OF demo_core_reach, of demo_env False 0 inst_zero] demo_feedable by simp

text \<open>
  (C9) The 64-bit counter of instructions in flight is exact in every reachable state: it
  never wraps, the core reports that it is finished exactly when no trace instruction is left
  in the input buffer, the fetch queue or a stage, and every instruction fed is either still
  there or counted as committed.
\<close>

theorem in_flight_exact:
  assumes "core_reach n u lat nx s"
  shows "unat (ongoing_insts (core s)) = in_flight (core s) \<and>
    (is_finished (core s) \<longleftrightarrow> in_flight (core s) = 0) \<and>
    fed s = in_flight (core s) + ps_insts (pstats (core s)) + committed_before s"
proof -
  note inv = core_invD [OF core_reach_inv [OF assms]]
  have f: "unat (ongoing_insts (core s)) = in_flight (core s)"
    using in_flight_unat [OF pipe_invD(1) [OF inv(2)]] by simp
  then have "is_finished (core s) \<longleftrightarrow> in_flight (core s) = 0"
    by (simp add: is_finished_def unat_eq_0 flip: f)
  then show ?thesis using f inv(4) by (simp add: accounted_def)
qed

theorem in_flight_exact_witness:
  "unat (ongoing_insts (core demo_core)) = in_flight (core demo_core) \<and>
    (is_finished (core demo_core) \<longleftrightarrow> in_flight (core demo_core) = 0) \<and>
    fed demo_core = in_flight (core demo_core) + ps_insts (pstats (core demo_core)) + committed_before demo_core"
  by (rule in_flight_exact [OF demo_core_reach])

lemma split_path_imp:
  "split_path ts \<Longrightarrow> \<exists>older b younger. ts = older @ b # younger \<and> (\<forall>t\<in>set older. on_path t) \<and>
     tr_br_mispred b \<and> \<not> is_wrong_path b \<and> (\<forall>t\<in>set younger. is_wrong_path t)"
proof (induction ts)
  case (Cons t ts)
  show ?case
  proof (cases "tr_br_mispred t")
    case True
    then show ?thesis using Cons.prems by (intro exI [of _ "[]"]) simp
  next
    case False
    then obtain older b younger where "ts = older @ b # younger" "\<forall>t\<in>set older. on_path t" "tr_br_mispred b"
        "\<not> is_wrong_path b" "\<forall>t\<in>set younger. is_wrong_path t"
      using Cons by auto
    then show ?thesis using False Cons.prems by (intro exI [of _ "t # older"]) (auto simp: on_path_def)
  qed
qed simp

text \<open>
  (C10) Wrong-path work is contained. While the core follows a wrong path the front end holds,
  from the oldest to the youngest, instructions on the right path, the one mispredicted
  branch, and then only placeholders of the wrong path; otherwise it holds no placeholder at
  all. The stages behind decode never hold one.
\<close>

theorem wrong_path_contained:
  assumes "core_reach n u lat nx s"
  shows "(if wrong_path (fetch_st (core s)) \<and> \<not> wp_flushed (fetch_st (core s))
     then \<exists>older b younger. front_list (core s) = older @ b # younger \<and> (\<forall>t\<in>set older. on_path t) \<and>
       tr_br_mispred b \<and> \<not> is_wrong_path b \<and> (\<forall>t\<in>set younger. is_wrong_path t)
     else \<forall>t\<in>set (front_list (core s)). on_path t) \<and>
    (\<forall>t\<in>set (back_list (core s)). \<not> is_wrong_path t)"
proof -
  note inv = core_invD(2) [OF core_reach_inv [OF assms]]
  show ?thesis
    using pipe_invD(2) [OF inv] pipe_baseD(6) [OF pipe_invD(1) [OF inv]]
      split_path_imp [of "front_list (core s)"]
    by (auto simp: path_ok_def)
qed

text \<open>A taken branch fed to a core without predictor puts it on the wrong path.\<close>

definition plain_unit :: branch_unit where
  "plain_unit = new_branch_unit (NoBPU 0) no_btb 0"

lemma plain_unit_ok: "unit_ok plain_unit"
  unfolding plain_unit_def by (rule new_branch_unit_ok) (simp_all add: no_btb_def)

definition demo_taken :: trace_inst where
  "demo_taken = inst_zero\<lparr>ti_pc := 0x40, ti_is_branch := True, ti_br_taken := True, ti_mem_addr := 0x80\<rparr>"

lemma demo_taken_ok: "inst_ok demo_taken"
  by (simp add: demo_taken_def inst_ok_def inst_zero_def op_codes)

lemma feed_taken:
  "\<exists>p. feed_inst demo_env demo_taken (new_pipeline 8 plain_unit 3 0) = Some p \<and>
    wrong_path (fetch_st p) \<and> \<not> wp_flushed (fetch_st p)"
  by (simp add: feed_inst_def new_pipeline_def do_fetch_0_def fetch_state_zero_def demo_env_def fetch_real_def
      rb_full_def new_ring_def predict_candidate_def predict_at_fetch_def unit_predict_def plain_unit_def
      demo_taken_def new_transaction_def inst_zero_def no_btb_def port_target_def ras_override_def
      new_branch_unit_def nobpu_predict_def Let_def judge_def pred_result_def enter_wrong_path_def
      flush_stall_cycles_def note_resp_def request_def rb_push_back_def is_no_bpu_def)

theorem wrong_path_contained_witness:
  "\<exists>s. core_reach 8 plain_unit 3 0 s \<and> wrong_path (fetch_st (core s)) \<and>
    (\<exists>older b younger. front_list (core s) = older @ b # younger \<and> (\<forall>t\<in>set older. on_path t) \<and>
       tr_br_mispred b \<and> \<not> is_wrong_path b \<and> (\<forall>t\<in>set younger. is_wrong_path t))"
proof -
  define s0 where "s0 = core_start 8 plain_unit 3 0"
  obtain p where p: "feed_inst demo_env demo_taken (core s0) = Some p" "wrong_path (fetch_st p)" "\<not> wp_flushed (fetch_st p)"
    using feed_taken by (auto simp: s0_def core_start_def)
  define s where "s = s0\<lparr>core := p, fed := fed s0 + 1\<rparr>"
  have "core_reach 8 plain_unit 3 0 s0" unfolding s0_def by (rule core_reach_start) (simp_all add: plain_unit_ok)
  moreover have "core_step s0 s"
    unfolding s_def
    by (rule core_step.feed [OF _ _ demo_taken_ok p(1)])
      (simp_all add: s0_def core_start_def inst_avail_def new_pipeline_def)
  ultimately have r: "core_reach 8 plain_unit 3 0 s" by (rule core_reach_step)
  have "core s = p" by (simp add: s_def)
  then show ?thesis using r p wrong_path_contained [OF r] by (intro exI [of _ s]) simp
qed

text \<open>
  (C15) Every cycle is charged once: in every reachable state the five categories of the
  breakdown add up to the cycles between the last reset and the last charged cycle.
\<close>

theorem cycles_charged_once:
  assumes "core_reach n u lat nx s"
  shows "st_reset_tick (stall (core s)) + breakdown (pstats (core s)) = st_last_tick (stall (core s)) \<and>
    st_last_tick (stall (core s)) \<le> clk s + 1"
  using core_invD(3,6) [OF core_reach_inv [OF assms]] by (auto simp: on_books_def acct_def)

theorem cycles_charged_once_witness:
  "st_reset_tick (stall (core demo_core)) + breakdown (pstats (core demo_core)) = st_last_tick (stall (core demo_core)) \<and>
    st_last_tick (stall (core demo_core)) \<le> clk demo_core + 1"
  by (rule cycles_charged_once [OF demo_core_reach])

text \<open>
  (C24) A commit closes the accounts: when the cycles so far are charged and write-back retires
  an instruction, it leaves the pipeline, is counted, and the five categories add up to one
  more than the cycle count the core reports, since the cycle of the commit is charged too.
\<close>

theorem commit_closes_accounts:
  assumes "acct_ok (now e) p" and "wb_source e p = Some src" and "do_writeback e p = Some p'"
  shows "breakdown (pstats p') = ps_cycles (pstats p') + 1 \<and> ps_insts (pstats p') = ps_insts (pstats p) + 1 \<and>
    sim_pipe p' = (sim_pipe p)(src := None) \<and> ongoing_insts p' = ongoing_insts p - 1"
proof -
  let ?p = "put_slot src None (count_inst e (commit_stall e (the (sim_pipe p src)) (p\<lparr>ongoing_insts := ongoing_insts p - 1\<rparr>)))"
  have b: "acct_ok (now e + 1) p'"
    using do_writeback_acct [OF assms(1)] assms(3) by (simp add: yields_def)
  have eq: "p' = ?p\<lparr>stage_update := (stage_update ?p)(WriteBack := now e + 1)\<rparr>"
    using assms(2,3) wb_source_some [OF assms(2)] by (auto simp: do_writeback_def Let_def schedule_ex)
  have "st_last_tick (stall p') = now e + 1" "st_reset_tick (stall p') = st_reset_tick (stall p)"
      "ps_cycles (pstats p') = now e - st_reset_tick (stall p)" "ps_insts (pstats p') = ps_insts (pstats p) + 1"
      "sim_pipe p' = (sim_pipe p)(src := None)" "ongoing_insts p' = ongoing_insts p - 1"
    unfolding eq
    by (auto simp: commit_stall_def count_inst_def put_slot_def flush_stall_cycles_def Let_def charge_def
        split: stall_cause.splits)
  then show ?thesis
    using b assms(1) by (auto simp: on_books_def acct_def)
qed

definition demo_retire :: pipeline where
  "demo_retire = put_slot Memory (Some (new_transaction inst_zero False False)) (new_pipeline 8 demo_unit 3 0)"

theorem commit_closes_accounts_witness:
  "\<exists>p'. do_writeback demo_env demo_retire = Some p' \<and> breakdown (pstats p') = ps_cycles (pstats p') + 1 \<and>
    ps_insts (pstats p') = ps_insts (pstats demo_retire) + 1"
proof -
  have a: "acct_ok (now demo_env) demo_retire" using new_pipeline_acct by (simp add: demo_retire_def)
  have w: "wb_source demo_env demo_retire = Some Memory"
    by (simp add: wb_source_def demo_retire_def put_slot_def)
  obtain p' where p': "do_writeback demo_env demo_retire = Some p'"
    using w wb_source_some [OF w] by (auto simp: do_writeback_def Let_def schedule_ex)
  show ?thesis using p' commit_closes_accounts [OF a w p'] by blast
qed

section \<open>Stages\<close>

text \<open>
  (C13) A response of the instruction cache goes to the request it answers: an orphan only
  leaves the response queue, any other response completes the oldest entry of the fetch queue
  that still waits, and the entries before it have all been answered.
\<close>

theorem ifu_resp_in_order:
  assumes "pipe_inv T p" and "resp_is_orphan (fetch_st p) = orph # rest"
  shows "\<exists>p'. handle_ifu_resp e p = Some p' \<and> resp_is_orphan (fetch_st p') = rest \<and>
    (if orph then fetch_queue p' = fetch_queue p
     else \<exists>xs t ys. rb_list (fetch_queue p) = xs @ t # ys \<and> (\<forall>x\<in>set xs. \<not> wait_mem x) \<and> wait_mem t \<and>
       rb_list (fetch_queue p') = xs @ t\<lparr>wait_mem := False\<rparr> # ys)"
proof (cases orph)
  case True
  then show ?thesis using assms(2) by (simp add: handle_ifu_resp_def)
next
  case False
  let ?q = "fetch_queue p" and ?f = "(fetch_st p)\<lparr>resp_is_orphan := rest\<rparr>"
  have ring: "ring_ok ?q" using pipe_baseD(3) [OF pipe_invD(1) [OF assms(1)]] .
  have "0 < n_waiting (rb_list ?q)"
    using pipe_baseD(7) [OF pipe_invD(1) [OF assms(1)]] assms(2) False by (simp add: resp_ok_def)
  then obtain i where i: "first_idx wait_mem (rb_list ?q) = Some i" "i < rb_cnt ?q" "wait_mem (rb_list ?q ! i)"
    using first_waiting by force
  let ?t = "rb_list ?q ! i"
  have find: "rb_find_if (\<lambda>t. case t of Some x \<Rightarrow> wait_mem x | None \<Rightarrow> False) ?q = Some i"
    using rb_find_if_spec [OF ring] i(1) by (simp add: comp_def)
  have at: "rb_at ?q i = Some ?t" using ring_at [OF ring i(2)] .
  have eq: "handle_ifu_resp e p = async_schedule e Fetch (now e + 1)
      (p\<lparr>fetch_st := ?f, fetch_queue := rb_put i (?t\<lparr>wait_mem := False\<rparr>) ?q\<rparr>)"
    using assms(2) False find at by (simp add: handle_ifu_resp_def)
  have split: "rb_list ?q = take i (rb_list ?q) @ ?t # drop (Suc i) (rb_list ?q)"
    using i(2) by (intro id_take_nth_drop) simp
  have before: "\<forall>x\<in>set (take i (rb_list ?q)). \<not> wait_mem x"
    using i(1,2) first_idx_Some [of wait_mem "rb_list ?q" i] by (auto simp: in_set_conv_nth simp del: nth_rb_list)
  have "rb_list (rb_put i (?t\<lparr>wait_mem := False\<rparr>) ?q) =
      take i (rb_list ?q) @ ?t\<lparr>wait_mem := False\<rparr> # drop (Suc i) (rb_list ?q)"
    using rb_put_spec [OF ring i(2)] i(2) by (simp add: upd_conv_take_nth_drop)
  then show ?thesis
    using eq False split before i(3) by (auto simp: async_schedule_ex simp del: nth_rb_list)
qed

text \<open>
  (C12) Resolving a branch in execute returns and never drops a trace instruction: for a
  mispredicted branch the fetch slot and the fetch queue are emptied, all they held was wrong
  path, the outstanding responses are all marked as orphans, and fetching resumes one cycle
  later; for any other instruction the front end is left as it is.
\<close>

theorem mispredict_flush_exact:
  assumes "pipe_inv T p" and "sim_pipe p Decode = Some t"
  shows "\<exists>p'. resolve_branch e t p = Some p' \<and> in_flight p' = in_flight p \<and>
    (if tr_br_mispred t
     then front_list p' = [t] \<and> (\<forall>x\<in>set (tl (front_list p)). is_wrong_path x) \<and>
       resp_is_orphan (fetch_st p') = replicate (length (resp_is_orphan (fetch_st p))) True \<and>
       resume_tick (fetch_st p') = now e + 1
     else front_list p' = front_list p \<and> fetch_st p' = fetch_st p)"
proof -
  obtain ys where f: "front_list p = t # ys" using assms(2) by (simp add: front_list_def)
  have tok: "trans_ok t" using decode_slot_ok [OF pipe_invD(1) [OF assms(1)] assms(2)] .
  obtain p' where p': "resolve_branch e t p = Some p'" "in_flight p' = in_flight p" "sim_pipe p' Decode = Some t"
    using resolve_branch_ok [OF assms] by blast
  show ?thesis
  proof (cases "tr_br_mispred t")
    case True
    then have "ti_is_branch (tr_inst t)" using tok by (auto simp: trans_ok_def)
    moreover obtain u where u: "unit_update (ti_pc (tr_inst t)) (ti_br_taken (tr_inst t))
        (if ti_br_taken (tr_inst t) then ti_mem_addr (tr_inst t) else 0) (ti_dst_reg (tr_inst t) = 1)
        (ti_src0 (tr_inst t) = 1 \<and> ti_dst_reg (tr_inst t) = 0) (pred_target (tr_br_pred t) \<noteq> 0)
        (tr_br_pred t) (tr_br_mispred t) (bpu p) = Some u" "unit_ok u"
      using unit_update_ex pipe_baseD(2) [OF pipe_invD(1) [OF assms(1)]] tok by (metis trans_ok_def)
    ultimately have eq: "p' = flush_front e (p\<lparr>bpu := u\<rparr>)" "unit_ok u"
      using p'(1) True by (simp_all add: resolve_branch_def Let_def)
    have b: "pipe_base T (p\<lparr>bpu := u\<rparr>)" by (rule bpu_base [OF pipe_invD(1) [OF assms(1)] eq(2)])
    have "\<forall>x\<in>set ys. is_wrong_path x"
      using path_ok_mispred [of "fetch_st p" t ys] pipe_invD(2) [OF assms(1)] f True by auto
    moreover have "front_list p' = [t]"
      using flush_front_base(2,3) [OF b, of e] assms(2) by (simp add: eq front_list_def)
    moreover have "resp_is_orphan (fetch_st p') = replicate (length (resp_is_orphan (fetch_st p))) True"
        "resume_tick (fetch_st p') = now e + 1"
      by (simp_all add: eq flush_front_def Let_def kBranchMissPenalty_def map_replicate_const)
    ultimately show ?thesis using p' f True by auto
  next
    case False
    then have "\<exists>u. p' = p\<lparr>bpu := u\<rparr>"
      using p'(1) by (auto simp: resolve_branch_def Let_def split: if_splits bind_splits intro: exI [of _ "bpu p"])
    then show ?thesis using False p' by (auto simp: front_list_def)
  qed
qed

definition demo_branch :: transaction where
  "demo_branch = (new_transaction (inst_zero\<lparr>ti_pc := 0x40, ti_is_branch := True, ti_br_taken := True, ti_mem_addr := 0x80\<rparr>)
     False False)\<lparr>tr_br_mispred := True\<rparr>"

definition demo_wrong :: transaction where
  "demo_wrong = new_transaction (inst_zero\<lparr>ti_pc := 0x44\<rparr>) True True"

text \<open>A mispredicted branch in decode, one placeholder behind it that waits for its response.\<close>

definition demo_flush :: pipeline where
  "demo_flush = (put_slot Decode (Some demo_branch) (new_pipeline 8 demo_unit 3 0))
     \<lparr>fetch_queue := the (rb_push_back demo_wrong (new_ring 8)), ongoing_insts := 1,
      fetch_st := fetch_state_zero\<lparr>wrong_path := True, resp_is_orphan := [True, False]\<rparr>\<rparr>"

lemma demo_queue: "ring_ok (the (rb_push_back demo_wrong (new_ring 8)))" "rb_list (the (rb_push_back demo_wrong (new_ring 8))) = [demo_wrong]"
  "rb_cap (the (rb_push_back demo_wrong (new_ring 8))) = 8"
proof -
  have "ring_ok (new_ring 8 :: transaction ring)" by (rule new_ring_ok) simp
  moreover have "length (rb_list (new_ring 8 :: transaction ring)) < rb_cap (new_ring 8 :: transaction ring)"
    by (simp add: new_ring_def)
  ultimately obtain q where "rb_push_back demo_wrong (new_ring 8) = Some q" "ring_ok q" "rb_list q = [demo_wrong]" "rb_cap q = 8"
    using ifq.push_ok [of "new_ring 8" demo_wrong] by (auto simp: new_ring_list) (simp add: new_ring_def)
  then show "ring_ok (the (rb_push_back demo_wrong (new_ring 8)))" "rb_list (the (rb_push_back demo_wrong (new_ring 8))) = [demo_wrong]"
      "rb_cap (the (rb_push_back demo_wrong (new_ring 8))) = 8"
    by simp_all
qed

lemma demo_flush_inv: "pipe_inv 0 demo_flush"
  using demo_queue demo_unit_ok
  by (simp add: pipe_inv_def pipe_base_def demo_flush_def put_slot_def new_pipeline_def front_list_def back_list_def
      in_flight_def lsu_waits_def regs_ok_def resp_ok_def path_ok_def trans_ok_def demo_branch_def demo_wrong_def
      new_transaction_def inst_ok_def inst_zero_def op_codes no_prediction_def fetch_state_zero_def)

theorem ifu_resp_in_order_witness:
  "\<exists>p'. handle_ifu_resp demo_env demo_flush = Some p' \<and> resp_is_orphan (fetch_st p') = [False] \<and>
    (if True then fetch_queue p' = fetch_queue demo_flush
     else \<exists>xs t ys. rb_list (fetch_queue demo_flush) = xs @ t # ys \<and> (\<forall>x\<in>set xs. \<not> wait_mem x) \<and> wait_mem t \<and>
       rb_list (fetch_queue p') = xs @ t\<lparr>wait_mem := False\<rparr> # ys)"
  by (rule ifu_resp_in_order [OF demo_flush_inv]) (simp add: demo_flush_def)

theorem mispredict_flush_exact_witness:
  "\<exists>p'. resolve_branch demo_env demo_branch demo_flush = Some p' \<and> in_flight p' = in_flight demo_flush \<and>
    (if tr_br_mispred demo_branch
     then front_list p' = [demo_branch] \<and> (\<forall>x\<in>set (tl (front_list demo_flush)). is_wrong_path x) \<and>
       resp_is_orphan (fetch_st p') = replicate (length (resp_is_orphan (fetch_st demo_flush))) True \<and>
       resume_tick (fetch_st p') = now demo_env + 1
     else front_list p' = front_list demo_flush \<and> fetch_st p' = fetch_st demo_flush)"
  by (rule mispredict_flush_exact [OF demo_flush_inv]) (simp add: demo_flush_def put_slot_def)

text \<open>
  (C14) Decode issues an instruction only without hazards: it is not a placeholder, both source
  registers are available now, an instruction of the M-extension finds both of its units free,
  and no unit still writes the destination register; the register is marked unavailable until
  a later stage announces its value.
\<close>

theorem decode_issues_hazard_free:
  assumes "pipe_inv T p" and "sim_pipe p Fetch = Some t" and "sim_pipe p Decode = None" and "now e < InfTime"
    and "do_decode e p = Some p'" and "sim_pipe p' Decode \<noteq> None"
  shows "sim_pipe p' = (sim_pipe p)(Decode := Some t, Fetch := None) \<and> \<not> is_wrong_path t \<and>
    reg_ready p ! ti_src0 (tr_inst t) \<le> now e \<and> reg_ready p ! ti_src1 (tr_inst t) \<le> now e \<and>
    (ti_ext_op (tr_inst t) \<noteq> ExtNone \<longrightarrow> sim_pipe p IntMulExt = None \<and> sim_pipe p IntDivExt = None) \<and>
    (ti_dst_reg (tr_inst t) \<noteq> 0 \<longrightarrow> \<not> writes_reg p IntMulExt (ti_dst_reg (tr_inst t)) \<and>
       \<not> writes_reg p IntDivExt (ti_dst_reg (tr_inst t)) \<and> reg_ready p' ! ti_dst_reg (tr_inst t) = InfTime)"
proof -
  let ?i = "tr_inst t"
  have i: "inst_ok ?i" using inst_regs(2) [OF fetch_slot_ok [OF pipe_invD(1) [OF assms(1)] assms(2)]] .
  have regs: "regs_ok (reg_ready p)" using pipe_baseD(1) [OF pipe_invD(1) [OF assms(1)]] .
  define r where "r = max (reg_ready p ! ti_src0 ?i) (reg_ready p ! ti_src1 ?i)"
  have r: "src_ready p ?i = Some r" unfolding r_def by (rule src_ready_ex [OF regs i])
  have stalls: "sim_pipe p' Decode = None" if "schedule e Decode x q = Some p'" "sim_pipe q Decode = None" for x q
    using that by (auto simp: schedule_def)
  have d: "sim_pipe (stall_unless e b c p) Decode = None" for b c using assms(3) by simp
  have d0: "sim_pipe (put_slot Fetch None (if b then set_stall e BrMispred p else p)) Decode = None" for b
    using assms(3) by simp
  have nw: "\<not> is_wrong_path t"
    using assms(2,5,6) stalls [OF _ d0] by (auto simp: do_decode_def drop_wrong_path_def Let_def)
  have units: "\<not> (ti_ext_op ?i \<noteq> ExtNone \<and> (sim_pipe p IntMulExt \<noteq> None \<or> sim_pipe p IntDivExt \<noteq> None))"
    using assms(2,5,6) stalls [OF _ d] nw by (auto simp: do_decode_def Let_def split: if_splits)
  have rt: "r \<le> now e"
    using assms(2,5,6) stalls [OF _ d] nw units r by (auto simp: do_decode_def Let_def split: if_splits)
  have dst: "\<not> (ti_dst_reg ?i \<noteq> 0 \<and> (writes_reg p IntMulExt (ti_dst_reg ?i) \<or> writes_reg p IntDivExt (ti_dst_reg ?i)))"
    using assms(2,4,5,6) stalls [OF _ d] nw units r rt
    by (auto simp: do_decode_def Let_def split: if_splits bind_splits)
  have "pass_decode e (lsu_waits p) r ?i p = Some p'"
    using assms(2,4,5) nw units r rt dst by (auto simp: do_decode_def Let_def)
  then have "sim_pipe p' = (sim_pipe p)(Decode := Some t, Fetch := None) \<and>
      (ti_dst_reg ?i \<noteq> 0 \<longrightarrow> reg_ready p' ! ti_dst_reg ?i = InfTime)"
    using regs i assms(2)
    by (auto simp: pass_decode_def Let_def schedule_ex set_reg_time_ex inst_ok_def regs_ok_def)
  then show ?thesis using nw rt units dst by (auto simp: r_def)
qed

definition demo_alu :: transaction where
  "demo_alu = new_transaction (inst_zero\<lparr>ti_pc := 0x40, ti_dst_reg := 5, ti_src0 := 1\<rparr>) False False"

definition demo_issue :: pipeline where
  "demo_issue = (put_slot Fetch (Some demo_alu) (new_pipeline 8 demo_unit 3 0))\<lparr>ongoing_insts := 1\<rparr>"

lemma demo_issue_inv: "pipe_inv 0 demo_issue"
  using demo_unit_ok new_ring_ok [of 8, where ?'a = transaction]
  by (simp add: pipe_inv_def pipe_base_def demo_issue_def put_slot_def new_pipeline_def front_list_def back_list_def
      in_flight_def lsu_waits_def regs_ok_def resp_ok_def path_ok_def trans_ok_def demo_alu_def on_path_def
      new_transaction_def inst_ok_def inst_zero_def op_codes no_prediction_def fetch_state_zero_def new_ring_list)
    (simp add: new_ring_def)

theorem decode_issues_hazard_free_witness:
  "\<exists>p'. do_decode demo_env demo_issue = Some p' \<and> sim_pipe p' = (sim_pipe demo_issue)(Decode := Some demo_alu, Fetch := None) \<and>
    reg_ready demo_issue ! ti_src0 (tr_inst demo_alu) \<le> now demo_env \<and> reg_ready p' ! ti_dst_reg (tr_inst demo_alu) = InfTime"
proof -
  have slots: "sim_pipe demo_issue Fetch = Some demo_alu" "sim_pipe demo_issue Decode = None"
    by (simp_all add: demo_issue_def put_slot_def new_pipeline_def)
  have regs: "reg_ready demo_issue = replicate 32 0" and empty: "sim_pipe demo_issue IntMulExt = None" "sim_pipe demo_issue IntDivExt = None"
    by (simp_all add: demo_issue_def put_slot_def new_pipeline_def)
  have r: "src_ready demo_issue (tr_inst demo_alu) = Some 0"
    by (simp add: src_ready_def at_def regs demo_alu_def new_transaction_def inst_zero_def)
  have "do_decode demo_env demo_issue = pass_decode demo_env (lsu_waits demo_issue) 0 (tr_inst demo_alu) demo_issue"
    using r slots empty
    by (simp add: do_decode_def demo_alu_def new_transaction_def inst_zero_def op_codes writes_reg_def InfTime_def)
  then obtain p' where p': "do_decode demo_env demo_issue = Some p'" "sim_pipe p' Decode \<noteq> None"
    using slots
    by (simp add: pass_decode_def schedule_ex set_reg_time_def at_put_def regs demo_alu_def new_transaction_def inst_zero_def)
  have "now demo_env < InfTime" by (simp add: InfTime_def)
  then show ?thesis
    using p' decode_issues_hazard_free [OF demo_issue_inv slots _ p']
    by (simp add: demo_alu_def new_transaction_def)
qed

lemma schedule_reqs: "schedule e s x q = Some q' \<Longrightarrow> port_reqs q' = port_reqs q"
  by (auto simp: schedule_def)

lemma set_stall_reqs [simp]: "port_reqs (set_stall e c q) = port_reqs q"
  by (simp add: set_stall_def flush_stall_cycles_def Let_def)

lemma update_reg_time_reqs: "update_reg_time e rd x q = Some q' \<Longrightarrow> port_reqs q' = port_reqs q"
  by (auto simp: update_reg_time_def set_reg_time_def wake_decode_def Let_def schedule_def
      split: if_splits option.splits)

lemma set_waiting_reqs: "set_waiting b q = Some q' \<Longrightarrow> port_reqs q' = port_reqs q"
  by (auto simp: set_waiting_def put_slot_def)

lemmas frame_reqs = schedule_reqs update_reg_time_reqs set_waiting_reqs

text \<open>
  The load-store unit has one request outstanding at a time: the memory stage sends a
  request only for an instruction that does not wait, to the bypass port exactly for an
  uncacheable address, word-aligned, and the instruction waits from then on; while it waits,
  nothing more is sent.
\<close>

lemma lsu_one_outstanding:
  assumes "sim_pipe p Execute = Some t" and "do_memory e p = Some p'"
  shows "port_reqs p' = port_reqs p \<or>
    \<not> wait_mem t \<and> lsu_waits p' \<and>
    (let port = (if is_cacheable_addr (ti_mem_addr (tr_inst t)) then DmemPort else NcPort);
         a = ti_mem_addr (tr_inst t) AND NOT 3
     in ti_mem_op (tr_inst t) = MemLoad \<and> port_reqs p' = port_reqs p @ [LsuRead port a] \<or>
        ti_mem_op (tr_inst t) = MemStore \<and> port_reqs p' = port_reqs p @ [LsuWrite port a 0xbad 0xf])"
proof -
  let ?i = "tr_inst t"
  define port where "port = (if is_cacheable_addr (ti_mem_addr ?i) then DmemPort else NcPort)"
  have send: "port_reqs q = port_reqs p \<or> lsu_waits q \<and>
      port_reqs q = port_reqs p @ [if w then LsuWrite pt (a AND NOT 3) dt sb else LsuRead pt (a AND NOT 3)]"
    if "send_lsu_req e pt a dt sb w (set_stall e LsuStall p) = Some q" for pt a dt sb w q
    using that assms(1)
    by (auto simp: send_lsu_req_def Let_def schedule_def set_waiting_def request_def put_slot_def lsu_waits_def
        split: if_splits)
  show ?thesis
  proof (cases "ti_mem_op ?i = MemNone \<or> wait_mem t \<or> \<not> is_cacheable_addr (ti_mem_addr ?i) \<and> nc_ready e = None")
    case True
    then have "port_reqs p' = port_reqs p"
      using assms by (auto simp: do_memory_def Let_def move_slot_def op_codes dest!: frame_reqs split: if_splits)
    then show ?thesis by simp
  next
    case False
    then have pt: "(if ti_mem_op ?i \<noteq> MemNone \<and> \<not> is_cacheable_addr (ti_mem_addr ?i) \<and> nc_ready e \<noteq> None
        then NcPort else DmemPort) = port"
      by (auto simp: port_def)
    consider "ti_mem_op ?i = MemLoad" | "ti_mem_op ?i = MemStore" | "ti_mem_op ?i \<noteq> MemLoad" "ti_mem_op ?i \<noteq> MemStore"
      by blast
    then show ?thesis
    proof cases
      case 1
      then have q: "send_lsu_req e port (ti_mem_addr ?i) 0xbad 0xf False (set_stall e LsuStall p) = Some p'"
        using assms False pt by (auto simp: do_memory_def Let_def)
      show ?thesis using send [OF q] 1 False by (auto simp: port_def Let_def)
    next
      case 2
      then obtain q where q: "send_lsu_req e port (ti_mem_addr ?i) 0xbad 0xf True (set_stall e LsuStall p) = Some q"
          "schedule e Memory InfTime q = Some p'"
        using assms False pt by (auto simp: do_memory_def Let_def op_codes split: bind_splits)
      have "port_reqs p' = port_reqs q" "lsu_waits p' = lsu_waits q"
        using q(2) by (auto simp: schedule_def lsu_waits_def)
      then show ?thesis using send [OF q(1)] 2 False by (auto simp: port_def Let_def)
    next
      case 3
      then show ?thesis using assms False by (auto simp: do_memory_def Let_def move_slot_def dest!: frame_reqs split: if_splits)
    qed
  qed
qed

definition demo_load :: pipeline where
  "demo_load = put_slot Execute (Some (new_transaction (inst_zero\<lparr>ti_mem_op := MemLoad, ti_mem_addr := 0x80000006\<rparr>) False False))
     (new_pipeline 8 demo_unit 3 0)"

lemma lsu_one_outstanding_witness:
  "\<exists>p'. do_memory demo_env demo_load = Some p' \<and>
    (port_reqs p' = port_reqs demo_load \<or> lsu_waits p' \<and> port_reqs p' = [LsuRead DmemPort (0x80000006 AND NOT 3)])"
proof -
  let ?t = "new_transaction (inst_zero\<lparr>ti_mem_op := MemLoad, ti_mem_addr := 0x80000006\<rparr>) False False"
  have x: "sim_pipe demo_load Execute = Some ?t" by (simp add: demo_load_def put_slot_def)
  have c: "is_cacheable_addr 0x80000006" by (simp add: is_cacheable_addr_def)
  have "do_memory demo_env demo_load \<noteq> None"
    using x c by (simp add: do_memory_def new_transaction_def inst_zero_def op_codes send_lsu_req_def schedule_ex
        InfTime_def set_waiting_def Let_def demo_env_def)
  then obtain p' where p': "do_memory demo_env demo_load = Some p'" by blast
  have "port_reqs demo_load = []" by (simp add: demo_load_def put_slot_def new_pipeline_def)
  then show ?thesis
    using p' lsu_one_outstanding [OF x p'] c
    by (auto simp: new_transaction_def inst_zero_def op_codes Let_def)
qed

end
