(* ===== verification/MemProps.thy ===== *)
theory MemProps
  imports ArbProofs
begin

text \<open>The memory side: what the arbiter does with outstanding requests and what an SDRAM access costs.\<close>

section \<open>The channels of the arbiter\<close>

definition chan_busy :: "mop \<Rightarrow> arbiter \<Rightarrow> tick_t" where
  "chan_busy mp m = (case mp of Read \<Rightarrow> r_busy_until m | Write \<Rightarrow> w_busy_until m)"

definition chan_serves :: "mop \<Rightarrow> arbiter \<Rightarrow> nat" where
  "chan_serves mp m = (case mp of Read \<Rightarrow> r_serving_id m | Write \<Rightarrow> w_serving_id m)"

definition chan_complete :: "mop \<Rightarrow> 'h host_cb \<Rightarrow> tick_t \<Rightarrow> arbiter \<times> 'h \<Rightarrow> (arbiter \<times> 'h) option" where
  "chan_complete mp = (case mp of Read \<Rightarrow> complete_read | Write \<Rightarrow> complete_write)"

lemmas chan_defs = chan_busy_def chan_serves_def chan_complete_def

text \<open>The highest numbered host that waits in a direction.\<close>

definition first_in_line :: "mop \<Rightarrow> arbiter \<Rightarrow> nat \<Rightarrow> bool" where
  "first_in_line mp m i \<longleftrightarrow> pending m mp i \<noteq> None \<and> (\<forall>j>i. pending m mp j = None)"

lemma last_pending_line:
  assumes "arb_shape m"
  shows "case last_pending (case mp of Read \<Rightarrow> reqs_rd m | Write \<Rightarrow> reqs_wr m) of None \<Rightarrow> (\<forall>i. pending m mp i = None)
    | Some i \<Rightarrow> first_in_line mp m i"
proof -
  let ?xs = "case mp of Read \<Rightarrow> reqs_rd m | Write \<Rightarrow> reqs_wr m"
  have len: "length ?xs = num_hosts m" using assms by (cases mp) (simp_all add: arb_shape_def slots_ok_def)
  show ?thesis
  proof (cases "last_pending ?xs")
    case None
    then have "\<forall>x\<in>set ?xs. x = None" by (simp only: last_pending_None)
    then show ?thesis using None len by (auto simp: pending_def)
  next
    case (Some i)
    then show ?thesis using last_pending_Some [OF Some] len by (auto simp: first_in_line_def pending_def)
  qed
qed

lemma busy_not_inf: "arb_ok m \<Longrightarrow> chan_serves mp m \<noteq> NO_ID \<Longrightarrow> chan_busy mp m \<noteq> InfTime"
  by (cases mp) (auto simp: chan_defs arb_inv_def chan_ok_def)

lemma free_read:
  assumes m: "arb_ok m" and b: "chan_busy Read m \<noteq> InfTime"
  defines "i \<equiv> chan_serves Read m"
  shows "arb_inv {Read} (m\<lparr>reqs_rd := (reqs_rd m)[i := None]\<rparr>)" "pending (m\<lparr>reqs_rd := (reqs_rd m)[i := None]\<rparr>) = put_req Read i None (pending m)"
    "\<exists>q. i < length (reqs_rd m) \<and> reqs_rd m ! i = Some q \<and> i < num_hosts m \<and> pending m Read i = Some (q\<lparr>mt_lat := 0\<rparr>)"
proof -
  have sh: "arb_shape m" "chan_ok (reqs_rd m) (r_busy_until m) i" using m by (simp_all add: arb_inv_def i_def chan_defs)
  show "arb_inv {Read} (m\<lparr>reqs_rd := (reqs_rd m)[i := None]\<rparr>)"
    using m b by (auto simp: chan_defs arb_inv_def arb_shape_def slots_ok_upd slot_ok_def)
  obtain q where q: "i < num_hosts m" "i < length (reqs_rd m)" "reqs_rd m ! i = Some q" "pending m Read i = Some (q\<lparr>mt_lat := 0\<rparr>)"
    using slot_of_pending [of m Read] sh b by (auto simp: chan_defs)
  then show "\<exists>q. i < length (reqs_rd m) \<and> reqs_rd m ! i = Some q \<and> i < num_hosts m \<and> pending m Read i = Some (q\<lparr>mt_lat := 0\<rparr>)"
    by blast
  show "pending (m\<lparr>reqs_rd := (reqs_rd m)[i := None]\<rparr>) = put_req Read i None (pending m)"
    using pending_rd [of m i None] q(1) sh(1) by (simp add: arb_shape_def slots_ok_def)
qed

lemma free_write:
  assumes m: "arb_ok m" and b: "chan_busy Write m \<noteq> InfTime"
  defines "i \<equiv> chan_serves Write m"
  shows "arb_inv {Write} (m\<lparr>reqs_wr := (reqs_wr m)[i := None]\<rparr>)" "pending (m\<lparr>reqs_wr := (reqs_wr m)[i := None]\<rparr>) = put_req Write i None (pending m)"
    "\<exists>q. i < length (reqs_wr m) \<and> reqs_wr m ! i = Some q \<and> i < num_hosts m \<and> pending m Write i = Some (q\<lparr>mt_lat := 0\<rparr>)"
proof -
  have sh: "arb_shape m" "chan_ok (reqs_wr m) (w_busy_until m) i" using m by (simp_all add: arb_inv_def i_def chan_defs)
  show "arb_inv {Write} (m\<lparr>reqs_wr := (reqs_wr m)[i := None]\<rparr>)"
    using m b by (auto simp: chan_defs arb_inv_def arb_shape_def slots_ok_upd slot_ok_def)
  obtain q where q: "i < num_hosts m" "i < length (reqs_wr m)" "reqs_wr m ! i = Some q" "pending m Write i = Some (q\<lparr>mt_lat := 0\<rparr>)"
    using slot_of_pending [of m Write] sh b by (auto simp: chan_defs)
  then show "\<exists>q. i < length (reqs_wr m) \<and> reqs_wr m ! i = Some q \<and> i < num_hosts m \<and> pending m Write i = Some (q\<lparr>mt_lat := 0\<rparr>)"
    by blast
  show "pending (m\<lparr>reqs_wr := (reqs_wr m)[i := None]\<rparr>) = put_req Write i None (pending m)"
    using pending_wr [of m i None] q(1) sh(1) by (simp add: arb_shape_def slots_ok_def)
qed

lemma complete_chan:
  assumes m: "arb_ok m" and T: "t + 2 ^ 32 + 1 < InfTime" and b: "chan_busy mp m \<le> t"
    and q: "pending m mp (chan_serves mp m) = Some q"
    and cb: "\<And>l. \<exists>h'. cb (chan_serves mp m) (q\<lparr>mt_dir := Resp, mt_lat := l\<rparr>) h = Some (h', [])"
  shows "\<exists>m' h' l. chan_complete mp cb t (m, h) = Some (m', h') \<and> arb_ok m' \<and>
    cb (chan_serves mp m) (q\<lparr>mt_dir := Resp, mt_lat := l\<rparr>) h = Some (h', []) \<and>
    pending m' = put_req mp (chan_serves mp m) None (pending m) \<and>
    (chan_serves mp m' = NO_ID \<and> (\<forall>i. pending m' mp i = None) \<or> first_in_line mp m' (chan_serves mp m'))"
proof (cases mp)
  case Read
  let ?i = "chan_serves Read m" and ?m1 = "m\<lparr>reqs_rd := (reqs_rd m)[chan_serves Read m := None]\<rparr>"
  have nb: "chan_busy Read m \<noteq> InfTime" using b T Read by auto
  note f = free_read [OF m nb]
  obtain r where r: "?i < length (reqs_rd m)" "reqs_rd m ! ?i = Some r" "?i < num_hosts m" "q = r\<lparr>mt_lat := 0\<rparr>"
    using f(3) q Read by auto
  have n: "?i \<noteq> NO_ID" using r(3) m by (auto simp: arb_inv_def arb_shape_def)
  obtain m2 where m2: "pick_read t ?m1 = Some m2" "arb_ok m2" "pending m2 = pending ?m1"
      "r_serving_id m2 = (case last_pending (reqs_rd ?m1) of None \<Rightarrow> NO_ID | Some i \<Rightarrow> i)"
    using pick_read_ok [OF f(1) T] by blast
  obtain h' where c: "cb ?i (r\<lparr>mt_dir := Resp\<rparr>) h = Some (h', [])" using cb [of "mt_lat r"] r(4) Read by auto
  then have c': "cb ?i (q\<lparr>mt_dir := Resp, mt_lat := mt_lat r\<rparr>) h = Some (h', [])" using r(4) by simp
  have "complete_read cb t (m, h) = Some (m2, h')"
    using b n r(1-3) c m2(1) Read unfolding complete_read_def Let_def prod.case by (simp add: chan_defs at_def)
  moreover have "arb_shape ?m1" using f(1) by (simp add: arb_inv_def)
  ultimately show ?thesis
    using m2 f(2) last_pending_line [of ?m1 Read] Read c'
    by (intro exI [of _ m2] exI [of _ h'] exI [of _ "mt_lat r"]) (auto simp: chan_defs first_in_line_def split: option.splits)
next
  case Write
  let ?i = "chan_serves Write m" and ?m1 = "m\<lparr>reqs_wr := (reqs_wr m)[chan_serves Write m := None]\<rparr>"
  have nb: "chan_busy Write m \<noteq> InfTime" using b T Write by auto
  note f = free_write [OF m nb]
  obtain r where r: "?i < length (reqs_wr m)" "reqs_wr m ! ?i = Some r" "?i < num_hosts m" "q = r\<lparr>mt_lat := 0\<rparr>"
    using f(3) q Write by auto
  have n: "?i \<noteq> NO_ID" using r(3) m by (auto simp: arb_inv_def arb_shape_def)
  obtain m2 where m2: "pick_write t ?m1 = Some m2" "arb_ok m2" "pending m2 = pending ?m1"
      "w_serving_id m2 = (case last_pending (reqs_wr ?m1) of None \<Rightarrow> NO_ID | Some i \<Rightarrow> i)"
    using pick_write_ok [OF f(1) T] by blast
  obtain h' where c: "cb ?i (r\<lparr>mt_dir := Resp\<rparr>) h = Some (h', [])" using cb [of "mt_lat r"] r(4) Write by auto
  then have c': "cb ?i (q\<lparr>mt_dir := Resp, mt_lat := mt_lat r\<rparr>) h = Some (h', [])" using r(4) by simp
  have "complete_write cb t (m, h) = Some (m2, h')"
    using b n r(1-3) c m2(1) Write unfolding complete_write_def Let_def prod.case by (simp add: chan_defs at_def)
  moreover have "arb_shape ?m1" using f(1) by (simp add: arb_inv_def)
  ultimately show ?thesis
    using m2 f(2) last_pending_line [of ?m1 Write] Write c'
    by (intro exI [of _ m2] exI [of _ h'] exI [of _ "mt_lat r"]) (auto simp: chan_defs first_in_line_def split: option.splits)
qed

text \<open>
  (C20) When the request a channel serves is due, the arbiter answers the host that sent it with
  that request, takes it out of the table and leaves every other request there; the channel then
  serves the waiting host with the highest number, or is idle when none waits.
\<close>

theorem arbiter_completes:
  assumes m: "arb_ok m" and T: "t + 2 ^ 32 + 1 < InfTime" and b: "chan_busy mp m \<le> t"
    and q: "pending m mp (chan_serves mp m) = Some q"
    and cb: "\<And>l. cb (chan_serves mp m) (q\<lparr>mt_dir := Resp, mt_lat := l\<rparr>) h = Some (h', [])"
  shows "\<exists>m'. chan_complete mp cb t (m, h) = Some (m', h') \<and> arb_ok m' \<and>
    pending m' = put_req mp (chan_serves mp m) None (pending m) \<and>
    (chan_serves mp m' = NO_ID \<and> (\<forall>i. pending m' mp i = None) \<or> first_in_line mp m' (chan_serves mp m'))"
proof -
  have "\<exists>h'. cb (chan_serves mp m) (q\<lparr>mt_dir := Resp, mt_lat := l\<rparr>) h = Some (h', [])" for l using cb by blast
  from complete_chan [where cb = cb and h = h, OF m T b q this] show ?thesis using cb by auto
qed

theorem arbiter_completes_witness:
  "\<exists>a m m'. new_arbiter 3 [new_device (const_latency 5 0)] [] 0 = Some a \<and>
    arb_recv_req 0 (mem_req Read 0x80000000 1 4 [] []) a = Some m \<and>
    chan_complete Read (\<lambda>i q h. Some (True, [])) 5 (m, False) = Some (m', True) \<and> pending m' Read 1 = None"
proof -
  let ?q = "mem_req Read 0x80000000 1 4 [] []"
  obtain a where a: "new_arbiter 3 [new_device (const_latency 5 0)] [] 0 = Some a" by (simp add: new_arbiter_def)
  have ok: "arb_ok a" by (rule new_arbiter_ok [OF a]) (simp_all add: NO_ID_def dev_ok_def new_device_def const_latency_def)
  have acc: "acceptable (num_hosts a) (pending a) ?q" using a by (auto simp: acceptable_def new_arbiter_def pending_def)
  have T: "(0 :: nat) + 2 ^ 32 < InfTime" "(5 :: nat) + 2 ^ 32 + 1 < InfTime" by (simp_all add: InfTime_def)
  obtain m where m: "arb_recv_req 0 ?q a = Some m" "arb_ok m" "num_hosts m = num_hosts a" "pending m = put_req Read 1 (Some ?q) (pending a)"
    using arb_recv_ok [OF ok acc T(1)] by auto
  have c: "r_busy_until m = 5" "r_serving_id m = 1"
    using m(1) a by (auto simp: arb_recv_req_def new_arbiter_def lat_of_def dev_access_def new_device_def const_latency_def
        device_of_def at_def Let_def)
  have p: "pending m Read (chan_serves Read m) = Some ?q" by (simp add: chan_defs c m(4) put_req_def)
  have b: "chan_busy Read m \<le> 5" by (simp add: chan_busy_def c)
  obtain m' where "chan_complete Read (\<lambda>i q h. Some (True, [])) 5 (m, False) = Some (m', True)"
      "pending m' = put_req Read (chan_serves Read m) None (pending m)"
    using arbiter_completes [OF m(2) T(2) b p, of "\<lambda>i q h. Some (True, [])" False True] by auto
  then show ?thesis using a m(1) c(2) by (auto simp: put_req_def chan_serves_def)
qed

section \<open>SDRAM accesses\<close>

text \<open>
  (C21) Open-row policy. After an access of a host, and before the next refresh, an access to the
  same bank that finds the controller idle costs the burst and the fixed turns only when it goes
  to the same row, and a precharge and an activation on top of them when it goes to another row.
\<close>

theorem sdram_open_row:
  assumes ok: "sdram_ok m" and d: "dev_tick_of (freq_ratio m) t = Some d" and d2: "dev_tick_of (freq_ratio m) t2 = Some d2"
    and a: "sdram_access a len w t host m = Some (m1, l1)"
    and same: "bank_of a2 = bank_of a" and idle: "ctrl_free_at m1 ! min host (N_HOSTS - 1) \<le> d2" and fresh: "d2 < next_refresh_tick m1"
  shows "map_option snd (sdram_access a2 len2 w2 t2 host m1) =
    Some (nat ((2 * len2 + (if w2 then 0 else 2) + (if row_of a2 = row_of a then 0 else 4)) * freq_ratio m mod 2 ^ 32))"
proof -
  let ?h = "min host (N_HOSTS - 1)"
  obtain m1' l1' where x: "sdram_access a len w t host m = Some (m1', l1')" "sdram_ok m1'" "freq_ratio m1' = freq_ratio m"
      "banks m1' ! ?h ! bank_of a = (found_bank d host a m)\<lparr>bk_open := True, bk_row := row_of a\<rparr>"
    using sdram_access_ex [OF ok d, of a len w host] by blast
  have "m1' = m1" using x(1) a by simp
  then have m1: "sdram_ok m1" "freq_ratio m1 = freq_ratio m" "bk_open (banks m1 ! ?h ! bank_of a)"
      "bk_row (banks m1 ! ?h ! bank_of a) = row_of a"
    using x(2-4) by simp_all
  have "found_bank d2 host a2 m1 = banks m1 ! ?h ! bank_of a"
    using fresh same by (simp only: found_bank_def check_refresh_def if_True)
  then have cost: "dev_cycles w2 len2 (found_bank d2 host a2 m1) (row_of a2) =
      2 * len2 + (if w2 then 0 else 2) + (if row_of a2 = row_of a then 0 else 4)"
    using m1(3,4) by (simp only: dev_cycles_def row_extra_def sdram_consts) auto
  have start: "max d2 (ctrl_free_at m1 ! ?h) = d2" using idle by (rule max.absorb1)
  have "dev_tick_of (freq_ratio m1) t2 = Some d2" using d2 m1(2) by simp
  from sdram_access_ex [OF m1(1) this, of a2 len2 w2 host] show ?thesis
    unfolding start cost m1(2) by (elim exE conjE) simp
qed

theorem sdram_open_row_witness:
  "\<exists>m1 l1. sdram_access 0x80000000 4 False 1000 0 (new_sdram 1000) = Some (m1, l1) \<and>
    map_option snd (sdram_access 0x80000010 4 False 2000 0 m1) = Some 100"
proof -
  have ok: "sdram_ok (new_sdram 1000)" by (rule new_sdram_ok) simp
  have f: "freq_ratio (new_sdram 1000) = 10" by (simp add: new_sdram_def sdram_consts)
  have d: "dev_tick_of (freq_ratio (new_sdram 1000)) 1000 = Some 100" "dev_tick_of (freq_ratio (new_sdram 1000)) 2000 = Some 200"
    unfolding f using dev_tick_of_exact [of 10 1000] dev_tick_of_exact [of 10 2000] by simp_all
  obtain m1 l1 where m1: "sdram_access 0x80000000 4 False 1000 0 (new_sdram 1000) = Some (m1, l1)"
      "ctrl_free_at m1 = (ctrl_free_at (new_sdram 1000))[0 := 113]" "next_refresh_tick m1 = REFRESH_PERIOD"
    using sdram_access_ex [OF ok d(1), of "0x80000000" 4 False 0]
    by (auto simp: new_sdram_def sdram_consts dev_cycles_def row_extra_def found_bank_def check_refresh_def bank_of_def)
  have b: "bank_of 0x80000010 = bank_of 0x80000000" "row_of 0x80000010 = row_of 0x80000000"
    by (simp_all add: bank_of_def row_of_def)
  have "map_option snd (sdram_access 0x80000010 4 False 2000 0 m1) = Some 100"
    using sdram_open_row [OF ok d m1(1) b(1), of 4 False] m1(2,3) b(2) f
    by (simp add: new_sdram_def sdram_consts)
  then show ?thesis using m1(1) by blast
qed

text \<open>
  A reset of the statistics also sets the next refresh back to the first one, so the next
  access counts every refresh since the start of the simulation into the new window.
\<close>

lemma sdram_reset_recounts:
  assumes "0 \<le> d"
  shows "refresh_count (check_refresh d (sdram_reset_stats m)) = nat (d div REFRESH_PERIOD)"
proof (cases "d < REFRESH_PERIOD")
  case True
  then show ?thesis using assms by (simp add: check_refresh_def sdram_reset_stats_def)
next
  case False
  have "(d - REFRESH_PERIOD) div REFRESH_PERIOD + 1 = d div REFRESH_PERIOD"
    by (simp add: REFRESH_PERIOD_def)
  then show ?thesis using False by (simp add: check_refresh_def sdram_reset_stats_def Let_def)
qed

lemma sdram_reset_recounts_witness: "refresh_count (check_refresh 7810 (sdram_reset_stats (new_sdram 1000))) = 10"
  using sdram_reset_recounts [of 7810 "new_sdram 1000"] by (simp add: REFRESH_PERIOD_def)

end
