(* ===== verification/ConfigProps.thy ===== *)
theory ConfigProps
  imports Config
begin

text \<open>
  The number parsers of the command line against a decimal printer, and the check of the table
  sizes against powers of two.
\<close>

section \<open>Decimal numbers\<close>

definition digit_char :: "nat \<Rightarrow> char" where
  "digit_char d = char_of (48 + d)"

fun show_nat :: "nat \<Rightarrow> string" where
  "show_nat n = (if n < 10 then [digit_char n] else show_nat (n div 10) @ [digit_char (n mod 10)])"

declare show_nat.simps [simp del]

lemma digit_char: "d < 10 \<Longrightarrow> is_digit (digit_char d) \<and> digit_val (digit_char d) = d"
  by (simp add: is_digit_def digit_val_def digit_char_def)

lemma digits_val_append: "digits_val (ds @ [c]) = 10 * digits_val ds + digit_val c"
  by (simp add: digits_val_def)

lemma show_nat_digits: "list_all is_digit (show_nat n)"
  by (induction n rule: show_nat.induct) (subst show_nat.simps, simp add: digit_char)

lemma show_nat_val: "digits_val (show_nat n) = n"
proof (induction n rule: show_nat.induct)
  case (1 n)
  show ?case
  proof (cases "n < 10")
    case True
    then show ?thesis by (subst show_nat.simps) (simp add: digits_val_def digit_char)
  next
    case False
    have "digits_val (show_nat n) = 10 * (n div 10) + n mod 10"
      using 1 False by (subst show_nat.simps) (simp add: digits_val_append digit_char)
    then show ?thesis by simp
  qed
qed

lemma show_nat_ne: "show_nat n \<noteq> []"
  by (subst show_nat.simps) simp

lemma digit_plain: "is_digit c \<Longrightarrow> \<not> is_space c \<and> c \<noteq> CHR ''-'' \<and> c \<noteq> CHR ''+'' \<and> c \<noteq> CHR '',''"
  by (auto simp: is_digit_def is_space_def Let_def)

lemma takeWhile_digits: "list_all is_digit ds \<Longrightarrow> rest = [] \<or> \<not> is_digit (hd rest) \<Longrightarrow> takeWhile is_digit (ds @ rest) = ds"
  by (induction ds) (cases rest; auto)+

lemma read_digits:
  assumes "list_all is_digit ds" "ds \<noteq> []" "rest = [] \<or> \<not> is_digit (hd rest)"
  shows "read_number (ds @ rest) = Some (False, digits_val ds)" "read_number (CHR ''-'' # ds @ rest) = Some (True, digits_val ds)"
proof -
  obtain d ds' where ds: "ds = d # ds'" using assms(2) by (cases ds) auto
  have d: "\<not> is_space d \<and> d \<noteq> CHR ''-'' \<and> d \<noteq> CHR ''+''" using digit_plain [of d] assms(1) ds by simp
  have "dropWhile is_space (ds @ rest) = ds @ rest" using ds d by simp
  moreover have "hd (ds @ rest) \<noteq> CHR ''-''" "hd (ds @ rest) \<noteq> CHR ''+''" using ds d by simp_all
  ultimately show "read_number (ds @ rest) = Some (False, digits_val ds)"
    using takeWhile_digits [OF assms(1,3)] assms(2) by (simp add: read_number_def Let_def)
  have "\<not> is_space (CHR ''-'')" by (simp add: is_space_def Let_def)
  then show "read_number (CHR ''-'' # ds @ rest) = Some (True, digits_val ds)"
    using takeWhile_digits [OF assms(1,3)] assms(2) by (simp add: read_number_def Let_def)
qed

lemma stoul_show: "n < 2 ^ 64 \<Longrightarrow> stoul (show_nat n) = Inr n"
  using read_digits(1) [OF show_nat_digits show_nat_ne, of "[]" n] by (simp add: stoul_def show_nat_val)

section \<open>Sizes\<close>

text \<open>The suffix of a size and its factor.\<close>

datatype size_unit = Plain | Bytes | Kilo | Kilo2 | Mega

fun unit_text :: "size_unit \<Rightarrow> string" where
  "unit_text Plain = ''''" | "unit_text Bytes = ''B''" | "unit_text Kilo = ''kB''" | "unit_text Kilo2 = ''KB''"
| "unit_text Mega = ''MB''"

fun unit_factor :: "size_unit \<Rightarrow> nat" where
  "unit_factor Plain = 1" | "unit_factor Bytes = 1" | "unit_factor Kilo = 1024" | "unit_factor Kilo2 = 1024"
| "unit_factor Mega = 1024 * 1024"

lemma ends_with_snoc: "ends_with s t \<longleftrightarrow> (\<exists>r. s = r @ t)"
  by (auto simp: ends_with_def) (metis append_take_drop_id)

text \<open>
  A size printed in decimal with any of the suffixes is read back as the number of bytes it
  stands for, as long as that fits 64 bits.
\<close>

lemma parse_size_roundtrip:
  assumes "n * unit_factor u < 2 ^ 64"
  shows "parse_size (show_nat n @ unit_text u) = Inr (n * unit_factor u)"
proof -
  have n: "n < 2 ^ 64" using assms by (cases u) auto
  have d: "list_all is_digit (show_nat n)" by (rule show_nat_digits)
  have nb: "\<not> is_digit (CHR ''B'')" by (simp add: is_digit_def Let_def)
  have no: "\<not> ends_with (show_nat n) (t @ ''B'')" for t
    using d nb by (auto simp: ends_with_snoc)
  have one: "\<not> ends_with (show_nat n @ ''B'') [c, CHR ''B'']" if "\<not> is_digit c" for c
  proof
    assume "ends_with (show_nat n @ ''B'') [c, CHR ''B'']"
    then obtain r where "show_nat n @ ''B'' = (r @ [c]) @ ''B''" by (auto simp: ends_with_snoc)
    then have "show_nat n = r @ [c]" by (simp only: append_same_eq)
    then show False using d that by simp
  qed
  have k: "\<not> is_digit (CHR ''k'')" "\<not> is_digit (CHR ''K'')" "\<not> is_digit (CHR ''M'')" by (simp_all add: is_digit_def Let_def)
  show ?thesis
    using assms n no [of "''k''"] no [of "''K''"] no [of "''M''"] no [of "''''"] one [OF k(1)] one [OF k(2)] one [OF k(3)] stoul_show [OF n]
    by (cases u) (simp_all add: parse_size_def Let_def, simp_all add: ends_with_def)
qed

lemma parse_size_roundtrip_witness: "parse_size (show_nat 16 @ unit_text Kilo) = Inr 16384"
  using parse_size_roundtrip [of 16 Kilo] by simp

section \<open>Table sizes\<close>

lemma countr_zero_pow2: "countr_zero (2 ^ k) = k"
  by (induction k) (subst countr_zero.simps, simp)+

lemma stoul_less: "stoul s = Inr n \<Longrightarrow> n < 2 ^ 64"
  by (auto simp: stoul_def split: option.splits if_splits)

text \<open>
  parse\_entries\_pow2 accepts exactly zero, which switches the table off, and the powers of
  two, for which it returns the exponent; anything else is an error.
\<close>

lemma parse_entries_exact:
  "parse_entries_pow2 s = Inr v \<longleftrightarrow> stoul s = Inr 0 \<and> v = 0 \<or> stoul s = Inr (2 ^ v)"
proof (cases "stoul s")
  case (Inl e)
  then show ?thesis by (simp add: parse_entries_pow2_def)
next
  case (Inr n)
  show ?thesis
  proof (cases "n \<noteq> 0 \<and> n AND (n - 1) = 0")
    case True
    then obtain k where "n = 2 ^ k" using pow2_and by auto
    then show ?thesis using Inr True by (auto simp: parse_entries_pow2_def countr_zero_pow2)
  next
    case False
    have "(2 :: nat) ^ v AND mask v = 0" by (simp add: take_bit_eq_mod flip: take_bit_eq_mask)
    then have "(2 :: nat) ^ v AND (2 ^ v - 1) = 0" by (simp only: mask_eq_exp_minus_1)
    then show ?thesis using Inr False by (auto simp: parse_entries_pow2_def)
  qed
qed

section \<open>History lengths\<close>

definition show_int :: "int \<Rightarrow> string" where
  "show_int i = (if i < 0 then CHR ''-'' # show_nat (nat (- i)) else show_nat (nat i))"

fun join_commas :: "string list \<Rightarrow> string" where
  "join_commas [] = []" | "join_commas [s] = s" | "join_commas (s # t # ss) = s @ CHR '','' # join_commas (t # ss)"

lemma stoi_show: "- (2 ^ 31) \<le> i \<Longrightarrow> i < 2 ^ 31 \<Longrightarrow> stoi (show_int i) = Inr i"
  using read_digits [OF show_nat_digits show_nat_ne, of "[]"] by (auto simp: stoi_def show_int_def show_nat_val)

lemma show_int_plain: "list_all (\<lambda>c. c \<noteq> CHR '','') (show_int i)" "show_int i \<noteq> []"
proof -
  have "list_all (\<lambda>c. c \<noteq> CHR '','') (show_nat n)" for n
    using show_nat_digits [of n] digit_plain by (auto simp: list_all_iff)
  then show "list_all (\<lambda>c. c \<noteq> CHR '','') (show_int i)" by (simp add: show_int_def)
  show "show_int i \<noteq> []" by (simp add: show_int_def show_nat_ne)
qed

lemma takeWhile_plain: "list_all (\<lambda>c. c \<noteq> CHR '','') s \<Longrightarrow> takeWhile (\<lambda>c. c \<noteq> CHR '','') (s @ CHR '','' # r) = s"
    "list_all (\<lambda>c. c \<noteq> CHR '','') s \<Longrightarrow> takeWhile (\<lambda>c. c \<noteq> CHR '','') s = s"
  by (induction s) simp_all

text \<open>
  The list of history lengths of TAGE is read back in order from its comma-separated form.
\<close>

lemma parse_hists_roundtrip:
  assumes "\<forall>i\<in>set is. - (2 ^ 31) \<le> i \<and> i < 2 ^ 31"
  shows "parse_hists (join_commas (map show_int is)) = Inr is"
  using assms
proof (induction "map show_int is" arbitrary: "is" rule: join_commas.induct)
  case 1
  then show ?case by (subst parse_hists.simps) simp
next
  case (2 s)
  then obtain i where i: "is = [i]" "s = show_int i" by auto
  have "parse_hists [] = Inr []" by (subst parse_hists.simps) simp
  then show ?case
    using 2 i by (subst parse_hists.simps) (simp add: show_int_plain takeWhile_plain stoi_show Let_def)
next
  case (3 s t ss)
  then obtain i j js where i: "is = i # j # js" "s = show_int i" by (auto simp: map_eq_Cons_conv)
  have "parse_hists (join_commas (map show_int (j # js))) = Inr (j # js)"
    using 3(1) [of "j # js"] 3(2,3) i by simp
  then show ?case
    using 3(3) i by (subst parse_hists.simps) (simp add: show_int_plain takeWhile_plain stoi_show Let_def)
qed

end
