(* ===== verification/MemLive.thy ===== *)
theory MemLive
  imports SystemProps MemProps "HOL-Library.Code_Target_Nat"
begin

text \<open>
  Progress of the memory: a request that a channel serves stays there untouched until it is due,
  it is due within a bounded number of ticks, and the update at that tick answers it.
\<close>

section \<open>The arbiter\<close>

definition devs_ok :: "arbiter \<Rightarrow> bool" where
  "devs_ok a \<longleftrightarrow> (\<forall>d\<in>set (devices a). dev_ok d)"

text \<open>No channel sleeps longer than the longest latency.\<close>

definition awake :: "tick_t \<Rightarrow> arbiter \<Rightarrow> bool" where
  "awake t a \<longleftrightarrow> devs_ok a \<and> (\<forall>mp. chan_busy mp a \<noteq> InfTime \<longrightarrow> chan_busy mp a \<le> t + 2 ^ 32)"

text \<open>The request a channel serves stays in its slot, and the channel keeps serving it.\<close>

definition keeps_served :: "mop \<Rightarrow> arbiter \<Rightarrow> arbiter \<Rightarrow> bool" where
  "keeps_served mp a a' \<longleftrightarrow> (\<forall>q. chan_busy mp a \<noteq> InfTime \<longrightarrow> pending a mp (chan_serves mp a) = Some q \<longrightarrow>
     chan_busy mp a' = chan_busy mp a \<and> chan_serves mp a' = chan_serves mp a \<and> pending a' mp (chan_serves mp a) = Some q)"

definition quiet_mem :: "tick_t \<Rightarrow> arbiter \<Rightarrow> arbiter \<Rightarrow> bool" where
  "quiet_mem t a a' \<longleftrightarrow> (awake t a \<longrightarrow> awake t a') \<and> (\<forall>mp. keeps_served mp a a')"

lemma keeps_served_refl [simp]: "keeps_served mp a a"
  by (simp add: keeps_served_def)

lemma keeps_served_trans: "keeps_served mp a b \<Longrightarrow> keeps_served mp b c \<Longrightarrow> keeps_served mp a c"
  unfolding keeps_served_def by metis

lemma quiet_mem_refl [simp]: "quiet_mem t a a"
  by (simp add: quiet_mem_def)

lemma quiet_mem_trans: "quiet_mem t a b \<Longrightarrow> quiet_mem t b c \<Longrightarrow> quiet_mem t a c"
  by (auto simp: quiet_mem_def intro: keeps_served_trans)

lemma dev_access_lat:
  assumes "dev_access req t d = Some (d', lat)" and "dev_ok d"
  shows "dev_ok d' \<and> lat < 2 ^ 32"
proof (cases "dev_model d")
  case (ConstLatency lr lw)
  then show ?thesis using assms by (auto simp: dev_access_def dev_ok_def split: if_splits)
next
  case (SdramDev m)
  then have "1 \<le> mt_bst_len req" using assms(1) by (auto simp: dev_access_def)
  then show ?thesis using dev_access_ex [OF assms(2), of req t] assms(1) by auto
qed

lemma lat_of_frame:
  assumes "lat_of t req a = Some (a', lat)" and "devs_ok a"
  shows "devs_ok a' \<and> lat < 2 ^ 32"
proof -
  obtain d where d: "device_of a (mt_addr req) < length (devices a)"
      "dev_access req t (devices a ! device_of a (mt_addr req)) = Some (d, lat)"
      "devices a' = (devices a)[device_of a (mt_addr req) := d]"
    using assms(1) by (auto simp: lat_of_def Let_def split: if_splits)
  then show ?thesis using dev_access_lat [OF d(2)] assms(2) by (auto simp: devs_ok_def dest!: set_update_memD)
qed

lemma lat_of_same: "lat_of t req a = Some (a', lat) \<Longrightarrow> same_chan a a'"
  by (auto simp: lat_of_def Let_def same_chan_def split: if_splits)

lemma recv_quiet:
  assumes r: "arb_recv_req t req a = Some a'" and t: "t \<le> T"
  shows "quiet_mem T a a'" "chan_busy mp a \<noteq> InfTime \<Longrightarrow> chan_busy mp a' = chan_busy mp a"
proof -
  let ?i = "mt_id req"
  have "quiet_mem T a a' \<and> (\<forall>mp. chan_busy mp a \<noteq> InfTime \<longrightarrow> chan_busy mp a' = chan_busy mp a)"
  proof (cases "mt_mop req = Read")
    case True
    have e: "?i < length (reqs_rd a)" "reqs_rd a ! ?i = None" using r True by (auto simp: arb_recv_req_def Let_def at_def split: if_splits)
    show ?thesis
    proof (cases "r_busy_until a = InfTime")
      case False
      then have "a' = a\<lparr>reqs_rd := (reqs_rd a)[?i := Some req]\<rparr>" using r True e by (simp add: arb_recv_req_def at_def Let_def)
      then show ?thesis
        using e by (auto simp: quiet_mem_def awake_def devs_ok_def keeps_served_def chan_defs pending_def nth_upd split: mop.splits)
    next
      case inf: True
      obtain b lat where b: "lat_of t req a = Some (b, lat)"
          "a' = b\<lparr>reqs_rd := (reqs_rd b)[?i := Some (req\<lparr>mt_lat := lat\<rparr>)], r_busy_until := t + lat, r_serving_id := ?i\<rparr>"
        using r True e inf by (auto simp: arb_recv_req_def at_def Let_def)
      have s: "same_chan a b" by (rule lat_of_same [OF b(1)])
      have "awake T a \<Longrightarrow> awake T a'"
        using lat_of_frame [OF b(1)] s t by (auto simp: awake_def b(2) devs_ok_def same_chan_def chan_defs split: mop.splits)
      moreover have "keeps_served mp a a'" for mp
        using s inf by (cases mp) (auto simp: keeps_served_def b(2) same_chan_def chan_defs pending_def)
      ultimately show ?thesis using s inf by (auto simp: quiet_mem_def b(2) same_chan_def chan_defs split: mop.splits)
    qed
  next
    case False
    have e: "?i < length (reqs_wr a)" "reqs_wr a ! ?i = None" using r False by (auto simp: arb_recv_req_def Let_def at_def split: if_splits)
    show ?thesis
    proof (cases "w_busy_until a = InfTime")
      case busy: False
      then have "a' = a\<lparr>reqs_wr := (reqs_wr a)[?i := Some req]\<rparr>" using r False e by (simp add: arb_recv_req_def at_def Let_def)
      then show ?thesis
        using e by (auto simp: quiet_mem_def awake_def devs_ok_def keeps_served_def chan_defs pending_def nth_upd split: mop.splits)
    next
      case inf: True
      obtain b lat where b: "lat_of t req a = Some (b, lat)"
          "a' = b\<lparr>reqs_wr := (reqs_wr b)[?i := Some (req\<lparr>mt_lat := lat\<rparr>)], w_busy_until := t + lat, w_serving_id := ?i\<rparr>"
        using r False e inf by (auto simp: arb_recv_req_def at_def Let_def)
      have s: "same_chan a b" by (rule lat_of_same [OF b(1)])
      have "awake T a \<Longrightarrow> awake T a'"
        using lat_of_frame [OF b(1)] s t by (auto simp: awake_def b(2) devs_ok_def same_chan_def chan_defs split: mop.splits)
      moreover have "keeps_served mp a a'" for mp
        using s inf by (cases mp) (auto simp: keeps_served_def b(2) same_chan_def chan_defs pending_def)
      ultimately show ?thesis using s inf by (auto simp: quiet_mem_def b(2) same_chan_def chan_defs split: mop.splits)
    qed
  qed
  then show "quiet_mem T a a'" "chan_busy mp a \<noteq> InfTime \<Longrightarrow> chan_busy mp a' = chan_busy mp a" by simp_all
qed

lemma recv_all_quiet:
  "recv_all t rs a = Some a' \<Longrightarrow> t \<le> T \<Longrightarrow> quiet_mem T a a' \<and> (\<forall>mp. chan_busy mp a \<noteq> InfTime \<longrightarrow> chan_busy mp a' = chan_busy mp a)"
proof (induction rs arbitrary: a)
  case (Cons r rs)
  then obtain b where b: "arb_recv_req t r a = Some b" "recv_all t rs b = Some a'" by auto
  show ?case using recv_quiet [OF b(1) Cons.prems(2)] Cons.IH [OF b(2) Cons.prems(2)] by (auto intro: quiet_mem_trans)
qed simp

text \<open>Picking the next request of a channel leaves the other channel alone.\<close>

lemma pick_read_frame:
  assumes p: "pick_read t a = Some a'" and t: "t + 1 \<le> T"
  shows "(awake T a \<longrightarrow> awake T a') \<and> keeps_served Write a a'"
proof -
  obtain b where b: "b = a\<lparr>r_busy_until := InfTime, r_serving_id := NO_ID\<rparr>" by simp
  consider (none) "a' = b"
    | (some) i req c lat where "lat_of t req (b\<lparr>r_serving_id := mt_id req\<rparr>) = Some (c, lat)"
        "a' = c\<lparr>reqs_rd := (reqs_rd c)[i := Some (req\<lparr>mt_lat := lat\<rparr>)], r_busy_until := t + 1 + lat\<rparr>"
    using p by (auto simp: pick_read_def b Let_def split: option.splits)
  then show ?thesis
  proof cases
    case none
    then show ?thesis
      by (auto simp: b awake_def devs_ok_def chan_defs keeps_served_def pending_def split: mop.splits)
  next
    case some
    have s: "same_chan (b\<lparr>r_serving_id := mt_id req\<rparr>) c" by (rule lat_of_same [OF some(1)])
    have "keeps_served Write a a'"
      using s by (auto simp: keeps_served_def some(2) b same_chan_def chan_defs pending_def)
    moreover have "awake T a'" if w: "awake T a"
    proof -
      have "devs_ok (b\<lparr>r_serving_id := mt_id req\<rparr>)" using w by (simp add: b awake_def devs_ok_def)
      then show ?thesis
        using w t lat_of_frame [OF some(1)] s
      by (auto simp: awake_def some(2) b devs_ok_def same_chan_def chan_defs split: mop.splits)
    qed
    ultimately show ?thesis by simp
  qed
qed

lemma pick_write_frame:
  assumes p: "pick_write t a = Some a'" and t: "t + 1 \<le> T"
  shows "(awake T a \<longrightarrow> awake T a') \<and> keeps_served Read a a'"
proof -
  obtain b where b: "b = a\<lparr>w_busy_until := InfTime, w_serving_id := NO_ID\<rparr>" by simp
  consider (none) "a' = b"
    | (some) i req c lat where "lat_of t req (b\<lparr>w_serving_id := mt_id req\<rparr>) = Some (c, lat)"
        "a' = c\<lparr>reqs_wr := (reqs_wr c)[i := Some (req\<lparr>mt_lat := lat\<rparr>)], w_busy_until := t + 1 + lat\<rparr>"
    using p by (auto simp: pick_write_def b Let_def split: option.splits)
  then show ?thesis
  proof cases
    case none
    then show ?thesis
      by (auto simp: b awake_def devs_ok_def chan_defs keeps_served_def pending_def split: mop.splits)
  next
    case some
    have s: "same_chan (b\<lparr>w_serving_id := mt_id req\<rparr>) c" by (rule lat_of_same [OF some(1)])
    have "keeps_served Read a a'"
      using s by (auto simp: keeps_served_def some(2) b same_chan_def chan_defs pending_def)
    moreover have "awake T a'" if w: "awake T a"
    proof -
      have "devs_ok (b\<lparr>w_serving_id := mt_id req\<rparr>)" using w by (simp add: b awake_def devs_ok_def)
      then show ?thesis
        using w t lat_of_frame [OF some(1)] s
      by (auto simp: awake_def some(2) b devs_ok_def same_chan_def chan_defs split: mop.splits)
    qed
    ultimately show ?thesis by simp
  qed
qed

section \<open>The update of the arbiter\<close>

lemma clear_slot_awake: "awake T (a\<lparr>reqs_rd := xs\<rparr>) = awake T a" "awake T (a\<lparr>reqs_wr := xs\<rparr>) = awake T a"
  by (simp_all add: awake_def devs_ok_def chan_defs cong: mop.case_cong)

lemma clear_slot_other: "keeps_served Write a (a\<lparr>reqs_rd := xs\<rparr>)" "keeps_served Read a (a\<lparr>reqs_wr := xs\<rparr>)"
  by (simp_all add: keeps_served_def chan_defs pending_def)

lemma complete_read_frame:
  assumes c: "complete_read cb t (a, h) = Some (a', h')" and t: "t + 1 \<le> T"
  shows "(awake T a \<longrightarrow> awake T a') \<and> keeps_served Write a a' \<and> (t < chan_busy Read a \<longrightarrow> a' = a \<and> h' = h)"
proof (cases "r_busy_until a \<le> t \<and> r_serving_id a \<noteq> NO_ID")
  case False
  then show ?thesis using c by (auto simp: complete_read_def)
next
  case True
  let ?a = "a\<lparr>reqs_rd := (reqs_rd a)[r_serving_id a := None]\<rparr>"
  obtain rs b where b: "recv_all t rs ?a = Some b" "pick_read t b = Some a'"
    using c True by (auto simp: complete_read_def)
  have q: "quiet_mem T ?a b" using recv_all_quiet [OF b(1), of T] t by simp
  show ?thesis
    using q pick_read_frame [OF b(2) t] True keeps_served_trans [OF clear_slot_other(1) [of a "(reqs_rd a)[r_serving_id a := None]"], of b]
    by (auto simp: quiet_mem_def clear_slot_awake chan_busy_def intro: keeps_served_trans)
qed

lemma complete_write_frame:
  assumes c: "complete_write cb t (a, h) = Some (a', h')" and t: "t + 1 \<le> T"
  shows "(awake T a \<longrightarrow> awake T a') \<and> keeps_served Read a a' \<and> (t < chan_busy Write a \<longrightarrow> a' = a \<and> h' = h)"
proof (cases "w_busy_until a \<le> t \<and> w_serving_id a \<noteq> NO_ID")
  case False
  then show ?thesis using c by (auto simp: complete_write_def)
next
  case True
  let ?a = "a\<lparr>reqs_wr := (reqs_wr a)[w_serving_id a := None]\<rparr>"
  obtain rs b where b: "recv_all t rs ?a = Some b" "pick_write t b = Some a'"
    using c True by (auto simp: complete_write_def)
  have q: "quiet_mem T ?a b" using recv_all_quiet [OF b(1), of T] t by simp
  show ?thesis
    using q pick_write_frame [OF b(2) t] True keeps_served_trans [OF clear_slot_other(2) [of a "(reqs_wr a)[w_serving_id a := None]"], of b]
    by (auto simp: quiet_mem_def clear_slot_awake chan_busy_def intro: keeps_served_trans)
qed

lemma mem_update_frame:
  assumes u: "mem_update m = Some m'" and t: "m_tick m + 1 \<le> T"
  shows "awake T (m_mem m) \<longrightarrow> awake T (m_mem m')" "m_tick m < chan_busy mp (m_mem m) \<Longrightarrow> keeps_served mp (m_mem m) (m_mem m')"
proof -
  obtain a mh where a: "arb_do_update host_resp (m_tick m) (m_mem m, m) = Some (a, mh)" "m' = mh\<lparr>m_mem := a\<rparr>"
    using u by (auto simp: mem_update_def)
  have "(awake T (m_mem m) \<longrightarrow> awake T a) \<and> (m_tick m < chan_busy mp (m_mem m) \<longrightarrow> keeps_served mp (m_mem m) a)"
  proof (cases "arb_next_update (m_mem m) \<le> m_tick m")
    case False
    then show ?thesis using a(1) by (auto simp: arb_do_update_def)
  next
    case True
    then obtain b h where b: "complete_read host_resp (m_tick m) (m_mem m, m) = Some (b, h)"
        "complete_write host_resp (m_tick m) (b, h) = Some (a, mh)"
      using a(1) by (auto simp: arb_do_update_def arb_update_impl_def)
    note r = complete_read_frame [OF b(1) t] and w = complete_write_frame [OF b(2) t]
    show ?thesis
    proof (cases mp)
      case Read
      then show ?thesis using r w by auto
    next
      case Write
      have "keeps_served Write (m_mem m) a" if lt: "m_tick m < chan_busy Write (m_mem m)"
      proof -
        have "keeps_served Write (m_mem m) b" using r by simp
        moreover have "keeps_served Write b a" if "chan_busy Write b = chan_busy Write (m_mem m)"
          using w that lt by auto
        ultimately show ?thesis by (auto simp: keeps_served_def)
      qed
      then show ?thesis using r w Write by auto
    qed
  qed
  then show "awake T (m_mem m) \<longrightarrow> awake T (m_mem m')" "m_tick m < chan_busy mp (m_mem m) \<Longrightarrow> keeps_served mp (m_mem m) (m_mem m')"
    using a(2) by simp_all
qed

section \<open>The rest of a turn\<close>

text \<open>Everything but the update of the arbiter is quiet. T is the next tick.\<close>

lemma deliver_quiet: "deliver ev m = Some m' \<Longrightarrow> m_tick m \<le> T \<Longrightarrow> quiet_mem T (m_mem m) (m_mem m') \<and> m_tick m' = m_tick m"
  by (cases ev) (auto intro: recv_quiet(1))

lemma deliver_all_quiet:
  "deliver_all evs m = Some m' \<Longrightarrow> m_tick m \<le> T \<Longrightarrow> quiet_mem T (m_mem m) (m_mem m') \<and> m_tick m' = m_tick m"
proof (induction evs arbitrary: m)
  case (Cons ev evs)
  then obtain m1 where m1: "deliver ev m = Some m1" "deliver_all evs m1 = Some m'" by auto
  have q: "quiet_mem T (m_mem m) (m_mem m1)" "m_tick m1 = m_tick m" using deliver_quiet [OF m1(1) Cons.prems(2)] by simp_all
  show ?case using Cons.IH [OF m1(2)] q Cons.prems(2) by (auto intro: quiet_mem_trans)
qed simp

lemma dcache_quiet: "dcache_update m = Some m' \<Longrightarrow> m_tick m \<le> T \<Longrightarrow> quiet_mem T (m_mem m) (m_mem m') \<and> m_tick m' = m_tick m"
  by (auto simp: dcache_update_def dest!: deliver_all_quiet [where T = T] split: dport.splits)

lemma icache_quiet: "icache_update m = Some m' \<Longrightarrow> m_tick m \<le> T \<Longrightarrow> quiet_mem T (m_mem m) (m_mem m') \<and> m_tick m' = m_tick m"
  by (auto simp: icache_update_def dest!: deliver_all_quiet [where T = T])

lemma send_req_quiet: "send_req r m = Some m' \<Longrightarrow> m_tick m \<le> T \<Longrightarrow> quiet_mem T (m_mem m) (m_mem m') \<and> m_tick m' = m_tick m"
  by (cases "(r, m)" rule: send_req.cases) (auto dest!: deliver_all_quiet [where T = T] split: dport.splits)

lemma send_all_quiet:
  "send_all rs m = Some m' \<Longrightarrow> m_tick m \<le> T \<Longrightarrow> quiet_mem T (m_mem m) (m_mem m') \<and> m_tick m' = m_tick m"
proof (induction rs arbitrary: m)
  case (Cons r rs)
  then obtain m1 where m1: "send_req r m = Some m1" "send_all rs m1 = Some m'" by auto
  have q: "quiet_mem T (m_mem m) (m_mem m1)" "m_tick m1 = m_tick m" using send_req_quiet [OF m1(1) Cons.prems(2)] by simp_all
  show ?case using Cons.IH [OF m1(2)] q Cons.prems(2) by (auto intro: quiet_mem_trans)
qed simp

lemma with_core_quiet: "with_core p m = Some m' \<Longrightarrow> m_tick m \<le> T \<Longrightarrow> quiet_mem T (m_mem m) (m_mem m') \<and> m_tick m' = m_tick m"
  unfolding with_core_def by (drule send_all_quiet [where T = T]) simp_all

lemma feed_quiet:
  assumes "feed_phase cfg s = Some s'" and "m_tick (mach s) \<le> T"
  shows "quiet_mem T (m_mem (mach s)) (m_mem (mach s')) \<and> m_tick (mach s') = m_tick (mach s)"
  using assms
  by (auto simp: feed_phase_def drain_core_def core_feed_def dest!: with_core_quiet [where T = T] split: if_splits option.splits)

lemma reset_quiet: "quiet_mem T a (arb_reset_stats a)"
  by (auto simp: quiet_mem_def awake_def devs_ok_def arb_reset_stats_def dev_reset_ok keeps_served_def chan_defs pending_def
      split: mop.splits)

lemma sys_quiet:
  assumes "sys_phase s = Some s'" and "m_tick (mach s) \<le> T"
  shows "quiet_mem T (m_mem (mach s)) (m_mem (mach s')) \<and> m_tick (mach s') = m_tick (mach s)"
proof -
  have f: "m_mem (flush_caches m) = m_mem m" "m_tick (flush_caches m) = m_tick m" for m by (simp_all add: flush_caches_def)
  have r: "m_mem (reset_all_stats m) = arb_reset_stats (m_mem m)" "m_tick (reset_all_stats m) = m_tick m" for m
    by (simp_all add: reset_all_stats_def Let_def)
  have fence: "quiet_mem T (m_mem m) (m_mem m2) \<and> m_tick m2 = m_tick m"
    if "icache_update (flush_caches m) = Some m1" "dcache_update m1 = Some m2" "m_tick m \<le> T" for m m1 m2
    using icache_quiet [OF that(1), of T] dcache_quiet [OF that(2), of T] that(3) f by (auto intro: quiet_mem_trans)
  show ?thesis
    using assms by (auto simp: sys_phase_def Let_def r reset_quiet dest: fence split: if_splits)
qed

lemma sim_iter_frame:
  assumes i: "sim_iter cfg s = Some s'" and ok: "machine_ok False f k (mach s)"
  defines "T \<equiv> m_tick (mach s) + 1" and "a \<equiv> m_mem (mach s)"
  shows "m_tick (mach s') = T \<and> (awake (m_tick (mach s)) a \<longrightarrow> awake T (m_mem (mach s'))) \<and>
    (m_tick (mach s) < chan_busy mp a \<longrightarrow> keeps_served mp a (m_mem (mach s')))"
proof -
  obtain m1 m2 m3 m5 s5 m6 where *: "mem_update (mach s) = Some m1" "bypass_update m1 = Some m2" "dcache_update m2 = Some m3"
      "icache_update m3 = Some m5" "core_do_update m5 = Some m6" "feed_phase cfg (s\<lparr>mach := m6\<rparr>) = Some s5"
      "sys_phase (s5\<lparr>mach := (mach s5)\<lparr>m_tick := m_tick (mach s5) + 1\<rparr>\<rparr>) = Some s'"
    using i by (auto simp: sim_iter_def update_devices_def set_global_tick_def)
  have t1: "m_tick m1 = m_tick (mach s)"
    using *(1) mem_update_ok [OF ok] by auto
  have e2: "m2 = m1" using *(2) by simp
  have q3: "quiet_mem T (m_mem m1) (m_mem m3) \<and> m_tick m3 = m_tick (mach s)"
    using dcache_quiet [OF *(3), of T] e2 t1 by (simp add: T_def)
  have q5: "quiet_mem T (m_mem m3) (m_mem m5) \<and> m_tick m5 = m_tick (mach s)"
    using icache_quiet [OF *(4), of T] q3 by (simp add: T_def)
  obtain p where "with_core p m5 = Some m6" using *(5) by (auto simp: core_do_update_def)
  from with_core_quiet [OF this, of T] have q6: "quiet_mem T (m_mem m5) (m_mem m6) \<and> m_tick m6 = m_tick (mach s)"
    using q5 by (simp add: T_def)
  have q7: "quiet_mem T (m_mem m6) (m_mem (mach s5)) \<and> m_tick (mach s5) = m_tick (mach s)"
    using feed_quiet [OF *(6), of T] q6 by (simp add: T_def)
  have q8: "quiet_mem T (m_mem (mach s5)) (m_mem (mach s')) \<and> m_tick (mach s') = T"
    using sys_quiet [OF *(7), of T] q7 by (simp add: T_def)
  have q: "quiet_mem T (m_mem m1) (m_mem (mach s'))"
    using q3 q5 q6 q7 q8 by (blast intro: quiet_mem_trans)
  note u = mem_update_frame(1) [OF *(1), of T] mem_update_frame(2) [OF *(1), of T mp]
  have "awake (m_tick (mach s)) a \<Longrightarrow> awake T a" by (auto simp: awake_def T_def)
  then show ?thesis
    using u q q8 by (auto simp: quiet_mem_def T_def a_def intro: keeps_served_trans)
qed

section \<open>Many turns\<close>

lemma turns_frame:
  "sim_ok n cfg False s \<Longrightarrow> m_tick (mach s) + j + 1 + 2 ^ 33 < InfTime \<Longrightarrow> sim_turns j cfg s = Some s2 \<Longrightarrow>
   (awake (m_tick (mach s)) (m_mem (mach s)) \<longrightarrow> awake (m_tick (mach s2)) (m_mem (mach s2))) \<and>
   (m_tick (mach s) + j \<le> chan_busy mp (m_mem (mach s)) \<longrightarrow> keeps_served mp (m_mem (mach s)) (m_mem (mach s2)))"
proof (induction j arbitrary: s)
  case (Suc j)
  obtain s1 where s1: "sim_iter cfg s = Some s1" "sim_turns j cfg s1 = Some s2" using Suc.prems(3) by auto
  obtain k where k: "machine_ok False (inst_cnt s) k (mach s)" using sim_okD [OF Suc.prems(1)] by blast
  have ok1: "sim_ok n cfg False s1" using sim_iter_ok [OF Suc.prems(1)] Suc.prems(2) s1(1) by auto
  note f = sim_iter_frame [OF s1(1) k, of mp]
  have T: "m_tick (mach s1) + j + 1 + 2 ^ 33 < InfTime" using f Suc.prems(2) by simp
  note ih = Suc.IH [OF ok1 T s1(2)]
  have "keeps_served mp (m_mem (mach s)) (m_mem (mach s2))" if le: "m_tick (mach s) + Suc j \<le> chan_busy mp (m_mem (mach s))"
  proof -
    have 1: "keeps_served mp (m_mem (mach s)) (m_mem (mach s1))" using f le by simp
    have 2: "chan_busy mp (m_mem (mach s1)) = chan_busy mp (m_mem (mach s)) \<Longrightarrow> keeps_served mp (m_mem (mach s1)) (m_mem (mach s2))"
      using ih f le by simp
    show ?thesis using 1 2 unfolding keeps_served_def by metis
  qed
  then show ?case using f ih by auto
qed simp

section \<open>The answer\<close>

lemma host_resp_silent: "host_resp i q m = Some (m', rs) \<Longrightarrow> rs = []"
  by (auto simp: host_resp_def nc_recv_mem_resp_def split: if_splits dport.splits)

lemma complete_write_reads:
  assumes "complete_write host_resp t (a, h) = Some (a', h')"
  shows "reqs_rd a' = reqs_rd a \<and> num_hosts a' = num_hosts a"
proof (cases "w_busy_until a \<le> t \<and> w_serving_id a \<noteq> NO_ID")
  case False
  then show ?thesis using assms by (auto simp: complete_write_def)
next
  case True
  then obtain q h1 rs b where b: "host_resp (w_serving_id a) q h = Some (h1, rs)"
      "recv_all t rs (a\<lparr>reqs_wr := (reqs_wr a)[w_serving_id a := None]\<rparr>) = Some b" "pick_write t b = Some a'"
    using assms by (auto simp: complete_write_def)
  have "b = a\<lparr>reqs_wr := (reqs_wr a)[w_serving_id a := None]\<rparr>" using b(2) host_resp_silent [OF b(1)] by simp
  then show ?thesis
    using b(3) by (auto simp: pick_write_def Let_def same_chan_def dest!: lat_of_same split: option.splits)
qed

lemma update_answers:
  assumes m: "machine_ok u f k m" and b: "chan_busy mp (m_mem m) \<le> m_tick m"
    and q: "pending (m_mem m) mp (chan_serves mp (m_mem m)) = Some q"
  shows "\<exists>m'. mem_update m = Some m' \<and> pending (m_mem m') mp (chan_serves mp (m_mem m)) = None"
proof -
  let ?t = "m_tick m" and ?a = "m_mem m" and ?i = "chan_serves mp (m_mem m)"
  note d = machine_okD [OF m]
  have T: "?t + 2 ^ 32 + 1 < InfTime" using hosts_okD(8) [OF d(1)] by simp
  have i: "?i < 3" using q d(3) by (auto simp: pending_def split: if_splits)
  have silent: "\<exists>h'. host_resp ?i (q\<lparr>mt_dir := Resp, mt_lat := l\<rparr>) h = Some (h', [])"
    if "hosts_ok u f k h pd" "pd mp ?i = Some q" for h pd l
    using host_answer [of u f k h pd ?i mp q l] that i host_resp_silent by blast
  have due: "arb_next_update ?a \<le> ?t" using b by (cases mp) (auto simp: arb_next_update_def chan_busy_def)
  obtain a1 h1 where r: "complete_read host_resp ?t (?a, m) = Some (a1, h1)" "arb_ok a1" "num_hosts a1 = 3"
      "hosts_ok u f k h1 (pending a1)" "m_tick h1 = ?t"
    using hosts.complete_read_ok [OF d(2,3) conjI [OF d(1) refl] T] by blast
  obtain a2 h2 where w: "complete_write host_resp ?t (a1, h1) = Some (a2, h2)"
    using hosts.complete_write_ok [OF r(2,3) conjI [OF r(4,5)] T] by blast
  have up: "mem_update m = Some (h2\<lparr>m_mem := a2\<rparr>)"
    using due r(1) w by (simp add: mem_update_def arb_do_update_def arb_update_impl_def)
  have "pending a2 mp ?i = None"
  proof (cases mp)
    case Read
    have "pending a1 Read ?i = None"
      using complete_chan [where cb = host_resp and h = m, OF d(2) T b q silent [OF d(1) q]] r(1) Read
      by (auto simp: chan_complete_def put_req_def)
    then show ?thesis using complete_write_reads [OF w] Read by (auto simp: pending_def split: if_splits)
  next
    case Write
    have k: "keeps_served Write ?a a1" using complete_read_frame [OF r(1)] by blast
    have nb: "chan_busy Write ?a \<noteq> InfTime" using b T Write by auto
    have s: "chan_busy Write a1 = chan_busy Write ?a" "chan_serves Write a1 = ?i" "pending a1 Write ?i = Some q"
      using k nb q Write by (auto simp: keeps_served_def)
    have b1: "chan_busy Write a1 \<le> ?t" and q1: "pending a1 Write (chan_serves Write a1) = Some q" using s b Write by simp_all
    have c: "\<exists>h'. host_resp (chan_serves Write a1) (q\<lparr>mt_dir := Resp, mt_lat := l\<rparr>) h1 = Some (h', [])" for l
      using silent [OF r(4), of l] s Write by simp
    show ?thesis
      using complete_chan [where cb = host_resp and h = h1, OF r(2) T b1 q1 c] w s(2) Write
      by (auto simp: chan_complete_def put_req_def)
  qed
  then show ?thesis using up by simp
qed

lemma start_awake:
  assumes "build_machine nx c = Some m" and "config_ok c"
  shows "awake 0 (m_mem m)"
proof -
  have "arb_ok (m_mem m)" using build_machine_ok [OF assms] by (simp add: machine_ok_def)
  moreover have "r_busy_until (m_mem m) = InfTime" "w_busy_until (m_mem m) = InfTime"
    using assms(1) by (auto simp: build_machine_def new_arbiter_def)
  ultimately show ?thesis
    by (auto simp: awake_def devs_ok_def arb_inv_def arb_shape_def chan_busy_def split: mop.splits)
qed

lemma served_or_idle:
  assumes "arb_ok a" and "pending a mp i \<noteq> None"
  shows "chan_busy mp a \<noteq> InfTime \<and> (\<exists>q. pending a mp (chan_serves mp a) = Some q)"
proof -
  have sh: "arb_shape a" using assms(1) by (simp add: arb_inv_def)
  have n: "chan_busy mp a \<noteq> InfTime"
  proof
    assume inf: "chan_busy mp a = InfTime"
    let ?xs = "case mp of Read \<Rightarrow> reqs_rd a | Write \<Rightarrow> reqs_wr a"
    have none: "\<forall>x\<in>set ?xs. x = None" using assms(1) inf by (cases mp) (auto simp: arb_inv_def chan_ok_def chan_busy_def)
    have "i < length ?xs" using sh assms(2) by (cases mp) (auto simp: arb_shape_def slots_ok_def pending_def split: if_splits)
    then have "?xs ! i = None" using none nth_mem by blast
    then show False using assms(2) by (auto simp: pending_def split: if_splits)
  qed
  then show ?thesis
    using slot_of_pending [OF sh, of mp "chan_busy mp a" "chan_serves mp a"] assms(1) by (cases mp) (auto simp: arb_inv_def chan_defs)
qed

text \<open>
  (C7) The memory never goes to sleep on a request. In every state of the simulation in which a
  host waits in some direction, the channel serves a request; after at most 2 to the 32 further
  turns that request is still in its slot and due, and the update of the memory in the turn
  that follows answers it and frees the slot.
\<close>

theorem served_request_answered:
  assumes "build_machine nx cfg = Some m0" and "config_ok cfg" and "list_all inst_ok (read_trace bytes)" and "k < 2 ^ 62"
    and "sim_turns k cfg (start_simulation m0 bytes i0) = Some s" and "pending (m_mem (mach s)) mp i \<noteq> None"
  defines "h \<equiv> chan_serves mp (m_mem (mach s))"
  shows "\<exists>j q s2 m. j \<le> 2 ^ 32 \<and> sim_turns j cfg s = Some s2 \<and> pending (m_mem (mach s)) mp h = Some q \<and>
    pending (m_mem (mach s2)) mp h = Some q \<and> mem_update (mach s2) = Some m \<and> pending (m_mem m) mp h = None"
proof -
  note st = start_ok [OF assms(1-3), of False i0]
  have T0: "m_tick (mach (start_simulation m0 bytes i0)) + k + 1 + 2 ^ 33 < InfTime" using st(2) assms(4) by (simp add: InfTime_def)
  have s: "sim_ok False cfg False s" "m_tick (mach s) = k"
    using sim_turns_ok [OF st(1) [where cfg = cfg] T0] assms(5) st(2) by auto
  have aw: "awake (m_tick (mach s)) (m_mem (mach s))"
    using turns_frame [OF st(1) T0 assms(5)] start_awake [OF assms(1,2)] st(2) by (simp add: start_simulation_def)
  obtain l where l: "machine_ok False (inst_cnt s) l (mach s)" using sim_okD [OF s(1)] by blast
  obtain q where q: "chan_busy mp (m_mem (mach s)) \<noteq> InfTime" "pending (m_mem (mach s)) mp h = Some q"
    using served_or_idle [OF machine_okD(2) [OF l] assms(6)] by (auto simp: h_def)
  define j where "j = chan_busy mp (m_mem (mach s)) - k"
  have j: "j \<le> 2 ^ 32" using aw q(1) s(2) by (auto simp: awake_def j_def)
  have T: "m_tick (mach s) + j + 1 + 2 ^ 33 < InfTime" using j s(2) assms(4) by (simp add: InfTime_def)
  obtain s2 where s2: "sim_turns j cfg s = Some s2" "sim_ok False cfg False s2" "m_tick (mach s2) = k + j"
    using sim_turns_ok [OF s(1) T] s(2) by auto
  have kept: "chan_busy mp (m_mem (mach s2)) = chan_busy mp (m_mem (mach s)) \<and> chan_serves mp (m_mem (mach s2)) = h \<and>
      pending (m_mem (mach s2)) mp h = Some q"
  proof (cases "j = 0")
    case True
    then show ?thesis using s2(1) q by (simp add: h_def)
  next
    case False
    then have "m_tick (mach s) + j \<le> chan_busy mp (m_mem (mach s))" using s(2) by (simp add: j_def)
    then show ?thesis using turns_frame [OF s(1) T s2(1), of mp] q by (auto simp: keeps_served_def h_def)
  qed
  obtain l2 where l2: "machine_ok False (inst_cnt s2) l2 (mach s2)" using sim_okD [OF s2(2)] by blast
  have "chan_busy mp (m_mem (mach s2)) \<le> m_tick (mach s2)" using kept s2(3) by (simp add: j_def)
  from update_answers [OF l2 this] kept obtain m where "mem_update (mach s2) = Some m" "pending (m_mem m) mp h = None" by auto
  then show ?thesis using j s2(1) q(2) kept by blast
qed

text \<open>
  Some host does wait: with the default configuration and an instruction cache of 32 bytes, the
  first instruction of a trace misses, and after three turns the cache's read is with the arbiter.
\<close>

definition cold_config :: sim_config where
  "cold_config = default_config\<lparr>l1i_size := 32\<rparr>"

definition cold_inst :: trace_inst where
  "cold_inst = inst_zero\<lparr>ti_pc := 0x80000000\<rparr>"

definition cold_run :: "nat \<Rightarrow> simulation option" where
  "cold_run k = (case build_machine 0 cold_config of None \<Rightarrow> None
     | Some m \<Rightarrow> sim_turns k cold_config (start_simulation m (encode_inst cold_inst) inst_zero))"

lemma cold_run_waits:
  "(case cold_run 3 of None \<Rightarrow> False | Some s \<Rightarrow> pending (m_mem (mach s)) Read 0 \<noteq> None)"
  by code_simp

lemma cold_trace: "read_trace (encode_inst cold_inst) = [cold_inst]"
  using read_trace_Cons [of cold_inst "[]"] read_trace_Nil [of "[]"]
  by (simp add: cold_inst_def inst_zero_def byte_fields_def inst_bytes_def)

theorem served_request_answered_witness:
  "\<exists>m0 s j q s2 m. build_machine 0 cold_config = Some m0 \<and>
    sim_turns 3 cold_config (start_simulation m0 (encode_inst cold_inst) inst_zero) = Some s \<and>
    j \<le> 2 ^ 32 \<and> sim_turns j cold_config s = Some s2 \<and>
    pending (m_mem (mach s)) Read (chan_serves Read (m_mem (mach s))) = Some q \<and>
    mem_update (mach s2) = Some m \<and> pending (m_mem m) Read (chan_serves Read (m_mem (mach s))) = None"
proof -
  obtain m0 s where r: "build_machine 0 cold_config = Some m0"
      "sim_turns 3 cold_config (start_simulation m0 (encode_inst cold_inst) inst_zero) = Some s"
      "pending (m_mem (mach s)) Read 0 \<noteq> None"
    using cold_run_waits by (auto simp: cold_run_def split: option.splits)
  have c: "config_ok cold_config"
    by (simp add: cold_config_def default_config_def config_ok_def cache_config_ok_def)
  have i: "list_all inst_ok (read_trace (encode_inst cold_inst))" unfolding cold_trace by (simp add: inst_ok_def cold_inst_def inst_zero_def op_codes)
  show ?thesis using served_request_answered [OF r(1) c i _ r(2,3)] r(1,2) by simp blast
qed

end
