(* ===== verification/Double.thy ===== *)
theory Double
  imports Prelude Complex_Main "HOL-Library.Log_Nat"
begin

text \<open>
  The double arithmetic behind the reported rates. A finite double is its rational value; an
  operation is the exact result rounded once to 53 significant bits, to nearest and ties to
  even. The program only divides, scales and subtracts 64-bit counters, so no value leaves the
  normal range of the format and neither overflow nor subnormal numbers are needed. A quotient
  by zero is not a number and is None where the code does not guard against it.
\<close>

section \<open>Rounding\<close>

definition round_even :: "rat \<Rightarrow> int" where
  "round_even x = (let f = \<lfloor>x\<rfloor>; d = x - of_int f in if d < 1 / 2 \<or> d = 1 / 2 \<and> even f then f else f + 1)"

lemma round_even_int [simp]: "round_even (of_int i) = i"
  by (simp add: round_even_def)

lemma round_even_error: "\<bar>of_int (round_even x) - x\<bar> \<le> 1 / 2"
proof -
  have "of_int \<lfloor>x\<rfloor> \<le> x" "x < of_int \<lfloor>x\<rfloor> + 1" by linarith+
  then show ?thesis by (auto simp: round_even_def Let_def abs_le_iff)
qed

lemma round_even_mono:
  assumes "x \<le> y"
  shows "round_even x \<le> round_even y"
proof (cases "\<lfloor>x\<rfloor> = \<lfloor>y\<rfloor>")
  case True
  then show ?thesis using assms by (auto simp: round_even_def Let_def)
next
  case False
  then have "\<lfloor>x\<rfloor> + 1 \<le> \<lfloor>y\<rfloor>" using floor_mono [OF assms] by simp
  then show ?thesis by (auto simp: round_even_def Let_def)
qed

section \<open>The scale of a number\<close>

definition exponent_of :: "rat \<Rightarrow> int" where
  "exponent_of x =
     (let (p, q) = quotient_of x; k = bitlen p - bitlen q - 53
      in if x < 2 powi (k + 53) then k else k + 1)"

lemma bitlen_powi: "0 < p \<Longrightarrow> 2 powi (bitlen p - 1) \<le> (of_int p :: rat) \<and> (of_int p :: rat) < 2 powi bitlen p"
proof -
  assume p: "0 < p"
  have b: "1 \<le> bitlen p" using p bitlen_eq_zero_iff [of p] bitlen_nonneg [of p] by linarith
  have "(2::rat) powi (bitlen p - 1) = of_int (2 ^ nat (bitlen p - 1))" "(2::rat) powi bitlen p = of_int (2 ^ nat (bitlen p))"
    using b by (simp_all add: power_int_def)
  then show ?thesis using bitlen_bounds [OF p] by (metis of_int_le_iff of_int_less_iff)
qed

lemma exponent_of_bounds:
  assumes "0 < x"
  shows "2 powi (52 + exponent_of x) \<le> x \<and> x < 2 powi (53 + exponent_of x)"
proof -
  obtain p q where q: "quotient_of x = (p, q)" by fastforce
  have x: "x = of_int p / of_int q" "0 < q" using q quotient_of_div quotient_of_denom_pos by auto
  then have p: "0 < p" using assms by (auto simp: zero_less_divide_iff)
  let ?d = "bitlen p - bitlen q"
  note bp = bitlen_powi [OF p] and bq = bitlen_powi [OF x(2)]
  have "2 powi (bitlen p - 1) / 2 powi bitlen q \<le> x"
    using x bp bq p by (simp add: frac_le less_imp_le)
  moreover have "2 powi (bitlen p - 1) / 2 powi bitlen q = (2::rat) powi (bitlen p - 1 - bitlen q)" by (simp add: power_int_diff)
  ultimately have lo: "2 powi (?d - 1) \<le> x" by (simp add: algebra_simps)
  have "x < 2 powi bitlen p / 2 powi (bitlen q - 1)"
    unfolding x(1) using x(2) bp bq p by (intro frac_less) auto
  moreover have "2 powi bitlen p / 2 powi (bitlen q - 1) = (2::rat) powi (bitlen p - (bitlen q - 1))" by (simp add: power_int_diff)
  ultimately have hi: "x < 2 powi (?d + 1)" by (simp add: algebra_simps)
  have *: "52 + (?d - 53) = ?d - 1" "53 + (?d - 53) = ?d" "52 + (?d - 53 + 1) = ?d" "53 + (?d - 53 + 1) = ?d + 1" by simp_all
  show ?thesis
    using lo hi unfolding exponent_of_def q Let_def prod.case by (auto simp: * add.commute [of 1])
qed

lemma exponent_of_mono:
  assumes "0 < x" "x \<le> y"
  shows "exponent_of x \<le> exponent_of y"
proof (rule ccontr)
  assume "\<not> exponent_of x \<le> exponent_of y"
  then have "(2::rat) powi (53 + exponent_of y) \<le> 2 powi (52 + exponent_of x)" by (intro power_int_increasing) auto
  then show False using exponent_of_bounds [of x] exponent_of_bounds [of y] assms by auto
qed

definition to_double :: "rat \<Rightarrow> rat" where
  "to_double x =
     (if x = 0 then 0
      else let e = exponent_of \<bar>x\<bar> in of_int (round_even (x / 2 powi e)) * 2 powi e)"

lemma to_double_0 [simp]: "to_double 0 = 0"
  by (simp add: to_double_def)

text \<open>The significand of a positive number has 53 bits, or is the next power of two.\<close>

lemma significand_bounds:
  assumes "0 < x"
  shows "2 ^ 52 \<le> round_even (x / 2 powi exponent_of x) \<and> round_even (x / 2 powi exponent_of x) \<le> 2 ^ 53"
proof -
  let ?e = "exponent_of x"
  note b = exponent_of_bounds [OF assms]
  have pos: "(0::rat) < 2 powi ?e" by simp
  have "of_int (2 ^ 52) \<le> x / 2 powi ?e" "x / 2 powi ?e \<le> of_int (2 ^ 53)"
    using b pos by (simp_all add: power_int_add field_simps)
  from round_even_mono [OF this(1)] round_even_mono [OF this(2)] show ?thesis by (simp only: round_even_int)
qed

lemma to_double_bounds:
  assumes "0 < x"
  shows "2 powi (52 + exponent_of x) \<le> to_double x \<and> to_double x \<le> 2 powi (53 + exponent_of x)"
proof -
  let ?m = "round_even (x / 2 powi exponent_of x)"
  have m: "(of_int (2 ^ 52) :: rat) \<le> of_int ?m" "of_int ?m \<le> (of_int (2 ^ 53) :: rat)"
    using significand_bounds [OF assms] by (simp_all only: of_int_le_iff)
  have pos: "(0::rat) \<le> 2 powi exponent_of x" by simp
  have eq: "to_double x = of_int ?m * 2 powi exponent_of x" using assms by (simp add: to_double_def Let_def)
  show ?thesis
    using mult_right_mono [OF m(1) pos] mult_right_mono [OF m(2) pos]
    unfolding eq by (simp add: power_int_add mult.commute)
qed

lemma to_double_nonneg: "0 \<le> x \<Longrightarrow> 0 \<le> to_double x"
proof (cases "x = 0")
  case False
  assume "0 \<le> x"
  then have "2 powi (52 + exponent_of x) \<le> to_double x" using to_double_bounds [of x] False by simp
  then show ?thesis using order_trans [of 0 "2 powi (52 + exponent_of x)" "to_double x"] by simp
qed simp

lemma to_double_mono:
  assumes "0 \<le> x" and "x \<le> y"
  shows "to_double x \<le> to_double y"
proof (cases "x = 0")
  case True
  then show ?thesis using to_double_nonneg [of y] assms by simp
next
  case False
  then have pos: "0 < x" "0 < y" using assms by auto
  show ?thesis
  proof (cases "exponent_of x = exponent_of y")
    case True
    have "x / 2 powi exponent_of y \<le> y / 2 powi exponent_of y" using assms(2) by (simp add: divide_right_mono)
    from round_even_mono [OF this] show ?thesis
      using pos True by (simp add: to_double_def Let_def)
  next
    case False
    then have "53 + exponent_of x \<le> 52 + exponent_of y" using exponent_of_mono [OF pos(1) assms(2)] by simp
    then have "(2::rat) powi (53 + exponent_of x) \<le> 2 powi (52 + exponent_of y)" by (intro power_int_increasing) auto
    then show ?thesis using to_double_bounds [OF pos(1)] to_double_bounds [OF pos(2)] by linarith
  qed
qed

lemma to_double_int:
  assumes "0 \<le> i" and "i < 2 ^ 53"
  shows "to_double (of_int i) = of_int i"
proof (cases "i = 0")
  case False
  then have pos: "(0::rat) < of_int i" using assms by simp
  let ?e = "exponent_of (of_int i)"
  have "?e \<le> 0"
  proof (rule ccontr)
    assume "\<not> ?e \<le> 0"
    then have "(2::rat) powi 53 \<le> 2 powi (52 + ?e)" by (intro power_int_increasing) auto
    then have "(2::rat) ^ 53 \<le> of_int i" using exponent_of_bounds [OF pos] by (simp add: power_int_def)
    then have "(of_int (2 ^ 53) :: rat) \<le> of_int i" by simp
    then show False using assms(2) by (simp only: of_int_le_iff)
  qed
  then have p: "(2::rat) powi ?e = inverse (2 ^ nat (- ?e))" by (auto simp: power_int_def power_one_over inverse_eq_divide)
  have "of_int i / (2::rat) powi ?e = of_int (i * 2 ^ nat (- ?e))" unfolding p by (simp add: field_simps)
  then have "round_even (of_int i / 2 powi ?e) = i * 2 ^ nat (- ?e)" by (simp only: round_even_int)
  then show ?thesis using pos assms by (simp add: to_double_def Let_def p)
qed simp

lemma to_double_1 [simp]: "to_double 1 = 1"
  using to_double_int [of 1] by simp

text \<open>One rounding is off by at most half a unit in the last place.\<close>

lemma to_double_error:
  assumes "0 \<le> x"
  shows "\<bar>to_double x - x\<bar> \<le> x / 2 ^ 53"
proof (cases "x = 0")
  case False
  then have pos: "0 < x" using assms by simp
  let ?s = "2 powi exponent_of x :: rat" and ?m = "of_int (round_even (x / 2 powi exponent_of x)) :: rat"
  have s: "0 < ?s" by simp
  have "\<bar>to_double x - x\<bar> = \<bar>?m - x / ?s\<bar> * ?s"
  proof -
    have "to_double x - x = (?m - x / ?s) * ?s" using pos s by (simp add: to_double_def Let_def left_diff_distrib)
    then show ?thesis using s by (simp only: abs_mult abs_of_pos)
  qed
  also have "\<dots> \<le> 1 / 2 * ?s"
    using round_even_error [of "x / ?s"] s by (intro mult_right_mono) auto
  also have "\<dots> \<le> x / 2 ^ 53" using exponent_of_bounds [OF pos] by (simp add: power_int_add field_simps)
  finally show ?thesis .
qed simp

section \<open>Operations\<close>

definition d_nat :: "nat \<Rightarrow> rat" where
  "d_nat n = to_double (of_nat n)"

definition d_div :: "rat \<Rightarrow> rat \<Rightarrow> rat" where
  "d_div a b = to_double (a / b)"

definition d_mul :: "rat \<Rightarrow> rat \<Rightarrow> rat" where
  "d_mul a b = to_double (a * b)"

definition d_add :: "rat \<Rightarrow> rat \<Rightarrow> rat" where
  "d_add a b = to_double (a + b)"

definition d_sub :: "rat \<Rightarrow> rat \<Rightarrow> rat" where
  "d_sub a b = to_double (a - b)"

lemma d_nat_mono: "m \<le> n \<Longrightarrow> d_nat m \<le> d_nat n"
  by (simp add: d_nat_def to_double_mono)

lemma d_nat_pos: "0 < n \<Longrightarrow> 1 \<le> d_nat n"
  using to_double_mono [of 1 "of_nat n"] by (simp add: d_nat_def)

lemma d_nat_0 [simp]: "d_nat 0 = 0"
  by (simp add: d_nat_def)

lemma d_nat_exact: "n < 2 ^ 53 \<Longrightarrow> d_nat n = of_nat n"
  using to_double_int [of "int n"] by (simp add: d_nat_def)

text \<open>Doubling only moves the exponent.\<close>

lemma exponent_of_twice:
  assumes "0 < x"
  shows "exponent_of (2 * x) = exponent_of x + 1"
proof -
  have less: "52 + a < 53 + b" if "(2::rat) powi (52 + a) \<le> y" "y < 2 powi (53 + b)" for a b y
  proof (rule ccontr)
    assume "\<not> 52 + a < 53 + b"
    then have "(2::rat) powi (53 + b) \<le> 2 powi (52 + a)" by (intro power_int_increasing) auto
    then show False using that by simp
  qed
  note b = exponent_of_bounds [OF assms] and b2 = exponent_of_bounds [of "2 * x"]
  have "(2::rat) powi (52 + (exponent_of x + 1)) = 2 * 2 powi (52 + exponent_of x)" "(2::rat) powi (53 + (exponent_of x + 1)) = 2 * 2 powi (53 + exponent_of x)"
    by (simp_all add: power_int_add)
  then have "2 powi (52 + (exponent_of x + 1)) \<le> 2 * x" "2 * x < 2 powi (53 + (exponent_of x + 1))" using b by simp_all
  moreover have "2 powi (52 + exponent_of (2 * x)) \<le> 2 * x" "2 * x < 2 powi (53 + exponent_of (2 * x))" using b2 assms by simp_all
  ultimately have "52 + (exponent_of x + 1) < 53 + exponent_of (2 * x)" "52 + exponent_of (2 * x) < 53 + (exponent_of x + 1)"
    using less by blast+
  then show ?thesis by simp
qed

lemma to_double_twice: "0 \<le> x \<Longrightarrow> to_double (2 * x) = 2 * to_double x"
  using exponent_of_twice [of x] by (cases "x = 0") (simp_all add: to_double_def Let_def power_int_add)

lemma d_nat_twice: "d_nat (2 * n) = 2 * d_nat n"
  using to_double_twice [of "of_nat n"] by (simp add: d_nat_def)

text \<open>A ratio of a part to a positive whole stays between 0 and 1 in spite of the three roundings.\<close>

lemma d_ratio_bounds:
  assumes "m \<le> n" and "0 < n"
  shows "0 \<le> d_div (d_nat m) (d_nat n) \<and> d_div (d_nat m) (d_nat n) \<le> 1"
proof -
  have n: "0 < d_nat n" using d_nat_pos [OF assms(2)] by simp
  have q: "0 \<le> d_nat m / d_nat n" "d_nat m / d_nat n \<le> 1"
    using n d_nat_mono [OF assms(1)] d_nat_mono [of 0 m] by simp_all
  show ?thesis using to_double_nonneg [OF q(1)] to_double_mono [OF q] by (simp add: d_div_def)
qed

lemma d_complement_bounds: "0 \<le> x \<Longrightarrow> x \<le> 1 \<Longrightarrow> 0 \<le> d_sub 1 x \<and> d_sub 1 x \<le> 1"
  using to_double_nonneg [of "1 - x"] to_double_mono [of "1 - x" 1] by (simp add: d_sub_def)

end
