(* ===== verification/Report.thy ===== *)
theory Report
  imports System ConfigProps Double "HOL-Library.AList"
begin

text \<open>
  What the simulator reports: the gen\_json, stats\_json, config\_json and dump\_stats functions
  of the components, the area descriptors of areaSim/AreaEst.hh and the collection of the
  report in main.cc. The JSON library is not part of the program: it is the parameter J, the
  operations the program uses of nlohmann::ordered\_json. Text goes to the stream as the list of
  the values that are printed; how the stream formats a number is left to it.
\<close>

section \<open>The JSON library\<close>

record 'j json_lib =
  j_null :: 'j
  j_uint :: "nat \<Rightarrow> 'j"
  j_int :: "int \<Rightarrow> 'j"
  j_float :: "rat \<Rightarrow> 'j"
  j_bool :: "bool \<Rightarrow> 'j"
  j_str :: "string \<Rightarrow> 'j"
  j_array :: "'j list \<Rightarrow> 'j"
  j_put :: "string \<Rightarrow> 'j \<Rightarrow> 'j \<Rightarrow> 'j"
  j_items :: "'j \<Rightarrow> (string \<times> 'j) list"

text \<open>A sequence of assignments j[k] = v, and the object they build from an empty value.\<close>

definition jext :: "'j json_lib \<Rightarrow> 'j \<Rightarrow> (string \<times> 'j) list \<Rightarrow> 'j" where
  "jext J j kvs = foldl (\<lambda>x (k, v). j_put J k v x) j kvs"

definition jobj :: "'j json_lib \<Rightarrow> (string \<times> 'j) list \<Rightarrow> 'j" where
  "jobj J kvs = jext J (j_null J) kvs"

section \<open>Area descriptors\<close>

definition area_json :: "'j json_lib \<Rightarrow> rat \<Rightarrow> 'j" where
  "area_json J known =
     jobj J [(''known_area'', j_float J known), (''comb_percent'', j_float J 0),
             (''timing_bits'', j_int J 0), (''cacti_objs'', j_array J [])]"

definition area_json_dff :: "'j json_lib \<Rightarrow> rat \<Rightarrow> nat \<Rightarrow> rat \<Rightarrow> 'j" where
  "area_json_dff J known dff_bits comb =
     jobj J [(''known_area'', j_float J known), (''comb_percent'', j_float J comb),
             (''timing_bits'', j_uint J dff_bits), (''cacti_objs'', j_array J [])]"

definition sram_cache :: "'j json_lib \<Rightarrow> string \<Rightarrow> nat \<Rightarrow> nat \<Rightarrow> nat \<Rightarrow> 'j" where
  "sram_cache J label size_bytes block_bytes asc =
     jobj J [(''label'', j_str J label), (''type'', j_str J ''sram''), (''size'', j_uint J size_bytes),
             (''block_size'', j_uint J block_bytes), (''assoc'', j_uint J asc)]"

definition sram_ram :: "'j json_lib \<Rightarrow> string \<Rightarrow> nat \<Rightarrow> nat \<Rightarrow> 'j" where
  "sram_ram J label size_bytes word_size =
     jobj J [(''label'', j_str J label), (''type'', j_str J ''sram''), (''size'', j_uint J size_bytes),
             (''word_size'', j_uint J word_size)]"

definition sram_macro :: "'j json_lib \<Rightarrow> string \<Rightarrow> nat \<Rightarrow> 'j" where
  "sram_macro J label total_bits =
     jobj J [(''label'', j_str J label), (''type'', j_str J ''sram_macro''), (''total_bits'', j_uint J total_bits)]"

text \<open>size\_t arithmetic, and double literals.\<close>

definition u64 :: "int \<Rightarrow> nat" where
  "u64 i = nat (i mod 2 ^ 64)"

definition lit :: "rat \<Rightarrow> rat" where
  "lit x = to_double x"

section \<open>The core\<close>

definition get_ipc :: "pipe_stats \<Rightarrow> rat" where
  "get_ipc s = (if ps_cycles s > 0 then d_div (d_nat (ps_insts s)) (d_nat (ps_cycles s)) else 0)"

definition cyc_pct :: "nat \<Rightarrow> nat \<Rightarrow> rat" where
  "cyc_pct n cycles = d_div (d_mul 100 (d_nat n)) (d_nat cycles)"

definition cyc_breakdown_json :: "'j json_lib \<Rightarrow> pipe_stats \<Rightarrow> 'j" where
  "cyc_breakdown_json J s =
     jobj J ([(''NoStall'', j_uint J (ps_nostall s)), (''NoInst'', j_uint J (ps_noinst s)),
              (''LsuStall'', j_uint J (ps_lsu_stall s)), (''BranchMispred'', j_uint J (ps_brmiss_stall s)),
              (''RAW'', j_uint J (ps_raw_stall s))] @
             (if ps_cycles s > 0
              then [(''NoInst_pct'', j_float J (cyc_pct (ps_noinst s) (ps_cycles s))),
                    (''LsuStall_pct'', j_float J (cyc_pct (ps_lsu_stall s) (ps_cycles s))),
                    (''BranchMispred_pct'', j_float J (cyc_pct (ps_brmiss_stall s) (ps_cycles s))),
                    (''RAW_pct'', j_float J (cyc_pct (ps_raw_stall s) (ps_cycles s)))]
              else []))"

definition ps_gen_json :: "'j json_lib \<Rightarrow> pipe_stats \<Rightarrow> 'j" where
  "ps_gen_json J s =
     jobj J [(''insts'', j_uint J (ps_insts s)), (''cycles'', j_uint J (ps_cycles s)),
             (''ipc'', j_float J (get_ipc s)), (''CycBreakdown'', cyc_breakdown_json J s),
             (''WP_bpu_queries'', j_uint J (wp_bpu_queries s)), (''WP_btb_hits'', j_uint J (wp_btb_hits s)),
             (''WP_redirects'', j_uint J (wp_redirects s)), (''early_redirects'', j_uint J (early_redirects s))]"

definition pipe_config_json :: "'j json_lib \<Rightarrow> pipeline \<Rightarrow> 'j" where
  "pipe_config_json J p =
     jobj J [(''BranchPenaltyCycles'', j_uint J kBranchMissPenalty), (''MmioLatency'', j_uint J (mmio_lat p)),
             (''IFQSize'', j_uint J (rb_cap (fetch_queue p))), (''area'', area_json J 19570)]"

section \<open>The caches\<close>

definition hit_rate :: "cache_stats \<Rightarrow> rat" where
  "hit_rate s = (if cs_accesses s \<noteq> 0 then d_div (d_nat (cs_hits s)) (d_nat (cs_accesses s)) else 0)"

definition miss_rate :: "cache_stats \<Rightarrow> rat" where
  "miss_rate s = d_sub 1 (hit_rate s)"

definition cs_gen_json :: "'j json_lib \<Rightarrow> cache_stats \<Rightarrow> 'j" where
  "cs_gen_json J s =
     jobj J [(''accesses'', j_uint J (cs_accesses s)), (''hits'', j_uint J (cs_hits s)),
             (''misses'', j_uint J (cs_misses s)), (''miss_rate'', j_float J (miss_rate s))]"

text \<open>The bits of the tag of a line, 32 - offsetBits\_ - idx\_bits in size\_t.\<close>

definition line_tag_bits :: "'a cache_scheme \<Rightarrow> nat option" where
  "line_tag_bits c = map_option (\<lambda>idx. u64 (32 - int (offsetBits c) - int idx)) (floorLog2 (sets c))"

definition tag_macro_bits :: "'a cache_scheme \<Rightarrow> nat \<Rightarrow> nat" where
  "tag_macro_bits c tag_bits = u64 (int tag_bits * int (sets c))"

definition data_macro_bits :: "'a cache_scheme \<Rightarrow> nat" where
  "data_macro_bits c = u64 (int (lineBytes c) * 8 * int (sets c))"

definition dff_cache_bits :: "'a cache_scheme \<Rightarrow> nat \<Rightarrow> nat" where
  "dff_cache_bits c tag_bits = u64 (int (cache_size c) * 8 + int (sets c) * int (assoc c) * (int tag_bits + 1))"

definition pc_area_json :: "'j json_lib \<Rightarrow> pipe_cache \<Rightarrow> 'j option" where
  "pc_area_json J c = do {
     let known = (''known_area'', j_float J (d_add 575 (d_mul 264 (d_nat (lineBytes c div word_bytes)))));
     tag_bits \<leftarrow> line_tag_bits c;
     Some (if sram_dff c
           then jobj J [known, (''comb_percent'', j_float J (lit (15 / 100))),
                        (''timing_bits'', j_uint J (dff_cache_bits c tag_bits)), (''cacti_objs'', j_array J [])]
           else jobj J [known, (''comb_percent'', j_float J (lit (31 / 100))),
                        (''timing_bits'', j_uint J (sets c)),
                        (''cacti_objs'', j_array J [sram_macro J ''tag_sram'' (tag_macro_bits c tag_bits),
                                                    sram_macro J ''data_sram'' (data_macro_bits c)])]) }"

definition pc_config_json :: "'j json_lib \<Rightarrow> pipe_cache \<Rightarrow> 'j option" where
  "pc_config_json J c = do {
     ar \<leftarrow> pc_area_json J c;
     Some (jobj J [(''size'', j_uint J (cache_size c)), (''assoc'', j_uint J (assoc c)),
                   (''blkSize'', j_uint J (lineBytes c)), (''latency'', j_uint J (pipe_depth c)),
                   (''write_back'', j_bool J (write_back c)),
                   (''wb_hit_resp_delay'', j_uint J (wb_hit_resp_delay c)), (''area'', ar)]) }"

definition nc_config_json :: "'j json_lib \<Rightarrow> 'j" where
  "nc_config_json J = jobj J [(''type'', j_str J ''NoCache''), (''size'', j_int J 0), (''area'', area_json J 0)]"

definition sb_config_json :: "'j json_lib \<Rightarrow> store_buffer \<Rightarrow> 'j" where
  "sb_config_json J b =
     jobj J [(''type'', j_str J ''StoreBuffer''), (''entries'', j_uint J (sb_entries b)),
             (''area'', area_json_dff J 0 (u64 (int (sb_entries b) * 72)) (lit (3 / 10)))]"

definition pf_name :: "prefetcher \<Rightarrow> string \<Rightarrow> string" where
  "pf_name p prefix =
     prefix @ (case pf_kind p of NextLine \<Rightarrow> ''-NextLinePrefetcher'' | Stride a s \<Rightarrow> ''-StridePrefetcher''
                               | Tagged \<Rightarrow> ''-TaggedPrefetcher'')"

definition pf_stats_json :: "'j json_lib \<Rightarrow> prefetcher \<Rightarrow> 'j" where
  "pf_stats_json J p = jobj J [(''issued'', j_uint J (prefetch_issued p)), (''useful'', j_uint J (prefetch_useful p))]"

definition pf_config_json :: "'j json_lib \<Rightarrow> 'j" where
  "pf_config_json J = jobj J [(''area'', area_json J 0)]"

section \<open>The memory\<close>

definition sdram_config_json :: "'j json_lib \<Rightarrow> sdram \<Rightarrow> 'j" where
  "sdram_config_json J m =
     jobj J [(''type'', j_str J ''SdramModel''), (''dev_mhz'', j_int J DEV_MHZ),
             (''freq_ratio'', j_int J (freq_ratio m)), (''n_banks'', j_int J (int N_BANKS)),
             (''t_rcd'', j_int J T_RCD), (''t_rp'', j_int J 2), (''t_rfc'', j_int J 6), (''cas'', j_int J 2),
             (''refresh_period'', j_int J REFRESH_PERIOD), (''per_word'', j_int J PER_WORD),
             (''rd_base'', j_int J RD_BASE), (''act_cost'', j_int J ACT_COST), (''pre_cost'', j_int J PRE_COST)]"

definition sdram_stats_json :: "'j json_lib \<Rightarrow> sdram \<Rightarrow> 'j" where
  "sdram_stats_json J m =
     jobj J [(''row_hit'', j_uint J (row_hit m)), (''row_miss'', j_uint J (row_miss m)),
             (''row_conflict'', j_uint J (row_conf m)), (''refresh_count'', j_uint J (refresh_count m)),
             (''ctrl_stall_dev'', j_uint J (ctrl_stall m))]"

text \<open>The name a device has in main comes with it.\<close>

definition dev_config_json :: "'j json_lib \<Rightarrow> string \<Rightarrow> ram_device \<Rightarrow> 'j" where
  "dev_config_json J nm d =
     jext J (jobj J [(''name'', j_str J nm)])
       (case dev_model d of
          ConstLatency lr lw \<Rightarrow> [(''type'', j_str J ''ConstLatencyRamDevice''), (''lat_read_cyc'', j_uint J lr),
                                 (''lat_write_cyc'', j_uint J lw)]
        | SdramDev m \<Rightarrow> [(''type'', j_str J ''SdramRamDevice''), (''sdram_model'', sdram_config_json J m)])"

definition avg_lat :: "ram_device \<Rightarrow> rat" where
  "avg_lat d = (if dev_accesses d \<noteq> 0 then d_div (d_nat (dev_total_lat d)) (d_nat (dev_accesses d)) else 0)"

definition dev_stats_json :: "'j json_lib \<Rightarrow> string \<Rightarrow> ram_device \<Rightarrow> 'j" where
  "dev_stats_json J nm d =
     jext J (dev_config_json J nm d)
       ([(''accesses'', j_uint J (dev_accesses d)), (''reads'', j_uint J (dev_reads d)),
         (''writes'', j_uint J (dev_writes d)), (''avg_lat_cyc'', j_float J (avg_lat d))] @
        (case dev_model d of ConstLatency _ _ \<Rightarrow> [] | SdramDev m \<Rightarrow> [(''sdram_stats'', sdram_stats_json J m)]))"

definition map_entry_json :: "'j json_lib \<Rightarrow> string \<Rightarrow> addr_map_entry \<Rightarrow> 'j" where
  "map_entry_json J nm e =
     jobj J [(''name'', j_str J nm), (''lo'', j_uint J (unat (am_lo e))), (''hi'', j_uint J (unat (am_hi e))),
             (''device_id'', j_uint J (am_device e))]"

text \<open>The names main gives to the devices and to the regions.\<close>

definition dev_names :: "string list" where
  "dev_names = [''SDRAM'', ''SRAM'', ''CLINT'', ''OTHER'']"

definition map_names :: "string list" where
  "map_names = [''clint'', ''sram'', ''flash'', ''psram'', ''sdram'']"

definition arb_config_json :: "'j json_lib \<Rightarrow> arbiter \<Rightarrow> 'j" where
  "arb_config_json J a =
     jobj J [(''type'', j_str J ''RAMArbiter''), (''num_hosts'', j_uint J (num_hosts a)),
             (''num_devices'', j_uint J (length (devices a))),
             (''devices'', j_array J (map2 (dev_config_json J) dev_names (devices a))),
             (''addr_map'', j_array J (map2 (map_entry_json J) map_names (addr_map a))),
             (''default_device'', j_uint J (default_device a)), (''area'', area_json J 200)]"

definition host_key :: "nat \<Rightarrow> string \<Rightarrow> string" where
  "host_key i what = ''host'' @ show_nat i @ what"

definition host_counters :: "'j json_lib \<Rightarrow> arbiter \<Rightarrow> nat \<Rightarrow> (string \<times> 'j) list" where
  "host_counters J a i =
     (host_key i ''_rd'', j_uint J (host_rd a ! i)) # (host_key i ''_wr'', j_uint J (host_wr a ! i)) #
     map (\<lambda>d. (host_key i (''_dev'' @ show_nat d), j_uint J (host_dev a ! i ! d))) [0..<length (devices a)]"

definition arb_stats_json :: "'j json_lib \<Rightarrow> arbiter \<Rightarrow> 'j" where
  "arb_stats_json J a =
     jext J (arb_config_json J a)
       (concat (map (host_counters J a) [0..<num_hosts a]) @
        [(''device_stats'', j_array J (map2 (dev_stats_json J) dev_names (devices a)))])"

section \<open>The branch unit\<close>

definition bs_miss_rate :: "bp_stats \<Rightarrow> rat" where
  "bs_miss_rate s = (if bs_br_accesses s > 0 then d_div (d_nat (bs_misses s)) (d_nat (bs_br_accesses s)) else 0)"

definition bs_gen_json :: "'j json_lib \<Rightarrow> bp_stats \<Rightarrow> 'j" where
  "bs_gen_json J s =
     jobj J [(''accesses'', j_uint J (bs_accesses s)), (''misses'', j_uint J (bs_misses s)),
             (''miss_no_target'', j_uint J (bs_no_target s)), (''miss_bad_pred'', j_uint J (bs_bad_pred s)),
             (''miss_bad_target'', j_uint J (bs_bad_target s)), (''nonbr_mispred'', j_uint J (bs_nonbr_mispred s)),
             (''br_accesses'', j_uint J (bs_br_accesses s)), (''miss_rate'', j_float J (bs_miss_rate s))]"

text \<open>The tables have a power of two of entries, for which std::log2 is exact.\<close>

definition btb_config_json :: "'j json_lib \<Rightarrow> btb \<Rightarrow> 'j" where
  "btb_config_json J b =
     (case b of
        NoBTB _ \<Rightarrow> jobj J [(''entries'', j_int J 0)]
      | Compressed t \<Rightarrow>
          (let n = length (btb_table t); idx_bits = (if n > 1 then floorLog2_from n else 0);
               tag_bits = u64 (32 - int idx_bits)
           in if btb_sram_dff t
              then jobj J [(''entries'', j_uint J n),
                           (''area'', area_json_dff J 0 (u64 (int n * (int tag_bits + 32 + 1))) (lit (10 / 100)))]
              else jobj J [(''entries'', j_uint J n),
                           (''area'', jext J (area_json_dff J 0 (u64 (int n * 2)) (lit (10 / 100)))
                              [(''cacti_objs'', j_array J [sram_macro J ''btb_tag'' (u64 (int n * int tag_bits)),
                                                           sram_macro J ''btb_target'' (u64 (int n * 32))])])]))"

definition two_bit_bytes :: "nat \<Rightarrow> nat \<Rightarrow> nat" where
  "two_bit_bytes entries tables = (entries * 2 * tables + 7) div 8"

definition table_area_json :: "'j json_lib \<Rightarrow> nat \<Rightarrow> nat \<Rightarrow> 'j" where
  "table_area_json J hist total_bytes =
     jobj J [(''comb_percent'', j_float J (lit (3 / 10))), (''known_area'', j_float J 0),
             (''timing_bits'', j_uint J hist), (''cacti_objs'', j_array J [sram_ram J ''bpu_table'' total_bytes 1])]"

definition bimodal_config_json :: "'j json_lib \<Rightarrow> bimodal \<Rightarrow> 'j" where
  "bimodal_config_json J b =
     jobj J [(''entries'', j_uint J (length (bi_table b))),
             (''area'', jobj J [(''comb_percent'', j_float J (lit (30 / 100))), (''known_area'', j_float J 0),
                                (''timing_bits'', j_int J (int (length (bi_table b)) * 2))])]"

definition gshare_config_json :: "'j json_lib \<Rightarrow> gshare \<Rightarrow> 'j" where
  "gshare_config_json J g =
     jobj J [(''entries'', j_uint J (length (gs_table g))), (''history_len'', j_uint J (gs_history_len g)),
             (''area'', table_area_json J (gs_history_len g) (two_bit_bytes (length (gs_table g)) 1))]"

definition tournament_config_json :: "'j json_lib \<Rightarrow> tournament \<Rightarrow> 'j" where
  "tournament_config_json J t =
     jobj J [(''entries'', j_uint J (length (selector_table t))), (''history_len'', j_uint J (tn_history_len t)),
             (''area'', table_area_json J (tn_history_len t) (two_bit_bytes (length (selector_table t)) 3))]"

text \<open>The bits charged per tagged entry, as the source counts them.\<close>

definition comp_entry_bits :: nat where
  "comp_entry_bits = nat (CTR_MAX - CTR_MIN + 1) + 2 + TAG_BITS + 1"

definition tage_area_bits :: "tage \<Rightarrow> nat" where
  "tage_area_bits t =
     length (base_table t) * 2 + sum_list (map (\<lambda>i. length (comp_tables t ! i) * comp_entry_bits) [0..<n_comp t])"

definition tage_config_json :: "'j json_lib \<Rightarrow> tage \<Rightarrow> 'j" where
  "tage_config_json J t =
     jobj J [(''base_entries'', j_uint J (length (base_table t))), (''n_comp'', j_uint J (n_comp t)),
             (''components'', j_array J (map (\<lambda>i.
                jobj J [(''entries'', j_uint J (length (comp_tables t ! i))), (''hist_len'', j_uint J (hist_len t ! i)),
                        (''idx_bits'', j_uint J (comp_idx_bits t)), (''tag_bits'', j_uint J TAG_BITS)]) [0..<n_comp t])),
             (''hist_lens'', j_array J (map (j_int J) (hist_lens_param t))),
             (''area'', area_json_dff J 0 (tage_area_bits t) (lit (3 / 10)))]"

definition tage_rate :: "nat \<Rightarrow> tage_stats \<Rightarrow> rat" where
  "tage_rate n s =
     (let total_br = d_nat (ts_bimodal_correct s + ts_bimodal_mispred s)
      in if total_br > 0 then d_div (d_nat n) total_br else 0)"

definition tage_extra_stats_json :: "'j json_lib \<Rightarrow> tage \<Rightarrow> 'j" where
  "tage_extra_stats_json J t =
     (let s = tage_stats t; counts = (\<lambda>xs. j_array J (map (\<lambda>i. j_uint J (xs ! i)) [0..<n_comp t]))
      in jobj J
        [(''bimodal_correct'', j_uint J (ts_bimodal_correct s)), (''bimodal_mispred'', j_uint J (ts_bimodal_mispred s)),
         (''bimodal_miss_rate'', j_float J (tage_rate (ts_bimodal_mispred s) s)),
         (''tage_correct'', j_uint J (ts_tage_correct s)), (''tage_mispred'', j_uint J (ts_tage_mispred s)),
         (''tage_miss_rate'', j_float J (tage_rate (ts_tage_mispred s) s)),
         (''tage_overrides'', j_uint J (ts_tage_overrides s)),
         (''tage_override_helpful'', j_uint J (ts_override_helpful s)),
         (''tage_override_harmful'', j_uint J (ts_override_harmful s)),
         (''base_used'', j_uint J (ts_base_used s)), (''base_correct'', j_uint J (ts_base_correct s)),
         (''base_mispred'', j_uint J (ts_base_mispred s)), (''comp_used'', counts (ts_comp_used s)),
         (''comp_correct'', counts (ts_comp_correct s)), (''comp_mispred'', counts (ts_comp_mispred s)),
         (''allocations'', j_uint J (ts_allocations s)), (''alloc_failures'', j_uint J (ts_alloc_failures s)),
         (''alloc_tried'', j_uint J (ts_alloc_tried s)), (''update_snap_invalid'', j_uint J (ts_update_snap_invalid s)),
         (''snap_ring_overflow'', j_uint J (ts_snap_ring_overflow s))])"

definition bpred_name :: "bpred \<Rightarrow> string" where
  "bpred_name p =
     (case p of AlwaysTaken _ \<Rightarrow> ''AlwaysTaken'' | NoBPU _ \<Rightarrow> ''NoBPU'' | BTFNT _ \<Rightarrow> ''BTFNTPredictor''
              | Bimodal _ \<Rightarrow> ''BimodalBP'' | GShare _ \<Rightarrow> ''GShareBP'' | Tournament _ \<Rightarrow> ''TournamentBP''
              | TagePred _ \<Rightarrow> ''TageBP'')"

definition bpred_config_json :: "'j json_lib \<Rightarrow> bpred \<Rightarrow> 'j" where
  "bpred_config_json J p =
     (case p of Bimodal b \<Rightarrow> bimodal_config_json J b | GShare g \<Rightarrow> gshare_config_json J g
              | Tournament t \<Rightarrow> tournament_config_json J t | TagePred t \<Rightarrow> tage_config_json J t
              | _ \<Rightarrow> jobj J [(''area'', area_json J 0)])"

definition extra_stats_json :: "'j json_lib \<Rightarrow> bpred \<Rightarrow> 'j" where
  "extra_stats_json J p = (case p of TagePred t \<Rightarrow> tage_extra_stats_json J t | _ \<Rightarrow> j_null J)"

text \<open>The items of the predictor's own statistics are merged into those of the unit.\<close>

definition unit_stats_json :: "'j json_lib \<Rightarrow> branch_unit \<Rightarrow> 'j" where
  "unit_stats_json J u = jext J (bs_gen_json J (bu_stats u)) (j_items J (extra_stats_json J (bu_bpu u)))"

text \<open>std::ceil of std::log2: the least k with n \<le> 2 to the k, for the depths of a return stack.\<close>

definition ceil_log2 :: "nat \<Rightarrow> nat" where
  "ceil_log2 n = (if n \<le> 1 then 0 else floorLog2_from (n - 1) + 1)"

definition ras_bits :: "nat \<Rightarrow> nat \<Rightarrow> nat" where
  "ras_bits rd btb_entries =
     rd * 32 + (if rd > 1 then ceil_log2 rd else 0) + (if rd > 0 then ceil_log2 (rd + 1) else 0) +
     (if rd > 0 then btb_entries else 0) + (if rd > 0 then 2 else 0)"

definition unit_config_json :: "'j json_lib \<Rightarrow> branch_unit \<Rightarrow> 'j" where
  "unit_config_json J u =
     (let rd = (case bu_ras u of Some r \<Rightarrow> length (ras_stack r) | None \<Rightarrow> 0)
      in jobj J [(''bpu'', j_str J (bpred_name (bu_bpu u))), (''bpu_config'', bpred_config_json J (bu_bpu u)),
                 (''btb'', j_str J (case bu_btb u of NoBTB _ \<Rightarrow> ''NoBTB'' | Compressed _ \<Rightarrow> ''BTB'')),
                 (''btb_config'', btb_config_json J (bu_btb u)), (''ras_depth'', j_uint J rd),
                 (''area'', area_json_dff J 500 (ras_bits rd (num_entries (bu_btb u))) (lit (3 / 10)))])"

section \<open>Text\<close>

text \<open>What is sent to a stream: strings, counters, addresses and doubles; None is not a number.
  Line breaks and field widths are left out.\<close>

datatype out = Str string | UInt nat | Hex addr_t | Real "rat option"

definition stall_line :: "string \<Rightarrow> nat \<Rightarrow> nat \<Rightarrow> out list" where
  "stall_line label n cycles =
     [Str label, UInt n] @ (if cycles > 0 then [Str '' ('', Real (Some (cyc_pct n cycles)), Str ''%)''] else [])"

definition ps_dump_stats :: "pipe_stats \<Rightarrow> out list" where
  "ps_dump_stats s =
     [Str ''Pipeline Stats:'', Str ''  Insts: '', UInt (ps_insts s), Str ''  Cycles: '', UInt (ps_cycles s),
      Str ''  IPC: '', Real (Some (get_ipc s)), Str ''  BlockedCause:'', Str ''    NoStall: '', UInt (ps_nostall s)] @
     stall_line ''    NoInst: '' (ps_noinst s) (ps_cycles s) @
     stall_line ''    LsuStall: '' (ps_lsu_stall s) (ps_cycles s) @
     stall_line ''    BrMispred: '' (ps_brmiss_stall s) (ps_cycles s) @
     stall_line ''    RAW: '' (ps_raw_stall s) (ps_cycles s)"

definition cs_dump_stats :: "string \<Rightarrow> cache_stats \<Rightarrow> out list" where
  "cs_dump_stats nm s =
     [Str nm, Str '' Stats:'', Str ''  Accesses: '', UInt (cs_accesses s), Str ''  Hits: '', UInt (cs_hits s),
      Str ''  Misses: '', UInt (cs_misses s), Str ''  Miss Rate: '', Real (Some (miss_rate s))]"

definition bs_dump_stats :: "bp_stats \<Rightarrow> out list" where
  "bs_dump_stats s =
     [Str ''BranchPred Stats:'', Str ''  Accesses: '', UInt (bs_accesses s), Str ''  Misses: '', UInt (bs_misses s),
      Str ''  Miss Rate: '', Real (Some (bs_miss_rate s)), Str ''  Miss:: No Target: '', UInt (bs_no_target s),
      Str ''  Miss:: Bad Pred: '', UInt (bs_bad_pred s), Str ''  Miss:: Bad Target: '', UInt (bs_bad_target s)]"

definition pf_dump_stats :: "string \<Rightarrow> prefetcher \<Rightarrow> out list" where
  "pf_dump_stats nm p =
     [Str nm, Str '' Stats:'', Str ''  Issued: '', UInt (prefetch_issued p), Str ''  Useful: '', UInt (prefetch_useful p)]"

text \<open>100.0 * n / total, which is not a number before the first record.\<close>

definition san_pct :: "nat \<Rightarrow> nat \<Rightarrow> rat option" where
  "san_pct n tot = (if tot = 0 then None else Some (d_div (d_mul 100 (d_nat n)) (d_nat tot)))"

definition san_line :: "string \<Rightarrow> nat \<Rightarrow> sanitizer \<Rightarrow> out list" where
  "san_line label n s = [Str label, UInt n, Real (san_pct n (san_total s))]"

definition san_dump :: "sanitizer \<Rightarrow> out list" where
  "san_dump s =
     [Str ''TraceSanitizer:'', Str ''  Total:'', UInt (san_total s)] @
     san_line ''  Loads:'' (san_loads s) s @ san_line ''  Stores:'' (san_stores s) s @
     san_line ''  Branches:'' (san_branches s) s @ san_line ''    Taken:'' (san_br_taken s) s @
     san_line ''    Not Taken:'' (san_br_not_taken s) s @ san_line ''  ALU (non-mem/br):'' (san_alu s) s @
     san_line ''  Has dst reg:'' (san_has_dst s) s @ san_line ''  Has src1:'' (san_has_src1 s) s @
     san_line ''  Has src2:'' (san_has_src2 s) s @ san_line ''  RV-M ops:'' (san_m_ext_ops s) s @
     [Str ''  Sys ops:'', UInt (san_sys_ops s)] @
     (if san_no_target s > 0 then [Str ''  !! BR TAKEN NO TARGET:'', UInt (san_no_target s)] else [])"

section \<open>The objects of the report\<close>

text \<open>The list simlist of main, with virtual dispatch on its elements.\<close>

datatype sim_object =
    MemoryObj arbiter
  | PlainObj string no_cache
  | CacheObj string pipe_cache
  | BranchObj branch_unit
  | CoreObj pipeline
  | PrefetchObj string prefetcher

definition simlist :: "machine \<Rightarrow> sim_object list" where
  "simlist m =
     [MemoryObj (m_mem m), PlainObj ''dBypass'' (m_bypass m),
      (case m_dcache m of DCache c \<Rightarrow> CacheObj ''dCache'' c | DPlain c \<Rightarrow> PlainObj ''dNoCache'' c),
      CacheObj ''iCache'' (m_icache m), BranchObj (bpu (m_core m)), CoreObj (m_core m)] @
     (case prefetcher (m_icache m) of Some p \<Rightarrow> [PrefetchObj ''iCache'' p] | None \<Rightarrow> [])"

fun obj_name :: "sim_object \<Rightarrow> string" where
  "obj_name (MemoryObj a) = ''memory''"
| "obj_name (PlainObj nm c) = nm"
| "obj_name (CacheObj nm c) = nm"
| "obj_name (BranchObj u) = ''BranchUnit''"
| "obj_name (CoreObj p) = ''Core''"
| "obj_name (PrefetchObj pre p) = pf_name p pre"

fun obj_stats_json :: "'j json_lib \<Rightarrow> sim_object \<Rightarrow> 'j" where
  "obj_stats_json J (MemoryObj a) = arb_stats_json J a"
| "obj_stats_json J (PlainObj nm c) = cs_gen_json J (stats c)"
| "obj_stats_json J (CacheObj nm c) = cs_gen_json J (stats c)"
| "obj_stats_json J (BranchObj u) = unit_stats_json J u"
| "obj_stats_json J (CoreObj p) = ps_gen_json J (pstats p)"
| "obj_stats_json J (PrefetchObj pre p) = pf_stats_json J p"

fun obj_config_json :: "'j json_lib \<Rightarrow> sim_object \<Rightarrow> 'j option" where
  "obj_config_json J (MemoryObj a) = Some (arb_config_json J a)"
| "obj_config_json J (PlainObj nm c) = Some (nc_config_json J)"
| "obj_config_json J (CacheObj nm c) = pc_config_json J c"
| "obj_config_json J (BranchObj u) = Some (unit_config_json J u)"
| "obj_config_json J (CoreObj p) = Some (pipe_config_json J p)"
| "obj_config_json J (PrefetchObj pre p) = Some (pf_config_json J)"

fun obj_dump_stats :: "sim_object \<Rightarrow> out list" where
  "obj_dump_stats (MemoryObj a) = [Str ''memory'', Str '' (RAMArbiter)'']"
| "obj_dump_stats (PlainObj nm c) = cs_dump_stats nm (stats c)"
| "obj_dump_stats (CacheObj nm c) = cs_dump_stats nm (stats c)"
| "obj_dump_stats (BranchObj u) = bs_dump_stats (bu_stats u)"
| "obj_dump_stats (CoreObj p) = ps_dump_stats (pstats p)"
| "obj_dump_stats (PrefetchObj pre p) = pf_dump_stats (pf_name p pre) p"

definition collect_stats_json :: "'j json_lib \<Rightarrow> sim_object list \<Rightarrow> 'j" where
  "collect_stats_json J objs = jobj J (map (\<lambda>x. (obj_name x, obj_stats_json J x)) objs)"

fun collect_config_json :: "'j json_lib \<Rightarrow> 'j \<Rightarrow> sim_object list \<Rightarrow> 'j option" where
  "collect_config_json J j [] = Some j"
| "collect_config_json J j (x # xs) = do {
     c \<leftarrow> obj_config_json J x;
     collect_config_json J (j_put J (obj_name x) c j) xs }"

definition san_json :: "'j json_lib \<Rightarrow> sanitizer \<Rightarrow> 'j" where
  "san_json J s =
     jobj J [(''total'', j_uint J (san_total s)), (''loads'', j_uint J (san_loads s)),
             (''stores'', j_uint J (san_stores s)), (''branches'', j_uint J (san_branches s)),
             (''br_taken'', j_uint J (san_br_taken s)), (''br_not_taken'', j_uint J (san_br_not_taken s)),
             (''alu'', j_uint J (san_alu s)), (''has_dst'', j_uint J (san_has_dst s)),
             (''has_src1'', j_uint J (san_has_src1 s)), (''has_src2'', j_uint J (san_has_src2 s)),
             (''sys_ops'', j_uint J (san_sys_ops s)), (''rvm_ops'', j_uint J (san_m_ext_ops s)),
             (''br_taken_no_target'', j_uint J (san_no_target s))]"

definition stats_key :: "nat \<Rightarrow> string" where
  "stats_key n = ''stats'' @ show_nat n"

definition window_json :: "'j json_lib \<Rightarrow> sim_object list \<Rightarrow> sanitizer \<Rightarrow> 'j" where
  "window_json J objs san = j_put J ''TraceSanitizer'' (san_json J san) (collect_stats_json J objs)"

definition append_stats_json :: "'j json_lib \<Rightarrow> nat \<Rightarrow> sim_object list \<Rightarrow> sanitizer \<Rightarrow> 'j \<Rightarrow> 'j" where
  "append_stats_json J curr_cnt objs san doc = j_put J (stats_key curr_cnt) (window_json J objs san) doc"

section \<open>The report of a run\<close>

record 'j report =
  rp_root :: 'j
  rp_text :: "out list"

definition marker_line :: "string \<Rightarrow> simulation \<Rightarrow> out list" where
  "marker_line what s =
     [Str what, Str '' Stats @ PC 0x'', Hex (ti_pc (sim_inst s)), Str '' Cyc #'', UInt (ps_cycles (pstats (m_core (mach s))))]"

definition dport_stats :: "dport \<Rightarrow> cache_stats" where
  "dport_stats d = (case d of DCache c \<Rightarrow> stats c | DPlain c \<Rightarrow> stats c)"

definition brief_line :: "machine \<Rightarrow> out list" where
  "brief_line m =
     [Str ''#Cyc '', UInt (ps_cycles (pstats (m_core m))), Str '' IPC '', Real (Some (get_ipc (pstats (m_core m)))),
      Str '' BPMR '', Real (Some (bs_miss_rate (bu_stats (bpu (m_core m))))),
      Str '' i$MR '', Real (Some (miss_rate (stats (m_icache m)))),
      Str '' d$MR '', Real (Some (miss_rate (dport_stats (m_dcache m))))]"

definition print_stats :: "sim_config \<Rightarrow> simulation \<Rightarrow> out list" where
  "print_stats cfg s =
     (if print_mode cfg = 2 then concat (map obj_dump_stats (simlist (mach s))) @ san_dump (sanitizer s)
      else if print_mode cfg = 1 then brief_line (mach s) else [])"

text \<open>What the marker instructions add to the report, seen before the simulation handles them.\<close>

definition report_phase :: "'j json_lib \<Rightarrow> sim_config \<Rightarrow> simulation \<Rightarrow> 'j report \<Rightarrow> 'j report" where
  "report_phase J cfg s r =
     (let op = ti_sys_op (sim_inst s)
      in if op = SysResetStats then r\<lparr>rp_text := rp_text r @ marker_line ''Reset'' s\<rparr>
         else if op = SysFenceI then r
         else if op = SysDumpStats then
           r\<lparr>rp_text := rp_text r @ marker_line ''Dump'' s @ print_stats cfg s,
             rp_root := append_stats_json J (dump_cnt s) (simlist (mach s)) (sanitizer s) (rp_root r)\<rparr>
         else r)"

definition report_iter :: "'j json_lib \<Rightarrow> sim_config \<Rightarrow> simulation \<times> 'j report \<Rightarrow> (simulation \<times> 'j report) option" where
  "report_iter J cfg sr = do {
     let (s, r) = sr;
     m1 \<leftarrow> update_devices (mach s);
     s1 \<leftarrow> feed_phase cfg (s\<lparr>mach := m1\<rparr>);
     m2 \<leftarrow> set_global_tick (m_tick (mach s1) + 1) (mach s1);
     s2 \<leftarrow> sys_phase (s1\<lparr>mach := m2\<rparr>);
     Some (s2, report_phase J cfg (s1\<lparr>mach := m2\<rparr>) r) }"

partial_function (option) report_loop :: "'j json_lib \<Rightarrow> sim_config \<Rightarrow> simulation \<times> 'j report \<Rightarrow> (simulation \<times> 'j report) option" where
  "report_loop J cfg sr = do {
     sr1 \<leftarrow> report_iter J cfg sr;
     if \<not> is_finished (m_core (mach (fst sr1))) \<and> m_tick (mach (fst sr1)) < max_ticks cfg
     then report_loop J cfg sr1 else Some sr1 }"

declare report_loop.simps [code]

text \<open>Files are written when an output directory is given and the system lets them be opened.\<close>

record 'j main_result =
  mr_files :: "(string \<times> 'j) list"
  mr_stdout_json :: "'j option"
  mr_text :: "out list"
  mr_final :: "simulation option"

definition outfile_write :: "(string \<Rightarrow> bool) \<Rightarrow> string \<Rightarrow> 'j \<Rightarrow> (string \<times> 'j) list" where
  "outfile_write can_open path doc = (if can_open path then [(path, doc)] else [])"

definition out_path :: "sim_config \<Rightarrow> string \<Rightarrow> string" where
  "out_path c file = ''simout/'' @ out_dir c @ file"

definition write_out :: "(string \<Rightarrow> bool) \<Rightarrow> sim_config \<Rightarrow> string \<Rightarrow> 'j \<Rightarrow> (string \<times> 'j) list" where
  "write_out can_open c file doc = (if out_dir c = [] then [] else outfile_write can_open (out_path c file) doc)"

definition report_main ::
    "'j json_lib \<Rightarrow> (string \<Rightarrow> bool) \<Rightarrow> tick_t \<Rightarrow> sim_config \<Rightarrow> 8 word list \<Rightarrow> trace_inst \<Rightarrow> 'j main_result option" where
  "report_main J can_open nx c bytes i = do {
     m \<leftarrow> build_machine nx c;
     conf \<leftarrow> collect_config_json J (j_null J) (simlist m);
     let doc = j_put J ''config'' conf (j_null J);
     let files = write_out can_open c ''/conf.json'' doc;
     if dry_run c then
       Some \<lparr>mr_files = files, mr_stdout_json = (if out_dir c = [] then Some doc else None), mr_text = [], mr_final = None\<rparr>
     else do {
       (s, r) \<leftarrow> report_loop J c (start_simulation m bytes i, \<lparr>rp_root = doc, rp_text = []\<rparr>);
       let final = append_stats_json J (dump_cnt s) (simlist (mach s)) (sanitizer_all s) (rp_root r);
       Some \<lparr>mr_files = files @ write_out can_open c ''/stats.json'' final, mr_stdout_json = None,
             mr_text = rp_text r, mr_final = Some (s\<lparr>dump_cnt := dump_cnt s + 1\<rparr>)\<rparr> } }"

end
