(* ===== verification/StatsTemplate.thy ===== *)
theory StatsTemplate
  imports Report
begin

text \<open>
  The generic counters of libs/stats\_template/stats.hpp: ClassifiedStats, DistriBase,
  DistriDelta and DistriVec, for values of type tick\_t. A std::out\_of\_range and a division by
  zero are the value None, an average that is not a number too.
\<close>

section \<open>Counters by class\<close>

text \<open>The map of names is a list without repeated ids; a class without a name is not counted.\<close>

record 'u classified =
  cl_arr :: "string \<rightharpoonup> nat"
  cl_names :: "('u \<times> string) list"
  cl_samples :: nat

definition cl_reset_stats :: "'u classified \<Rightarrow> 'u classified" where
  "cl_reset_stats s = s\<lparr>cl_samples := 0, cl_arr := foldl (\<lambda>a (u, nm). a(nm \<mapsto> 0)) (cl_arr s) (cl_names s)\<rparr>"

definition new_classified :: "('u \<times> string) list \<Rightarrow> 'u classified" where
  "new_classified names = cl_reset_stats \<lparr>cl_arr = Map.empty, cl_names = names, cl_samples = 0\<rparr>"

definition cl_sample :: "'u \<Rightarrow> nat \<Rightarrow> 'u classified \<Rightarrow> 'u classified option" where
  "cl_sample bucket num s = do {
     nm \<leftarrow> map_of (cl_names s) bucket;
     Some (s\<lparr>cl_samples := cl_samples s + num, cl_arr := (cl_arr s)(nm \<mapsto> (case cl_arr s nm of Some n \<Rightarrow> n | None \<Rightarrow> 0) + num)\<rparr>) }"

definition cl_at :: "'u \<Rightarrow> 'u classified \<Rightarrow> nat option" where
  "cl_at key s = map_of (cl_names s) key \<bind> cl_arr s"

text \<open>The entries of the JSON object; their order is that of the unordered\_map.\<close>

definition cl_gen_json :: "'u classified \<Rightarrow> (string \<rightharpoonup> nat)" where
  "cl_gen_json s = (cl_arr s)(''samples'' \<mapsto> cl_samples s)"

text \<open>The line that is printed; a class whose counter is missing makes at() throw.\<close>

definition cl_dump_stats :: "string \<Rightarrow> 'u classified \<Rightarrow> out list option" where
  "cl_dump_stats nm s =
     foldl (\<lambda>o' (u, cls). do { t \<leftarrow> o'; n \<leftarrow> cl_arr s cls; Some (t @ [Str '', '', Str cls, UInt n]) })
       (Some [Str nm, Str '' : samples '', UInt (cl_samples s)]) (cl_names s)"

section \<open>Distributions\<close>

type_synonym sample_t = "64 word"

record distri =
  ds_name :: string
  ds_min :: sample_t
  ds_max :: sample_t
  ds_delta :: sample_t
  ds_maxidx :: sample_t
  ds_arr :: "nat list"
  meta_overflow :: nat
  meta_underflow :: nat
  meta_min :: sample_t
  meta_max :: sample_t
  stat_sum :: rat
  stat_avg :: "rat option"
  ds_samples :: nat

definition new_distri :: "sample_t \<Rightarrow> sample_t \<Rightarrow> sample_t \<Rightarrow> string \<Rightarrow> distri option" where
  "new_distri mn mx dl nm = do {
     assert_that (dl \<noteq> 0);
     let mi = (mx - mn) div dl;
     Some \<lparr>ds_name = nm, ds_min = mn, ds_max = mx, ds_delta = dl, ds_maxidx = mi, ds_arr = replicate (unat mi) 0,
           meta_overflow = 0, meta_underflow = 0, meta_min = 0, meta_max = 0, stat_sum = 0, stat_avg = Some 0, ds_samples = 0\<rparr> }"

text \<open>arr.at(i) += n.\<close>

definition add_at :: "nat \<Rightarrow> nat \<Rightarrow> 'a distri_scheme \<Rightarrow> 'a distri_scheme option" where
  "add_at i n d = do { k \<leftarrow> Prelude.at (ds_arr d) i; Some (d\<lparr>ds_arr := (ds_arr d)[i := k + n]\<rparr>) }"

text \<open>The enumerator Underflow is 1, and arr is indexed with it.\<close>

definition place :: "sample_t \<Rightarrow> nat \<Rightarrow> 'a distri_scheme \<Rightarrow> 'a distri_scheme option" where
  "place v n d =
     (if ds_max d \<le> v then Some (d\<lparr>meta_overflow := meta_overflow d + n\<rparr>)
      else if v < ds_min d then add_at 1 n d
      else add_at (unat ((v - ds_min d) div ds_delta d)) n d)"

definition next_avg :: "sample_t \<Rightarrow> nat \<Rightarrow> nat \<Rightarrow> rat option \<Rightarrow> rat option" where
  "next_avg v n total_samples avg =
     (if total_samples = 0 then None
      else let frac = d_div (d_nat (total_samples - n)) (d_nat total_samples)
           in map_option (\<lambda>a. d_add (d_mul frac a) (d_mul (d_sub 1 frac) (d_nat (unat v)))) avg)"

definition ds_sample :: "sample_t \<Rightarrow> nat \<Rightarrow> 'a distri_scheme \<Rightarrow> 'a distri_scheme option" where
  "ds_sample v n d0 = do {
     d \<leftarrow> place v n (d0\<lparr>ds_samples := ds_samples d0 + n\<rparr>);
     Some (d\<lparr>meta_max := max v (meta_max d), meta_min := min v (meta_min d),
             stat_sum := d_add (stat_sum d) (d_nat (unat v)),
             stat_avg := next_avg v n (ds_samples d) (stat_avg d)\<rparr>) }"

definition ds_reset_stats :: "'a distri_scheme \<Rightarrow> 'a distri_scheme" where
  "ds_reset_stats d = d\<lparr>ds_arr := replicate (unat (ds_maxidx d)) 0, meta_overflow := 0, meta_underflow := 0, meta_min := 0,
     meta_max := 0, stat_sum := 0, stat_avg := Some 0, ds_samples := 0\<rparr>"

text \<open>nan is the library's value for a float that is not a number.\<close>

definition ds_gen_json :: "'j json_lib \<Rightarrow> 'j \<Rightarrow> 'a distri_scheme \<Rightarrow> 'j" where
  "ds_gen_json J nan d =
     jobj J ((''samples'', j_uint J (ds_samples d)) #
       map (\<lambda>i. (show_nat (unat (ds_min d + ds_delta d * of_nat i)), j_uint J (ds_arr d ! i))) [0..<unat (ds_maxidx d)] @
       [(''Sum'', j_float J (stat_sum d)), (''Avg'', (case stat_avg d of Some x \<Rightarrow> j_float J x | None \<Rightarrow> nan)),
        (''Overflow'', j_uint J (meta_overflow d)), (''Underflow'', j_uint J (meta_underflow d)),
        (''Min'', j_uint J (unat (meta_min d))), (''Max'', j_uint J (unat (meta_max d)))])"

definition ds_dump_stats :: "'a distri_scheme \<Rightarrow> out list" where
  "ds_dump_stats d = [Str (ds_name d), Str '' : samples '', UInt (ds_samples d), Str '' , avg '', Real (stat_avg d)]"

section \<open>Differences\<close>

record distri_delta = distri +
  dd_last :: sample_t

definition new_distri_delta :: "sample_t \<Rightarrow> sample_t \<Rightarrow> sample_t \<Rightarrow> sample_t \<Rightarrow> string \<Rightarrow> distri_delta option" where
  "new_distri_delta mn mx dl init nm =
     map_option (\<lambda>d. distri.extend d \<lparr>dd_last = init\<rparr>) (new_distri mn mx dl nm)"

definition dd_sample :: "sample_t \<Rightarrow> nat \<Rightarrow> 'a distri_delta_scheme \<Rightarrow> 'a distri_delta_scheme option" where
  "dd_sample v n d = map_option (\<lambda>e. e\<lparr>dd_last := v\<rparr>) (ds_sample (v - dd_last d) n d)"

definition updlast :: "sample_t \<Rightarrow> 'a distri_delta_scheme \<Rightarrow> 'a distri_delta_scheme" where
  "updlast v d = d\<lparr>dd_last := v\<rparr>"

section \<open>Vectors of distributions\<close>

text \<open>The template parameter U is the type 'u; its constructor, its sample and its reset are arguments.\<close>

record 'u distri_vec =
  dv_name :: string
  dv_cats :: "'u list"
  dv_sumsamples :: nat

fun all_some :: "'a option list \<Rightarrow> 'a list option" where
  "all_some [] = Some []"
| "all_some (x # xs) = do { y \<leftarrow> x; ys \<leftarrow> all_some xs; Some (y # ys) }"

definition cat_name :: "string list \<Rightarrow> nat \<Rightarrow> string" where
  "cat_name names i = (if names \<noteq> [] then names ! i else ''Cat_'' @ show_nat i)"

definition new_distri_vec :: "(string \<Rightarrow> 'u option) \<Rightarrow> nat \<Rightarrow> string \<Rightarrow> string list \<Rightarrow> 'u distri_vec option" where
  "new_distri_vec mk n nm names = do {
     assert_that (n = length names);
     cats \<leftarrow> all_some (map (\<lambda>i. mk (cat_name names i)) [0..<n]);
     Some \<lparr>dv_name = nm, dv_cats = cats, dv_sumsamples = 0\<rparr> }"

definition dv_reset_stats :: "('u \<Rightarrow> 'u) \<Rightarrow> 'u distri_vec \<Rightarrow> 'u distri_vec" where
  "dv_reset_stats reset s = s\<lparr>dv_cats := map reset (dv_cats s), dv_sumsamples := 0\<rparr>"

definition dv_sample :: "(sample_t \<Rightarrow> nat \<Rightarrow> 'u \<Rightarrow> 'u option) \<Rightarrow> nat \<Rightarrow> sample_t \<Rightarrow> 'u distri_vec \<Rightarrow> 'u distri_vec option" where
  "dv_sample smp cat v s = do {
     c \<leftarrow> Prelude.at (dv_cats s) cat;
     c' \<leftarrow> smp v 1 c;
     Some (s\<lparr>dv_sumsamples := dv_sumsamples s + 1, dv_cats := (dv_cats s)[cat := c']\<rparr>) }"

definition dv_gen_json :: "'j json_lib \<Rightarrow> ('u \<Rightarrow> string) \<Rightarrow> ('u \<Rightarrow> 'j) \<Rightarrow> 'u distri_vec \<Rightarrow> 'j" where
  "dv_gen_json J nm gen s =
     jobj J (map (\<lambda>c. (nm c, gen c)) (dv_cats s) @ [(''samples'', j_uint J (dv_sumsamples s))])"

definition dv_dump_stats :: "'u distri_vec \<Rightarrow> out list" where
  "dv_dump_stats s = [Str (dv_name s), Str '' samples '', UInt (dv_sumsamples s)]"

section \<open>Runs\<close>

primrec ds_run :: "sample_t list \<Rightarrow> 'a distri_scheme \<Rightarrow> 'a distri_scheme option" where
  "ds_run [] d = Some d"
| "ds_run (v # vs) d = ds_sample v 1 d \<bind> ds_run vs"

primrec dd_run :: "sample_t list \<Rightarrow> 'a distri_delta_scheme \<Rightarrow> 'a distri_delta_scheme option" where
  "dd_run [] d = Some d"
| "dd_run (v # vs) d = dd_sample v 1 d \<bind> dd_run vs"

primrec dv_run :: "(sample_t \<Rightarrow> nat \<Rightarrow> 'u \<Rightarrow> 'u option) \<Rightarrow> (nat \<times> sample_t) list \<Rightarrow> 'u distri_vec \<Rightarrow> 'u distri_vec option" where
  "dv_run smp [] s = Some s"
| "dv_run smp (cv # cvs) s = dv_sample smp (fst cv) (snd cv) s \<bind> dv_run smp cvs"

primrec cl_run :: "('u \<times> nat) list \<Rightarrow> 'u classified \<Rightarrow> 'u classified option" where
  "cl_run [] s = Some s"
| "cl_run (un # uns) s = cl_sample (fst un) (snd un) s \<bind> cl_run uns"

text \<open>The concept IsDerived of the library: what a member of a vector promises.\<close>

locale sampled =
  fixes smp :: "sample_t \<Rightarrow> nat \<Rightarrow> 'u \<Rightarrow> 'u option" and reset :: "'u \<Rightarrow> 'u" and count :: "'u \<Rightarrow> nat"
  assumes smp_count: "smp v n c = Some c' \<Longrightarrow> count c' = count c + n"
    and reset_count: "count (reset c) = 0"
begin

definition balanced :: "'u distri_vec \<Rightarrow> bool" where
  "balanced s \<longleftrightarrow> dv_sumsamples s = sum_list (map count (dv_cats s))"

lemma sample_balanced: "dv_sample smp cat v s = Some s' \<Longrightarrow> balanced s \<Longrightarrow> balanced s'"
  by (auto simp: dv_sample_def balanced_def Prelude.at_def map_update sum_list_update smp_count dest: member_le_sum_list split: if_splits)

lemma run_balanced: "dv_run smp cvs s = Some s' \<Longrightarrow> balanced s \<Longrightarrow> balanced s'"
  by (induction cvs arbitrary: s) (auto dest: sample_balanced)

lemma reset_balanced: "balanced (dv_reset_stats reset s)"
  by (simp add: balanced_def dv_reset_stats_def reset_count comp_def)

end

lemma place_samples: "place v n d = Some d' \<Longrightarrow> ds_samples d' = ds_samples d"
  by (auto simp: place_def add_at_def split: if_splits)

lemma ds_sample_count: "ds_sample v n d = Some d' \<Longrightarrow> ds_samples d' = ds_samples d + n"
  by (auto simp: ds_sample_def dest!: place_samples)

interpretation base: sampled ds_sample ds_reset_stats ds_samples
  by unfold_locales (auto simp: ds_sample_count ds_reset_stats_def)

interpretation delta: sampled dd_sample ds_reset_stats ds_samples
  by unfold_locales (auto simp: dd_sample_def ds_sample_count ds_reset_stats_def)

end
