(* ===== verification/StatsProps.thy ===== *)
theory StatsProps
  imports StatsTemplate
begin

text \<open>
  What the generic distributions count: a histogram of the samples, where it is one, and what
  happens to the values it has no bucket for.
\<close>

section \<open>One sample\<close>

lemma add_at_eq_None: "add_at i n d = None \<longleftrightarrow> length (ds_arr d) \<le> i"
  by (auto simp: add_at_def Prelude.at_def)

lemma add_at_eq_Some: "add_at i n d = Some d' \<longleftrightarrow> i < length (ds_arr d) \<and> d' = d\<lparr>ds_arr := (ds_arr d)[i := ds_arr d ! i + n]\<rparr>"
  by (auto simp: add_at_def Prelude.at_def)

lemma place_counted:
  "place v n d = Some d' \<Longrightarrow> meta_overflow d' + sum_list (ds_arr d') = meta_overflow d + sum_list (ds_arr d) + n"
  using member_le_sum_list [of "ds_arr d ! i" "ds_arr d" for i]
  by (force simp: place_def add_at_eq_Some sum_list_update split: if_splits dest: nth_mem)

lemma place_frame:
  "place v n d = Some d' \<Longrightarrow> ds_min d' = ds_min d \<and> ds_max d' = ds_max d \<and> ds_delta d' = ds_delta d \<and> ds_maxidx d' = ds_maxidx d \<and>
    length (ds_arr d') = length (ds_arr d) \<and> meta_underflow d' = meta_underflow d \<and> ds_samples d' = ds_samples d \<and>
    meta_min d' = meta_min d \<and> meta_max d' = meta_max d \<and> stat_sum d' = stat_sum d"
  by (auto simp: place_def add_at_eq_Some split: if_splits)

text \<open>
  (C38) When a distribution aborts and what it counts otherwise. A value has no place exactly when
  it is below the upper bound and its index is not one of the array: the index of its bucket, or
  1 for a value below the lower bound, which is counted into the second bucket and never as an
  underflow. A sample that is taken is counted once, among the buckets and the overflow, and the
  recorded minimum of a fresh distribution stays 0.
\<close>

theorem sample_outcomes:
  "(ds_sample v n d = None \<longleftrightarrow>
      v < ds_max d \<and> length (ds_arr d) \<le> (if v < ds_min d then 1 else unat ((v - ds_min d) div ds_delta d))) \<and>
    (\<forall>d'. ds_sample v n d = Some d' \<longrightarrow>
      ds_samples d' = ds_samples d + n \<and> meta_underflow d' = meta_underflow d \<and>
      meta_overflow d' + sum_list (ds_arr d') = meta_overflow d + sum_list (ds_arr d) + n \<and>
      (v < ds_min d \<and> v < ds_max d \<longrightarrow> ds_arr d' = (ds_arr d)[1 := ds_arr d ! 1 + n]) \<and>
      (meta_min d = 0 \<longrightarrow> meta_min d' = 0))"
proof (intro conjI allI impI)
  show "ds_sample v n d = None \<longleftrightarrow>
      v < ds_max d \<and> length (ds_arr d) \<le> (if v < ds_min d then 1 else unat ((v - ds_min d) div ds_delta d))"
    by (auto simp: ds_sample_def place_def add_at_def Prelude.at_def not_le)
next
  fix d' assume "ds_sample v n d = Some d'"
  then obtain e where e: "place v n (d\<lparr>ds_samples := ds_samples d + n\<rparr>) = Some e"
      "d' = e\<lparr>meta_max := max v (meta_max e), meta_min := min v (meta_min e), stat_sum := d_add (stat_sum e) (d_nat (unat v)),
              stat_avg := next_avg v n (ds_samples e) (stat_avg e)\<rparr>"
    by (auto simp: ds_sample_def)
  note f = place_frame [OF e(1)] place_counted [OF e(1)]
  show "ds_samples d' = ds_samples d + n" "meta_underflow d' = meta_underflow d"
    "meta_overflow d' + sum_list (ds_arr d') = meta_overflow d + sum_list (ds_arr d) + n"
    using f by (simp_all add: e(2))
  show "meta_min d' = 0" if "meta_min d = 0" using f that by (simp add: e(2) min_def)
  show "ds_arr d' = (ds_arr d)[1 := ds_arr d ! 1 + n]" if "v < ds_min d \<and> v < ds_max d"
  proof -
    have "\<not> ds_max d \<le> v" "v < ds_min d" using that by (simp_all add: not_le)
    then show ?thesis using e(1) by (simp add: place_def add_at_eq_Some e(2))
  qed
qed

definition demo_distri :: distri where
  "demo_distri = the (new_distri 10 40 10 ''d'')"

lemma demo_distri_new: "new_distri 10 40 10 ''d'' = Some demo_distri"
  by (simp add: demo_distri_def new_distri_def Let_def)

theorem sample_outcomes_witness:
  "\<exists>d'. ds_sample 4 2 demo_distri = Some d' \<and> ds_arr d' = [0, 2, 0] \<and> meta_underflow d' = 0 \<and> meta_min d' = 0"
proof -
  have d: "ds_max demo_distri = 40" "ds_min demo_distri = 10" "ds_arr demo_distri = replicate 3 0" "meta_underflow demo_distri = 0" "meta_min demo_distri = 0"
    by (simp_all add: demo_distri_def new_distri_def Let_def)
  then have "ds_sample 4 2 demo_distri \<noteq> None" using sample_outcomes [of 4 2 demo_distri] by simp
  then show ?thesis using sample_outcomes [of 4 2 demo_distri] d by (force simp: numeral_3_eq_3)
qed

section \<open>Many samples\<close>

definition in_bucket :: "'a distri_scheme \<Rightarrow> nat \<Rightarrow> sample_t \<Rightarrow> bool" where
  "in_bucket d i v \<longleftrightarrow> unat (ds_min d) + i * unat (ds_delta d) \<le> unat v \<and> unat v < unat (ds_min d) + (i + 1) * unat (ds_delta d)"

lemma bucket_index:
  assumes "ds_min d \<le> v" and "ds_delta d \<noteq> 0"
  shows "in_bucket d i v \<longleftrightarrow> unat ((v - ds_min d) div ds_delta d) = i"
proof -
  have "0 < unat (ds_delta d)" using assms(2) by (simp add: unat_gt_0)
  moreover have "unat ((v - ds_min d) div ds_delta d) = (unat v - unat (ds_min d)) div unat (ds_delta d)"
    using assms(1) by (simp add: unat_div unat_sub)
  moreover have "unat (ds_min d) \<le> unat v" using assms(1) by (simp add: word_le_nat_alt)
  moreover have "x div b = i \<longleftrightarrow> i * b \<le> x \<and> x < (i + 1) * b" if "0 < b" for x b :: nat
  proof -
    have "x div b = i \<longleftrightarrow> i \<le> x div b \<and> x div b < i + 1" by linarith
    then show ?thesis unfolding less_eq_div_iff_mult_less_eq [OF that] div_less_iff_less_mult [OF that] .
  qed
  ultimately show ?thesis by (auto simp: in_bucket_def)
qed

text \<open>A range that is a whole number of buckets.\<close>

definition even_range :: "'a distri_scheme \<Rightarrow> bool" where
  "even_range d \<longleftrightarrow> ds_delta d \<noteq> 0 \<and> length (ds_arr d) = unat (ds_maxidx d) \<and>
     unat (ds_max d) = unat (ds_min d) + unat (ds_maxidx d) * unat (ds_delta d)"

lemma ds_sample_frame:
  "ds_sample v n d = Some d' \<Longrightarrow> ds_min d' = ds_min d \<and> ds_max d' = ds_max d \<and> ds_delta d' = ds_delta d \<and>
    ds_maxidx d' = ds_maxidx d \<and> length (ds_arr d') = length (ds_arr d)"
  by (auto simp: ds_sample_def dest!: place_frame)

lemma even_range_sample: "ds_sample v n d = Some d' \<Longrightarrow> even_range d \<Longrightarrow> even_range d' \<and> in_bucket d' = in_bucket d"
  by (auto simp: even_range_def in_bucket_def fun_eq_iff dest: ds_sample_frame)

lemma sample_hist:
  assumes "even_range d" and "ds_min d \<le> v"
  shows "\<exists>d'. ds_sample v 1 d = Some d' \<and> ds_samples d' = ds_samples d + 1 \<and>
    meta_overflow d' = meta_overflow d + (if ds_max d \<le> v then 1 else 0) \<and>
    (\<forall>i<length (ds_arr d). ds_arr d' ! i = ds_arr d ! i + (if in_bucket d i v then 1 else 0)) \<and>
    meta_max d' = max v (meta_max d)"
proof -
  let ?i = "unat ((v - ds_min d) div ds_delta d)"
  have r: "ds_delta d \<noteq> 0" "length (ds_arr d) = unat (ds_maxidx d)" "unat (ds_max d) = unat (ds_min d) + unat (ds_maxidx d) * unat (ds_delta d)"
    using assms(1) by (simp_all add: even_range_def)
  have b: "in_bucket d i v \<longleftrightarrow> ?i = i" for i by (rule bucket_index [OF assms(2) r(1)])
  then have x: "unat (ds_min d) + ?i * unat (ds_delta d) \<le> unat v \<and> unat v < unat (ds_min d) + (?i + 1) * unat (ds_delta d)"
    unfolding in_bucket_def by blast
  show ?thesis
  proof (cases "ds_max d \<le> v")
    case True
    then have "unat (ds_maxidx d) * unat (ds_delta d) < (?i + 1) * unat (ds_delta d)" using x r(3) by (simp add: word_le_nat_alt)
    then have "\<not> ?i < unat (ds_maxidx d)" by (simp only: mult_less_cancel2) simp
    then show ?thesis using True assms(2) r(2) by (auto simp: ds_sample_def place_def b)
  next
    case False
    then have "unat v < unat (ds_max d)" by (simp add: word_less_nat_alt not_le)
    then have "?i * unat (ds_delta d) < unat (ds_maxidx d) * unat (ds_delta d)" using x r(3) by linarith
    then have "?i < unat (ds_maxidx d)" by (simp only: mult_less_cancel2)
    then show ?thesis using False assms(2) r(2) by (auto simp: ds_sample_def place_def add_at_eq_Some b)
  qed
qed

lemma run_hist:
  assumes "even_range d" and "\<forall>v\<in>set vs. ds_min d \<le> v"
  shows "\<exists>d'. ds_run vs d = Some d' \<and> ds_samples d' = ds_samples d + length vs \<and>
    meta_overflow d' = meta_overflow d + length (filter (\<lambda>v. ds_max d \<le> v) vs) \<and>
    (\<forall>i<length (ds_arr d). ds_arr d' ! i = ds_arr d ! i + length (filter (in_bucket d i) vs)) \<and>
    meta_max d' = fold max vs (meta_max d)"
  using assms
proof (induction vs arbitrary: d)
  case (Cons v vs)
  obtain e where e: "ds_sample v 1 d = Some e" "ds_samples e = ds_samples d + 1"
      "meta_overflow e = meta_overflow d + (if ds_max d \<le> v then 1 else 0)"
      "\<forall>i<length (ds_arr d). ds_arr e ! i = ds_arr d ! i + (if in_bucket d i v then 1 else 0)" "meta_max e = max v (meta_max d)"
    using sample_hist [of d v] Cons.prems by auto
  note f = even_range_sample [OF e(1) Cons.prems(1)] ds_sample_frame [OF e(1)]
  have "\<forall>v\<in>set vs. ds_min e \<le> v" using Cons.prems(2) f by simp
  from Cons.IH [OF conjunct1 [OF f(1)] this] show ?case using e f by auto
qed simp

text \<open>As long as it stays below 2 to the 53 the double sum is the sum.\<close>

lemma run_sum:
  assumes "ds_run vs d = Some d'" and "stat_sum d = of_nat k" and "k + sum_list (map unat vs) < 2 ^ 53"
  shows "stat_sum d' = of_nat (k + sum_list (map unat vs))"
  using assms
proof (induction vs arbitrary: d k)
  case (Cons v vs)
  obtain e where e: "ds_sample v 1 d = Some e" "ds_run vs e = Some d'" using Cons.prems(1) by auto
  have "to_double (rat_of_nat (k + unat v)) = of_nat (k + unat v)"
    using Cons.prems(3) d_nat_exact [of "k + unat v"] by (simp add: d_nat_def)
  then have "stat_sum e = of_nat (k + unat v)"
    using e(1) Cons.prems(2,3) d_nat_exact [of "unat v"] by (auto simp: ds_sample_def d_add_def dest!: place_frame)
  then show ?case using Cons.IH [OF e(2), of "k + unat v"] Cons.prems(3) by (simp add: add.assoc)
qed simp

text \<open>
  (C37) A distribution whose range is a whole number of buckets is a histogram. Any run of values
  not below the lower bound is taken; afterwards every bucket holds the number of values in its
  interval, the overflow those at or above the upper bound, the maximum is that of the values,
  and the sum is exact as long as it is below 2 to the 53.
\<close>

theorem histogram_exact:
  assumes "new_distri mn mx dl nm = Some d" and "mn \<le> mx" and "unat dl dvd unat mx - unat mn" and "\<forall>v\<in>set vs. mn \<le> v"
  shows "\<exists>d'. ds_run vs d = Some d' \<and> ds_samples d' = length vs \<and>
    meta_overflow d' = length (filter (\<lambda>v. mx \<le> v) vs) \<and>
    (\<forall>i < (unat mx - unat mn) div unat dl. ds_arr d' ! i =
       length (filter (\<lambda>v. unat mn + i * unat dl \<le> unat v \<and> unat v < unat mn + (i + 1) * unat dl) vs)) \<and>
    meta_max d' = fold max vs 0 \<and>
    (sum_list (map unat vs) < 2 ^ 53 \<longrightarrow> stat_sum d' = of_nat (sum_list (map unat vs)))"
proof -
  have dl: "dl \<noteq> 0" and d: "d = \<lparr>ds_name = nm, ds_min = mn, ds_max = mx, ds_delta = dl, ds_maxidx = (mx - mn) div dl,
      ds_arr = replicate (unat ((mx - mn) div dl)) 0, meta_overflow = 0, meta_underflow = 0, meta_min = 0, meta_max = 0,
      stat_sum = 0, stat_avg = Some 0, ds_samples = 0\<rparr>"
    using assms(1) by (auto simp: new_distri_def Let_def)
  have mi: "unat ((mx - mn) div dl) = (unat mx - unat mn) div unat dl" using assms(2) by (simp add: unat_div unat_sub)
  then have er: "even_range d" using assms(2,3) dl by (simp add: even_range_def d word_le_nat_alt)
  have "\<forall>v\<in>set vs. ds_min d \<le> v" using assms(4) by (simp add: d)
  from run_hist [OF er this] obtain d' where d': "ds_run vs d = Some d'" "ds_samples d' = length vs"
      "meta_overflow d' = length (filter (\<lambda>v. mx \<le> v) vs)"
      "\<forall>i < unat ((mx - mn) div dl). ds_arr d' ! i = length (filter (in_bucket d i) vs)" "meta_max d' = fold max vs 0"
    by (auto simp: d)
  have "in_bucket d i = (\<lambda>v. unat mn + i * unat dl \<le> unat v \<and> unat v < unat mn + (i + 1) * unat dl)" for i
    by (simp add: in_bucket_def d fun_eq_iff)
  moreover have "stat_sum d' = of_nat (sum_list (map unat vs))" if "sum_list (map unat vs) < 2 ^ 53"
    using run_sum [OF d'(1), of 0] that by (simp add: d)
  ultimately show ?thesis using d' by (auto simp: mi)
qed

theorem histogram_exact_witness:
  "\<exists>d'. ds_run [12, 19, 35, 40, 99] demo_distri = Some d' \<and> ds_samples d' = 5 \<and> meta_overflow d' = 2 \<and> ds_arr d' ! 0 = 2 \<and> stat_sum d' = 205"
  using histogram_exact [OF demo_distri_new, of "[12, 19, 35, 40, 99]"] by force

end
