(* ===== verification/ReportProofs.thy ===== *)
theory ReportProofs
  imports Report Counters TraceFlow
begin

text \<open>
  The laws of the JSON library as a contract, its documented model, and what the reporting loop
  adds to the simulation: it computes the same simulation, and every window it writes can be
  read back.
\<close>

section \<open>The library\<close>

locale json_object =
  fixes J :: "'j json_lib" and is_obj :: "'j \<Rightarrow> bool"
  assumes null_obj: "is_obj (j_null J)"
    and put_obj: "is_obj j \<Longrightarrow> is_obj (j_put J k v j)"
    and null_items: "j_items J (j_null J) = []"
    and put_items: "is_obj j \<Longrightarrow> j_items J (j_put J k v j) = AList.update k v (j_items J j)"
begin

lemma jext_obj: "is_obj j \<Longrightarrow> is_obj (jext J j kvs)"
  by (induction kvs arbitrary: j) (auto simp: jext_def put_obj)

lemma jobj_obj: "is_obj (jobj J kvs)"
  by (simp add: jobj_def jext_obj null_obj)

lemma update_new: "k \<notin> fst ` set xs \<Longrightarrow> AList.update k v xs = xs @ [(k, v)]"
  by (induction xs) auto

text \<open>Assignments to new keys append their items, in their order.\<close>

lemma jext_items:
  "is_obj j \<Longrightarrow> distinct (map fst (j_items J j @ kvs)) \<Longrightarrow> j_items J (jext J j kvs) = j_items J j @ kvs"
proof (induction kvs arbitrary: j)
  case (Cons kv kvs)
  obtain k v where kv: "kv = (k, v)" by fastforce
  have "j_items J (j_put J k v j) = j_items J j @ [(k, v)]"
    using Cons.prems kv by (subst put_items) (auto intro!: update_new)
  then have "j_items J (jext J (j_put J k v j) kvs) = (j_items J j @ [(k, v)]) @ kvs"
    using Cons.IH [OF put_obj [OF Cons.prems(1), of k v]] Cons.prems(2) kv by simp
  then show ?case using kv by (simp add: jext_def)
qed (simp add: jext_def)

lemma jobj_items: "distinct (map fst kvs) \<Longrightarrow> j_items J (jobj J kvs) = kvs"
  using jext_items [OF null_obj, of kvs] by (simp add: jobj_def null_items)

lemma put_lookup: "is_obj j \<Longrightarrow> map_of (j_items J (j_put J k v j)) = (map_of (j_items J j))(k \<mapsto> v)"
  by (simp add: put_items update_conv')

end

text \<open>nlohmann::ordered\_json as it is documented: an object keeps the order of insertion.\<close>

datatype ojson =
    JNull
  | JUInt nat
  | JInt int
  | JFloat rat
  | JBool bool
  | JStr string
  | JArr "ojson list"
  | JObj "(string \<times> ojson) list"

fun ojson_put :: "string \<Rightarrow> ojson \<Rightarrow> ojson \<Rightarrow> ojson" where
  "ojson_put k v (JObj xs) = JObj (AList.update k v xs)"
| "ojson_put k v JNull = JObj [(k, v)]"
| "ojson_put k v j = j"

fun ojson_items :: "ojson \<Rightarrow> (string \<times> ojson) list" where
  "ojson_items (JObj xs) = xs"
| "ojson_items _ = []"

definition ordered_json :: "ojson json_lib" where
  "ordered_json = \<lparr>j_null = JNull, j_uint = JUInt, j_int = JInt, j_float = JFloat, j_bool = JBool, j_str = JStr,
     j_array = JArr, j_put = ojson_put, j_items = ojson_items\<rparr>"

definition ojson_is_obj :: "ojson \<Rightarrow> bool" where
  "ojson_is_obj j \<longleftrightarrow> (case j of JNull \<Rightarrow> True | JObj _ \<Rightarrow> True | _ \<Rightarrow> False)"

interpretation ordered_json: json_object ordered_json ojson_is_obj
  by unfold_locales (auto simp: ordered_json_def ojson_is_obj_def split: ojson.splits)

section \<open>The simulation behind the report\<close>

lemma report_iter_sim:
  "report_iter J cfg (s, r) = Some (s', r') \<Longrightarrow> sim_iter cfg s = Some s'"
  "sim_iter cfg s = Some s' \<Longrightarrow> \<exists>r'. report_iter J cfg (s, r) = Some (s', r')"
  by (auto simp: report_iter_def sim_iter_def)

lemma report_loop_sim:
  assumes "sim_loop cfg s = Some s'"
  shows "\<exists>r'. report_loop J cfg (s, r) = Some (s', r')"
proof -
  have "\<forall>r. \<exists>r'. report_loop J cfg (s, r) = Some (s', r')"
  proof (rule sim_loop.raw_induct [where P = "\<lambda>cfg s s'. \<forall>r. \<exists>r'. report_loop J cfg (s, r) = Some (s', r')", OF _ assms])
    fix loop :: "sim_config \<Rightarrow> simulation \<Rightarrow> simulation option" and cfg s s'
    let ?go = "\<lambda>s1. \<not> is_finished (m_core (mach s1)) \<and> m_tick (mach s1) < max_ticks (cfg :: sim_config)"
    assume IH: "\<And>cfg s s'. loop cfg s = Some s' \<Longrightarrow> \<forall>r. \<exists>r'. report_loop J cfg (s, r) = Some (s', r')"
      and "sim_iter cfg s \<bind> (\<lambda>s1. if ?go s1 then loop cfg s1 else Some s1) = Some s'"
    then obtain s1 where s1: "sim_iter cfg s = Some s1" "(if ?go s1 then loop cfg s1 else Some s1) = Some s'" by auto
    show "\<forall>r. \<exists>r'. report_loop J cfg (s, r) = Some (s', r')"
    proof
      fix r
      obtain r1 where r1: "report_iter J cfg (s, r) = Some (s1, r1)" using report_iter_sim(2) [OF s1(1)] by blast
      show "\<exists>r'. report_loop J cfg (s, r) = Some (s', r')"
        using s1(2) IH [of cfg s1 s'] by (subst report_loop.simps) (auto simp: r1 split: if_splits)
    qed
  qed
  then show ?thesis by blast
qed

section \<open>The windows of a run\<close>

definition dump_marker :: "trace_inst \<Rightarrow> bool" where
  "dump_marker t \<longleftrightarrow> ti_sys_op t = SysDumpStats"

text \<open>The turn from sp to sd has fed the first dump marker of the trace.\<close>

definition marker_turn :: "trace_inst list \<Rightarrow> sim_config \<Rightarrow> simulation \<Rightarrow> simulation \<Rightarrow> simulation \<Rightarrow> bool" where
  "marker_turn tr cfg s0 sp sd \<longleftrightarrow> (\<exists>k. sim_turns k cfg s0 = Some sp) \<and> sim_iter cfg sp = Some sd \<and>
     inst_cnt sd = inst_cnt sp + 1 \<and> inst_cnt sp < length tr \<and> dump_marker (tr ! inst_cnt sp) \<and>
     (\<forall>t\<in>set (take (inst_cnt sp) tr). \<not> dump_marker t)"

text \<open>
  The document after some turns. Before a marker is fed it holds the configuration; the marker
  adds the window of its turn, and as nothing is fed after it there is no second one.
\<close>

definition doc_ok ::
    "'j json_lib \<Rightarrow> ('j \<Rightarrow> bool) \<Rightarrow> 'j \<Rightarrow> trace_inst list \<Rightarrow> sim_config \<Rightarrow> simulation \<Rightarrow> simulation \<Rightarrow> 'j \<Rightarrow> bool" where
  "doc_ok J is_obj conf tr cfg s0 s doc \<longleftrightarrow> is_obj doc \<and> fed_ok tr s \<and> \<not> dump_marker (sim_inst s) \<and>
     (if stop_after_dump s
      then dump_cnt s = 1 \<and> (\<exists>sp sd. marker_turn tr cfg s0 sp sd \<and> inst_cnt s = inst_cnt sd \<and>
        j_items J doc = [(''config'', conf), (''stats0'', window_json J (simlist (mach sd)) (sanitizer sd))])
      else dump_cnt s = 0 \<and> (\<forall>t\<in>set (take (inst_cnt s) tr). \<not> dump_marker t) \<and> j_items J doc = [(''config'', conf)])"

lemma show_nat_small: "show_nat 0 = ''0''" "show_nat (Suc 0) = ''1''"
  by code_simp+

lemma sim_turns_snoc: "sim_turns k cfg s = Some s1 \<Longrightarrow> sim_iter cfg s1 = Some s2 \<Longrightarrow> sim_turns (Suc k) cfg s = Some s2"
  by (induction k arbitrary: s) auto

text \<open>What feeding changes beside the machine: nothing, or one record was taken.\<close>

lemma feed_phase_takes:
  assumes "feed_phase cfg s = Some s'" and "fed_ok tr s"
  shows "dump_cnt s' = dump_cnt s \<and> stop_after_dump s' = stop_after_dump s \<and>
    (inst_cnt s' = inst_cnt s \<and> sim_inst s' = sim_inst s \<or>
     \<not> stop_after_dump s \<and> inst_cnt s' = inst_cnt s + 1 \<and> inst_cnt s < length tr \<and> sim_inst s' = tr ! inst_cnt s)"
proof (cases "inst_avail (m_core (mach s)) \<and> \<not> stop_after_dump s \<and> has_next s \<and> inst_cnt s < max_insts cfg")
  case True
  show ?thesis
  proof (cases "next_inst (sim_input s)")
    case (Some x)
    obtain j rest where x: "x = (j, rest)" by fastforce
    have "drop (inst_cnt s) tr = j # read_trace rest" using read_trace_next [of "sim_input s"] Some x assms(2) by (simp add: fed_ok_def)
    then have "inst_cnt s < length tr" "tr ! inst_cnt s = j" by (metis drop_eq_Nil leI list.simps(3), simp add: nth_via_drop)
    then show ?thesis using True Some x assms(1) by (auto simp: feed_phase_def)
  qed (use True assms(1) in \<open>auto simp: feed_phase_def\<close>)
next
  case False
  then show ?thesis using assms(1) by (auto simp: feed_phase_def split: if_splits)
qed

text \<open>Every object of the report has a name of its own, so none overwrites another.\<close>

lemma simlist_names: "distinct (map obj_name (simlist m) @ [''TraceSanitizer''])"
  by (auto simp: simlist_def pf_name_def split: dport.splits option.splits pf_kind.splits)

context json_object
begin

lemma report_iter_doc:
  assumes it: "report_iter J cfg (s, r) = Some (s', r')" and doc: "doc_ok J is_obj conf tr cfg s0 s (rp_root r)"
    and reach: "sim_turns k cfg s0 = Some s"
  shows "doc_ok J is_obj conf tr cfg s0 s' (rp_root r')"
proof -
  obtain m1 s1 m2 where u: "update_devices (mach s) = Some m1" "feed_phase cfg (s\<lparr>mach := m1\<rparr>) = Some s1"
      "sys_phase (s1\<lparr>mach := m2\<rparr>) = Some s'" "r' = report_phase J cfg (s1\<lparr>mach := m2\<rparr>) r"
    using it by (auto simp: report_iter_def)
  note iter = report_iter_sim(1) [OF it]
  have fed: "fed_ok tr s" and ob: "is_obj (rp_root r)" and old: "\<not> dump_marker (sim_inst s)" using doc by (simp_all add: doc_ok_def)
  have fed': "fed_ok tr s'" by (rule sim_iter_fed [OF iter fed])
  have "drawn_machine tr (inst_cnt s) (mach s)" using fed by (simp add: drawn_machine fed_ok_def)
  from drawn.update_devices_seen [OF u(1) this] have "fed_ok tr (s\<lparr>mach := m1\<rparr>)" using fed by (simp add: fed_ok_def seen_def)
  from feed_phase_takes [OF u(2) this] have f: "dump_cnt s1 = dump_cnt s" "stop_after_dump s1 = stop_after_dump s"
      "inst_cnt s1 = inst_cnt s \<and> sim_inst s1 = sim_inst s \<or>
       \<not> stop_after_dump s \<and> inst_cnt s1 = inst_cnt s + 1 \<and> inst_cnt s < length tr \<and> sim_inst s1 = tr ! inst_cnt s"
    by auto
  note fr = sys_phase_frame [OF u(3)]
  show ?thesis
  proof (cases "dump_marker (sim_inst s1)")
    case False
    then have "rp_root r' = rp_root r" "dump_cnt s' = dump_cnt s" "stop_after_dump s' = stop_after_dump s" "\<not> dump_marker (sim_inst s')"
      using u(3,4) f(1,2) by (auto simp: dump_marker_def report_phase_def sys_phase_def Let_def op_codes split: if_splits)
    moreover have "take (Suc (inst_cnt s)) tr = take (inst_cnt s) tr @ [tr ! inst_cnt s]" if "inst_cnt s < length tr"
      using that by (rule take_Suc_conv_app_nth)
    ultimately show ?thesis using doc fed' fr f(3) False by (auto simp: doc_ok_def)
  next
    case True
    then have took: "\<not> stop_after_dump s" "inst_cnt s1 = inst_cnt s + 1" "inst_cnt s < length tr" "dump_marker (tr ! inst_cnt s)"
      using f(3) old by auto
    have s': "mach s' = m2" "sanitizer s' = sanitizer s1" "dump_cnt s' = dump_cnt s + 1" "stop_after_dump s'"
        "\<not> dump_marker (sim_inst s')"
      using u(3) True f by (auto simp: dump_marker_def sys_phase_def Let_def op_codes)
    have "rp_root r' = append_stats_json J (dump_cnt s) (simlist m2) (sanitizer s1) (rp_root r)"
      using u(4) True f by (simp add: report_phase_def Let_def op_codes dump_marker_def)
    moreover have "marker_turn tr cfg s0 s s'" using reach iter took doc fr by (auto simp: marker_turn_def doc_ok_def)
    ultimately show ?thesis
      using doc ob took fed' s' fr
      by (force simp: doc_ok_def append_stats_json_def stats_key_def show_nat_small put_items put_obj)
  qed
qed

lemma report_loop_doc:
  assumes "report_loop J cfg (s, r) = Some (s', r')" and "doc_ok J is_obj conf tr cfg s0 s (rp_root r)" and "sim_turns k cfg s0 = Some s"
  shows "doc_ok J is_obj conf tr cfg s0 s' (rp_root r') \<and> sim_loop cfg s = Some s'"
proof -
  let ?Q = "\<lambda>cfg sr sr'. \<forall>k. doc_ok J is_obj conf tr cfg s0 (fst sr) (rp_root (snd sr)) \<longrightarrow> sim_turns k cfg s0 = Some (fst sr) \<longrightarrow>
    doc_ok J is_obj conf tr cfg s0 (fst sr') (rp_root (snd sr')) \<and> sim_loop cfg (fst sr) = Some (fst sr')"
  have "J = J \<longrightarrow> ?Q cfg (s, r) (s', r')"
  proof (rule report_loop.raw_induct [where P = "\<lambda>J' cfg sr sr'. J' = J \<longrightarrow> ?Q cfg sr sr'", OF _ assms(1)])
    fix loop :: "'j json_lib \<Rightarrow> sim_config \<Rightarrow> simulation \<times> 'j report \<Rightarrow> (simulation \<times> 'j report) option" and J' cfg sr sr'
    let ?go = "\<lambda>sr1. \<not> is_finished (m_core (mach (fst sr1))) \<and> m_tick (mach (fst sr1)) < max_ticks (cfg :: sim_config)"
    assume IH: "\<And>J' cfg sr sr'. loop J' cfg sr = Some sr' \<Longrightarrow> J' = J \<longrightarrow> ?Q cfg sr sr'"
      and step: "report_iter J' cfg sr \<bind> (\<lambda>sr1. if ?go sr1 then loop J' cfg sr1 else Some sr1) = Some sr'"
    show "J' = J \<longrightarrow> ?Q cfg sr sr'"
    proof (intro impI allI)
      fix k assume J: "J' = J" and doc: "doc_ok J is_obj conf tr cfg s0 (fst sr) (rp_root (snd sr))" and reach: "sim_turns k cfg s0 = Some (fst sr)"
      obtain s r where sr: "sr = (s, r)" by fastforce
      obtain s1 r1 where it: "report_iter J cfg (s, r) = Some (s1, r1)" "(if ?go (s1, r1) then loop J cfg (s1, r1) else Some (s1, r1)) = Some sr'"
        using step J sr by auto
      have d1: "doc_ok J is_obj conf tr cfg s0 s1 (rp_root r1)" using report_iter_doc [OF it(1)] doc reach sr by simp
      have i1: "sim_iter cfg s = Some s1" using report_iter_sim(1) [OF it(1)] .
      have t1: "sim_turns (Suc k) cfg s0 = Some s1" using sim_turns_snoc [OF _ i1] reach sr by simp
      show "doc_ok J is_obj conf tr cfg s0 (fst sr') (rp_root (snd sr')) \<and> sim_loop cfg (fst sr) = Some (fst sr')"
      proof (cases "?go (s1, r1)")
        case True
        then show ?thesis using IH [of J cfg "(s1, r1)" sr'] it(2) d1 t1 i1 sr by (subst sim_loop.simps) (auto simp del: sim_turns.simps)
      next
        case False
        then have "sr' = (s1, r1)" using it(2) by (auto split: if_splits)
        then show ?thesis using False d1 i1 sr by (subst sim_loop.simps) auto
      qed
    qed
  qed
  then show ?thesis using assms(2,3) by auto
qed

lemma window_items:
  "j_items J (window_json J (simlist m) san) =
     map (\<lambda>x. (obj_name x, obj_stats_json J x)) (simlist m) @ [(''TraceSanitizer'', san_json J san)]"
proof -
  let ?kvs = "map (\<lambda>x. (obj_name x, obj_stats_json J x)) (simlist m)"
  have "map fst ?kvs = map obj_name (simlist m)" by simp
  then have "j_items J (collect_stats_json J (simlist m)) = ?kvs" "''TraceSanitizer'' \<notin> fst ` set ?kvs"
    using simlist_names [of m] jobj_items [of ?kvs] by (auto simp: collect_stats_json_def comp_def)
  then show ?thesis
    using jobj_obj by (simp add: window_json_def collect_stats_json_def put_items update_new)
qed

text \<open>The predictor's own counters come after those of the unit and replace none of them.\<close>

lemma unit_stats_items:
  "j_items J (unit_stats_json J u) = j_items J (bs_gen_json J (bu_stats u)) @ j_items J (extra_stats_json J (bu_bpu u))"
proof -
  have b: "map fst (j_items J (bs_gen_json J (bu_stats u))) =
      [''accesses'', ''misses'', ''miss_no_target'', ''miss_bad_pred'', ''miss_bad_target'', ''nonbr_mispred'', ''br_accesses'', ''miss_rate'']"
    by (simp add: bs_gen_json_def jobj_items)
  have e: "map fst (j_items J (extra_stats_json J (bu_bpu u))) =
      (case bu_bpu u of TagePred t \<Rightarrow>
         [''bimodal_correct'', ''bimodal_mispred'', ''bimodal_miss_rate'', ''tage_correct'', ''tage_mispred'', ''tage_miss_rate'',
          ''tage_overrides'', ''tage_override_helpful'', ''tage_override_harmful'', ''base_used'', ''base_correct'', ''base_mispred'',
          ''comp_used'', ''comp_correct'', ''comp_mispred'', ''allocations'', ''alloc_failures'', ''alloc_tried'',
          ''update_snap_invalid'', ''snap_ring_overflow''] | _ \<Rightarrow> [])"
    by (cases "bu_bpu u") (simp_all add: extra_stats_json_def tage_extra_stats_json_def Let_def jobj_items null_items)
  have "distinct (map fst (j_items J (bs_gen_json J (bu_stats u)) @ j_items J (extra_stats_json J (bu_bpu u))))"
    unfolding map_append b e by (cases "bu_bpu u") simp_all
  moreover have "is_obj (bs_gen_json J (bu_stats u))" by (simp add: bs_gen_json_def jobj_obj)
  ultimately show ?thesis unfolding unit_stats_json_def by (rule jext_items [rotated])
qed

end

section \<open>Keys made of numbers\<close>

lemma show_nat_inj: "show_nat m = show_nat n \<Longrightarrow> m = n"
  using show_nat_val by metis

lemma host_key_inj:
  assumes "host_key i (CHR ''_'' # v) = host_key j (CHR ''_'' # w)"
  shows "i = j \<and> v = w"
proof -
  have "\<not> is_digit CHR ''_''" by (simp add: is_digit_def Let_def)
  then have "takeWhile is_digit (show_nat n @ CHR ''_'' # x) = show_nat n" for n x
    using takeWhile_digits [OF show_nat_digits, of "CHR ''_'' # x" n] by simp
  moreover have "show_nat i @ CHR ''_'' # v = show_nat j @ CHR ''_'' # w" using assms by (simp add: host_key_def)
  ultimately show ?thesis using show_nat_inj by (metis append_same_eq append_eq_append_conv list.inject same_append_eq)
qed

lemma host_keys_distinct: "distinct (map fst (concat (map (host_counters J a) [0..<n])))"
proof (induction n)
  case (Suc n)
  have keys: "map fst (host_counters J a i) = map (host_key i) ([''_rd'', ''_wr''] @ map (\<lambda>d. ''_dev'' @ show_nat d) [0..<length (devices a)])" for i
    by (simp add: host_counters_def comp_def)
  have form: "\<exists>w. k = host_key i (CHR ''_'' # w)" if "k \<in> set (map fst (host_counters J a i))" for i k
    using that unfolding keys by auto
  have "distinct ([''_rd'', ''_wr''] @ map (\<lambda>d. ''_dev'' @ show_nat d) [0..<length (devices a)])"
    using show_nat_inj by (auto simp: distinct_map inj_on_def)
  moreover have "inj (host_key n)" by (simp add: inj_on_def host_key_def)
  ultimately have "distinct (map fst (host_counters J a n))" unfolding keys distinct_map by (blast intro: inj_on_subset)
  moreover have "k \<notin> set (map fst (host_counters J a n))" if k: "k \<in> set (map fst (concat (map (host_counters J a) [0..<n])))" for k
  proof -
    obtain i where i: "i < n" "k \<in> set (map fst (host_counters J a i))" using k by (force simp: image_iff)
    then show ?thesis using form [OF i(2)] form [of k n] host_key_inj by (metis less_irrefl)
  qed
  then have "set (map fst (concat (map (host_counters J a) [0..<n]))) \<inter> set (map fst (host_counters J a n)) = {}" by blast
  ultimately show ?case using Suc by (simp only: upt_Suc_append le0 map_append concat_append distinct_append) simp
qed simp

lemma host_key_long: "k \<in> set (map fst (concat (map (host_counters J a) xs))) \<Longrightarrow> \<exists>i w. k = host_key i (CHR ''_'' # w)"
  by (fastforce simp: host_counters_def)

context json_object
begin

text \<open>The counters of the arbiter follow its configuration and replace nothing of it.\<close>

lemma arb_stats_keys:
  "distinct (map fst (j_items J (arb_config_json J a) @ concat (map (host_counters J a) [0..<num_hosts a]) @ [(''device_stats'', v)]))"
proof -
  have c: "map fst (j_items J (arb_config_json J a)) = [''type'', ''num_hosts'', ''num_devices'', ''devices'', ''addr_map'', ''default_device'', ''area'']"
    by (simp add: arb_config_json_def jobj_items)
  have other: "k \<noteq> host_key i (CHR ''_'' # w)"
    if "k \<in> {''type'', ''num_hosts'', ''num_devices'', ''devices'', ''addr_map'', ''default_device'', ''area'', ''device_stats''}" for k i w
    using that by (auto simp: host_key_def)
  let ?h = "concat (map (host_counters J a) [0..<num_hosts a])"
  have "k \<notin> set (map fst ?h)" if "k \<in> {''type'', ''num_hosts'', ''num_devices'', ''devices'', ''addr_map'', ''default_device'', ''area'', ''device_stats''}" for k
    using other [OF that] host_key_long [of k J a "[0..<num_hosts a]"] by metis
  then show ?thesis using host_keys_distinct [of J a "num_hosts a"] unfolding map_append c by auto
qed

lemma arb_stats_items:
  "j_items J (arb_stats_json J a) = j_items J (arb_config_json J a) @ concat (map (host_counters J a) [0..<num_hosts a]) @
     [(''device_stats'', j_array J (map2 (dev_stats_json J) dev_names (devices a)))]"
  unfolding arb_stats_json_def by (rule jext_items) (simp add: arb_config_json_def jobj_obj, rule arb_stats_keys)

lemma host_counter_read:
  assumes "i < num_hosts a" and "(k, v) \<in> set (host_counters J a i)"
  shows "map_of (j_items J (arb_stats_json J a)) k = Some v"
proof -
  have "distinct (map fst (j_items J (arb_stats_json J a)))" unfolding arb_stats_items by (rule arb_stats_keys)
  moreover have "(k, v) \<in> set (j_items J (arb_stats_json J a))" unfolding arb_stats_items using assms by auto
  ultimately show ?thesis by (rule map_of_is_SomeI)
qed

text \<open>What an object reports is an object of the library.\<close>

lemma stats_obj: "is_obj (obj_stats_json J x)"
  by (cases x) (simp_all add: arb_stats_json_def arb_config_json_def cs_gen_json_def unit_stats_json_def bs_gen_json_def
      ps_gen_json_def pf_stats_json_def jobj_obj jext_obj)

end

end
