(* ===== verification/ReportProps.thy ===== *)
theory ReportProps
  imports ReportProofs CacheProps
begin

text \<open>
  The promises of the report: a run writes its two documents, every window holds every object,
  and the numbers in it are consistent.
\<close>

section \<open>The start of a run\<close>

lemma new_cache_sets: "new_cache sz lb asc pf cid rp lag = Some c \<Longrightarrow> 0 < sets c \<and> cs_ok (stats c)"
  by (auto simp: new_cache_def Let_def cs_ok_def)

lemma new_pipe_cache_sets: "new_pipe_cache d sz lb asc pf cid dff wb cw dl rp = Some c \<Longrightarrow> 0 < sets c \<and> cs_ok (stats c)"
  by (auto simp: new_pipe_cache_def cache.defs dest!: new_cache_sets)

lemma new_no_cache_stats: "new_no_cache cid = Some c \<Longrightarrow> cs_ok (stats c)"
  by (auto simp: new_no_cache_def cache.defs dest!: new_cache_sets)

lemma new_tage_stats: "new_tage b c hs = Some t \<Longrightarrow> \<exists>n. tage_stats t = tage_stats_zero n"
  by (auto simp: new_tage_def Let_def)

lemma build_parts:
  assumes "build_machine nx cfg = Some m"
  shows "0 < sets (m_icache m) \<and> cs_ok (stats (m_icache m))" "cs_ok (stats (m_bypass m))" "m_tick m = 0"
    "case m_dcache m of DCache c \<Rightarrow> 0 < sets c \<and> cs_ok (stats c) | DPlain c \<Rightarrow> cs_ok (stats c)"
    "\<exists>u n k. m_core m = new_pipeline n u k nx \<and> bu_stats u = bp_stats_zero \<and> tage_counts (bu_bpu u)"
proof -
  obtain c u ic dc bp a where b: "create_branch_unit cfg = Some (c, u)" "build_icache c = Some ic" "build_dcache c = Some dc"
      "new_no_cache 2 = Some bp" "m = \<lparr>m_tick = 0, m_core = new_pipeline ifq_size u (cfg_mmio_lat c) nx, m_icache = ic,
           m_dcache = dc, m_bypass = bp, m_mem = a\<rparr>"
    using assms by (auto simp: build_machine_def)
  show "0 < sets (m_icache m) \<and> cs_ok (stats (m_icache m))"
    using b(2,5) by (auto simp: build_icache_def dest: new_pipe_cache_sets)
  show "case m_dcache m of DCache c \<Rightarrow> 0 < sets c \<and> cs_ok (stats c) | DPlain c \<Rightarrow> cs_ok (stats c)"
    using b(3,5) by (auto simp: build_dcache_def split: if_splits dest: new_pipe_cache_sets new_no_cache_stats)
  show "cs_ok (stats (m_bypass m))" "m_tick m = 0" using b(4,5) by (simp_all add: new_no_cache_stats)
  show "\<exists>u n k. m_core m = new_pipeline n u k nx \<and> bu_stats u = bp_stats_zero \<and> tage_counts (bu_bpu u)"
  proof -
    have "bu_stats u = bp_stats_zero" using b(1) by (auto simp: create_branch_unit_def new_branch_unit_def Let_def)
    moreover have "tage_counts (bu_bpu u)"
      using b(1) by (auto simp: create_branch_unit_def new_branch_unit_def create_bpu_core_def tage_counts_def tage_sums_def tage_stats_zero_def Let_def
          dest!: new_tage_stats split: if_splits sum.splits)
    moreover have "m_core m = new_pipeline ifq_size u (cfg_mmio_lat c) nx" using b(5) by simp
    ultimately show ?thesis by blast
  qed
qed

lemma start_counts:
  assumes "build_machine nx cfg = Some m"
  shows "counters.ok 0 m"
proof -
  note b = build_parts [OF assms]
  obtain u n k where u: "m_core m = new_pipeline n u k nx" "bu_stats u = bp_stats_zero" "tage_counts (bu_bpu u)" using b(5) by blast
  have "core_counts 0 (m_core m)"
    using u by (simp add: core_counts_def on_books_def acct_def retired_def breakdown_def new_pipeline_def pipe_stats_zero_def
        on_unit_def unit_counts_def bp_counts_def bp_stats_zero_def)
  then show ?thesis using b(1-4) by (auto simp: seen_def split: dport.splits)
qed

lemma turns_counts:
  assumes "build_machine nx cfg = Some m" and "sim_turns k cfg (start_simulation m bytes i) = Some s"
  shows "counters.ok (m_tick (mach s)) (mach s)"
  using counters.sim_turns_seen [OF assms(2)] start_counts [OF assms(1)] build_parts(3) [OF assms(1)]
  by (simp add: start_simulation_def)

lemma config_json_ex:
  assumes "build_machine nx cfg = Some m"
  shows "\<exists>conf. collect_config_json J j (simlist m) = Some conf"
proof -
  have pc: "\<exists>j. pc_config_json J c = Some j" if "0 < sets c" for c
    using that by (simp add: pc_config_json_def pc_area_json_def line_tag_bits_def floorLog2_def Let_def)
  have "\<exists>j. obj_config_json J x = Some j" if "x \<in> set (simlist m)" for x
    using build_parts(1,4) [OF assms] that pc by (auto simp: simlist_def split: dport.splits option.splits)
  then have "\<forall>x\<in>set xs. \<exists>j. obj_config_json J x = Some j \<Longrightarrow> \<exists>conf. collect_config_json J j xs = Some conf" for xs j
    by (induction xs arbitrary: j) fastforce+
  then show ?thesis using \<open>\<And>x. x \<in> set (simlist m) \<Longrightarrow> \<exists>j. obj_config_json J x = Some j\<close> by blast
qed

section \<open>The documents\<close>

text \<open>
  A run with an output directory returns and writes its two documents, for any library that keeps
  the laws of json\_object.
\<close>

lemma run_writes_documents:
  assumes "json_object J is_obj" and "build_machine nx cfg = Some m" and "config_ok cfg" and "max_ticks cfg \<le> long_run"
    and "list_all inst_ok (read_trace bytes)" and "\<not> dry_run cfg" and "out_dir cfg \<noteq> []" and "can_open = (\<lambda>_. True)"
    and "\<not> dump_marker i"
  defines "tr \<equiv> read_trace bytes" and "init \<equiv> start_simulation m bytes i"
  shows "\<exists>conf doc r s. collect_config_json J (j_null J) (simlist m) = Some conf \<and> sim_loop cfg init = Some s \<and>
    report_main J can_open nx cfg bytes i = Some r \<and>
    mr_files r = [(out_path cfg ''/conf.json'', jobj J [(''config'', conf)]), (out_path cfg ''/stats.json'', doc)] \<and>
    ((\<forall>t\<in>set (take (inst_cnt s) tr). \<not> dump_marker t) \<and>
       j_items J doc = [(''config'', conf), (''stats0'', window_json J (simlist (mach s)) (sanitizer_all s))] \<or>
     (\<exists>sp sd. marker_turn tr cfg init sp sd \<and> inst_cnt s = inst_cnt sd \<and>
       j_items J doc = [(''config'', conf), (''stats0'', window_json J (simlist (mach sd)) (sanitizer sd)),
                        (''stats1'', window_json J (simlist (mach s)) (sanitizer_all s))]))"
proof -
  note o = json_object.put_obj [OF assms(1)] json_object.null_obj [OF assms(1)]
    json_object.put_items [OF assms(1)] json_object.null_items [OF assms(1)]
  obtain conf where c: "collect_config_json J (j_null J) (simlist m) = Some conf" using config_json_ex [OF assms(2), of J "j_null J"] by blast
  let ?start = "j_put J ''config'' conf (j_null J)"
  obtain s where s: "sim_loop cfg init = Some s" using loop_ends [OF assms(2-5), of i] unfolding init_def by blast
  obtain r where r: "report_loop J cfg (init, \<lparr>rp_root = ?start, rp_text = []\<rparr>) = Some (s, r)" using report_loop_sim [OF s] by blast
  have "doc_ok J is_obj conf tr cfg init init ?start"
    using start_fed [OF assms(2), of bytes i] assms(9) by (simp add: doc_ok_def tr_def init_def o) (simp add: start_simulation_def)
  then have d: "doc_ok J is_obj conf tr cfg init s (rp_root r)"
    using json_object.report_loop_doc [OF assms(1) r, of conf tr init 0] by simp
  let ?final = "window_json J (simlist (mach s)) (sanitizer_all s)"
  let ?doc = "append_stats_json J (dump_cnt s) (simlist (mach s)) (sanitizer_all s) (rp_root r)"
  have items: "j_items J ?doc = AList.update (stats_key (dump_cnt s)) ?final (j_items J (rp_root r))"
    using d o by (simp add: append_stats_json_def doc_ok_def)
  have docs: "(\<forall>t\<in>set (take (inst_cnt s) tr). \<not> dump_marker t) \<and> j_items J ?doc = [(''config'', conf), (''stats0'', ?final)] \<or>
     (\<exists>sp sd. marker_turn tr cfg init sp sd \<and> inst_cnt s = inst_cnt sd \<and>
       j_items J ?doc = [(''config'', conf), (''stats0'', window_json J (simlist (mach sd)) (sanitizer sd)), (''stats1'', ?final)])"
  proof (cases "stop_after_dump s")
    case True
    then obtain sp sd where "dump_cnt s = 1" "marker_turn tr cfg init sp sd" "inst_cnt s = inst_cnt sd"
        "j_items J (rp_root r) = [(''config'', conf), (''stats0'', window_json J (simlist (mach sd)) (sanitizer sd))]"
      using d unfolding doc_ok_def by auto
    then show ?thesis unfolding items by (intro disjI2 exI [of _ sp] exI [of _ sd]) (simp add: stats_key_def show_nat_small)
  next
    case False
    then show ?thesis using d unfolding items by (simp add: doc_ok_def stats_key_def show_nat_small)
  qed
  have start: "jobj J [(''config'', conf)] = ?start" by (simp add: jobj_def jext_def)
  let ?res = "\<lparr>mr_files = [(out_path cfg ''/conf.json'', ?start), (out_path cfg ''/stats.json'', ?doc)], mr_stdout_json = None,
       mr_text = rp_text r, mr_final = Some (s\<lparr>dump_cnt := dump_cnt s + 1\<rparr>)\<rparr>"
  have "report_main J can_open nx cfg bytes i = Some ?res"
    using assms(2,6-8) c r by (simp add: report_main_def write_out_def outfile_write_def Let_def init_def)
  then show ?thesis
    using c s docs start by (intro exI [of _ conf] exI [of _ ?doc] exI [of _ ?res] exI [of _ s]) simp
qed

text \<open>
  (C36) A window can be read back in full. Every object of the simulation is found under its own
  name, with its statistics, and so are the counters of the trace; in the entry of the memory the
  counters of every host are found under their numbered keys; the entry of the branch unit holds
  the counters of the unit followed by those of its predictor. All of them are JSON objects, so
  no assignment by key meets a value of another type.
\<close>

theorem window_complete:
  assumes "json_object J is_obj"
  defines "items \<equiv> \<lambda>m san. map_of (j_items J (window_json J (simlist m) san))" and "memory \<equiv> \<lambda>a. map_of (j_items J (arb_stats_json J a))"
  shows "(\<forall>x\<in>set (simlist m). is_obj (obj_stats_json J x) \<and> items m san (obj_name x) = Some (obj_stats_json J x)) \<and>
    items m san ''TraceSanitizer'' = Some (san_json J san) \<and>
    (\<forall>h<num_hosts (m_mem m). memory (m_mem m) (host_key h ''_rd'') = Some (j_uint J (host_rd (m_mem m) ! h)) \<and>
       memory (m_mem m) (host_key h ''_wr'') = Some (j_uint J (host_wr (m_mem m) ! h)) \<and>
       (\<forall>d<length (devices (m_mem m)). memory (m_mem m) (host_key h (''_dev'' @ show_nat d)) = Some (j_uint J (host_dev (m_mem m) ! h ! d)))) \<and>
    j_items J (unit_stats_json J (bpu (m_core m))) =
      j_items J (bs_gen_json J (bu_stats (bpu (m_core m)))) @ j_items J (extra_stats_json J (bu_bpu (bpu (m_core m))))"
proof (intro conjI ballI allI impI)
  let ?kvs = "map (\<lambda>x. (obj_name x, obj_stats_json J x)) (simlist m) @ [(''TraceSanitizer'', san_json J san)]"
  have w: "items m san = map_of ?kvs" "distinct (map fst ?kvs)"
    using simlist_names [of m] by (auto simp: items_def json_object.window_items [OF assms(1)] comp_def)
  show "is_obj (obj_stats_json J x)" for x by (rule json_object.stats_obj [OF assms(1)])
  show "items m san (obj_name x) = Some (obj_stats_json J x)" if "x \<in> set (simlist m)" for x
    unfolding w(1) by (rule map_of_is_SomeI [OF w(2)]) (use that in auto)
  show "items m san ''TraceSanitizer'' = Some (san_json J san)" unfolding w(1) by (rule map_of_is_SomeI [OF w(2)]) simp
  have a: "memory (m_mem m) k = Some v" if "h < num_hosts (m_mem m)" "(k, v) \<in> set (host_counters J (m_mem m) h)" for h k v
    unfolding memory_def by (rule json_object.host_counter_read [OF assms(1) that])
  show "memory (m_mem m) (host_key h ''_rd'') = Some (j_uint J (host_rd (m_mem m) ! h))"
    "memory (m_mem m) (host_key h ''_wr'') = Some (j_uint J (host_wr (m_mem m) ! h))"
    "d < length (devices (m_mem m)) \<Longrightarrow> memory (m_mem m) (host_key h (''_dev'' @ show_nat d)) = Some (j_uint J (host_dev (m_mem m) ! h ! d))"
    if "h < num_hosts (m_mem m)" for h d
    by - (rule a [OF that], auto simp: host_counters_def)+
qed (rule json_object.unit_stats_items [OF assms(1)])

theorem window_complete_witness:
  "\<exists>m. build_machine 0 demo_config = Some m \<and>
    map_of (j_items ordered_json (window_json ordered_json (simlist m) san_zero)) ''Core'' = Some (ps_gen_json ordered_json (pstats (m_core m)))"
proof -
  obtain m where m: "build_machine 0 demo_config = Some m" using demo_build by blast
  have "CoreObj (m_core m) \<in> set (simlist m)" by (simp add: simlist_def)
  then show ?thesis using window_complete [OF ordered_json.json_object_axioms, where m = m and san = san_zero] m by force
qed

section \<open>The numbers\<close>

lemma tage_rate_bounds:
  assumes "tage_sums s"
  shows "0 \<le> tage_rate (ts_bimodal_mispred s) s \<and> tage_rate (ts_bimodal_mispred s) s \<le> 1"
    "0 \<le> tage_rate (ts_tage_mispred s) s \<and> tage_rate (ts_tage_mispred s) s \<le> 1"
proof -
  have "0 \<le> tage_rate n s \<and> tage_rate n s \<le> 1" if "n \<le> ts_bimodal_correct s + ts_bimodal_mispred s" for n
    using d_ratio_bounds [OF that] by (cases "ts_bimodal_correct s + ts_bimodal_mispred s = 0") (auto simp: tage_rate_def Let_def)
  then show "0 \<le> tage_rate (ts_bimodal_mispred s) s \<and> tage_rate (ts_bimodal_mispred s) s \<le> 1"
    "0 \<le> tage_rate (ts_tage_mispred s) s \<and> tage_rate (ts_tage_mispred s) s \<le> 1"
    using assms by (simp_all add: tage_sums_def)
qed

text \<open>One instruction more than cycles leaves the instructions per cycle at two at most.\<close>

lemma ipc_bounds:
  assumes "ps_insts s \<le> ps_cycles s + 1"
  shows "0 \<le> get_ipc s \<and> get_ipc s \<le> 2"
proof (cases "ps_cycles s = 0")
  case False
  then have c: "0 < d_nat (ps_cycles s)" "ps_insts s \<le> 2 * ps_cycles s" using d_nat_pos [of "ps_cycles s"] assms by auto
  have "d_nat (ps_insts s) \<le> 2 * d_nat (ps_cycles s)" using d_nat_mono [OF c(2)] unfolding d_nat_twice .
  then have q: "0 \<le> d_nat (ps_insts s) / d_nat (ps_cycles s)" "d_nat (ps_insts s) / d_nat (ps_cycles s) \<le> 2"
    using c(1) d_nat_mono [of 0 "ps_insts s"] by (simp_all add: field_simps)
  have "to_double 2 = 2" using to_double_int [of 2] by simp
  then show ?thesis using to_double_nonneg [OF q(1)] to_double_mono [OF q] by (simp add: get_ipc_def d_div_def)
qed (simp add: get_ipc_def)

text \<open>
  (C6) Between any two turns the counters behind the report are consistent and the rates it
  computes from them in double arithmetic are in range. Each cache has counted every access as a
  hit or as a miss, and its hit and its miss rate lie between 0 and 1. A mispredicted branch was
  counted with exactly one cause and as a branch, and the misprediction rate lies between 0 and 1.
  A TAGE predictor has judged its own directions as often as those of its base predictor, and the
  two miss rates it adds to the report lie between 0 and 1. The core has retired at most one
  instruction more than the cycles it reports, and its instructions per cycle lie between 0 and
  2. These are all quotients of the report that are called rates, and the IPC; the percentages
  of the stall causes and of the sanitizer and the average latencies are not bounded here.
\<close>

theorem rates_in_range:
  assumes "build_machine nx cfg = Some m" and "sim_turns k cfg (start_simulation m bytes i) = Some s"
  defines "bs \<equiv> bu_stats (bpu (m_core (mach s)))" and "ps \<equiv> pstats (m_core (mach s))"
  shows "(\<forall>st\<in>{stats (m_icache (mach s)), dport_stats (m_dcache (mach s)), stats (m_bypass (mach s))}.
      cs_accesses st = cs_hits st + cs_misses st \<and> 0 \<le> hit_rate st \<and> hit_rate st \<le> 1 \<and> 0 \<le> miss_rate st \<and> miss_rate st \<le> 1) \<and>
    bs_misses bs = bs_no_target bs + bs_bad_pred bs + bs_bad_target bs \<and> 0 \<le> bs_miss_rate bs \<and> bs_miss_rate bs \<le> 1 \<and>
    (\<forall>t. bu_bpu (bpu (m_core (mach s))) = TagePred t \<longrightarrow>
       (let ts = tage_stats t
        in ts_tage_correct ts + ts_tage_mispred ts = ts_bimodal_correct ts + ts_bimodal_mispred ts \<and>
          0 \<le> tage_rate (ts_bimodal_mispred ts) ts \<and> tage_rate (ts_bimodal_mispred ts) ts \<le> 1 \<and>
          0 \<le> tage_rate (ts_tage_mispred ts) ts \<and> tage_rate (ts_tage_mispred ts) ts \<le> 1)) \<and>
    ps_insts ps \<le> ps_cycles ps + 1 \<and> 0 \<le> get_ipc ps \<and> get_ipc ps \<le> 2"
proof -
  note c = turns_counts [OF assms(1,2)]
  have st: "cs_accesses st = cs_hits st + cs_misses st \<and> 0 \<le> hit_rate st \<and> hit_rate st \<le> 1 \<and> 0 \<le> miss_rate st \<and> miss_rate st \<le> 1"
    if "st \<in> {stats (m_icache (mach s)), dport_stats (m_dcache (mach s)), stats (m_bypass (mach s))}" for st
  proof -
    have st: "cs_ok st" using c that by (auto simp: seen_def dport_stats_def split: dport.splits)
    have h: "0 \<le> hit_rate st \<and> hit_rate st \<le> 1"
      using st d_ratio_bounds [of "cs_hits st" "cs_accesses st"] by (simp add: hit_rate_def cs_ok_def)
    then show ?thesis using st d_complement_bounds [of "hit_rate st"] by (simp add: miss_rate_def cs_ok_def)
  qed
  have bs: "bp_counts bs" "tage_counts (bu_bpu (bpu (m_core (mach s))))" and ps: "retired ps (stall (m_core (mach s)))"
    using c by (simp_all add: seen_def core_counts_def on_unit_def unit_counts_def on_books_def bs_def ps_def)
  have "0 \<le> bs_miss_rate bs \<and> bs_miss_rate bs \<le> 1"
    using bs(1) d_ratio_bounds [of "bs_misses bs" "bs_br_accesses bs"] by (auto simp: bs_miss_rate_def bp_counts_def)
  moreover have "let ts = tage_stats t
        in ts_tage_correct ts + ts_tage_mispred ts = ts_bimodal_correct ts + ts_bimodal_mispred ts \<and>
          0 \<le> tage_rate (ts_bimodal_mispred ts) ts \<and> tage_rate (ts_bimodal_mispred ts) ts \<le> 1 \<and>
          0 \<le> tage_rate (ts_tage_mispred ts) ts \<and> tage_rate (ts_tage_mispred ts) ts \<le> 1"
    if "bu_bpu (bpu (m_core (mach s))) = TagePred t" for t
  proof -
    have sums: "tage_sums (tage_stats t)" using bs(2) that by (simp add: tage_counts_def)
    then show ?thesis unfolding Let_def using tage_rate_bounds [OF sums] by (simp only: tage_sums_def simp_thms)
  qed
  moreover have "bs_misses bs = bs_no_target bs + bs_bad_pred bs + bs_bad_target bs" using bs(1) by (simp add: bp_counts_def)
  moreover have "ps_insts ps \<le> ps_cycles ps + 1" using ps by (simp add: retired_def)
  ultimately show ?thesis using st ipc_bounds [of ps] by blast
qed

theorem rates_in_range_witness:
  "\<exists>m s. build_machine 0 demo_config = Some m \<and> sim_turns 50 demo_config (start_simulation m demo_bytes inst_zero) = Some s \<and>
    miss_rate (stats (m_icache (mach s))) \<le> 1 \<and> ps_insts (pstats (m_core (mach s))) \<le> ps_cycles (pstats (m_core (mach s))) + 1"
proof -
  obtain m where m: "build_machine 0 demo_config = Some m" using demo_build by blast
  have t: "list_all inst_ok (read_trace demo_bytes)" unfolding read_demo by (rule demo_insts_ok(1))
  note st = start_ok [OF m demo_config_ok(1) t, of False inst_zero]
  have "m_tick (mach (start_simulation m demo_bytes inst_zero)) + 50 + 1 + 2 ^ 33 < InfTime" using st(2) by (simp add: InfTime_def)
  from sim_turns_ok [OF st(1) this] obtain s where s: "sim_turns 50 demo_config (start_simulation m demo_bytes inst_zero) = Some s" by auto
  show ?thesis using rates_in_range [OF m s] m s by auto
qed

lemma drop_bits_index:
  fixes a b :: addr_t
  assumes "unat (drop_bit k a) mod 2 ^ j = unat (drop_bit k b) mod 2 ^ j" and "drop_bit (k + j) a = drop_bit (k + j) b"
  shows "drop_bit k a = drop_bit k b"
proof -
  have d: "unat (drop_bit (k + j) x) = unat (drop_bit k x) div 2 ^ j" for x :: addr_t
    by (simp only: flip: drop_bit_drop_bit) (simp add: unsigned_drop_bit_eq, simp add: drop_bit_eq_div power_add div_mult2_eq)
  have "unat (drop_bit k a) div 2 ^ j = unat (drop_bit k b) div 2 ^ j" using assms(2) by (metis d)
  then have "unat (drop_bit k a) = unat (drop_bit k b)" using assms(1) by (metis div_mult_mod_eq)
  then show ?thesis by (simp add: unsigned_word_eqI)
qed

lemma same_block:
  assumes "lineBytes c = 2 ^ offsetBits c" and "sets c = 2 ^ j" and "setIndexOf c a = setIndexOf c b"
    and "drop_bit (offsetBits c + j) a = drop_bit (offsetBits c + j) b"
  shows "blockAddrOf c a = blockAddrOf c b"
proof -
  have d: "drop_bit (offsetBits c) a = drop_bit (offsetBits c) b"
    using assms(3) by (intro drop_bits_index [OF _ assms(4)]) (simp add: setIndexOf_def assms(2) nat_and_mask_Suc)
  show ?thesis
  proof (rule bit_eqI)
    fix n
    have "bit a n = bit b n" if "offsetBits c \<le> n"
      using arg_cong [OF d, of "\<lambda>x. bit x (n - offsetBits c)"] that by (simp add: bit_drop_bit_eq)
    then show "bit (blockAddrOf c a) n = bit (blockAddrOf c b) n" by (auto simp: blockAddrOf_bits [OF assms(1)])
  qed
qed

lemma u64_of_nat: "n < 2 ^ 64 \<Longrightarrow> u64 (int n) = n"
  by (simp add: u64_def nat_mod_as_int flip: zmod_int)

text \<open>
  (C39) What the area estimate of a cache counts. Two addresses of one set that agree in the tag
  bits it assumes are in the same block, so the tag is wide enough; the flip-flop variant counts
  the data, the tag and the valid bit of every line; but the two SRAM macros count a single way:
  the data macro has the size of the cache divided by the associativity.
\<close>

theorem cache_area_bits:
  assumes "geometry_ok c" and "cache_size c < 2 ^ 32"
  shows "\<exists>tag. line_tag_bits c = Some tag \<and>
    (\<forall>a b. setIndexOf c a = setIndexOf c b \<and> drop_bit (32 - tag) a = drop_bit (32 - tag) b \<longrightarrow> blockAddrOf c a = blockAddrOf c b) \<and>
    dff_cache_bits c tag = sets c * assoc c * (lineBytes c * 8 + tag + 1) \<and>
    data_macro_bits c * assoc c = cache_size c * 8 \<and> tag_macro_bits c tag = tag * sets c"
proof -
  obtain j where g: "lineBytes c = 2 ^ offsetBits c" "sets c = 2 ^ j" "0 < assoc c"
    using assms(1) by (auto simp: geometry_ok_def)
  let ?k = "offsetBits c"
  define tag where "tag = 32 - (offsetBits c + j)"
  have size: "2 ^ (?k + j) * assoc c < 2 ^ 32" using assms(2) by (simp add: cache_size_def g power_add mult_ac)
  have "(2::nat) ^ (?k + j) \<le> 2 ^ (?k + j) * assoc c" using g(3) by simp
  then have "(2::nat) ^ (?k + j) < 2 ^ 32" using size by (rule le_less_trans)
  then have kj: "?k + j < 32" by (rule power_less_imp_less_exp [rotated]) simp
  have tag: "line_tag_bits c = Some tag" "tag \<le> 32"
    using kj u64_of_nat [of tag] by (simp_all add: tag_def line_tag_bits_def floorLog2_def g floorLog2_from_pow2 algebra_simps)
  have blk: "blockAddrOf c a = blockAddrOf c b"
    if "setIndexOf c a = setIndexOf c b" "drop_bit (32 - tag) a = drop_bit (32 - tag) b" for a b
    using same_block [OF g(1,2) that(1)] that(2) kj by (simp add: tag_def)
  have lines: "sets c * assoc c < 2 ^ 32" "cache_size c = sets c * assoc c * lineBytes c" "lineBytes c * sets c \<le> cache_size c"
    using size g by (auto simp: cache_size_def power_add intro: le_less_trans [rotated])
  have "sets c * assoc c * tag \<le> 2 ^ 32 * 32" by (rule mult_le_mono) (use lines(1) tag(2) in auto)
  then have dff: "cache_size c * 8 + sets c * assoc c * (tag + 1) < 2 ^ 64" using assms(2) lines(1) by (simp add: algebra_simps)
  have "dff_cache_bits c tag = cache_size c * 8 + sets c * assoc c * (tag + 1)"
    using u64_of_nat [OF dff] by (simp add: dff_cache_bits_def algebra_simps)
  moreover have "data_macro_bits c = lineBytes c * 8 * sets c"
    using u64_of_nat [of "lineBytes c * 8 * sets c"] lines(3) assms(2) by (simp add: data_macro_bits_def)
  moreover have "sets c \<le> sets c * assoc c" using g(3) by simp
  then have "sets c < 2 ^ 32" using lines(1) by (rule le_less_trans)
  then have "tag * sets c \<le> 32 * 2 ^ 32" using tag(2) by (intro mult_le_mono) auto
  then have "tag * sets c < 2 ^ 64" by (rule le_less_trans) simp
  then have "tag_macro_bits c tag = tag * sets c" using u64_of_nat [of "tag * sets c"] by (simp add: tag_macro_bits_def)
  ultimately have "dff_cache_bits c tag = sets c * assoc c * (lineBytes c * 8 + tag + 1)" "data_macro_bits c * assoc c = cache_size c * 8"
      "tag_macro_bits c tag = tag * sets c"
    by (simp_all add: lines(2) algebra_simps)
  then show ?thesis using tag(1) by (intro exI [of _ tag] conjI allI impI) (erule conjE, rule blk | assumption)+
qed

theorem cache_area_bits_witness:
  "\<exists>tag. line_tag_bits demo_icache = Some tag \<and> dff_cache_bits demo_icache tag = 2 * (128 + tag + 1) \<and> data_macro_bits demo_icache = 256"
proof -
  have "geometry_ok demo_icache" using demo_caches_ok(3) by (simp add: cache_ok_def)
  moreover have g: "sets demo_icache = 2" "assoc demo_icache = 1" "lineBytes demo_icache = 16"
    by (simp_all add: demo_icache_def new_pipe_cache_def new_cache_def demo_geometry make_repl_policy_def Let_def cache.defs)
  ultimately show ?thesis using cache_area_bits [of demo_icache] by (auto simp: cache_size_def)
qed

end
