(* ===== verification/CommandLine.thy ===== *)
theory CommandLine
  imports ConfigProps
begin

text \<open>
  The command line of main.cc: its table of long options and the loop over getopt\_long. The C
  library's getopt\_long is written out as it is documented: operands are moved behind the
  options, a unique prefix of a name stands for it, everything it does not know is reported as
  a question mark.
\<close>

section \<open>The options\<close>

datatype has_arg = NoArgument | RequiredArgument

definition long_options :: "(string \<times> has_arg \<times> nat) list" where
  "long_options =
     [(''l1i-size'', RequiredArgument, ch CHR ''s''), (''l1i-blksize'', RequiredArgument, ch CHR ''b''),
      (''l1i-assoc'', RequiredArgument, ch CHR ''a''), (''l1d-size'', RequiredArgument, ch CHR ''S''),
      (''l1d-blksize'', RequiredArgument, ch CHR ''B''), (''l1d-assoc'', RequiredArgument, ch CHR ''A''),
      (''max-insts'', RequiredArgument, ch CHR ''n''), (''max-ticks'', RequiredArgument, ch CHR ''N''),
      (''debug-flags'', RequiredArgument, ch CHR ''d''), (''outdir'', RequiredArgument, ch CHR ''O''),
      (''dry-run'', NoArgument, ch CHR ''D''), (''bpu-type'', RequiredArgument, ch CHR ''T''),
      (''bpu-size'', RequiredArgument, ch CHR ''e''), (''btb-size'', RequiredArgument, ch CHR ''t''),
      (''ras-size'', RequiredArgument, ch CHR ''R''), (''stbuf-entries'', RequiredArgument, ch CHR ''Z''),
      (''l1i-pref'', RequiredArgument, ch CHR ''P''), (''l1i-repl'', RequiredArgument, 215),
      (''l1d-pref'', RequiredArgument, ch CHR ''p''), (''l1d-repl'', RequiredArgument, 216),
      (''print-brief'', NoArgument, 201), (''print-none'', NoArgument, 200),
      (''sram-lat'', RequiredArgument, 203), (''sram-dff'', NoArgument, 204), (''sram-lib'', NoArgument, 205),
      (''mmio-lat'', RequiredArgument, 206), (''freq-mhz'', RequiredArgument, 207), (''l1i-cwf'', NoArgument, 211),
      (''ghr-bits'', RequiredArgument, 212), (''tage-hists'', RequiredArgument, 213), (''tage-comp-pow2'', RequiredArgument, 214)]"

section \<open>Reading the arguments\<close>

definition starts_with :: "string \<Rightarrow> string \<Rightarrow> bool" where
  "starts_with p s \<longleftrightarrow> take (length p) s = p"

definition find_long :: "string \<Rightarrow> (has_arg \<times> nat) option" where
  "find_long nm =
     (case map_of long_options nm of
        Some o' \<Rightarrow> Some o'
      | None \<Rightarrow> (case filter (\<lambda>e. starts_with nm (fst e)) long_options of [e] \<Rightarrow> Some (snd e) | _ \<Rightarrow> None))"

definition unknown :: "nat \<times> string" where
  "unknown = (ch CHR ''?'', [])"

definition name_part :: "string \<Rightarrow> string" where
  "name_part body = takeWhile (\<lambda>x. x \<noteq> CHR ''='') body"

definition value_part :: "string \<Rightarrow> string option" where
  "value_part body = (case dropWhile (\<lambda>x. x \<noteq> CHR ''='') body of [] \<Rightarrow> None | _ # v \<Rightarrow> Some v)"

text \<open>An argument: an option that is complete, one that takes the next argument, the end of the
  options, or an operand.\<close>

datatype argument = Option "nat \<times> string" | NeedsNext nat | EndOfOptions | Operand string

definition long_argument :: "string \<Rightarrow> argument" where
  "long_argument body =
     (case (find_long (name_part body), value_part body) of
        (Some (RequiredArgument, code), Some v) \<Rightarrow> Option (code, v)
      | (Some (RequiredArgument, code), None) \<Rightarrow> NeedsNext code
      | (Some (NoArgument, code), None) \<Rightarrow> Option (code, [])
      | _ \<Rightarrow> Option unknown)"

text \<open>The only short option is O, which takes a value.\<close>

definition short_argument :: "string \<Rightarrow> argument" where
  "short_argument body =
     (if hd body \<noteq> CHR ''O'' then Option unknown
      else if tl body = [] then NeedsNext (ch CHR ''O'') else Option (ch CHR ''O'', tl body))"

definition classify :: "string \<Rightarrow> argument" where
  "classify a =
     (if a = ''--'' then EndOfOptions
      else if starts_with ''--'' a then long_argument (drop 2 a)
      else if starts_with ''-'' a \<and> a \<noteq> ''-'' then short_argument (tl a)
      else Operand a)"

fun getopt_long :: "string list \<Rightarrow> (nat \<times> string) list \<times> string list" where
  "getopt_long [] = ([], [])"
| "getopt_long (a # args) =
     (case classify a of
        Option e \<Rightarrow> map_prod ((#) e) id (getopt_long args)
      | EndOfOptions \<Rightarrow> ([], args)
      | Operand f \<Rightarrow> map_prod id ((#) f) (getopt_long args)
      | NeedsNext code \<Rightarrow>
          (case args of [] \<Rightarrow> ([unknown], []) | v # rest \<Rightarrow> map_prod ((#) (code, v)) id (getopt_long rest)))"

definition parse_cmdline :: "string list \<Rightarrow> sim_config \<Rightarrow> arg_result" where
  "parse_cmdline args c =
     (let (opts, operands) = getopt_long args
      in parse_args opts (case operands of [] \<Rightarrow> None | f # _ \<Rightarrow> Some f) c)"

section \<open>What a command line sets\<close>

text \<open>How a setting is written: an option of the table, and its value where it takes one.\<close>

definition spell :: "(string \<times> has_arg \<times> nat) \<times> string \<Rightarrow> string" where
  "spell s = ''--'' @ fst (fst s) @ (case fst (snd (fst s)) of RequiredArgument \<Rightarrow> CHR ''='' # snd s | NoArgument \<Rightarrow> [])"

definition meaning :: "(string \<times> has_arg \<times> nat) \<times> string \<Rightarrow> nat \<times> string" where
  "meaning s = (snd (snd (fst s)), (case fst (snd (fst s)) of RequiredArgument \<Rightarrow> snd s | NoArgument \<Rightarrow> []))"

lemma long_options_names:
  "(nm, ha, code) \<in> set long_options \<Longrightarrow> find_long nm = Some (ha, code) \<and> CHR ''='' \<notin> set nm \<and> nm \<noteq> []"
proof -
  have "list_all (\<lambda>(nm, ha, code). find_long nm = Some (ha, code) \<and> CHR ''='' \<notin> set nm \<and> nm \<noteq> []) long_options"
    by code_simp
  then show "(nm, ha, code) \<in> set long_options \<Longrightarrow> ?thesis" by (auto simp: list_all_iff)
qed

lemma name_value:
  assumes "CHR ''='' \<notin> set nm"
  shows "name_part nm = nm" "value_part nm = None" "name_part (nm @ CHR ''='' # v) = nm" "value_part (nm @ CHR ''='' # v) = Some v"
  using assms by (induction nm) (auto simp: name_part_def value_part_def)

lemma classify_spell:
  assumes "fst s \<in> set long_options"
  shows "classify (spell s) = Option (meaning s)"
proof -
  obtain nm ha code v where s: "s = ((nm, ha, code), v)" by (metis prod.collapse)
  have n: "find_long nm = Some (ha, code)" "CHR ''='' \<notin> set nm" "nm \<noteq> []"
    using long_options_names [of nm ha code] assms s by auto
  then show ?thesis
    by (cases ha) (simp_all add: s classify_def spell_def meaning_def starts_with_def long_argument_def name_value)
qed

lemma getopt_settings:
  "\<forall>s\<in>set ss. fst s \<in> set long_options \<Longrightarrow>
    getopt_long (map spell ss @ rest) = map_prod ((@) (map meaning ss)) id (getopt_long rest)"
  by (induction ss) (simp_all add: classify_spell map_prod_def split: prod.splits)

section \<open>The settings\<close>

text \<open>
  What a user can ask for: a value of this type is one setting, setting\_text its spelling on the
  command line and setting\_effect the one variable of main.cc it is for, with its value. Numbers
  are written in decimal, sizes with one of the suffixes. The texts and the effects say nothing of
  the codes by which main.cc passes from one to the other.
\<close>

datatype debug_flag = FlagMain | FlagCache | FlagBranchPred | FlagPipeline | FlagIFQueue | FlagLDQueue | FlagSTQueue | FlagLSUnit | FlagMem | FlagClock | FlagEvent | FlagAll

fun flag_name :: "debug_flag \<Rightarrow> string" where
  "flag_name FlagMain = ''Main''"
| "flag_name FlagCache = ''Cache''"
| "flag_name FlagBranchPred = ''BranchPred''"
| "flag_name FlagPipeline = ''Pipeline''"
| "flag_name FlagIFQueue = ''IFQueue''"
| "flag_name FlagLDQueue = ''LDQueue''"
| "flag_name FlagSTQueue = ''STQueue''"
| "flag_name FlagLSUnit = ''LSUnit''"
| "flag_name FlagMem = ''Mem''"
| "flag_name FlagClock = ''Clock''"
| "flag_name FlagEvent = ''Event''"
| "flag_name FlagAll = ''All''"

text \<open>The bits a flag switches on.\<close>

fun flag_positions :: "debug_flag \<Rightarrow> nat list" where
  "flag_positions FlagMain = [0]"
| "flag_positions FlagCache = [1]"
| "flag_positions FlagBranchPred = [2]"
| "flag_positions FlagPipeline = [3]"
| "flag_positions FlagIFQueue = [4]"
| "flag_positions FlagLDQueue = [5]"
| "flag_positions FlagSTQueue = [6]"
| "flag_positions FlagLSUnit = [5, 6]"
| "flag_positions FlagMem = [7]"
| "flag_positions FlagClock = [62]"
| "flag_positions FlagEvent = [63]"
| "flag_positions FlagAll = [0..<64]"

datatype setting =
    L1iSize nat size_unit
  | L1iBlksize nat size_unit
  | L1iAssoc nat size_unit
  | L1dSize nat size_unit
  | L1dBlksize nat size_unit
  | L1dAssoc nat size_unit
  | MaxInsts nat
  | MaxTicks nat
  | DebugFlags "debug_flag list"
  | OutDir string
  | DryRun
  | BpuType string
  | BpuSize nat
  | NoBpuTable
  | BtbSize nat
  | NoBtb
  | RasSize nat
  | StbufEntries nat
  | L1iPref string
  | L1iRepl string
  | L1dPref string
  | L1dRepl string
  | PrintBrief
  | PrintNone
  | SramLat nat
  | SramDff
  | SramLib
  | MmioLat nat
  | FreqMhz int
  | L1iCwf
  | GhrBits nat
  | TageHists string
  | TageCompPow2 int

fun setting_text :: "setting \<Rightarrow> string" where
  "setting_text (L1iSize n u) = ''--l1i-size='' @ show_nat n @ unit_text u"
| "setting_text (L1iBlksize n u) = ''--l1i-blksize='' @ show_nat n @ unit_text u"
| "setting_text (L1iAssoc n u) = ''--l1i-assoc='' @ show_nat n @ unit_text u"
| "setting_text (L1dSize n u) = ''--l1d-size='' @ show_nat n @ unit_text u"
| "setting_text (L1dBlksize n u) = ''--l1d-blksize='' @ show_nat n @ unit_text u"
| "setting_text (L1dAssoc n u) = ''--l1d-assoc='' @ show_nat n @ unit_text u"
| "setting_text (MaxInsts n) = ''--max-insts='' @ show_nat n"
| "setting_text (MaxTicks n) = ''--max-ticks='' @ show_nat n"
| "setting_text (DebugFlags fs) = ''--debug-flags='' @ join_commas (map flag_name fs)"
| "setting_text (OutDir s) = ''--outdir='' @ s"
| "setting_text DryRun = ''--dry-run''"
| "setting_text (BpuType s) = ''--bpu-type='' @ s"
| "setting_text (BpuSize k) = ''--bpu-size='' @ show_nat (2 ^ k)"
| "setting_text NoBpuTable = ''--bpu-size='' @ ''0''"
| "setting_text (BtbSize k) = ''--btb-size='' @ show_nat (2 ^ k)"
| "setting_text NoBtb = ''--btb-size='' @ ''0''"
| "setting_text (RasSize n) = ''--ras-size='' @ show_nat n"
| "setting_text (StbufEntries n) = ''--stbuf-entries='' @ show_nat n"
| "setting_text (L1iPref s) = ''--l1i-pref='' @ s"
| "setting_text (L1iRepl s) = ''--l1i-repl='' @ s"
| "setting_text (L1dPref s) = ''--l1d-pref='' @ s"
| "setting_text (L1dRepl s) = ''--l1d-repl='' @ s"
| "setting_text PrintBrief = ''--print-brief''"
| "setting_text PrintNone = ''--print-none''"
| "setting_text (SramLat n) = ''--sram-lat='' @ show_nat n"
| "setting_text SramDff = ''--sram-dff''"
| "setting_text SramLib = ''--sram-lib''"
| "setting_text (MmioLat n) = ''--mmio-lat='' @ show_nat n"
| "setting_text (FreqMhz i) = ''--freq-mhz='' @ show_int i"
| "setting_text L1iCwf = ''--l1i-cwf''"
| "setting_text (GhrBits n) = ''--ghr-bits='' @ show_nat n"
| "setting_text (TageHists s) = ''--tage-hists='' @ s"
| "setting_text (TageCompPow2 i) = ''--tage-comp-pow2='' @ show_int i"

fun setting_effect :: "setting \<Rightarrow> sim_config \<Rightarrow> sim_config" where
  "setting_effect (L1iSize n u) c = c\<lparr>l1i_size := n * unit_factor u\<rparr>"
| "setting_effect (L1iBlksize n u) c = c\<lparr>l1i_blksize := n * unit_factor u\<rparr>"
| "setting_effect (L1iAssoc n u) c = c\<lparr>l1i_assoc := n * unit_factor u\<rparr>"
| "setting_effect (L1dSize n u) c = c\<lparr>l1d_size := n * unit_factor u\<rparr>"
| "setting_effect (L1dBlksize n u) c = c\<lparr>l1d_blksize := n * unit_factor u\<rparr>"
| "setting_effect (L1dAssoc n u) c = c\<lparr>l1d_assoc := n * unit_factor u\<rparr>"
| "setting_effect (MaxInsts n) c = c\<lparr>max_insts := n\<rparr>"
| "setting_effect (MaxTicks n) c = c\<lparr>max_ticks := n\<rparr>"
| "setting_effect (DebugFlags fs) c = c\<lparr>enabled_flags := foldl (\<lambda>w n. set_bit n w) (enabled_flags c) (concat (map flag_positions fs))\<rparr>"
| "setting_effect (OutDir s) c = c\<lparr>out_dir := s\<rparr>"
| "setting_effect DryRun c = c\<lparr>dry_run := True\<rparr>"
| "setting_effect (BpuType s) c = c\<lparr>bpu_type := s\<rparr>"
| "setting_effect (BpuSize k) c = c\<lparr>bpu_entries_pow2 := k\<rparr>"
| "setting_effect NoBpuTable c = c\<lparr>bpu_entries_pow2 := 0\<rparr>"
| "setting_effect (BtbSize k) c = c\<lparr>btb_size_pow2 := k\<rparr>"
| "setting_effect NoBtb c = c\<lparr>btb_size_pow2 := 0\<rparr>"
| "setting_effect (RasSize n) c = c\<lparr>ras_depth := n\<rparr>"
| "setting_effect (StbufEntries n) c = c\<lparr>stbuf_entries := n\<rparr>"
| "setting_effect (L1iPref s) c = c\<lparr>l1i_pref_type := s\<rparr>"
| "setting_effect (L1iRepl s) c = c\<lparr>l1i_repl := s\<rparr>"
| "setting_effect (L1dPref s) c = c\<lparr>l1d_pref_type := s\<rparr>"
| "setting_effect (L1dRepl s) c = c\<lparr>l1d_repl := s\<rparr>"
| "setting_effect PrintBrief c = c\<lparr>print_mode := 1\<rparr>"
| "setting_effect PrintNone c = c\<lparr>print_mode := 0\<rparr>"
| "setting_effect (SramLat n) c = c\<lparr>sram_lat := n\<rparr>"
| "setting_effect SramDff c = c\<lparr>cfg_sram_dff := True\<rparr>"
| "setting_effect SramLib c = c\<lparr>cfg_sram_dff := False\<rparr>"
| "setting_effect (MmioLat n) c = c\<lparr>cfg_mmio_lat := n\<rparr>"
| "setting_effect (FreqMhz i) c = c\<lparr>freq_mhz := i\<rparr>"
| "setting_effect L1iCwf c = c\<lparr>l1i_cwf := True\<rparr>"
| "setting_effect (GhrBits n) c = c\<lparr>ghr_bits := n\<rparr>"
| "setting_effect (TageHists s) c = c\<lparr>tage_hists := s\<rparr>"
| "setting_effect (TageCompPow2 i) c = c\<lparr>tage_comp_pow2 := i\<rparr>"

text \<open>The values the variable can hold, and the policies that exist.\<close>

fun valid_setting :: "setting \<Rightarrow> bool" where
  "valid_setting (L1iSize n u) \<longleftrightarrow> n * unit_factor u < 2 ^ 64"
| "valid_setting (L1iBlksize n u) \<longleftrightarrow> n * unit_factor u < 2 ^ 64"
| "valid_setting (L1iAssoc n u) \<longleftrightarrow> n * unit_factor u < 2 ^ 64"
| "valid_setting (L1dSize n u) \<longleftrightarrow> n * unit_factor u < 2 ^ 64"
| "valid_setting (L1dBlksize n u) \<longleftrightarrow> n * unit_factor u < 2 ^ 64"
| "valid_setting (L1dAssoc n u) \<longleftrightarrow> n * unit_factor u < 2 ^ 64"
| "valid_setting (MaxInsts n) \<longleftrightarrow> n < 2 ^ 64"
| "valid_setting (MaxTicks n) \<longleftrightarrow> n < 2 ^ 64"
| "valid_setting (BpuSize k) \<longleftrightarrow> k < 64"
| "valid_setting (BtbSize k) \<longleftrightarrow> k < 64"
| "valid_setting (RasSize n) \<longleftrightarrow> n < 2 ^ 64"
| "valid_setting (StbufEntries n) \<longleftrightarrow> n < 2 ^ 64"
| "valid_setting (L1iRepl s) \<longleftrightarrow> s \<in> {''plru'', ''lru'', ''srrip'', ''rr''}"
| "valid_setting (L1dRepl s) \<longleftrightarrow> s \<in> {''plru'', ''lru'', ''srrip'', ''rr''}"
| "valid_setting (SramLat n) \<longleftrightarrow> n < 2 ^ 32"
| "valid_setting (MmioLat n) \<longleftrightarrow> n < 2 ^ 64"
| "valid_setting (FreqMhz i) \<longleftrightarrow> - (2 ^ 31) \<le> i \<and> i < 2 ^ 31"
| "valid_setting (GhrBits n) \<longleftrightarrow> n < 2 ^ 64"
| "valid_setting (TageCompPow2 i) \<longleftrightarrow> - (2 ^ 31) \<le> i \<and> i < 2 ^ 31"
| "valid_setting _ \<longleftrightarrow> True"

text \<open>The entry of the table and the value that a setting is written with.\<close>

fun setting_entry :: "setting \<Rightarrow> (string \<times> has_arg \<times> nat) \<times> string" where
  "setting_entry (L1iSize n u) = ((''l1i-size'', RequiredArgument, ch CHR ''s''), show_nat n @ unit_text u)"
| "setting_entry (L1iBlksize n u) = ((''l1i-blksize'', RequiredArgument, ch CHR ''b''), show_nat n @ unit_text u)"
| "setting_entry (L1iAssoc n u) = ((''l1i-assoc'', RequiredArgument, ch CHR ''a''), show_nat n @ unit_text u)"
| "setting_entry (L1dSize n u) = ((''l1d-size'', RequiredArgument, ch CHR ''S''), show_nat n @ unit_text u)"
| "setting_entry (L1dBlksize n u) = ((''l1d-blksize'', RequiredArgument, ch CHR ''B''), show_nat n @ unit_text u)"
| "setting_entry (L1dAssoc n u) = ((''l1d-assoc'', RequiredArgument, ch CHR ''A''), show_nat n @ unit_text u)"
| "setting_entry (MaxInsts n) = ((''max-insts'', RequiredArgument, ch CHR ''n''), show_nat n)"
| "setting_entry (MaxTicks n) = ((''max-ticks'', RequiredArgument, ch CHR ''N''), show_nat n)"
| "setting_entry (DebugFlags fs) = ((''debug-flags'', RequiredArgument, ch CHR ''d''), join_commas (map flag_name fs))"
| "setting_entry (OutDir s) = ((''outdir'', RequiredArgument, ch CHR ''O''), s)"
| "setting_entry DryRun = ((''dry-run'', NoArgument, ch CHR ''D''), [])"
| "setting_entry (BpuType s) = ((''bpu-type'', RequiredArgument, ch CHR ''T''), s)"
| "setting_entry (BpuSize k) = ((''bpu-size'', RequiredArgument, ch CHR ''e''), show_nat (2 ^ k))"
| "setting_entry NoBpuTable = ((''bpu-size'', RequiredArgument, ch CHR ''e''), ''0'')"
| "setting_entry (BtbSize k) = ((''btb-size'', RequiredArgument, ch CHR ''t''), show_nat (2 ^ k))"
| "setting_entry NoBtb = ((''btb-size'', RequiredArgument, ch CHR ''t''), ''0'')"
| "setting_entry (RasSize n) = ((''ras-size'', RequiredArgument, ch CHR ''R''), show_nat n)"
| "setting_entry (StbufEntries n) = ((''stbuf-entries'', RequiredArgument, ch CHR ''Z''), show_nat n)"
| "setting_entry (L1iPref s) = ((''l1i-pref'', RequiredArgument, ch CHR ''P''), s)"
| "setting_entry (L1iRepl s) = ((''l1i-repl'', RequiredArgument, 215), s)"
| "setting_entry (L1dPref s) = ((''l1d-pref'', RequiredArgument, ch CHR ''p''), s)"
| "setting_entry (L1dRepl s) = ((''l1d-repl'', RequiredArgument, 216), s)"
| "setting_entry PrintBrief = ((''print-brief'', NoArgument, 201), [])"
| "setting_entry PrintNone = ((''print-none'', NoArgument, 200), [])"
| "setting_entry (SramLat n) = ((''sram-lat'', RequiredArgument, 203), show_nat n)"
| "setting_entry SramDff = ((''sram-dff'', NoArgument, 204), [])"
| "setting_entry SramLib = ((''sram-lib'', NoArgument, 205), [])"
| "setting_entry (MmioLat n) = ((''mmio-lat'', RequiredArgument, 206), show_nat n)"
| "setting_entry (FreqMhz i) = ((''freq-mhz'', RequiredArgument, 207), show_int i)"
| "setting_entry L1iCwf = ((''l1i-cwf'', NoArgument, 211), [])"
| "setting_entry (GhrBits n) = ((''ghr-bits'', RequiredArgument, 212), show_nat n)"
| "setting_entry (TageHists s) = ((''tage-hists'', RequiredArgument, 213), s)"
| "setting_entry (TageCompPow2 i) = ((''tage-comp-pow2'', RequiredArgument, 214), show_int i)"


lemma setting_spelled: "setting_text s = spell (setting_entry s) \<and> fst (setting_entry s) \<in> set long_options"
  by (cases s) (simp_all add: spell_def long_options_def)

lemma flag_no_comma: "list_all (\<lambda>c. c \<noteq> CHR '','') (flag_name f) \<and> flag_name f \<noteq> []"
  by (cases f) simp_all

lemma segments_join: "segments (join_commas (map flag_name fs)) = map flag_name fs"
proof (induction "map flag_name fs" arbitrary: fs rule: join_commas.induct)
  case 1
  then show ?case by (subst segments.simps) simp
next
  case (2 s)
  then obtain f where f: "fs = [f]" by auto
  have "segments [] = []" by (subst segments.simps) simp
  then show ?case using flag_no_comma [of f] by (subst segments.simps) (simp add: f takeWhile_plain Let_def)
next
  case (3 s t ss)
  then obtain f g gs where f: "fs = f # g # gs" "s = flag_name f" by (auto simp: map_eq_Cons_conv)
  then have "t # ss = map flag_name (g # gs)" using 3(2) by simp
  then have "segments (join_commas (map flag_name (g # gs))) = map flag_name (g # gs)" by (rule 3(1) [of "g # gs"])
  then show ?case using flag_no_comma [of f] f by (subst segments.simps) (simp add: takeWhile_plain Let_def)
qed

lemma bit_foldl_set_bit: "bit (foldl (\<lambda>w n. set_bit n w) (w :: 64 word) ns) i \<longleftrightarrow> bit w i \<or> i \<in> set ns \<and> i < 64"
  by (induction ns arbitrary: w) (auto simp: bit_set_bit_iff)

lemma flag_bits_positions: "w OR flag_bits (flag_name f) = foldl (\<lambda>w n. set_bit n w) w (flag_positions f)"
proof (cases "f = FlagAll")
  case True
  have "flag_bits ''All'' = NOT 0" by (simp add: flag_bits_def)
  moreover have "w OR NOT 0 = foldl (\<lambda>w n. set_bit n w) w [0..<64]"
    by (rule bit_word_eqI) (simp only: bit_foldl_set_bit, simp)
  ultimately show ?thesis using True by (simp only: flag_name.simps flag_positions.simps)
next
  case False
  then show ?thesis by (cases f) (simp_all add: flag_bits_def set_bit_eq_or push_bit_eq_mult or.assoc)
qed

lemma set_flags_names:
  "set_flags (join_commas (map flag_name fs)) w = foldl (\<lambda>w n. set_bit n w) w (concat (map flag_positions fs))"
proof -
  have "foldl (\<lambda>w seg. w OR flag_bits seg) w (map flag_name fs) = foldl (\<lambda>w n. set_bit n w) w (concat (map flag_positions fs))"
    by (induction fs arbitrary: w) (simp_all add: flag_bits_positions)
  then show ?thesis by (simp add: set_flags_def segments_join)
qed

lemma parse_entries_show: "k < 64 \<Longrightarrow> parse_entries_pow2 (show_nat (2 ^ k)) = Inr k"
  using stoul_show [of "2 ^ k"] power_strict_increasing [of k 64 "2 :: nat"] by (simp add: parse_entries_exact del: power_strict_increasing_iff)

lemma parse_entries_zero: "parse_entries_pow2 ''0'' = Inr 0"
proof -
  have "show_nat 0 = ''0''" by code_simp
  then show ?thesis using stoul_show [of 0] by (simp add: parse_entries_exact)
qed

lemma setting_applied:
  "valid_setting s \<Longrightarrow> (let (opt, arg) = meaning (setting_entry s) in apply_opt opt arg c) = Parsed (setting_effect s c)"
  by (cases s)
    (simp_all add: meaning_def apply_opt_def ch_def keep_or_throw_def keep_or_exit_def parse_size_roundtrip stoul_show stoi_show
      parse_entries_show parse_entries_zero known_repl_def set_flags_names)

lemma settings_applied:
  "\<forall>s\<in>set ss. valid_setting s \<Longrightarrow>
    parse_args (map (meaning \<circ> setting_entry) ss) operand c = parse_args [] operand (fold setting_effect ss c)"
proof (induction ss arbitrary: c)
  case (Cons s ss)
  obtain opt arg where m: "meaning (setting_entry s) = (opt, arg)" by fastforce
  then show ?case using Cons setting_applied [of s c] by simp
qed simp

text \<open>
  (C40) A command line means its settings. For any settings, written before and behind a
  trace file whose name does not begin with a dash, the program succeeds, and its configuration is
  the one it started from with exactly the variables of these settings changed, each to the value
  that was written, the later of two settings for one variable winning, and with the trace file:
  sizes with their suffix multiplied out, table sizes as their exponent, debug flags as their bits
  beside the ones that were set, numbers as they were written.
\<close>

theorem command_line_means_settings:
  assumes "\<forall>s\<in>set (before @ behind). valid_setting s" and "trace = [] \<or> hd trace \<noteq> CHR ''-''"
  shows "parse_cmdline (map setting_text before @ trace # map setting_text behind) c =
    Parsed ((fold setting_effect (before @ behind) c)\<lparr>trace_file := trace\<rparr>)"
proof -
  let ?s = "\<lambda>ss. map setting_entry ss"
  have texts: "map setting_text ss = map spell (?s ss)" "\<forall>e\<in>set (?s ss). fst e \<in> set long_options" for ss
    by (simp_all add: setting_spelled)
  have "classify trace = Operand trace"
    using assms(2) by (cases trace) (auto simp: classify_def starts_with_def)
  then have "getopt_long (trace # map spell (?s behind)) = (map meaning (?s behind), [trace])"
    using getopt_settings [of "?s behind" "[]"] texts(2) by simp
  then have "parse_cmdline (map spell (?s before) @ trace # map spell (?s behind)) c =
      parse_args (map (meaning \<circ> setting_entry) (before @ behind)) (Some trace) c"
    using getopt_settings [of "?s before" "trace # map spell (?s behind)"] texts(2) by (simp add: parse_cmdline_def)
  then show ?thesis using settings_applied [of "before @ behind" "Some trace" c] assms(1) by (simp add: texts(1))
qed

theorem command_line_means_settings_witness:
  "parse_cmdline [''--l1i-size=16kB'', ''--bpu-size=64'', ''run.trace'', ''--debug-flags=Cache,Mem'', ''--freq-mhz=800''] default_config =
    Parsed (default_config\<lparr>l1i_size := 16384, bpu_entries_pow2 := 6, enabled_flags := 130, freq_mhz := 800, trace_file := ''run.trace''\<rparr>)"
proof -
  have nums: "show_nat 16 = ''16''" "show_nat 64 = ''64''" "show_nat 800 = ''800''"
    by code_simp+
  have "parse_cmdline (map setting_text [L1iSize 16 Kilo, BpuSize 6] @ ''run.trace'' # map setting_text [DebugFlags [FlagCache, FlagMem], FreqMhz 800]) default_config =
      Parsed ((fold setting_effect ([L1iSize 16 Kilo, BpuSize 6] @ [DebugFlags [FlagCache, FlagMem], FreqMhz 800]) default_config)\<lparr>trace_file := ''run.trace''\<rparr>)"
    by (rule command_line_means_settings) simp_all
  moreover have "set_bit 7 (set_bit 1 (0 :: 64 word)) = 130" by (simp add: set_bit_eq_or)
  ultimately show ?thesis by (simp add: nums show_int_def default_config_def)
qed

end
