(* ===== verification/Program.thy ===== *)
theory Program
  imports ReportProps CommandLine
begin

text \<open>
  The program as a whole: from its arguments and the content of the trace file to its exit code
  and the files it writes.
\<close>

section \<open>main\<close>



section \<open>A run\<close>








end
