(* ===== verification/Spec2Isabelle.thy ===== *)
theory Spec2Isabelle
  imports CacheProps BranchProps BranchHist PipeProps TraceProps MemProps ConfigProps SystemProps MemLive StatsProps Program
begin

text \<open>
  A verification library for npSim, a cycle-level, trace-driven simulator of an in-order RISC-V
  core with caches, branch prediction and an SDRAM memory system. The simulator is timing-only
  (ACTIVE\_MODE): it moves requests, responses and stalls, not data.

  \<^bold>\<open>The program and its model.\<close> main (src/main.cc) parses the options, builds the components
  and runs one loop: in every turn the memory, the bypass port, the data port, the instruction
  cache and the core are updated in this order, the core is fed the next trace record when it
  has room, the clock moves by one and marker instructions reset statistics, flush the caches or
  stop the feeding. Components call each other through ports and callbacks. A class is a record
  here, a virtual method a case distinction, an owning pointer an option, a machine integer a
  word or a number with its wrap-around written out, and a computation that aborts (a failed
  assert, at() out of range, a null slot that is read) is None. A call on a port or a callback
  is an event or a port\_req that the operation returns in the order of the calls; System
  delivers them.

  \<^item> Prelude, Interface: integer types, aborting operations, messages (defines/types.hh,
    defines/interface.hh).
  \<^item> Trace, TraceProps: trace.hh, trace.cc; the record, the reader over the decompressed bytes,
    the sanitizer.
  \<^item> Ifq: the ring buffer of the fetch queue (pipeSim/Pipeline.hh).
  \<^item> Pipeline, PipeStages: the core of pipeSim/Pipeline.hh and Pipeline.cc: its state, the
    scheduling of stages, fetch with wrong path and early redirect, the stage handlers, the
    callbacks and the update.
  \<^item> BtbRas, DirPred, Tage, BranchUnit: branchSim; target buffers and return stack, the static,
    bimodal, gshare and tournament predictors, TAGE, and the unit that combines them.
  \<^item> CacheLine, ReplPolicy, Prefetch, CacheCore, PipeCache, Uncached: cacheSim; lines,
    replacement, prefetchers, the tag arrays of CacheBase, PipeCache, NoCache and StoreBuffer.
  \<^item> Sdram, RamArbiter: cacheSim/RamModel.hh, RamConn.hh and RamConn.cc; the SDRAM model, the
    devices, the address map and the two-channel arbiter.
  \<^item> Config, CommandLine: the settings and their parsers, the table of options and the loop over
    getopt\_long (main.cc, defines/debug.hh), and the construction of the branch unit.
  \<^item> System: the machine main builds and the simulation loop (main.cc, defines/base.hh).
  \<^item> Double: the binary64 arithmetic of the reported rates.
  \<^item> Report: gen\_json, stats\_json, config\_json and dump\_stats of every component, the area
    descriptors of areaSim/AreaEst.hh, the sanitizer's dump (trace.cc), the list of reported
    objects, the statistics windows and the output files (main.cc, defines/base.hh).
  \<^item> StatsTemplate: the generic counters of libs/stats\_template/stats.hpp.
  \<^item> Program: main as a whole, from the arguments to the exit code and the files.

  \<^bold>\<open>Interfaces.\<close> The contracts are locales, each interpreted on the model's own definitions:
  replacement\_policy (ReplPolicy, on the four policies and their dispatch), direction\_predictor
  and history\_predictor (DirPred, on each predictor and the dispatch in BranchUnit),
  bounded\_stack (BtbRas), bounded\_queue (Ifq), fifo\_port (Port, on the pipelined cache, the
  plain port and the store buffer), ledger (PipeAcct, on the stall accounts and on the
  instruction count), mem\_clients (ArbProofs, on the hosts of the machine in SystemProofs),
  port\_observer and its extension observer (Observe: facts about core, caches and ports that
  every call keeps are kept by every turn of the loop; TraceFlow, on the records in the core,
  which feeding alone adds to; Counters, on the statistics), json\_object (ReportProofs, on ordered\_json)
  and sampled (StatsTemplate, the concept IsDerived, on DistriBase and DistriDelta).

  \<^bold>\<open>What the lemmas show.\<close>

  \<^item> PipeInv, PipeProofs, PipeFetch and PipeRun: the invariant of the core, its preservation by
    every handler, and the core in an arbitrary environment as the step relation core\_step.
    PipeAcct: the stall categories. CorePorts: what an update sends to the ports. PipeProps: the
    promises of the core.
  \<^item> PipeCacheProofs: the phases of the request pipe; every call returns and answers are given
    once and in order. CacheMem: at most one read and one write outstanding, and a refill only
    after the write-back. CacheProps: arrays, policies and ports.
  \<^item> TageRun, BranchProps: predictors and branch unit; TageRun follows TAGE through any sequence of
    the calls the branch unit makes to it. BranchHist: the history register of gshare inside the
    core, over any run of core\_step, with the branches that leave a wrong bit in it.
  \<^item> ArbProofs, MemProps: the arbiter as a table of outstanding requests, what a completion does,
    what an SDRAM access costs.
  \<^item> ConfigProps, CommandLine: the parsers against a printer; the command line against a list of
    settings, each of which says which variable it sets and to what.
  \<^item> SystemProofs, Simulation, SystemProps: the invariant machine\_ok relates both ends of every
    port; every phase of a turn keeps it; the loop never aborts and returns. TraceFlow: the
    records fed are a prefix of the trace, the front end holds them in program order, and each is
    in the core at most once.
  \<^item> Counters: hits and misses make up the accesses, every misprediction has one cause, retired
    instructions and cycles agree, in every state of a run. ReportProofs, ReportProps: the loop
    that reports computes the same simulation, a run writes its documents, every window can be
    read back, the hit, miss and misprediction rates and the IPC are in range, and what the area
    of a cache counts. StatsProps: a
    distribution is a histogram, and where it is not.
  \<^item> MemLive: progress of the memory. A served request stays in its slot until it is due, no
    channel sleeps longer than a 32-bit latency, and the update at that tick answers it.

  \<^bold>\<open>Bounds and hypotheses.\<close> Ticks are natural numbers; InfTime is the largest 64-bit value and
  stands for never. The machine invariant keeps the clock 2 to the 33 below it, more than a
  32-bit latency, so no scheduled tick reaches it. With a tick limit of at most 2 to the 64 less
  2 to the 34 the loop is total. The default limit is the largest 64-bit value: with it the loop
  returns, or it is still running after that many turns, none of which has failed. config\_ok states what main does not check: a core clock of at least
  100 MHz (RamModel divides by the ratio to the memory clock), blocks of at least one word and
  less than 2 to the 18 bytes, and one, two or four ways under PLRU. inst\_ok is what a trace
  written for this core satisfies: register numbers below 32, known extension operations, and
  branches that do not access memory. calc\_nxtupd\_ of the core and the trace record of main have
  no initial value in the source and are arguments. Loops of the source that search are total
  functions; sim\_loop is a partial function, so that not returning is None, and its totality is
  a theorem. Events are delivered after the operation that reports them; core handlers never
  call a port and the arbiter never calls back into the host it answers before it has freed the
  slot, so the order of effects is the order of the source.

  The JSON library is the argument J of the report, a record of the operations the program uses;
  the laws of json\_object are what its documentation says of objects: an assignment by key
  replaces the value or appends the item. ordered\_json is a model of them. Whether a file can be
  opened and what the trace file holds are arguments of npsim\_main. The functions of the C and C++
  library that the source calls (stoul, stoi, log2, getopt\_long) are written out. A double is the
  rational it stands for, rounded to 53 bits after each operation; the numbers of a report stay
  far from the overflow and underflow of the format.

  Sizes are natural numbers where the source takes a size\_t, and a few places are narrower in the
  source: isPowerOf2 takes a 32-bit argument, table sizes are 1u shifted by their exponent (an
  exponent of 32 or more is undefined there), RamModel counts device time in an int, and the
  sample counters of the statistics templates wrap at 2 to the 64. The model agrees with the
  source where these values fit. A read of the trace that ends inside a record leaves the old
  record in the model, where fread may have overwritten a part of it; the loop does not look at
  it again.

  \<^bold>\<open>Not modelled.\<close> The format of printed numbers and of the JSON text, the tracing macros of
  defines/debug.hh, the process that decompresses the trace, the directory main creates, the host
  time it prints, and the memory contents (pmem.cc is a stub under ACTIVE\_MODE). None of them
  changes the simulated state.

  \<^bold>\<open>Open.\<close> That the core makes progress until the trace is used up, under ports that answer, is
  not proved: the loop theorem allows a run to end at the tick limit.
\<close>

end
